(* ===== verification/Prelude.thy ===== *)
theory Prelude
  imports Main "HOL-Library.Word" "HOL-Library.Char_ord" "HOL-Library.List_Lexorder"
    "HOL-Library.Product_Lexorder"
begin

text \<open>
  Shared vocabulary of the development: the fixed-width integer types of the C++ sources, bytes
  and their view as characters, big-endian encodings, the parts of the C++ standard library the
  sources lean on (\<^verbatim>\<open>std::from_chars\<close>, \<^verbatim>\<open>std::format\<close> of integers, \<^verbatim>\<open>std::find\<close>, the ordered
  \<^verbatim>\<open>std::map\<close>), and the generic lemmas the components use.

  \<^item> A \<^verbatim>\<open>std::byte\<close> is an \<open>8 word\<close>; a \<^verbatim>\<open>std::string\<close> is a \<^typ>\<open>string\<close>; \<open>bytes_of_string\<close> and
    \<open>string_of_bytes\<close> are the \<^verbatim>\<open>reinterpret_cast\<close>s between the two.
  \<^item> A \<^verbatim>\<open>std::map\<close> is an association list that is strictly sorted by key (\<open>sorted_keys\<close>).
  \<^item> A function that throws returns \<^typ>\<open>'e + 'a\<close>, with \<^const>\<open>Inl\<close> the exception.
\<close>

type_synonym byte = "8 word"
type_synonym u16 = "16 word"
type_synonym u32 = "32 word"
type_synonym u64 = "64 word"

text \<open>An \<^verbatim>\<open>asio\<close> endpoint: an address in network byte order (four or sixteen bytes) and a port.\<close>

datatype ip_address = V4 "byte list" | V6 "byte list"
type_synonym endpoint = "ip_address \<times> u16"

text \<open>The order \<^verbatim>\<open>asio\<close> gives addresses (and, with the port second, endpoints) as map keys: version 4
  before version 6, then the bytes.\<close>

instantiation ip_address :: linorder
begin

fun less_eq_ip_address :: "ip_address \<Rightarrow> ip_address \<Rightarrow> bool" where
  "less_eq_ip_address (V4 a) (V4 b) \<longleftrightarrow> a \<le> b"
| "less_eq_ip_address (V4 a) (V6 b) \<longleftrightarrow> True"
| "less_eq_ip_address (V6 a) (V4 b) \<longleftrightarrow> False"
| "less_eq_ip_address (V6 a) (V6 b) \<longleftrightarrow> a \<le> b"

definition less_ip_address :: "ip_address \<Rightarrow> ip_address \<Rightarrow> bool" where
  "less_ip_address a b \<longleftrightarrow> a \<le> b \<and> \<not> b \<le> a"

instance
proof
  fix a b c :: ip_address
  show "a < b \<longleftrightarrow> a \<le> b \<and> \<not> b \<le> a"
    by (simp add: less_ip_address_def)
  show "a \<le> a"
    by (cases a) auto
  show "a \<le> c" if "a \<le> b" "b \<le> c"
    using that by (cases a; cases b; cases c) auto
  show "a = b" if "a \<le> b" "b \<le> a"
    using that by (cases a; cases b) auto
  show "a \<le> b \<or> b \<le> a"
    by (cases a; cases b) auto
qed

end

named_theorems codec_simps \<open>encode and decode round trips\<close>
named_theorems map_simps \<open>lookup after update in the ordered maps\<close>

subsection \<open>Definitions: bytes and characters\<close>

definition byte_of_char :: "char \<Rightarrow> byte" where
  "byte_of_char c = of_nat (of_char c)"

definition char_of_byte :: "byte \<Rightarrow> char" where
  "char_of_byte b = char_of (unat b)"

definition bytes_of_string :: "string \<Rightarrow> byte list" where
  "bytes_of_string s = map byte_of_char s"

definition string_of_bytes :: "byte list \<Rightarrow> string" where
  "string_of_bytes bs = map char_of_byte bs"

text \<open>Big-endian encoding of the low \<open>n\<close> bytes of a number: what \<^verbatim>\<open>htons\<close>, \<^verbatim>\<open>htonl\<close> or
  \<^verbatim>\<open>std::byteswap\<close> followed by a \<^verbatim>\<open>memcpy\<close> produces.\<close>

definition be_enc :: "nat \<Rightarrow> nat \<Rightarrow> byte list" where
  "be_enc n v = map (\<lambda>i. of_nat (v div 256 ^ i)) (rev [0..<n])"

definition be_dec :: "byte list \<Rightarrow> nat" where
  "be_dec bs = foldl (\<lambda>a b. a * 256 + unat b) 0 bs"

definition put16 :: "u16 \<Rightarrow> byte list" where
  "put16 w = be_enc 2 (unat w)"

definition put32 :: "u32 \<Rightarrow> byte list" where
  "put32 w = be_enc 4 (unat w)"

definition put64 :: "u64 \<Rightarrow> byte list" where
  "put64 w = be_enc 8 (unat w)"

definition get16 :: "byte list \<Rightarrow> u16" where
  "get16 bs = of_nat (be_dec bs)"

definition get32 :: "byte list \<Rightarrow> u32" where
  "get32 bs = of_nat (be_dec bs)"

definition get64 :: "byte list \<Rightarrow> u64" where
  "get64 bs = of_nat (be_dec bs)"

subsection \<open>Definitions: decimal and hexadecimal numbers\<close>

text \<open>Conversions to \<^verbatim>\<open>uint32_t\<close> and \<^verbatim>\<open>uint64_t\<close>, and the wrapping subtraction of \<^verbatim>\<open>uint64_t\<close>.\<close>

definition to_u32 :: "nat \<Rightarrow> nat" where "to_u32 n = n mod 2 ^ 32"

definition to_u64 :: "nat \<Rightarrow> nat" where "to_u64 n = n mod 2 ^ 64"

definition sub_u64 :: "nat \<Rightarrow> nat \<Rightarrow> nat" where "sub_u64 a b = nat ((int a - int b) mod 2 ^ 64)"

definition sub_u32 :: "nat \<Rightarrow> nat \<Rightarrow> nat" where "sub_u32 a b = nat ((int a - int b) mod 2 ^ 32)"

definition u64_of_int :: "int \<Rightarrow> nat" where "u64_of_int i = nat (i mod 2 ^ 64)"

definition u32_of_int :: "int \<Rightarrow> nat" where "u32_of_int i = nat (i mod 2 ^ 32)"

definition is_digit :: "char \<Rightarrow> bool" where
  "is_digit c \<longleftrightarrow> CHR ''0'' \<le> c \<and> c \<le> CHR ''9''"

text \<open>The digits \<^verbatim>\<open>std::from_chars\<close> accepts in a base: letters of either case above nine.\<close>

definition digit_val :: "nat \<Rightarrow> char \<Rightarrow> nat option" where
  "digit_val base c =
    (let n = of_char c;
         d = (if 48 \<le> n \<and> n \<le> 57 then n - 48
              else if 97 \<le> n \<and> n \<le> 122 then n - 87
              else if 65 \<le> n \<and> n \<le> 90 then n - 55
              else 255)
     in if d < base then Some d else None)"

fun span_digits :: "nat \<Rightarrow> string \<Rightarrow> nat list \<times> string" where
  "span_digits base [] = ([], [])"
| "span_digits base (c # cs) =
    (case digit_val base c of
       None \<Rightarrow> ([], c # cs)
     | Some d \<Rightarrow> (let (ds, rest) = span_digits base cs in (d # ds, rest)))"

definition digits_value :: "nat \<Rightarrow> nat list \<Rightarrow> nat" where
  "digits_value base ds = foldl (\<lambda>a d. a * base + d) 0 ds"

text \<open>\<^verbatim>\<open>std::from_chars\<close> into a signed type with the range \<open>lo \<dots> hi\<close>: an optional minus sign, then
  the longest run of digits; \<open>None\<close> is an error code, otherwise the value and what is left.\<close>

definition from_chars :: "int \<Rightarrow> int \<Rightarrow> string \<Rightarrow> (int \<times> string) option" where
  "from_chars lo hi s =
    (let neg = (s \<noteq> [] \<and> hd s = CHR ''-'');
         (ds, rest) = span_digits 10 (if neg then tl s else s);
         v = (if neg then - int (digits_value 10 ds) else int (digits_value 10 ds))
     in if ds = [] then None
        else if v < lo \<or> hi < v then None
        else Some (v, rest))"

text \<open>\<^verbatim>\<open>std::from_chars\<close> into an unsigned type, in any base: no sign is accepted.\<close>

definition from_chars_unsigned :: "nat \<Rightarrow> nat \<Rightarrow> string \<Rightarrow> (nat \<times> string) option" where
  "from_chars_unsigned base hi s =
    (let (ds, rest) = span_digits base s
     in if ds = [] then None
        else if hi < digits_value base ds then None
        else Some (digits_value base ds, rest))"

definition digit_char :: "nat \<Rightarrow> char" where
  "digit_char d = char_of (if d < 10 then 48 + d else 87 + d)"

fun show_nat :: "nat \<Rightarrow> string" where
  "show_nat n = (if n < 10 then [digit_char n] else show_nat (n div 10) @ [digit_char (n mod 10)])"

declare show_nat.simps [simp del]

definition show_int :: "int \<Rightarrow> string" where
  "show_int i = (if i < 0 then CHR ''-'' # show_nat (nat (- i)) else show_nat (nat i))"

text \<open>\<^verbatim>\<open>std::isspace\<close> in the C locale.\<close>

definition is_space :: "char \<Rightarrow> bool" where
  "is_space c \<longleftrightarrow> of_char c \<in> {9::nat, 10, 11, 12, 13, 32}"

subsection \<open>Definitions: searching and ordered maps\<close>

text \<open>\<^verbatim>\<open>std::find\<close> and the split it gives: the part before the first occurrence and the part after.\<close>

fun split_at :: "'a \<Rightarrow> 'a list \<Rightarrow> ('a list \<times> 'a list) option" where
  "split_at x [] = None"
| "split_at x (y # ys) =
    (if y = x then Some ([], ys) else map_option (\<lambda>(a, b). (y # a, b)) (split_at x ys))"

text \<open>Consecutive pieces of \<open>n\<close> elements, the last one shorter when the length is no multiple.\<close>

function chunks :: "nat \<Rightarrow> 'a list \<Rightarrow> 'a list list" where
  "chunks n xs = (if n = 0 \<or> xs = [] then [] else take n xs # chunks n (drop n xs))"
  by pat_completeness auto
termination chunks
  by (relation "measure (\<lambda>(n, xs). length xs)") auto

declare chunks.simps [simp del]

definition sorted_keys :: "('k::linorder \<times> 'v) list \<Rightarrow> bool" where
  "sorted_keys m \<longleftrightarrow> sorted_wrt (<) (map fst m)"

text \<open>\<^verbatim>\<open>std::map::emplace\<close> keeps an existing entry; \<^verbatim>\<open>operator[] =\<close> and \<^verbatim>\<open>insert_or_assign\<close> replace it.\<close>

fun map_emplace :: "'k::linorder \<Rightarrow> 'v \<Rightarrow> ('k \<times> 'v) list \<Rightarrow> ('k \<times> 'v) list" where
  "map_emplace k v [] = [(k, v)]"
| "map_emplace k v ((k', v') # m) =
    (if k < k' then (k, v) # (k', v') # m
     else if k = k' then (k', v') # m
     else (k', v') # map_emplace k v m)"

fun map_assign :: "'k::linorder \<Rightarrow> 'v \<Rightarrow> ('k \<times> 'v) list \<Rightarrow> ('k \<times> 'v) list" where
  "map_assign k v [] = [(k, v)]"
| "map_assign k v ((k', v') # m) =
    (if k < k' then (k, v) # (k', v') # m
     else if k = k' then (k', v) # m
     else (k', v') # map_assign k v m)"

definition map_erase :: "'k::linorder \<Rightarrow> ('k \<times> 'v) list \<Rightarrow> ('k \<times> 'v) list" where
  "map_erase k m = filter (\<lambda>e. fst e \<noteq> k) m"

subsection \<open>Bytes\<close>

lemma unat_bound: "unat (w :: 'a::len word) < 2 ^ LENGTH('a)"
  by (rule unsigned_less)

lemma unat_of_nat_small: "n < 2 ^ LENGTH('a) \<Longrightarrow> unat (of_nat n :: 'a::len word) = n"
  by (simp add: unsigned_of_nat take_bit_nat_eq_self)

lemma to_u32_small [simp]: "n < 4294967296 \<Longrightarrow> to_u32 n = n"
  by (simp add: to_u32_def)

lemma to_u64_small [simp]: "n < 18446744073709551616 \<Longrightarrow> to_u64 n = n"
  by (simp add: to_u64_def)

lemma sub_u64_le [simp]: "b \<le> a \<Longrightarrow> a < 18446744073709551616 \<Longrightarrow> sub_u64 a b = a - b"
  by (simp add: sub_u64_def)

lemma sub_u32_le [simp]: "b \<le> a \<Longrightarrow> a < 4294967296 \<Longrightarrow> sub_u32 a b = a - b"
  by (simp add: sub_u32_def)

lemma char_of_byte_of_char [simp, codec_simps]: "char_of_byte (byte_of_char c) = c"
  by (simp add: char_of_byte_def byte_of_char_def unsigned_of_nat take_bit_eq_mod)

lemma byte_of_char_of_byte [simp, codec_simps]: "byte_of_char (char_of_byte b) = b"
proof -
  have "unat b < 256"
    using unat_bound [of b] by simp
  then show ?thesis
    by (simp add: char_of_byte_def byte_of_char_def)
qed

lemma string_of_bytes_of_string [simp, codec_simps]: "string_of_bytes (bytes_of_string s) = s"
  by (simp add: string_of_bytes_def bytes_of_string_def comp_def)

lemma bytes_of_string_of_bytes [simp, codec_simps]: "bytes_of_string (string_of_bytes s) = s"
  by (simp add: string_of_bytes_def bytes_of_string_def comp_def)

lemma length_bytes_of_string [simp]: "length (bytes_of_string s) = length s"
  by (simp add: bytes_of_string_def)

lemma length_string_of_bytes [simp]: "length (string_of_bytes s) = length s"
  by (simp add: string_of_bytes_def)

lemma bytes_of_string_append [simp]:
  "bytes_of_string (s @ t) = bytes_of_string s @ bytes_of_string t"
  by (simp add: bytes_of_string_def)

lemma string_of_bytes_append [simp]:
  "string_of_bytes (s @ t) = string_of_bytes s @ string_of_bytes t"
  by (simp add: string_of_bytes_def)

lemma string_of_bytes_Nil [simp]: "string_of_bytes bs = [] \<longleftrightarrow> bs = []" "bytes_of_string s = [] \<longleftrightarrow> s = []"
  by (simp_all add: string_of_bytes_def bytes_of_string_def)

lemma string_of_bytes_inj [simp]: "string_of_bytes s = string_of_bytes t \<longleftrightarrow> s = t"
  by (metis bytes_of_string_of_bytes)

subsection \<open>Big-endian numbers\<close>

lemma length_be_enc [simp]: "length (be_enc n v) = n"
  by (simp add: be_enc_def)

lemma be_enc_Suc: "be_enc (Suc n) v = of_nat (v div 256 ^ n) # be_enc n v"
  by (simp add: be_enc_def)

lemma be_enc_0 [simp]: "be_enc 0 v = []"
  by (simp add: be_enc_def)

lemma be_enc_unfold:
  "be_enc 2 v = [of_nat (v div 256), of_nat v]"
  "be_enc 4 v = [of_nat (v div 16777216), of_nat (v div 65536), of_nat (v div 256), of_nat v]"
proof -
  have two: "(2::nat) = Suc (Suc 0)" and four: "(4::nat) = Suc (Suc (Suc (Suc 0)))" by simp_all
  show "be_enc 2 v = [of_nat (v div 256), of_nat v]"
    by (subst two) (simp add: be_enc_Suc)
  show "be_enc 4 v = [of_nat (v div 16777216), of_nat (v div 65536), of_nat (v div 256), of_nat v]"
    by (subst four) (simp add: be_enc_Suc)
qed

lemma be_dec_acc:
  "foldl (\<lambda>a b. a * 256 + unat b) acc bs = acc * 256 ^ length bs + be_dec bs"
proof (induction bs arbitrary: acc)
  case Nil
  then show ?case by (simp add: be_dec_def)
next
  case (Cons b bs)
  have "be_dec (b # bs) = unat b * 256 ^ length bs + be_dec bs"
    using Cons [of "unat b"] by (simp add: be_dec_def)
  then show ?case
    using Cons [of "acc * 256 + unat b"] by (simp add: algebra_simps)
qed

lemma be_dec_Cons: "be_dec (b # bs) = unat b * 256 ^ length bs + be_dec bs"
  using be_dec_acc [of "unat b" bs] by (simp add: be_dec_def)

lemma be_dec_Nil [simp]: "be_dec [] = 0"
  by (simp add: be_dec_def)

lemma be_dec_less: "be_dec bs < 256 ^ length bs"
proof (induction bs)
  case (Cons b bs)
  have "unat b < 256"
    using unat_bound [of b] by simp
  then have "(unat b + 1) * 256 ^ length bs \<le> 256 * 256 ^ length bs"
    by (intro mult_right_mono) auto
  then have "unat b * 256 ^ length bs + 256 ^ length bs \<le> 256 * 256 ^ length bs"
    by (simp only: distrib_right mult_1)
  then show ?case
    using Cons by (simp only: be_dec_Cons length_Cons power_Suc)
qed simp

lemma be_dec_be_enc [codec_simps]: "be_dec (be_enc n v) = v mod 256 ^ n"
proof (induction n)
  case (Suc n)
  have "unat (of_nat (v div 256 ^ n) :: byte) = v div 256 ^ n mod 256"
    by (simp add: unsigned_of_nat take_bit_eq_mod)
  then show ?case
    using Suc mod_mult2_eq [of v "256 ^ n" 256]
    by (simp add: be_enc_Suc be_dec_Cons mult.commute)
qed simp


lemma div_power_split:
  fixes a v :: nat
  assumes "i < n"
  shows "(a * 256 ^ n + v) div 256 ^ i = 256 * (a * 256 ^ (n - Suc i)) + v div 256 ^ i"
proof -
  have "(256::nat) ^ n = 256 ^ i * (256 * 256 ^ (n - Suc i))"
    using assms by (metis Suc_diff_Suc power_Suc le_add_diff_inverse less_imp_le power_add)
  then have "a * 256 ^ n + v = v + 256 ^ i * (256 * (a * 256 ^ (n - Suc i)))"
    by (metis add.commute mult.left_commute)
  then show ?thesis
    by (metis add.commute div_mult_self2 power_not_zero zero_neq_numeral)
qed

lemma byte_of_nat_256: "(of_nat (256 * k + m) :: byte) = of_nat m"
  by (rule word_unat_eq_iff [THEN iffD2]) (simp add: unsigned_of_nat take_bit_eq_mod
      del: of_nat_add of_nat_mult)

lemma be_enc_high: "be_enc n (a * 256 ^ n + v) = be_enc n v"
  unfolding be_enc_def by (rule map_cong) (auto simp: div_power_split byte_of_nat_256
      simp del: of_nat_add of_nat_mult)

lemma be_enc_be_dec [codec_simps]: "be_enc (length bs) (be_dec bs) = bs"
proof (induction bs)
  case (Cons b bs)
  have "(unat b * 256 ^ length bs + be_dec bs) div 256 ^ length bs = unat b"
    using be_dec_less [of bs] by simp
  then show ?case
    using Cons by (simp add: be_enc_Suc be_dec_Cons be_enc_high)
qed simp

lemma length_put [simp]:
  "length (put16 a) = 2" "length (put32 b) = 4" "length (put64 c) = 8"
  by (simp_all add: put16_def put32_def put64_def)

lemma be_dec_put:
  "be_dec (put16 a) = unat a" "be_dec (put32 b) = unat b" "be_dec (put64 c) = unat c"
  using unat_bound [of a] unat_bound [of b] unat_bound [of c]
  by (simp_all add: put16_def put32_def put64_def be_dec_be_enc)

lemma get_put [simp, codec_simps]:
  "get16 (put16 a) = a" "get32 (put32 b) = b" "get64 (put64 c) = c"
  by (simp_all add: get16_def get32_def get64_def be_dec_put)

lemma put16_get16 [codec_simps]:
  assumes "length bs = 2"
  shows "put16 (get16 bs) = bs"
proof -
  have "unat (get16 bs) = be_dec bs"
    unfolding get16_def using be_dec_less [of bs] assms by (intro unat_of_nat_small) simp
  then show ?thesis
    using be_enc_be_dec [of bs] assms by (simp add: put16_def)
qed

lemma put32_get32 [codec_simps]:
  assumes "length bs = 4"
  shows "put32 (get32 bs) = bs"
proof -
  have "unat (get32 bs) = be_dec bs"
    unfolding get32_def using be_dec_less [of bs] assms by (intro unat_of_nat_small) simp
  then show ?thesis
    using be_enc_be_dec [of bs] assms by (simp add: put32_def)
qed

lemma put64_get64 [codec_simps]:
  assumes "length bs = 8"
  shows "put64 (get64 bs) = bs"
proof -
  have "unat (get64 bs) = be_dec bs"
    unfolding get64_def using be_dec_less [of bs] assms by (intro unat_of_nat_small) simp
  then show ?thesis
    using be_enc_be_dec [of bs] assms by (simp add: put64_def)
qed

subsection \<open>Decimal numbers\<close>

lemma of_char_digit_char:
  "d < 36 \<Longrightarrow> (of_char (digit_char d) :: nat) = (if d < 10 then 48 + d else 87 + d)"
  by (simp add: digit_char_def)

lemma digit_val_digit_char [simp]:
  "d < base \<Longrightarrow> base \<le> 36 \<Longrightarrow> digit_val base (digit_char d) = Some d"
  by (simp add: digit_val_def of_char_digit_char)

lemma is_digit_iff: "is_digit c \<longleftrightarrow> 48 \<le> (of_char c::nat) \<and> of_char c \<le> (57::nat)"
  by (simp add: is_digit_def less_eq_char_def)

lemma is_digit_digit_val: "is_digit c \<longleftrightarrow> digit_val 10 c \<noteq> None"
  by (auto simp: is_digit_iff digit_val_def Let_def)

lemma digits_value_snoc: "digits_value b (ds @ [d]) = digits_value b ds * b + d"
  by (simp add: digits_value_def)

lemma digits_value_Nil [simp]: "digits_value b [] = 0"
  by (simp add: digits_value_def)

lemma span_digits_append:
  assumes "\<forall>d\<in>set ds. d < base" "base \<le> 36" "rest = [] \<or> digit_val base (hd rest) = None"
  shows "span_digits base (map digit_char ds @ rest) = (ds, rest)"
  using assms(1)
proof (induction ds)
  case Nil
  then show ?case
    using assms(3) by (cases rest) auto
qed (use assms(2) in auto)

lemma span_digits_split: "span_digits base s = (ds, rest) \<Longrightarrow> length s = length ds + length rest"
  by (induction base s arbitrary: ds rest rule: span_digits.induct)
    (auto split: option.splits prod.splits)

lemma map_assign_last:
  "\<forall>k'\<in>fst ` set m. k' < k \<Longrightarrow> map_assign k v m = m @ [(k, v)]"
  by (induction k v m rule: map_assign.induct) auto

lemma show_nat_digits:
  "\<exists>ds. show_nat n = map digit_char ds \<and> (\<forall>d\<in>set ds. d < 10) \<and> digits_value 10 ds = n \<and> ds \<noteq> []"
proof (induction n rule: show_nat.induct)
  case (1 n)
  show ?case
  proof (cases "n < 10")
    case True
    then show ?thesis
      by (intro exI [of _ "[n]"]) (simp add: show_nat.simps digits_value_def)
  next
    case False
    with 1 obtain ds where ds: "show_nat (n div 10) = map digit_char ds"
      "\<forall>d\<in>set ds. d < 10" "digits_value 10 ds = n div 10"
      by blast
    have "show_nat n = map digit_char (ds @ [n mod 10])"
      using False ds by (subst show_nat.simps) simp
    then show ?thesis
      using ds by (intro exI [of _ "ds @ [n mod 10]"]) (auto simp: digits_value_snoc)
  qed
qed

lemma show_nat_chars: "c \<in> set (show_nat n) \<Longrightarrow> is_digit c"
  using show_nat_digits [of n] by (auto simp: is_digit_digit_val)

lemma show_nat_Cons: "\<exists>c cs. show_nat n = c # cs \<and> is_digit c"
  using show_nat_digits [of n] show_nat_chars [of _ n] by (cases "show_nat n") auto

lemma minus_not_digit [simp]: "\<not> is_digit CHR ''-''" "\<not> is_digit CHR '':''" "\<not> is_digit CHR ''e''"
  by (simp_all add: is_digit_iff)

lemma from_chars_show_int [codec_simps]:
  assumes "lo \<le> i" "i \<le> hi" "rest = [] \<or> \<not> is_digit (hd rest)"
  shows "from_chars lo hi (show_int i @ rest) = Some (i, rest)"
proof -
  have rest: "rest = [] \<or> digit_val 10 (hd rest) = None"
    using assms(3) by (auto simp: is_digit_digit_val)
  have span: "\<exists>ds. span_digits 10 (show_nat n @ rest) = (ds, rest) \<and>
      digits_value 10 ds = n \<and> ds \<noteq> []" for n
  proof -
    obtain ds where "show_nat n = map digit_char ds" "\<forall>d\<in>set ds. d < 10"
      "digits_value 10 ds = n" "ds \<noteq> []"
      using show_nat_digits by blast
    then show ?thesis
      using span_digits_append [of ds 10 rest] rest by simp
  qed
  obtain c cs where c: "show_nat (nat i) = c # cs" "is_digit c"
    using show_nat_Cons by blast
  then have "c \<noteq> CHR ''-''"
    using minus_not_digit(1) by blast
  show ?thesis
  proof (cases "i < 0")
    case True
    with span [of "nat (- i)"] assms(1,2) show ?thesis
      by (auto simp: from_chars_def show_int_def Let_def)
  next
    case False
    with span [of "nat i"] assms(1,2) c(1) \<open>c \<noteq> CHR ''-''\<close> show ?thesis
      by (auto simp: from_chars_def show_int_def Let_def)
  qed
qed

lemma from_chars_range: "from_chars lo hi s = Some (v, rest) \<Longrightarrow> lo \<le> v \<and> v \<le> hi"
  by (auto simp: from_chars_def Let_def split: prod.splits if_splits)

subsection \<open>Searching\<close>

lemma split_at_append [simp]: "x \<notin> set a \<Longrightarrow> split_at x (a @ x # b) = Some (a, b)"
  by (induction a) auto

lemma split_at_SomeD: "split_at x s = Some (a, b) \<Longrightarrow> s = a @ x # b \<and> x \<notin> set a"
  by (induction s arbitrary: a) (auto split: if_splits)

lemma split_at_Some: "split_at x s = Some (a, b) \<longleftrightarrow> s = a @ x # b \<and> x \<notin> set a"
  using split_at_SomeD by fastforce

lemma split_at_extend:
  "split_at x (s @ t) = (case split_at x s of
      None \<Rightarrow> map_option (\<lambda>(a, b). (s @ a, b)) (split_at x t)
    | Some (a, b) \<Rightarrow> Some (a, b @ t))"
  by (induction s) (auto split: option.splits simp: option.map_comp comp_def case_prod_unfold map_option.identity option.map_ident)

lemma split_at_None: "split_at x s = None \<longleftrightarrow> x \<notin> set s"
  by (induction s) auto

lemma split_at_length: "split_at x s = Some (a, b) \<Longrightarrow> length b < length s"
  by (auto simp: split_at_Some)

subsection \<open>Ordered maps\<close>

lemma chunks_Nil [simp]: "chunks n [] = []"
  by (simp add: chunks.simps)

lemma chunks_append: "0 < n \<Longrightarrow> length x = n \<Longrightarrow> chunks n (x @ xs) = x # chunks n xs"
  by (subst chunks.simps) auto

lemma chunks_concat: "0 < n \<Longrightarrow> \<forall>x\<in>set xs. length x = n \<Longrightarrow> chunks n (concat xs) = xs"
  by (induction xs) (simp_all add: chunks_append)

lemma chunks_length:
  "x \<in> set (chunks n xs) \<Longrightarrow> length xs mod n = 0 \<Longrightarrow> length x = n"
proof (induction n xs rule: chunks.induct)
  case (1 n xs)
  show ?case
  proof (cases "n = 0 \<or> xs = []")
    case True
    then show ?thesis
      using "1.prems"(1) by (simp add: chunks.simps [of n xs])
  next
    case False
    then have le: "n \<le> length xs"
      using "1.prems"(2) by (metis linorder_not_le length_0_conv mod_less)
    then have "length (drop n xs) mod n = 0"
      using "1.prems"(2) by (simp add: le_mod_geq)
    moreover have "x = take n xs \<or> x \<in> set (chunks n (drop n xs))"
      using "1.prems"(1) False by (simp add: chunks.simps [of n xs])
    ultimately show ?thesis
      using "1.IH" [OF False] le by auto
  qed
qed

lemma sorted_keys_Nil [simp]: "sorted_keys []"
  by (simp add: sorted_keys_def)

lemma sorted_keys_Cons [simp]:
  "sorted_keys ((k, v) # m) \<longleftrightarrow> (\<forall>k'\<in>fst ` set m. k < k') \<and> sorted_keys m"
  by (auto simp: sorted_keys_def)

lemma sorted_keys_distinct: "sorted_keys m \<Longrightarrow> distinct (map fst m)"
  by (auto simp: sorted_keys_def strict_sorted_iff)

lemma keys_map_emplace [simp]: "fst ` set (map_emplace k v m) = insert k (fst ` set m)"
  by (induction k v m rule: map_emplace.induct) auto

lemma keys_map_assign [simp]: "fst ` set (map_assign k v m) = insert k (fst ` set m)"
  by (induction k v m rule: map_assign.induct) auto

lemma set_map_emplace: "set (map_emplace k v m) \<subseteq> insert (k, v) (set m)"
  by (induction k v m rule: map_emplace.induct) auto

lemma sorted_keys_emplace [simp]: "sorted_keys m \<Longrightarrow> sorted_keys (map_emplace k v m)"
  by (induction k v m rule: map_emplace.induct) auto

lemma sorted_keys_assign [simp]: "sorted_keys m \<Longrightarrow> sorted_keys (map_assign k v m)"
  by (induction k v m rule: map_assign.induct) auto

lemma sorted_keys_erase [simp]: "sorted_keys m \<Longrightarrow> sorted_keys (map_erase k m)"
  by (induction m) (auto simp: map_erase_def)

lemma map_of_None_less:
  "\<forall>e\<in>set m. a < fst e \<Longrightarrow> k \<le> (a::'k::linorder) \<Longrightarrow> map_of m k = None"
  by (induction m) auto

lemma set_map_assign: "set (map_assign k v m) \<subseteq> insert (k, v) (set m)"
  by (induction k v m rule: map_assign.induct) auto

lemma map_of_map_emplace [map_simps]:
  "sorted_keys m \<Longrightarrow>
    map_of (map_emplace k v m) k' =
      (if k' = k then Some (case map_of m k of None \<Rightarrow> v | Some v' \<Rightarrow> v') else map_of m k')"
  by (induction k v m rule: map_emplace.induct) (auto simp: map_of_None_less)

lemma map_of_map_assign [map_simps]:
  "map_of (map_assign k v m) k' = (if k' = k then Some v else map_of m k')"
  by (induction k v m rule: map_assign.induct) auto

lemma map_of_map_erase [map_simps]:
  "map_of (map_erase k m) k' = (if k' = k then None else map_of m k')"
  by (induction m) (auto simp: map_erase_def)

lemma map_emplace_last:
  "\<forall>k'\<in>fst ` set m. k' < k \<Longrightarrow> map_emplace k v m = m @ [(k, v)]"
  by (induction k v m rule: map_emplace.induct) auto

lemma length_map_assign_le: "length (map_assign k v m) \<le> Suc (length m)"
  by (induction k v m rule: map_assign.induct) auto

subsection \<open>The interface of a self-delimiting codec\<close>

text \<open>
  Several components put a value on the wire and read it back from the front of a longer buffer.
  What they promise is one law: decoding an encoding followed by anything gives the value back and
  leaves the rest.  Everything a client needs follows from it.
\<close>

locale prefix_codec =
  fixes enc :: "'a \<Rightarrow> 'b list"
    and dec :: "'b list \<Rightarrow> 'e + 'a \<times> 'b list"
    and ok :: "'a \<Rightarrow> bool"
  assumes dec_enc: "ok v \<Longrightarrow> dec (enc v @ rest) = Inr (v, rest)"
begin

lemma dec_enc_whole: "ok v \<Longrightarrow> dec (enc v) = Inr (v, [])"
  using dec_enc [of v "[]"] by simp

lemma enc_unique:
  assumes "ok v" "ok w" "enc v @ r = enc w @ s"
  shows "v = w \<and> r = s"
  using assms dec_enc by (metis Inr_inject prod.inject)

lemma enc_inject: "ok v \<Longrightarrow> ok w \<Longrightarrow> enc v = enc w \<longleftrightarrow> v = w"
  using enc_unique [of v w "[]" "[]"] by auto

lemma enc_concat_inject:
  "\<forall>v\<in>set vs. ok v \<and> enc v \<noteq> [] \<Longrightarrow> \<forall>w\<in>set ws. ok w \<and> enc w \<noteq> [] \<Longrightarrow>
    concat (map enc vs) = concat (map enc ws) \<Longrightarrow> vs = ws"
proof (induction vs arbitrary: ws)
  case Nil
  then show ?case by (cases ws) auto
next
  case (Cons v vs)
  have "enc v @ concat (map enc vs) = concat (map enc ws)" "enc v \<noteq> []" "ok v"
    using Cons.prems by simp_all
  then obtain w ws' where ws: "ws = w # ws'"
    by (cases ws) simp_all
  then have eq: "enc v @ concat (map enc vs) = enc w @ concat (map enc ws')"
    using Cons.prems(3) by simp
  have "ok w"
    using Cons.prems(2) ws by simp
  then have "v = w \<and> concat (map enc vs) = concat (map enc ws')"
    using enc_unique [OF \<open>ok v\<close> _ eq] by simp
  then show ?case
    using Cons.IH [of ws'] Cons.prems(1,2) ws by simp
qed

end

subsection \<open>Exceptions\<close>

definition sum_bind :: "'e + 'a \<Rightarrow> ('a \<Rightarrow> 'e + 'b) \<Rightarrow> 'e + 'b" where
  "sum_bind r f = (case r of Inl e \<Rightarrow> Inl e | Inr a \<Rightarrow> f a)"

definition sum_some :: "'e \<Rightarrow> 'a option \<Rightarrow> 'e + 'a" where
  "sum_some e r = (case r of None \<Rightarrow> Inl e | Some a \<Rightarrow> Inr a)"

subsection \<open>State and exceptions\<close>

text \<open>A member function that may throw: the exception or the value, and the object as it is left in
  either case.\<close>

type_synonym ('s, 'e, 'a) sx = "'s \<Rightarrow> ('e + 'a) \<times> 's"

definition sx_return :: "'a \<Rightarrow> ('s, 'e, 'a) sx" where
  "sx_return a s = (Inr a, s)"

definition sx_throw :: "'e \<Rightarrow> ('s, 'e, 'a) sx" where
  "sx_throw e s = (Inl e, s)"

definition sx_bind :: "('s, 'e, 'a) sx \<Rightarrow> ('a \<Rightarrow> ('s, 'e, 'b) sx) \<Rightarrow> ('s, 'e, 'b) sx" where
  "sx_bind m f s = (case m s of (Inl e, s') \<Rightarrow> (Inl e, s') | (Inr a, s') \<Rightarrow> f a s')"

definition sx_modify :: "('s \<Rightarrow> 's) \<Rightarrow> ('s, 'e, unit) sx" where
  "sx_modify f s = (Inr (), f s)"

definition sx_gets :: "('s \<Rightarrow> 'a) \<Rightarrow> ('s, 'e, 'a) sx" where
  "sx_gets f s = (Inr (f s), s)"

definition sx_lift :: "'e + 'a \<Rightarrow> ('s, 'e, 'a) sx" where
  "sx_lift r s = (r, s)"

definition sx_some :: "'e \<Rightarrow> 'a option \<Rightarrow> ('s, 'e, 'a) sx" where
  "sx_some e r = (case r of None \<Rightarrow> sx_throw e | Some a \<Rightarrow> sx_return a)"

text \<open>\<^verbatim>\<open>try { m } catch (...) { h }\<close>\<close>

definition sx_catch :: "('s, 'e, 'a) sx \<Rightarrow> ('e \<Rightarrow> ('s, 'e, 'a) sx) \<Rightarrow> ('s, 'e, 'a) sx" where
  "sx_catch m h s = (case m s of (Inl e, s') \<Rightarrow> h e s' | (Inr a, s') \<Rightarrow> (Inr a, s'))"

lemmas sx_defs = sx_return_def sx_throw_def sx_bind_def sx_modify_def sx_gets_def sx_lift_def sx_catch_def

text \<open>What every run of a computation keeps of a property of the state, exceptions included.\<close>

definition sx_keeps :: "('s \<Rightarrow> bool) \<Rightarrow> ('s, 'e, 'a) sx \<Rightarrow> bool" where
  "sx_keeps P m \<longleftrightarrow> (\<forall>s. P s \<longrightarrow> P (snd (m s)))"

named_theorems sx_keeps_intros \<open>composing preservation over the state and exception monad\<close>

lemma sx_keeps_return [sx_keeps_intros]: "sx_keeps P (sx_return a)"
  by (simp add: sx_keeps_def sx_return_def)

lemma sx_keeps_throw [sx_keeps_intros]: "sx_keeps P (sx_throw e)"
  by (simp add: sx_keeps_def sx_throw_def)

lemma sx_keeps_gets [sx_keeps_intros]: "sx_keeps P (sx_gets f)"
  by (simp add: sx_keeps_def sx_gets_def)

lemma sx_keeps_lift [sx_keeps_intros]: "sx_keeps P (sx_lift r)"
  by (simp add: sx_keeps_def sx_lift_def)

lemma sx_keeps_modify: "(\<And>s. P s \<Longrightarrow> P (f s)) \<Longrightarrow> sx_keeps P (sx_modify f)"
  by (simp add: sx_keeps_def sx_modify_def)

lemma sx_keeps_bind [sx_keeps_intros]:
  assumes "sx_keeps P m" "\<And>a. sx_keeps P (f a)"
  shows "sx_keeps P (sx_bind m f)"
  unfolding sx_keeps_def
proof (intro allI impI)
  fix s
  assume "P s"
  then have "P (snd (m s))"
    using assms(1) by (simp add: sx_keeps_def)
  then show "P (snd (sx_bind m f s))"
    using assms(2) by (auto simp: sx_bind_def sx_keeps_def split: prod.split sum.split)
qed

lemma sx_keeps_catch [sx_keeps_intros]:
  assumes "sx_keeps P m" "\<And>e. sx_keeps P (h e)"
  shows "sx_keeps P (sx_catch m h)"
  unfolding sx_keeps_def
proof (intro allI impI)
  fix s
  assume "P s"
  then have "P (snd (m s))"
    using assms(1) by (simp add: sx_keeps_def)
  then show "P (snd (sx_catch m h s))"
    using assms(2) by (auto simp: sx_catch_def sx_keeps_def split: prod.split sum.split)
qed

lemma sx_keeps_if [sx_keeps_intros]:
  "(b \<Longrightarrow> sx_keeps P m) \<Longrightarrow> (\<not> b \<Longrightarrow> sx_keeps P n) \<Longrightarrow> sx_keeps P (if b then m else n)"
  by simp

lemma sx_keeps_option [sx_keeps_intros]:
  "(a = None \<Longrightarrow> sx_keeps P m) \<Longrightarrow> (\<And>x. a = Some x \<Longrightarrow> sx_keeps P (f x)) \<Longrightarrow>
    sx_keeps P (case a of None \<Rightarrow> m | Some x \<Rightarrow> f x)"
  by (cases a) simp_all

lemma sx_keeps_bind_lift: "(\<And>a. r = Inr a \<Longrightarrow> sx_keeps P (f a)) \<Longrightarrow> sx_keeps P (sx_bind (sx_lift r) f)"
  by (cases r) (simp_all add: sx_keeps_def sx_bind_def sx_lift_def)

lemma sx_keeps_bind_some: "(\<And>a. r = Some a \<Longrightarrow> sx_keeps P (f a)) \<Longrightarrow> sx_keeps P (sx_bind (sx_some e r) f)"
  by (cases r) (simp_all add: sx_keeps_def sx_bind_def sx_some_def sx_throw_def sx_return_def)

lemma sx_keeps_bind_gets: "(\<And>a. sx_keeps P (f a)) \<Longrightarrow> sx_keeps P (sx_bind (sx_gets g) f)"
  by (simp add: sx_keeps_def sx_bind_def sx_gets_def)

lemma sx_keepsD: "sx_keeps P m \<Longrightarrow> P s \<Longrightarrow> m s = (r, s') \<Longrightarrow> P s'"
  by (metis sx_keeps_def snd_conv)

subsection \<open>The interface of a state machine with an invariant\<close>

text \<open>
  Components that handle events in any order are step relations.  A state is reachable when a sequence
  of steps leads to it from an initial state; a property that holds initially and is kept by every step
  holds in every reachable state, and so does any consequence of it.
\<close>

inductive reachable :: "('s \<Rightarrow> bool) \<Rightarrow> ('s \<Rightarrow> 's \<Rightarrow> bool) \<Rightarrow> 's \<Rightarrow> bool" for init step where
  reachable_init: "init s \<Longrightarrow> reachable init step s"
| reachable_step: "reachable init step s \<Longrightarrow> step s s' \<Longrightarrow> reachable init step s'"

locale invariant_system =
  fixes init :: "'s \<Rightarrow> bool"
    and step :: "'s \<Rightarrow> 's \<Rightarrow> bool"
    and inv :: "'s \<Rightarrow> bool"
  assumes init_inv: "init s \<Longrightarrow> inv s"
    and step_inv: "inv s \<Longrightarrow> step s s' \<Longrightarrow> inv s'"
begin

lemma reachable_inv: "reachable init step s \<Longrightarrow> inv s"
  by (induction rule: reachable.induct) (auto intro: init_inv step_inv)

end

end
