(* ===== verification/Bencode.thy ===== *)
theory Bencode
  imports Prelude
begin

text \<open>
  The bencode codec of \<^verbatim>\<open>src/src/Bencode.hpp\<close> and \<^verbatim>\<open>src/src/Bencode.cpp\<close>: the value type, the
  recursive-descent decoder with every error it throws, and the encoder.

  A \<^verbatim>\<open>std::span<const std::byte>&\<close> that the decoder advances is the string that is left after the
  call.  The two \<^verbatim>\<open>while\<close> loops over list items and dictionary pairs are \<open>decode_list_loop\<close> and
  \<open>decode_dict_loop\<close>; the mutual recursion terminates because every call that succeeds consumes
  input.  A \<^verbatim>\<open>Dict\<close> (\<^verbatim>\<open>std::map\<close>) is an association list; \<open>valid_value\<close> is the type invariant of
  the C++ value: integers in the range of \<^verbatim>\<open>int64_t\<close>, dictionaries strictly sorted by key.

  Lemmas: the decoder inverts the encoder in front of any further input, every decoded value meets
  the type invariant, and decoding is stable under appending input.
\<close>

subsection \<open>Definitions\<close>

datatype bencode_error =
    MissingColon | InvalidLength | NegativeLength | LengthExceedsBuffer
  | MissingI | MissingIntegerEnd | BadInteger
  | MissingL | MissingListEnd | MissingD | MissingDictEnd
  | UnexpectedEnd | UnknownType | TrailingData

datatype Value =
    Integer int
  | String string
  | List "Value list"
  | Dict "(string \<times> Value) list"

text \<open>Access to one alternative of the variant (\<^verbatim>\<open>std::get\<close>, \<^verbatim>\<open>std::get_if\<close>).\<close>

fun as_Integer :: "Value \<Rightarrow> int option" where
  "as_Integer (Integer i) = Some i"
| "as_Integer _ = None"

fun as_String :: "Value \<Rightarrow> string option" where
  "as_String (String s) = Some s"
| "as_String _ = None"

fun as_List :: "Value \<Rightarrow> Value list option" where
  "as_List (List l) = Some l"
| "as_List _ = None"

fun as_Dict :: "Value \<Rightarrow> (string \<times> Value) list option" where
  "as_Dict (Dict d) = Some d"
| "as_Dict _ = None"

definition int64_min :: int where "int64_min = - (2 ^ 63)"
definition int64_max :: int where "int64_max = 2 ^ 63 - 1"

definition decode_string :: "string \<Rightarrow> bencode_error + string \<times> string" where
  "decode_string data =
    (case split_at CHR '':'' data of
       None \<Rightarrow> Inl MissingColon
     | Some (digits, rest) \<Rightarrow>
         (case from_chars int64_min int64_max digits of
            None \<Rightarrow> Inl InvalidLength
          | Some (len, _) \<Rightarrow>
              if len < 0 then Inl NegativeLength
              else if length rest < nat len then Inl LengthExceedsBuffer
              else Inr (take (nat len) rest, drop (nat len) rest)))"

definition decode_integer :: "string \<Rightarrow> bencode_error + int \<times> string" where
  "decode_integer data =
    (if data = [] \<or> hd data \<noteq> CHR ''i'' then Inl MissingI
     else case split_at CHR ''e'' (tl data) of
       None \<Rightarrow> Inl MissingIntegerEnd
     | Some (digits, rest) \<Rightarrow>
         (case from_chars int64_min int64_max digits of
            None \<Rightarrow> Inl BadInteger
          | Some (result, unread) \<Rightarrow>
              if unread \<noteq> [] then Inl BadInteger else Inr (result, rest)))"

function decode_value :: "string \<Rightarrow> bencode_error + Value \<times> string"
  and decode_list :: "string \<Rightarrow> bencode_error + Value list \<times> string"
  and decode_list_loop :: "Value list \<Rightarrow> string \<Rightarrow> bencode_error + Value list \<times> string"
  and decode_dict :: "string \<Rightarrow> bencode_error + (string \<times> Value) list \<times> string"
  and decode_dict_loop ::
    "(string \<times> Value) list \<Rightarrow> string \<Rightarrow> bencode_error + (string \<times> Value) list \<times> string"
where
  "decode_value data =
    (if data = [] then Inl UnexpectedEnd
     else if is_digit (hd data) then
       (case decode_string data of Inl e \<Rightarrow> Inl e | Inr (s, rest) \<Rightarrow> Inr (String s, rest))
     else if hd data = CHR ''i'' then
       (case decode_integer data of Inl e \<Rightarrow> Inl e | Inr (i, rest) \<Rightarrow> Inr (Integer i, rest))
     else if hd data = CHR ''l'' then
       (case decode_list data of Inl e \<Rightarrow> Inl e | Inr (l, rest) \<Rightarrow> Inr (List l, rest))
     else if hd data = CHR ''d'' then
       (case decode_dict data of Inl e \<Rightarrow> Inl e | Inr (d, rest) \<Rightarrow> Inr (Dict d, rest))
     else Inl UnknownType)"
| "decode_list data =
    (if data = [] \<or> hd data \<noteq> CHR ''l'' then Inl MissingL
     else decode_list_loop [] (tl data))"
| "decode_list_loop result data =
    (if data = [] then Inl MissingListEnd
     else if hd data = CHR ''e'' then Inr (result, tl data)
     else case decode_value data of
       Inl e \<Rightarrow> Inl e
     | Inr (v, rest) \<Rightarrow> decode_list_loop (result @ [v]) rest)"
| "decode_dict data =
    (if data = [] \<or> hd data \<noteq> CHR ''d'' then Inl MissingD
     else decode_dict_loop [] (tl data))"
| "decode_dict_loop result data =
    (if data = [] then Inl MissingDictEnd
     else if hd data = CHR ''e'' then Inr (result, tl data)
     else case decode_string data of
       Inl e \<Rightarrow> Inl e
     | Inr (key, rest) \<Rightarrow>
         (case decode_value rest of
            Inl e \<Rightarrow> Inl e
          | Inr (v, rest') \<Rightarrow> decode_dict_loop (map_emplace key v result) rest'))"
  by pat_completeness auto

text \<open>Every successful call leaves less input than it was given; this is what makes the recursion
  end.\<close>

lemma decode_string_shorter:
  "decode_string data = Inr (s, rest) \<Longrightarrow> length rest < length data"
  by (auto simp: decode_string_def split_at_Some less_Suc_eq_le split: option.splits if_splits)
    (metis diff_le_self trans_le_add2)

lemma decode_integer_shorter:
  "decode_integer data = Inr (i, rest) \<Longrightarrow> length rest < length data"
  by (cases data) (auto simp: decode_integer_def split_at_Some split: option.splits if_splits)


lemma decode_dom_shorter:
  "decode_value_decode_list_decode_list_loop_decode_dict_decode_dict_loop_dom (Inl (Inl d1)) \<Longrightarrow>
    \<forall>v rest. decode_value d1 = Inr (v, rest) \<longrightarrow> length rest < length d1"
  "decode_value_decode_list_decode_list_loop_decode_dict_decode_dict_loop_dom (Inl (Inr d2)) \<Longrightarrow>
    \<forall>v rest. decode_list d2 = Inr (v, rest) \<longrightarrow> length rest < length d2"
  "decode_value_decode_list_decode_list_loop_decode_dict_decode_dict_loop_dom (Inr (Inl (r3, d3))) \<Longrightarrow>
    \<forall>v rest. decode_list_loop r3 d3 = Inr (v, rest) \<longrightarrow> length rest < length d3"
  "decode_value_decode_list_decode_list_loop_decode_dict_decode_dict_loop_dom (Inr (Inr (Inl d4))) \<Longrightarrow>
    \<forall>v rest. decode_dict d4 = Inr (v, rest) \<longrightarrow> length rest < length d4"
  "decode_value_decode_list_decode_list_loop_decode_dict_decode_dict_loop_dom (Inr (Inr (Inr (r5, d5)))) \<Longrightarrow>
    \<forall>v rest. decode_dict_loop r5 d5 = Inr (v, rest) \<longrightarrow> length rest < length d5"
proof (induct rule: decode_value_decode_list_decode_list_loop_decode_dict_decode_dict_loop.pinduct)
  case (1 data)
  then show ?case
    by (auto simp: decode_value.psimps split: if_splits sum.splits prod.splits
        dest: decode_string_shorter decode_integer_shorter)
next
  case (2 data)
  then show ?case
    by (cases data) (auto simp: decode_list.psimps split: if_splits intro: less_SucI)
next
  case (3 result data)
  then show ?case
    by (cases data) (fastforce simp: decode_list_loop.psimps split: if_splits sum.splits prod.splits)+
next
  case (4 data)
  then show ?case
    by (cases data) (auto simp: decode_dict.psimps split: if_splits intro: less_SucI)
next
  case (5 result data)
  then show ?case
    by (cases data) (fastforce simp: decode_dict_loop.psimps split: if_splits sum.splits prod.splits
        dest!: decode_string_shorter)+
qed

termination decode_value
proof (relation "measure (\<lambda>x. case x of
      Inl (Inl d) \<Rightarrow> 3 * length d + 1
    | Inl (Inr d) \<Rightarrow> 3 * length d
    | Inr (Inl (r, d)) \<Rightarrow> 3 * length d + 2
    | Inr (Inr (Inl d)) \<Rightarrow> 3 * length d
    | Inr (Inr (Inr (r, d))) \<Rightarrow> 3 * length d + 2)", goal_cases)
  case 1
  then show ?case by simp
next
  case (2 data)
  then show ?case by simp
next
  case (3 data)
  then show ?case by simp
next
  case (4 data)
  then show ?case by (cases data) auto
next
  case (5 result data)
  then show ?case by simp
next
  case (6 result data)
  then show ?case by (fastforce dest: decode_dom_shorter)
next
  case (7 data)
  then show ?case by (cases data) auto
next
  case (8 result data)
  then show ?case by (fastforce dest: decode_string_shorter)
next
  case (9 result data)
  then show ?case by (fastforce dest: decode_string_shorter decode_dom_shorter)
qed


declare decode_value.simps [simp del] decode_list.simps [simp del] decode_list_loop.simps [simp del]
  decode_dict.simps [simp del] decode_dict_loop.simps [simp del]

definition decode_prefix :: "string \<Rightarrow> bencode_error + Value \<times> nat" where
  "decode_prefix data =
    (case decode_value data of
       Inl e \<Rightarrow> Inl e
     | Inr (result, view) \<Rightarrow> Inr (result, length data - length view))"

definition decode :: "string \<Rightarrow> bencode_error + Value" where
  "decode data =
    (case decode_prefix data of
       Inl e \<Rightarrow> Inl e
     | Inr (result, consumed) \<Rightarrow>
         if consumed \<noteq> length data then Inl TrailingData else Inr result)"

definition encode_string :: "string \<Rightarrow> string" where
  "encode_string s = show_nat (length s) @ CHR '':'' # s"

fun encode :: "Value \<Rightarrow> string" where
  "encode (Integer i) = CHR ''i'' # show_int i @ ''e''"
| "encode (String s) = encode_string s"
| "encode (List l) = CHR ''l'' # concat (map encode l) @ ''e''"
| "encode (Dict d) = CHR ''d'' # concat (map (\<lambda>(key, val). encode_string key @ encode val) d) @ ''e''"

fun valid_value :: "Value \<Rightarrow> bool" where
  "valid_value (Integer i) \<longleftrightarrow> int64_min \<le> i \<and> i \<le> int64_max"
| "valid_value (String s) \<longleftrightarrow> int (length s) \<le> int64_max"
| "valid_value (List l) \<longleftrightarrow> (\<forall>v\<in>set l. valid_value v)"
| "valid_value (Dict d) \<longleftrightarrow>
    sorted_keys d \<and> (\<forall>(k, v)\<in>set d. int (length k) \<le> int64_max \<and> valid_value v)"

abbreviation fits :: "string \<Rightarrow> bool" where
  "fits s \<equiv> int (length s) \<le> int64_max"

lemma fits_small: "length s \<le> 4294967296 \<Longrightarrow> fits s"
  by (simp add: int64_max_def)

lemma numeral_int64_max [simp]:
  "1 \<le> int64_max" "numeral k \<le> int64_max \<longleftrightarrow> numeral k \<le> (9223372036854775807::int)"
  by (simp_all add: int64_max_def)

subsection \<open>Decoding what was encoded\<close>

lemma int_const [simp]: "int64_min \<le> int n" "0 \<le> int64_max"
  by (simp_all add: int64_min_def int64_max_def)

lemma decode_string_encode:
  assumes "int (length s) \<le> int64_max"
  shows "decode_string (encode_string s @ rest) = Inr (s, rest)"
proof -
  have "CHR '':'' \<notin> set (show_nat (length s))"
    using show_nat_chars by (metis minus_not_digit(2))
  moreover have "from_chars int64_min int64_max (show_nat (length s)) = Some (int (length s), [])"
    using from_chars_show_int [of int64_min "int (length s)" int64_max "[]"] assms
    by (simp add: show_int_def)
  ultimately show ?thesis
    by (simp add: decode_string_def encode_string_def)
qed

lemma encode_string_Cons: "\<exists>c cs. encode_string s = c # cs \<and> is_digit c"
  using show_nat_Cons [of "length s"] by (auto simp: encode_string_def)

lemma not_digit_letters [simp]:
  "\<not> is_digit CHR ''i''" "\<not> is_digit CHR ''l''" "\<not> is_digit CHR ''d''"
  by (simp_all add: is_digit_iff)

lemma decode_integer_encode:
  assumes "int64_min \<le> i" "i \<le> int64_max"
  shows "decode_integer (CHR ''i'' # show_int i @ CHR ''e'' # rest) = Inr (i, rest)"
proof -
  have "CHR ''e'' \<notin> set (show_int i)"
    by (auto simp: show_int_def dest: show_nat_chars)
  then show ?thesis
    using from_chars_show_int [of int64_min i int64_max "[]"] assms by (simp add: decode_integer_def)
qed

lemma encode_hd: "\<exists>c cs. encode v = c # cs \<and> c \<noteq> CHR ''e''"
proof (cases v)
  case (String s)
  then show ?thesis
    using encode_string_Cons [of s] minus_not_digit(3) by auto
qed auto

lemma decode_list_loop_Cons:
  assumes "decode_value (enc @ rest) = Inr (v, rest)" "\<exists>c cs. enc = c # cs \<and> c \<noteq> CHR ''e''"
  shows "decode_list_loop acc (enc @ rest) = decode_list_loop (acc @ [v]) rest"
  using assms by (subst decode_list_loop.simps) auto

lemma decode_dict_loop_Cons:
  assumes "decode_value (enc @ rest) = Inr (v, rest)" "int (length k) \<le> int64_max"
  shows "decode_dict_loop acc (encode_string k @ enc @ rest) =
    decode_dict_loop (map_emplace k v acc) rest"
proof -
  obtain c cs where "encode_string k = c # cs" "c \<noteq> CHR ''e''"
    using encode_string_Cons [of k] minus_not_digit(3) by metis
  then show ?thesis
    using assms decode_string_encode [of k "enc @ rest"] by (subst decode_dict_loop.simps) simp
qed

lemma decode_list_loop_encode:
  assumes "\<And>v rest. v \<in> set l \<Longrightarrow> decode_value (encode v @ rest) = Inr (v, rest)"
  shows "decode_list_loop acc (concat (map encode l) @ CHR ''e'' # rest) = Inr (acc @ l, rest)"
  using assms
proof (induction l arbitrary: acc)
  case Nil
  then show ?case by (simp add: decode_list_loop.simps)
next
  case (Cons v l)
  then show ?case
    using decode_list_loop_Cons [OF _ encode_hd [of v]] by simp
qed

lemma decode_dict_loop_encode:
  assumes "\<forall>(k, v)\<in>set d. (\<forall>rest. decode_value (encode v @ rest) = Inr (v, rest)) \<and>
      int (length k) \<le> int64_max"
    and "sorted_keys (acc @ d)"
  shows "decode_dict_loop acc (concat (map (\<lambda>(k, v). encode_string k @ encode v) d) @ CHR ''e'' # rest)
    = Inr (acc @ d, rest)"
  using assms
proof (induction d arbitrary: acc)
  case Nil
  then show ?case by (simp add: decode_dict_loop.simps)
next
  case (Cons kv d)
  obtain k v where kv: "kv = (k, v)" by (cases kv)
  have "\<forall>k'\<in>fst ` set acc. k' < k"
    using Cons.prems(2) by (auto simp: kv sorted_keys_def sorted_wrt_append)
  then have "map_emplace k v acc = acc @ [kv]"
    by (simp add: kv map_emplace_last)
  then show ?case
    using Cons.IH [of "acc @ [kv]"] Cons.prems decode_dict_loop_Cons [of "encode v" _ v k acc]
    by (simp add: kv)
qed

lemma decode_value_encode:
  "valid_value v \<Longrightarrow> decode_value (encode v @ rest) = Inr (v, rest)"
proof (induction v arbitrary: rest rule: encode.induct)
  case (1 i)
  then show ?case
    using decode_integer_encode by (subst decode_value.simps) simp
next
  case (2 s)
  obtain c cs where "encode_string s = c # cs" "is_digit c"
    using encode_string_Cons by metis
  then show ?case
    using decode_string_encode [of s rest] 2 by (subst decode_value.simps) simp
next
  case (3 l)
  then show ?case
    using decode_list_loop_encode [of l "[]" rest]
    by (subst decode_value.simps) (simp add: decode_list.simps)
next
  case (4 d)
  have "decode_dict_loop [] (concat (map (\<lambda>(k, v). encode_string k @ encode v) d) @ CHR ''e'' # rest)
      = Inr ([] @ d, rest)"
    using 4 by (intro decode_dict_loop_encode) auto
  then show ?case
    by (subst decode_value.simps) (simp add: decode_dict.simps)
qed


lemma decode_string_extend:
  "decode_string d = Inr (s, rest) \<Longrightarrow> decode_string (d @ x) = Inr (s, rest @ x)"
  by (auto simp: decode_string_def split_at_extend split: option.splits if_splits)

lemma decode_string_length:
  "decode_string d = Inr (s, rest) \<Longrightarrow> int (length s) \<le> int64_max"
  by (auto simp: decode_string_def split: option.splits if_splits dest!: from_chars_range)

lemma decode_integer_extend:
  "decode_integer d = Inr (i, rest) \<Longrightarrow> decode_integer (d @ x) = Inr (i, rest @ x)"
  by (cases d) (auto simp: decode_integer_def split_at_extend split: option.splits if_splits)

lemma decode_integer_range:
  "decode_integer d = Inr (i, rest) \<Longrightarrow> int64_min \<le> i \<and> i \<le> int64_max"
  by (auto simp: decode_integer_def split: option.splits if_splits dest!: from_chars_range)

lemma decode_extend_all:
  "\<forall>v rest. decode_value d1 = Inr (v, rest) \<longrightarrow> decode_value (d1 @ x) = Inr (v, rest @ x)"
  "\<forall>v rest. decode_list d2 = Inr (v, rest) \<longrightarrow> decode_list (d2 @ x) = Inr (v, rest @ x)"
  "\<forall>v rest. decode_list_loop r3 d3 = Inr (v, rest) \<longrightarrow> decode_list_loop r3 (d3 @ x) = Inr (v, rest @ x)"
  "\<forall>v rest. decode_dict d4 = Inr (v, rest) \<longrightarrow> decode_dict (d4 @ x) = Inr (v, rest @ x)"
  "\<forall>v rest. decode_dict_loop r5 d5 = Inr (v, rest) \<longrightarrow> decode_dict_loop r5 (d5 @ x) = Inr (v, rest @ x)"
proof (induct d1 and d2 and r3 d3 and d4 and r5 d5
    rule: decode_value_decode_list_decode_list_loop_decode_dict_decode_dict_loop.induct)
  case (1 data)
  show ?case
  proof (intro allI impI)
    fix v rest
    assume dec: "decode_value data = Inr (v, rest)"
    then have ne: "data \<noteq> []" by (auto simp: decode_value.simps)
    consider "is_digit (hd data)" | "hd data = CHR ''i''" | "hd data = CHR ''l''" | "hd data = CHR ''d''"
      using dec ne by (auto simp: decode_value.simps split: if_splits)
    then show "decode_value (data @ x) = Inr (v, rest @ x)"
    proof cases
      case 1
      with dec ne show ?thesis
        by (auto simp: decode_value.simps decode_string_extend split: sum.splits prod.splits)
    next
      case 2
      with dec ne show ?thesis
        by (auto simp: decode_value.simps decode_integer_extend split: sum.splits prod.splits)
    next
      case 3
      with dec ne "1.hyps"(1) show ?thesis
        by (auto simp: decode_value.simps split: sum.splits prod.splits)
    next
      case 4
      with dec ne "1.hyps"(2) show ?thesis
        by (auto simp: decode_value.simps split: sum.splits prod.splits)
    qed
  qed
next
  case (2 data)
  then show ?case
    by (auto simp: decode_list.simps split: if_splits)
next
  case (3 result data)
  then show ?case
    by (auto simp: decode_list_loop.simps [of result data] decode_list_loop.simps [of result "data @ x"]
        split: if_splits sum.splits prod.splits)
next
  case (4 data)
  then show ?case
    by (auto simp: decode_dict.simps split: if_splits)
next
  case (5 result data)
  show ?case
  proof (intro allI impI)
    fix v rest
    assume dec: "decode_dict_loop result data = Inr (v, rest)"
    then have ne: "data \<noteq> []" by (auto simp: decode_dict_loop.simps)
    show "decode_dict_loop result (data @ x) = Inr (v, rest @ x)"
    proof (cases "hd data = CHR ''e''")
      case True
      with dec ne show ?thesis by (auto simp: decode_dict_loop.simps)
    next
      case False
      with dec ne obtain key r1 val r2 where str: "decode_string data = Inr (key, r1)"
        and val: "decode_value r1 = Inr (val, r2)"
        and loop: "decode_dict_loop (map_emplace key val result) r2 = Inr (v, rest)"
        by (subst (asm) decode_dict_loop.simps) (auto split: sum.splits prod.splits)
      have "decode_value (r1 @ x) = Inr (val, r2 @ x)"
        using "5.hyps"(1) [OF ne False str] val by simp
      moreover have "decode_dict_loop (map_emplace key val result) (r2 @ x) = Inr (v, rest @ x)"
        using "5.hyps"(2) [OF ne False str _ val] loop by simp
      ultimately show ?thesis
        using ne False decode_string_extend [OF str, of x] by (subst decode_dict_loop.simps) simp
    qed
  qed
qed

lemma valid_value_emplace:
  "valid_value (Dict d) \<Longrightarrow> int (length k) \<le> int64_max \<Longrightarrow> valid_value v \<Longrightarrow>
    valid_value (Dict (map_emplace k v d))"
  using set_map_emplace [of k v d] by auto

lemma decode_valid_all:
  "\<forall>v rest. decode_value d1 = Inr (v, rest) \<longrightarrow> valid_value v"
  "\<forall>v rest. decode_list d2 = Inr (v, rest) \<longrightarrow> valid_value (List v)"
  "\<forall>v rest. decode_list_loop r3 d3 = Inr (v, rest) \<longrightarrow> valid_value (List r3) \<longrightarrow> valid_value (List v)"
  "\<forall>v rest. decode_dict d4 = Inr (v, rest) \<longrightarrow> valid_value (Dict v)"
  "\<forall>v rest. decode_dict_loop r5 d5 = Inr (v, rest) \<longrightarrow> valid_value (Dict r5) \<longrightarrow> valid_value (Dict v)"
proof (induct d1 and d2 and r3 d3 and d4 and r5 d5
    rule: decode_value_decode_list_decode_list_loop_decode_dict_decode_dict_loop.induct)
  case (1 data)
  then show ?case
    by (auto simp: decode_value.simps [of data] simp del: valid_value.simps(3,4)
        split: if_splits sum.splits prod.splits dest: decode_string_length decode_integer_range)
next
  case (2 data)
  then show ?case
    by (auto simp: decode_list.simps split: if_splits)
next
  case (3 result data)
  then show ?case
    by (auto simp: decode_list_loop.simps [of result data] split: if_splits sum.splits prod.splits)
next
  case (4 data)
  then show ?case
    by (auto simp: decode_dict.simps split: if_splits)
next
  case (5 result data)
  then show ?case
    by (auto simp: decode_dict_loop.simps [of result data] simp del: valid_value.simps
        split: if_splits sum.splits prod.splits)
      (metis valid_value_emplace decode_string_length)
qed

subsection \<open>Properties\<close>

interpretation bencode: prefix_codec encode decode_value valid_value
  by unfold_locales (rule decode_value_encode)

lemma decode_eq: "decode d = Inr v \<longleftrightarrow> decode_value d = Inr (v, [])"
proof
  assume "decode d = Inr v"
  then obtain rest where dv: "decode_value d = Inr (v, rest)" and "length d - length rest = length d"
    by (auto simp: decode_def decode_prefix_def split: sum.splits if_splits)
  moreover have "d \<noteq> []"
    using dv by (auto simp: decode_value.simps)
  ultimately show "decode_value d = Inr (v, [])"
    by (cases d; cases rest) auto
qed (simp add: decode_def decode_prefix_def)

lemma decode_of_encode [codec_simps]: "valid_value v \<Longrightarrow> decode (encode v) = Inr v"
  using bencode.dec_enc_whole by (simp add: decode_eq)

text \<open>C12: the round trip.  Every value that meets the C++ type invariant is decoded back from its
  encoding, unchanged and without an error.\<close>

theorem decode_encode:
  assumes "valid_value v"
  shows "decode (encode v) = Inr v"
  using assms by (rule decode_of_encode)

theorem decode_encode_witness:
  "decode (encode (Dict [(''a'', Integer (- 42)), (''b'', List [String ''xy'', Dict []])])) =
    Inr (Dict [(''a'', Integer (- 42)), (''b'', List [String ''xy'', Dict []])])"
  by (rule decode_encode) (simp add: int64_min_def int64_max_def)

text \<open>C27: whatever document the decoder accepts (canonical or not), the value it returns meets the
  type invariant, and re-encoding it gives a document that decodes to the same value.\<close>

theorem decode_sound:
  assumes "decode d = Inr v"
  shows "valid_value v \<and> decode (encode v) = Inr v"
proof -
  have "valid_value v"
    using assms decode_valid_all(1) [of d] by (auto simp: decode_eq)
  then show ?thesis
    using decode_of_encode by blast
qed

theorem decode_sound_witness:
  "decode ''d1:b1:x1:ai7e1:bi8ee'' = Inr (Dict [(''a'', Integer 7), (''b'', String ''x'')]) \<and>
    decode (encode (Dict [(''a'', Integer 7), (''b'', String ''x'')])) =
      Inr (Dict [(''a'', Integer 7), (''b'', String ''x'')])"
proof -
  have dec: "decode ''d1:b1:x1:ai7e1:bi8ee'' = Inr (Dict [(''a'', Integer 7), (''b'', String ''x'')])"
    by code_simp
  show ?thesis
    using dec decode_sound [OF dec] by simp
qed

text \<open>the format is self-delimiting: a document that is cut short anywhere is rejected with an
  error, never decoded to some other value.\<close>

theorem decode_truncated:
  assumes "valid_value v" "n < length (encode v)"
  shows "\<exists>e. decode (take n (encode v)) = Inl e"
proof (rule ccontr)
  assume "\<not> ?thesis"
  then obtain w where "decode (take n (encode v)) = Inr w"
    by (cases "decode (take n (encode v))") auto
  then have "decode_value (take n (encode v)) = Inr (w, [])"
    by (simp add: decode_eq)
  then have "decode_value (take n (encode v) @ drop n (encode v)) = Inr (w, [] @ drop n (encode v))"
    using decode_extend_all(1) by blast
  then show False
    using bencode.dec_enc_whole [OF assms(1)] assms(2) by auto
qed

theorem decode_truncated_witness: "\<exists>e. decode (take 3 (encode (String ''spam''))) = Inl e"
proof -
  have "length (encode (String ''spam'')) = 6" by code_simp
  then show ?thesis
    by (intro decode_truncated) (simp_all add: int64_max_def)
qed

text \<open>The length prefix of a string is read with \<^verbatim>\<open>std::from_chars\<close> and the position where it stopped
  is not compared with the colon, so text between the digits and the colon is ignored.  The decoder
  of integers does compare it.\<close>

lemma decode_string_ignores_junk: "decode ''3zz:abc'' = Inr (String ''abc'')"
  by code_simp

lemma decode_integer_rejects_junk: "decode ''i3zze'' = Inl BadInteger"
  by code_simp

end
