(* ===== verification/Wire.thy ===== *)
theory Wire
  imports Prelude
begin

text \<open>
  The byte-level part of \<^verbatim>\<open>src/src/Utils.hpp\<close>: the buffer writer and reader, hexadecimal text,
  peer and node identifiers, addresses, the message-type enumerations, the peer handshake and the
  request and reject payloads.

  A \<^verbatim>\<open>std::array<std::byte, 20>\<close> is a byte list of length twenty; the record predicates
  (\<open>valid_handshake\<close>) carry that length.  The reader returns what it read together with the rest of
  its view.  Lemmas: the length of everything that is written, and that each reader inverts its
  writer.
\<close>

unbundle bit_operations_syntax

subsection \<open>Definitions: constants and errors\<close>

datatype wire_error =
    NotEnoughData | InvalidIdLength | OddHexLength | InvalidHex
  | InvalidAddress | InvalidPort
  | InvalidHandshakeSize | InvalidProtocolLength | ProtocolMismatch
  | InvalidRequestSize | InvalidRejectSize

definition PROTOCOL_STRING :: string where
  "PROTOCOL_STRING = ''BitTorrent protocol''"

definition HASH_SIZE :: nat where "HASH_SIZE = 20"
definition PEER_ID_SIZE :: nat where "PEER_ID_SIZE = 20"
definition HANDSHAKE_RESERVED_BYTES :: nat where "HANDSHAKE_RESERVED_BYTES = 8"

definition HANDSHAKE_BASE_LEN :: nat where
  "HANDSHAKE_BASE_LEN =
    1 + length PROTOCOL_STRING + HANDSHAKE_RESERVED_BYTES + HASH_SIZE + PEER_ID_SIZE"

definition BLOCK_SIZE :: nat where "BLOCK_SIZE = 16384"

lemmas wire_constants =
  HASH_SIZE_def PEER_ID_SIZE_def HANDSHAKE_RESERVED_BYTES_def HANDSHAKE_BASE_LEN_def
  PROTOCOL_STRING_def

type_synonym id20 = "byte list"

definition valid_id :: "id20 \<Rightarrow> bool" where
  "valid_id i \<longleftrightarrow> length i = 20"

subsection \<open>Definitions: addresses and identifiers\<close>

text \<open>\<^verbatim>\<open>std::stoul\<close>: white space, an optional sign, digits; what follows is ignored.  A minus sign
  negates in the unsigned type.\<close>

definition stoul :: "string \<Rightarrow> u64 option" where
  "stoul s =
    (let t = dropWhile is_space s;
         neg = (t \<noteq> [] \<and> hd t = CHR ''-'');
         u = (if t \<noteq> [] \<and> hd t \<in> {CHR ''-'', CHR ''+''} then tl t else t);
         (ds, _) = span_digits 10 u;
         v = digits_value 10 ds
     in if ds = [] \<or> 2 ^ 64 \<le> v then None
        else Some (if neg then - of_nat v else of_nat v))"

definition decode_address :: "string \<Rightarrow> wire_error + string \<times> u16" where
  "decode_address addr =
    (case split_at CHR '':'' addr of
       None \<Rightarrow> Inl InvalidAddress
     | Some (ip, port_str) \<Rightarrow>
         (case stoul port_str of
            None \<Rightarrow> Inl InvalidPort
          | Some v \<Rightarrow> Inr (ip, ucast v)))"

definition PEER_ID_PREFIX :: string where "PEER_ID_PREFIX = ''-qB5230-''"
definition NODE_ID_PREFIX :: string where "NODE_ID_PREFIX = ''''"

definition ALPHANUM :: string where
  "ALPHANUM = ''0123456789ABCDEFGHIJKLMNOPQRSTUVWXYZabcdefghijklmnopqrstuvwxyz''"

text \<open>The random generator is a parameter: \<open>draw i\<close> is what it yields for position \<open>i\<close>, reduced to
  the interval \<open>0 \<dots> 61\<close> the uniform distribution is set to.  A prefix longer than twenty characters
  fails the assertion (\<open>None\<close>).\<close>

definition generate_id :: "(nat \<Rightarrow> nat) \<Rightarrow> string \<Rightarrow> id20 option" where
  "generate_id draw prefix =
    (if 20 < length prefix then None
     else Some (bytes_of_string prefix @
       map (\<lambda>i. byte_of_char (ALPHANUM ! (draw i mod length ALPHANUM))) [length prefix..<20]))"

definition id_to_string :: "id20 \<Rightarrow> string" where
  "id_to_string arr = string_of_bytes arr"

definition id_from_string :: "string \<Rightarrow> wire_error + id20" where
  "id_from_string sv = (if length sv \<noteq> 20 then Inl InvalidIdLength else Inr (bytes_of_string sv))"

subsection \<open>Definitions: buffers\<close>

definition write_bytes :: "byte list \<Rightarrow> byte list \<Rightarrow> byte list" where
  "write_bytes buffer data = buffer @ data"

definition write_raw :: "byte list \<Rightarrow> string \<Rightarrow> byte list" where
  "write_raw buffer sv = buffer @ bytes_of_string sv"

definition read_bytes :: "nat \<Rightarrow> byte list \<Rightarrow> wire_error + byte list \<times> byte list" where
  "read_bytes n view =
    (if length view < n then Inl NotEnoughData else Inr (take n view, drop n view))"

definition read_u8 :: "byte list \<Rightarrow> wire_error + byte \<times> byte list" where
  "read_u8 view = (case read_bytes 1 view of Inl e \<Rightarrow> Inl e | Inr (v, rest) \<Rightarrow> Inr (hd v, rest))"

text \<open>A four-byte read followed by \<^verbatim>\<open>network_to_host_long\<close>.\<close>

definition read_u32 :: "byte list \<Rightarrow> wire_error + u32 \<times> byte list" where
  "read_u32 view = (case read_bytes 4 view of Inl e \<Rightarrow> Inl e | Inr (v, rest) \<Rightarrow> Inr (get32 v, rest))"

subsection \<open>Definitions: hexadecimal text\<close>

definition bytes_to_hex :: "byte list \<Rightarrow> string" where
  "bytes_to_hex data =
    concat (map (\<lambda>b. [digit_char (unat b div 16), digit_char (unat b mod 16)]) data)"

fun hex_pairs :: "string \<Rightarrow> wire_error + byte list" where
  "hex_pairs (a # b # rest) =
    (case from_chars_unsigned 16 (2 ^ 32 - 1) [a, b] of
       Some (value, []) \<Rightarrow>
         (case hex_pairs rest of Inl e \<Rightarrow> Inl e | Inr bs \<Rightarrow> Inr (of_nat value # bs))
     | _ \<Rightarrow> Inl InvalidHex)"
| "hex_pairs _ = Inr []"

definition hex_to_bytes :: "string \<Rightarrow> wire_error + byte list" where
  "hex_to_bytes hex = (if length hex mod 2 \<noteq> 0 then Inl OddHexLength else hex_pairs hex)"

subsection \<open>Definitions: message types\<close>

datatype MessageType =
    Choke | Unchoke | Interested | NotInterested | Have | Bitfield | Request | Piece | Cancel
  | Port | Reject | HaveNone | HaveAll | AllowedFast | ExtendedMessage

fun message_code :: "MessageType \<Rightarrow> byte" where
  "message_code Choke = 0"
| "message_code Unchoke = 1"
| "message_code Interested = 2"
| "message_code NotInterested = 3"
| "message_code Have = 4"
| "message_code Bitfield = 5"
| "message_code Request = 6"
| "message_code Piece = 7"
| "message_code Cancel = 8"
| "message_code Port = 9"
| "message_code Reject = 16"
| "message_code HaveNone = 15"
| "message_code HaveAll = 14"
| "message_code AllowedFast = 17"
| "message_code ExtendedMessage = 20"

definition all_message_types :: "MessageType list" where
  "all_message_types =
    [Choke, Unchoke, Interested, NotInterested, Have, Bitfield, Request, Piece, Cancel,
     Port, Reject, HaveNone, HaveAll, AllowedFast, ExtendedMessage]"

text \<open>The enumerator a byte is cast to, if it names one.\<close>

definition message_type_of :: "byte \<Rightarrow> MessageType option" where
  "message_type_of b = find (\<lambda>t. message_code t = b) all_message_types"

datatype ExtendedMessageType = ExtHandshake | ut_pex | ut_metadata | ExtUNKNOWN

fun extended_code :: "ExtendedMessageType \<Rightarrow> byte" where
  "extended_code ExtHandshake = 0"
| "extended_code ut_pex = 1"
| "extended_code ut_metadata = 3"
| "extended_code ExtUNKNOWN = 255"

definition to_extended_type :: "string \<Rightarrow> ExtendedMessageType" where
  "to_extended_type s =
    (if s = ''ut_pex'' then ut_pex else if s = ''ut_metadata'' then ut_metadata else ExtUNKNOWN)"

subsection \<open>Definitions: handshake, request and reject\<close>

record Handshake =
  info_hash_bytes :: id20
  peer_id_bytes :: id20
  extended :: bool
  fast_extension :: bool

definition handshake_serialize :: "Handshake \<Rightarrow> byte list" where
  "handshake_serialize hs =
    (let buffer = write_bytes [] [of_nat (length PROTOCOL_STRING)];
         buffer = write_raw buffer PROTOCOL_STRING;
         reserved = replicate HANDSHAKE_RESERVED_BYTES (0 :: byte);
         reserved = (if extended hs then reserved[5 := (reserved ! 5) OR 0x10] else reserved);
         reserved = reserved[7 := (reserved ! 7) OR 0x01];
         reserved = (if fast_extension hs then reserved[7 := (reserved ! 7) OR 0x04] else reserved);
         buffer = write_bytes buffer reserved;
         buffer = write_bytes buffer (info_hash_bytes hs)
     in write_bytes buffer (peer_id_bytes hs))"

definition handshake_deserialize :: "byte list \<Rightarrow> wire_error + Handshake" where
  "handshake_deserialize buffer =
    (if length buffer \<noteq> HANDSHAKE_BASE_LEN then Inl InvalidHandshakeSize
     else case read_u8 buffer of Inl e \<Rightarrow> Inl e | Inr (pstrlen, view) \<Rightarrow>
       if unat pstrlen \<noteq> length PROTOCOL_STRING then Inl InvalidProtocolLength
       else case read_bytes (unat pstrlen) view of Inl e \<Rightarrow> Inl e | Inr (pstr, view) \<Rightarrow>
         if string_of_bytes pstr \<noteq> PROTOCOL_STRING then Inl ProtocolMismatch
         else case read_bytes HANDSHAKE_RESERVED_BYTES view of Inl e \<Rightarrow> Inl e | Inr (reserved, view) \<Rightarrow>
           (case read_bytes HASH_SIZE view of Inl e \<Rightarrow> Inl e | Inr (info_hash, view) \<Rightarrow>
             (case read_bytes PEER_ID_SIZE view of Inl e \<Rightarrow> Inl e | Inr (peer_id, view) \<Rightarrow>
               Inr \<lparr> info_hash_bytes = info_hash, peer_id_bytes = peer_id,
                     extended = ((reserved ! 5) AND 0x10 \<noteq> 0),
                     fast_extension = ((reserved ! 7) AND 0x04 \<noteq> 0) \<rparr>)))"

definition valid_handshake :: "Handshake \<Rightarrow> bool" where
  "valid_handshake hs \<longleftrightarrow> valid_id (info_hash_bytes hs) \<and> valid_id (peer_id_bytes hs)"

record RequestPayload =
  rq_index :: u32
  rq_begin :: u32
  rq_length :: u32

definition request_serialize :: "u32 \<Rightarrow> u32 \<Rightarrow> u32 \<Rightarrow> byte list" where
  "request_serialize index begin len =
    write_bytes (write_bytes (write_bytes [] (put32 index)) (put32 begin)) (put32 len)"

definition request_deserialize :: "byte list \<Rightarrow> wire_error + RequestPayload" where
  "request_deserialize payload =
    (if length payload < 12 then Inl InvalidRequestSize
     else case read_u32 payload of Inl e \<Rightarrow> Inl e | Inr (index, view) \<Rightarrow>
       (case read_u32 view of Inl e \<Rightarrow> Inl e | Inr (begin, view) \<Rightarrow>
         (case read_u32 view of Inl e \<Rightarrow> Inl e | Inr (len, view) \<Rightarrow>
           Inr \<lparr> rq_index = index, rq_begin = begin, rq_length = len \<rparr>)))"

definition reject_serialize :: "u32 \<Rightarrow> u32 \<Rightarrow> u32 \<Rightarrow> byte list" where
  "reject_serialize index begin len = request_serialize index begin len"

definition reject_deserialize :: "byte list \<Rightarrow> wire_error + RequestPayload" where
  "reject_deserialize payload =
    (if length payload < 12 then Inl InvalidRejectSize else request_deserialize payload)"

subsection \<open>Buffers\<close>

lemma read_bytes_append [simp]: "length a = n \<Longrightarrow> read_bytes n (a @ b) = Inr (a, b)"
  by (simp add: read_bytes_def)

lemma read_u32_put32 [simp]: "read_u32 (put32 w @ rest) = Inr (w, rest)"
  by (simp add: read_u32_def)

lemma read_u8_Cons [simp]: "read_u8 (b # rest) = Inr (b, rest)"
  by (simp add: read_u8_def read_bytes_def)

lemma id_round_trip: "valid_id i \<Longrightarrow> id_from_string (id_to_string i) = Inr i"
  by (simp add: id_from_string_def id_to_string_def valid_id_def)

lemma id_to_string_from_string: "id_from_string s = Inr i \<Longrightarrow> valid_id i \<and> id_to_string i = s"
  by (auto simp: id_from_string_def id_to_string_def valid_id_def split: if_splits)

lemma generate_id_valid: "length prefix \<le> 20 \<Longrightarrow> \<exists>i. generate_id draw prefix = Some i \<and> valid_id i"
  by (auto simp: generate_id_def valid_id_def)

subsection \<open>Hexadecimal text\<close>

lemma hex_pair_value:
  "from_chars_unsigned 16 4294967295 [digit_char (unat (b::byte) div 16), digit_char (unat b mod 16)]
    = Some (unat b, [])"
proof -
  have "unat b < 256"
    using unat_bound [of b] by simp
  then have "unat b div 16 < 16" by simp
  moreover have "unat b div 16 * 16 + unat b mod 16 = unat b" by simp
  ultimately show ?thesis
    using \<open>unat b < 256\<close> by (simp add: from_chars_unsigned_def digits_value_def)
qed

lemma hex_pairs_bytes_to_hex: "hex_pairs (bytes_to_hex bs) = Inr bs"
  by (induction bs) (simp_all add: bytes_to_hex_def hex_pair_value del: One_nat_def)

lemma even_length_bytes_to_hex: "length (bytes_to_hex bs) = 2 * length bs"
  by (induction bs) (simp_all add: bytes_to_hex_def)

lemma hex_to_bytes_to_hex [codec_simps]: "hex_to_bytes (bytes_to_hex bs) = Inr bs"
  by (simp add: hex_to_bytes_def hex_pairs_bytes_to_hex even_length_bytes_to_hex)

subsection \<open>Message types\<close>

lemma message_type_of_code [simp]: "message_type_of (message_code t) = Some t"
  by (cases t) (simp_all add: message_type_of_def all_message_types_def)

lemma message_type_of_Some: "message_type_of b = Some t \<longleftrightarrow> message_code t = b"
proof
  show "message_type_of b = Some t \<Longrightarrow> message_code t = b"
    by (auto simp: message_type_of_def find_Some_iff)
qed auto

subsection \<open>Handshake, request and reject\<close>

lemma handshake_bytes:
  "handshake_serialize hs =
    19 # bytes_of_string PROTOCOL_STRING @
    [0, 0, 0, 0, 0, if extended hs then 0x10 else 0, 0, if fast_extension hs then 0x05 else 0x01] @
    info_hash_bytes hs @ peer_id_bytes hs"
  by (simp add: handshake_serialize_def write_bytes_def write_raw_def wire_constants Let_def
      numeral_eq_Suc)

lemma length_handshake [simp]:
  "valid_handshake hs \<Longrightarrow> length (handshake_serialize hs) = HANDSHAKE_BASE_LEN"
  by (simp add: handshake_bytes valid_handshake_def valid_id_def wire_constants)

lemma request_bytes: "request_serialize i b l = put32 i @ put32 b @ put32 l"
  by (simp add: request_serialize_def write_bytes_def)

lemma length_request [simp]: "length (request_serialize i b l) = 12"
  by (simp add: request_bytes)

lemma request_deserialize_append:
  "request_deserialize (request_serialize i b l @ rest) =
    Inr \<lparr> rq_index = i, rq_begin = b, rq_length = l \<rparr>"
  by (simp add: request_deserialize_def request_bytes)

lemma handshake_deserialize_serialize:
  "valid_handshake hs \<Longrightarrow> handshake_deserialize (handshake_serialize hs) = Inr hs"
  by (cases hs) (auto simp: handshake_deserialize_def handshake_bytes read_bytes_def
      valid_handshake_def valid_id_def wire_constants read_u8_def)

lemma handshake_deserialize_valid:
  "handshake_deserialize b = Inr hs \<Longrightarrow> valid_handshake hs"
  by (auto simp: handshake_deserialize_def read_bytes_def valid_handshake_def valid_id_def
      wire_constants split: if_splits sum.splits)

lemma request_deserialize_total:
  "12 \<le> length p \<Longrightarrow> request_deserialize p =
    Inr \<lparr> rq_index = get32 (take 4 p), rq_begin = get32 (take 4 (drop 4 p)),
      rq_length = get32 (take 4 (drop 8 p)) \<rparr>"
  by (auto simp: request_deserialize_def read_u32_def read_bytes_def)

lemma request_serialize_get:
  assumes "length p = 12"
  shows "request_serialize (get32 (take 4 p)) (get32 (take 4 (drop 4 p))) (get32 (drop 8 p)) = p"
proof -
  have "take 4 p @ take 4 (drop 4 p) @ drop 8 p = p"
    using append_take_drop_id [of 4 p] append_take_drop_id [of 4 "drop 4 p"] by simp
  then show ?thesis
    using assms by (simp add: request_bytes put32_get32)
qed

text \<open>C40: the peer handshake.  What is serialized is accepted on the other side with the same info
  hash, peer id and extension bits, it is exactly 68 bytes long, and anything the reader accepts
  carries two twenty-byte identifiers.\<close>

theorem handshake_round_trip:
  "(valid_handshake hs \<longrightarrow>
      handshake_deserialize (handshake_serialize hs) = Inr hs \<and> length (handshake_serialize hs) = 68) \<and>
    (handshake_deserialize b = Inr hs' \<longrightarrow> valid_handshake hs' \<and> length b = 68)"
proof (intro conjI impI)
  assume "handshake_deserialize b = Inr hs'"
  then show "length b = 68"
    by (auto simp: handshake_deserialize_def wire_constants split: if_splits)
qed (simp_all add: handshake_deserialize_serialize handshake_deserialize_valid, simp add: wire_constants)

theorem handshake_round_trip_witness:
  "handshake_deserialize (handshake_serialize
      \<lparr> info_hash_bytes = replicate 20 7, peer_id_bytes = replicate 20 9,
        extended = True, fast_extension = False \<rparr>) =
    Inr \<lparr> info_hash_bytes = replicate 20 7, peer_id_bytes = replicate 20 9,
        extended = True, fast_extension = False \<rparr>"
  using handshake_round_trip [of
      "\<lparr> info_hash_bytes = replicate 20 7, peer_id_bytes = replicate 20 9,
        extended = True, fast_extension = False \<rparr>" "[]" undefined]
  by (simp add: valid_handshake_def valid_id_def)

text \<open>request and reject payloads are in bijection with the twelve-byte strings: writing and
  reading back gives the three fields, reading any twelve bytes and writing them back gives the
  bytes, and shorter input is an error.\<close>

theorem request_round_trip:
  "request_deserialize (request_serialize i b l) = Inr \<lparr> rq_index = i, rq_begin = b, rq_length = l \<rparr> \<and>
   reject_deserialize (reject_serialize i b l) = Inr \<lparr> rq_index = i, rq_begin = b, rq_length = l \<rparr> \<and>
   (length p = 12 \<longrightarrow> (\<exists>r. request_deserialize p = Inr r \<and>
      request_serialize (rq_index r) (rq_begin r) (rq_length r) = p)) \<and>
   (length p < 12 \<longrightarrow> request_deserialize p = Inl InvalidRequestSize \<and>
      reject_deserialize p = Inl InvalidRejectSize)"
proof (intro conjI impI)
  assume "length p = 12"
  then show "\<exists>r. request_deserialize p = Inr r \<and>
      request_serialize (rq_index r) (rq_begin r) (rq_length r) = p"
    by (simp add: request_deserialize_total request_serialize_get)
qed (use request_deserialize_append [of i b l "[]"] in
    \<open>simp_all add: reject_deserialize_def reject_serialize_def request_deserialize_def\<close>)

theorem request_round_trip_witness:
  "(\<exists>r. request_deserialize [0, 0, 0, 1, 0, 0, 64, 0, 0, 0, 64, 0] = Inr r \<and>
      request_serialize (rq_index r) (rq_begin r) (rq_length r) = [0, 0, 0, 1, 0, 0, 64, 0, 0, 0, 64, 0]) \<and>
    request_deserialize [1] = Inl InvalidRequestSize"
  using request_round_trip [of 0 0 0 "[0, 0, 0, 1, 0, 0, 64, 0, 0, 0, 64, 0]"]
    request_round_trip [of 0 0 0 "[1]"] by simp

end
