(* ===== verification/Backoff.thy ===== *)
theory Backoff
  imports Prelude
begin

text \<open>
  Retry back-off (\<^verbatim>\<open>BackoffState\<close> and \<^verbatim>\<open>calculate_backoff_delay\<close> of \<^verbatim>\<open>src/src/Utils.hpp\<close>), used for
  trackers by the session and for peer addresses by the peer manager.

  Time points are nanoseconds of the steady clock (\<^verbatim>\<open>TimePoint{}\<close> is 0), delays are seconds; the
  clock is read once per call and passed as \<open>now\<close>.  The shift \<^verbatim>\<open>1 << attempt_count\<close> is done in a
  32-bit \<^verbatim>\<open>int\<close>: up to 30 it is the power of two, at 31 it is the smallest \<^verbatim>\<open>int\<close>, and outside
  \<open>0 \<dots> 31\<close> it is undefined behaviour (\<open>None\<close>).  The product with the initial delay is not bounded in
  the model; for the delays the callers pass (at most minutes) it is far below the 64 bits of the code.
\<close>

subsection \<open>Definitions\<close>

record BackoffState =
  attempt_count :: int
  next_retry_at :: int
  last_success_at :: int

definition new_backoff :: BackoffState where
  "new_backoff = \<lparr> attempt_count = 0, next_retry_at = 0, last_success_at = 0 \<rparr>"

definition kDefaultInitialDelay :: int where "kDefaultInitialDelay = 30"
definition kMaxDelay :: int where "kMaxDelay = 30 * 60"
definition nanos :: int where "nanos = 1000000000"
definition kResetAfterIdle :: int where "kResetAfterIdle = 3600 * nanos"

definition shift_one :: "int \<Rightarrow> int option" where
  "shift_one n =
    (if n < 0 \<or> 31 < n then None
     else Some (if n = 31 then - (2 ^ 31) else 2 ^ nat n))"

definition calculate_backoff_delay :: "int \<Rightarrow> int \<Rightarrow> int \<Rightarrow> int option" where
  "calculate_backoff_delay attempts initial_delay max_delay =
    map_option (\<lambda>f. let delay = initial_delay * f in if delay > max_delay then max_delay else delay)
      (shift_one attempts)"

definition is_in_backoff :: "int \<Rightarrow> BackoffState \<Rightarrow> bool" where
  "is_in_backoff now s =
    (if last_success_at s \<noteq> 0 \<and> now - last_success_at s > kResetAfterIdle then False
     else attempt_count s > 0 \<and> now < next_retry_at s)"

definition get_delay :: "int \<Rightarrow> BackoffState \<Rightarrow> int option" where
  "get_delay initial_delay s = calculate_backoff_delay (attempt_count s) initial_delay kMaxDelay"

definition on_success :: "int \<Rightarrow> BackoffState \<Rightarrow> BackoffState" where
  "on_success now s = s\<lparr> attempt_count := 0, last_success_at := now, next_retry_at := 0 \<rparr>"

definition on_failure :: "int \<Rightarrow> int \<Rightarrow> BackoffState \<Rightarrow> BackoffState option" where
  "on_failure now initial_delay s =
    (let s' = s\<lparr> attempt_count := attempt_count s + 1 \<rparr>
     in map_option (\<lambda>delay. s'\<lparr> next_retry_at := now + delay * nanos \<rparr>)
          (calculate_backoff_delay (attempt_count s') initial_delay kMaxDelay))"

definition check_and_reset_if_idle :: "int \<Rightarrow> BackoffState \<Rightarrow> bool \<times> BackoffState" where
  "check_and_reset_if_idle now s =
    (if attempt_count s > 0 \<and> last_success_at s \<noteq> 0 \<and> now - last_success_at s > kResetAfterIdle
     then (True, s\<lparr> attempt_count := 0, next_retry_at := 0 \<rparr>)
     else (False, s))"

text \<open>A run of failures, each at its own time, with the same initial delay.\<close>

fun fail_all :: "int list \<Rightarrow> int \<Rightarrow> BackoffState \<Rightarrow> BackoffState option" where
  "fail_all [] initial_delay s = Some s"
| "fail_all (now # nows) initial_delay s =
    Option.bind (on_failure now initial_delay s) (fail_all nows initial_delay)"

subsection \<open>The delay\<close>

lemma shift_one_pow: "0 \<le> n \<Longrightarrow> n \<le> 30 \<Longrightarrow> shift_one n = Some (2 ^ nat n)"
  by (simp add: shift_one_def)

lemma backoff_delay_min:
  "0 \<le> n \<Longrightarrow> n \<le> 30 \<Longrightarrow> calculate_backoff_delay n i m = Some (min (i * 2 ^ nat n) m)"
  by (simp add: calculate_backoff_delay_def shift_one_pow min_def)

lemma on_failure_next:
  "0 \<le> attempt_count s \<Longrightarrow> attempt_count s < 30 \<Longrightarrow>
    on_failure now i s = Some (s\<lparr> attempt_count := attempt_count s + 1,
      next_retry_at := now + min (i * 2 ^ nat (attempt_count s + 1)) kMaxDelay * nanos \<rparr>)"
  by (simp add: on_failure_def backoff_delay_min)

lemma fail_all_count:
  "0 \<le> attempt_count s \<Longrightarrow> attempt_count s + int (length nows) \<le> 30 \<Longrightarrow>
    \<exists>s'. fail_all nows i s = Some s' \<and> attempt_count s' = attempt_count s + int (length nows) \<and>
      last_success_at s' = last_success_at s"
proof (induction nows arbitrary: s)
  case (Cons now nows)
  define s1 where "s1 = s\<lparr> attempt_count := attempt_count s + 1,
    next_retry_at := now + min (i * 2 ^ nat (attempt_count s + 1)) kMaxDelay * nanos \<rparr>"
  have "on_failure now i s = Some s1"
    using Cons.prems by (simp add: on_failure_next s1_def)
  then show ?case
    using Cons.IH [of s1] Cons.prems by (auto simp: s1_def)
qed simp

text \<open>the delay after a failure.  Take a back-off state with no failure counted, that has seen no success or one
  at most an hour ago.  For up to thirty failures in a row from then on it counts them, the next try is
  exactly the doubled and capped delay away, at least one second and at most thirty minutes later, and right
  after the failure the state reports itself in back-off.\<close>

theorem backoff_after_failures:
  assumes "length nows < 30" and "1 \<le> i" and "last_success_at s = 0 \<or> now - last_success_at s \<le> kResetAfterIdle"
    and "attempt_count s = 0"
  shows "\<exists>s1 s2. fail_all nows i s = Some s1 \<and> on_failure now i s1 = Some s2 \<and>
    attempt_count s2 = int (length nows) + 1 \<and>
    next_retry_at s2 = now + min (i * 2 ^ (length nows + 1)) kMaxDelay * nanos \<and>
    now + nanos \<le> next_retry_at s2 \<and> next_retry_at s2 \<le> now + kMaxDelay * nanos \<and>
    is_in_backoff now s2"
proof -
  obtain s1 where s1: "fail_all nows i s = Some s1" "attempt_count s1 = int (length nows)"
    "last_success_at s1 = last_success_at s"
    using fail_all_count [of s nows i] assms by auto
  have nat: "nat (int (length nows) + 1) = length nows + 1" by simp
  have "on_failure now i s1 = Some (s1\<lparr> attempt_count := int (length nows) + 1,
      next_retry_at := now + min (i * 2 ^ (length nows + 1)) kMaxDelay * nanos \<rparr>)"
    using assms(1) s1(2) by (simp add: on_failure_next nat)
  moreover have "1 * 1 \<le> i * 2 ^ (length nows + 1)"
    using assms(2) by (intro mult_mono one_le_power) simp_all
  then have "1 \<le> min (i * 2 ^ (length nows + 1)) kMaxDelay"
    by (simp add: kMaxDelay_def)
  then have "1 * nanos \<le> min (i * 2 ^ (length nows + 1)) kMaxDelay * nanos"
    by (intro mult_right_mono) (simp_all add: nanos_def)
  moreover have "min (i * 2 ^ (length nows + 1)) kMaxDelay * nanos \<le> kMaxDelay * nanos"
    by (intro mult_right_mono) (simp_all add: nanos_def)
  moreover have "0 < nanos" by (simp add: nanos_def)
  ultimately show ?thesis
    using s1 assms(3) by (auto simp: is_in_backoff_def)
qed

theorem backoff_after_failures_witness:
  "\<exists>s1 s2. fail_all [100, 200] 30 new_backoff = Some s1 \<and> on_failure 300 30 s1 = Some s2 \<and>
    attempt_count s2 = 3 \<and> is_in_backoff 300 s2"
  using backoff_after_failures [of "[100, 200]" 30 new_backoff 300]
  by (auto simp: new_backoff_def)

text \<open>The shift is not limited: at the thirty-first failure in a row it overflows into the sign, the
  computed delay is negative, and the state is not in back-off at all right after that failure.\<close>

lemma backoff_overflow:
  "attempt_count s = 30 \<Longrightarrow> \<exists>s'. on_failure now 30 s = Some s' \<and> next_retry_at s' < now \<and>
    \<not> is_in_backoff now s'"
  by (simp add: on_failure_def calculate_backoff_delay_def shift_one_def kMaxDelay_def nanos_def
      is_in_backoff_def)

end
