(* ===== verification/Resume.thy ===== *)
theory Resume
  imports Bencode
begin

text \<open>
  The resume file of a torrent, \<^verbatim>\<open>ResumeData\<close> of \<^verbatim>\<open>src/src/Utils.hpp\<close>: serialization to a bencoded
  dictionary and the reader with every way it can throw.  The two byte counters are \<^verbatim>\<open>uint64_t\<close>
  and travel as the signed bencode integer with the same bits.
\<close>

subsection \<open>Definitions\<close>

datatype resume_error =
    DecodeFailed bencode_error | NotADictionary | MissingHaveBitfield
  | BadVariantAccess | OutOfRange

record ResumeData =
  have_bitfield :: string
  file_mtimes :: "(string \<times> int) list"
  total_uploaded :: u64
  total_downloaded :: u64
  in_progress_pieces :: "(string \<times> string) list"

definition empty_resume :: ResumeData where
  "empty_resume = \<lparr> have_bitfield = '''', file_mtimes = [], total_uploaded = 0,
    total_downloaded = 0, in_progress_pieces = [] \<rparr>"

definition resume_serialize :: "ResumeData \<Rightarrow> string" where
  "resume_serialize r =
    (let files_metadata_dict =
           fold (\<lambda>(path, mtime). map_assign path (Dict (map_assign ''mtime'' (Integer mtime) [])))
             (file_mtimes r) [];
         stats_dict =
           map_assign ''downloaded'' (Integer (sint (total_downloaded r)))
             (map_assign ''uploaded'' (Integer (sint (total_uploaded r))) []);
         in_progress_dict =
           fold (\<lambda>(piece_idx_str, block_bitfield). map_assign piece_idx_str (String block_bitfield))
             (in_progress_pieces r) [];
         resume_dict = map_assign ''have_bitfield'' (String (have_bitfield r)) [];
         resume_dict = map_assign ''files_metadata'' (Dict files_metadata_dict) resume_dict;
         resume_dict = map_assign ''stats'' (Dict stats_dict) resume_dict;
         resume_dict = map_assign ''in_progress'' (Dict in_progress_dict) resume_dict
     in encode (Dict resume_dict))"

text \<open>\<^verbatim>\<open>std::get<String>\<close>, \<^verbatim>\<open>std::get<Integer>\<close> throw on another alternative; \<^verbatim>\<open>Dict::at\<close> throws on a
  missing key; \<^verbatim>\<open>std::get_if<unique_ptr<Dict>>\<close> yields a null pointer.\<close>

fun get_String :: "Value \<Rightarrow> resume_error + string" where
  "get_String (String s) = Inr s"
| "get_String _ = Inl BadVariantAccess"

fun get_Integer :: "Value \<Rightarrow> resume_error + int" where
  "get_Integer (Integer i) = Inr i"
| "get_Integer _ = Inl BadVariantAccess"

fun get_if_Dict :: "Value \<Rightarrow> (string \<times> Value) list option" where
  "get_if_Dict (Dict d) = Some d"
| "get_if_Dict _ = None"

definition dict_at :: "(string \<times> Value) list \<Rightarrow> string \<Rightarrow> resume_error + Value" where
  "dict_at d k = (case map_of d k of None \<Rightarrow> Inl OutOfRange | Some v \<Rightarrow> Inr v)"

definition sub_dict :: "(string \<times> Value) list \<Rightarrow> string \<Rightarrow> (string \<times> Value) list option" where
  "sub_dict d k = (case map_of d k of None \<Rightarrow> None | Some v \<Rightarrow> get_if_Dict v)"

fun read_mtimes ::
  "(string \<times> Value) list \<Rightarrow> (string \<times> int) list \<Rightarrow> resume_error + (string \<times> int) list" where
  "read_mtimes [] acc = Inr acc"
| "read_mtimes ((k, v) # rest) acc =
    (case get_if_Dict v of
       None \<Rightarrow> read_mtimes rest acc
     | Some this_file_dict \<Rightarrow>
         (case dict_at this_file_dict ''mtime'' of Inl e \<Rightarrow> Inl e | Inr m \<Rightarrow>
           (case get_Integer m of Inl e \<Rightarrow> Inl e | Inr saved_mtime \<Rightarrow>
             read_mtimes rest (map_assign k saved_mtime acc))))"

definition read_stats ::
  "(string \<times> Value) list \<Rightarrow> resume_error + u64 \<times> u64" where
  "read_stats d =
    (case dict_at d ''uploaded'' of Inl e \<Rightarrow> Inl e | Inr u \<Rightarrow>
      (case get_Integer u of Inl e \<Rightarrow> Inl e | Inr up \<Rightarrow>
        (case dict_at d ''downloaded'' of Inl e \<Rightarrow> Inl e | Inr v \<Rightarrow>
          (case get_Integer v of Inl e \<Rightarrow> Inl e | Inr down \<Rightarrow> Inr (of_int up, of_int down)))))"

fun read_in_progress ::
  "(string \<times> Value) list \<Rightarrow> (string \<times> string) list \<Rightarrow> resume_error + (string \<times> string) list" where
  "read_in_progress [] acc = Inr acc"
| "read_in_progress ((k, v) # rest) acc =
    (case get_String v of Inl e \<Rightarrow> Inl e | Inr block_bitfield \<Rightarrow>
      read_in_progress rest (map_assign k block_bitfield acc))"

definition resume_deserialize :: "string \<Rightarrow> resume_error + ResumeData" where
  "resume_deserialize data =
    (case decode data of Inl e \<Rightarrow> Inl (DecodeFailed e) | Inr decoded \<Rightarrow>
     (case get_if_Dict decoded of None \<Rightarrow> Inl NotADictionary | Some resume_dict \<Rightarrow>
     (case map_of resume_dict ''have_bitfield'' of None \<Rightarrow> Inl MissingHaveBitfield | Some hb \<Rightarrow>
     (case get_String hb of Inl e \<Rightarrow> Inl e | Inr have \<Rightarrow>
     (case (case sub_dict resume_dict ''files_metadata'' of
              None \<Rightarrow> Inr [] | Some d \<Rightarrow> read_mtimes d []) of Inl e \<Rightarrow> Inl e | Inr mtimes \<Rightarrow>
     (case (case sub_dict resume_dict ''stats'' of
              None \<Rightarrow> Inr (0, 0) | Some d \<Rightarrow> read_stats d) of Inl e \<Rightarrow> Inl e | Inr (up, down) \<Rightarrow>
     (case (case sub_dict resume_dict ''in_progress'' of
              None \<Rightarrow> Inr [] | Some d \<Rightarrow> read_in_progress d []) of Inl e \<Rightarrow> Inl e | Inr pieces \<Rightarrow>
       Inr \<lparr> have_bitfield = have, file_mtimes = mtimes, total_uploaded = up,
             total_downloaded = down, in_progress_pieces = pieces \<rparr>)))))))"

definition valid_resume :: "ResumeData \<Rightarrow> bool" where
  "valid_resume r \<longleftrightarrow>
    int (length (have_bitfield r)) \<le> int64_max \<and>
    sorted_keys (file_mtimes r) \<and> sorted_keys (in_progress_pieces r) \<and>
    (\<forall>(p, m)\<in>set (file_mtimes r). int (length p) \<le> int64_max \<and> int64_min \<le> m \<and> m \<le> int64_max) \<and>
    (\<forall>(i, b)\<in>set (in_progress_pieces r). int (length i) \<le> int64_max \<and> int (length b) \<le> int64_max)"

subsection \<open>Rebuilding a map entry by entry\<close>

lemma fold_map_assign_sorted:
  "sorted_keys (acc @ map (map_prod id f) m) \<Longrightarrow>
    fold (\<lambda>(k, v). map_assign k (f v)) m acc = acc @ map (map_prod id f) m"
proof (induction m arbitrary: acc)
  case (Cons kv m)
  obtain k v where kv: "kv = (k, v)" by (cases kv)
  have "map_assign k (f v) acc = acc @ [(k, f v)]"
    using Cons.prems by (intro map_assign_last) (auto simp: kv sorted_keys_def sorted_wrt_append)
  then show ?case
    using Cons by (simp add: kv)
qed simp

lemma sorted_keys_map_prod [simp]: "sorted_keys (map (map_prod id f) m) \<longleftrightarrow> sorted_keys m"
  by (simp add: sorted_keys_def comp_def case_prod_unfold)

lemma read_mtimes_map:
  "sorted_keys (acc @ m) \<Longrightarrow>
    read_mtimes (map (map_prod id (\<lambda>t. Dict [(''mtime'', Integer t)])) m) acc = Inr (acc @ m)"
proof (induction m arbitrary: acc)
  case (Cons kv m)
  obtain k v where kv: "kv = (k, v)" by (cases kv)
  have "map_assign k v acc = acc @ [(k, v)]"
    using Cons.prems by (intro map_assign_last) (auto simp: kv sorted_keys_def sorted_wrt_append)
  then show ?case
    using Cons by (simp add: kv dict_at_def)
qed simp

lemma read_in_progress_map:
  "sorted_keys (acc @ m) \<Longrightarrow> read_in_progress (map (map_prod id String) m) acc = Inr (acc @ m)"
proof (induction m arbitrary: acc)
  case (Cons kv m)
  obtain k v where kv: "kv = (k, v)" by (cases kv)
  have "map_assign k v acc = acc @ [(k, v)]"
    using Cons.prems by (intro map_assign_last) (auto simp: kv sorted_keys_def sorted_wrt_append)
  then show ?case
    using Cons by (simp add: kv)
qed simp

definition resume_dict :: "ResumeData \<Rightarrow> (string \<times> Value) list" where
  "resume_dict r =
    [(''files_metadata'', Dict (map (map_prod id (\<lambda>t. Dict [(''mtime'', Integer t)])) (file_mtimes r))),
     (''have_bitfield'', String (have_bitfield r)),
     (''in_progress'', Dict (map (map_prod id String) (in_progress_pieces r))),
     (''stats'', Dict [(''downloaded'', Integer (sint (total_downloaded r))),
                       (''uploaded'', Integer (sint (total_uploaded r)))])]"

lemma resume_serialize_dict:
  "sorted_keys (file_mtimes r) \<Longrightarrow> sorted_keys (in_progress_pieces r) \<Longrightarrow>
    resume_serialize r = encode (Dict (resume_dict r))"
  using fold_map_assign_sorted [of "[]" "\<lambda>t. Dict [(''mtime'', Integer t)]" "file_mtimes r"]
    fold_map_assign_sorted [of "[]" String "in_progress_pieces r"]
  by (simp add: resume_serialize_def resume_dict_def less_char_def)

lemma sint_int64 [simp]:
  "int64_min \<le> sint (w :: u64)" "sint w \<le> int64_max"
  using sint_greater_eq [of w] sint_less [of w] by (simp_all add: int64_min_def int64_max_def)

lemma valid_resume_dict: "valid_resume r \<Longrightarrow> valid_value (Dict (resume_dict r))"
  using sint_int64(2) [unfolded int64_max_def]
  by (auto simp: valid_resume_def resume_dict_def less_char_def int64_max_def)

text \<open>C30: the resume file round trip.  Whatever resume data the session holds is read back from the
  file it was written to, in full: bitfield, modification times, both 64-bit counters and the
  in-progress pieces.\<close>

theorem resume_round_trip:
  assumes "valid_resume r"
  shows "resume_deserialize (resume_serialize r) = Inr r"
proof -
  have sorted: "sorted_keys (file_mtimes r)" "sorted_keys (in_progress_pieces r)"
    using assms by (simp_all add: valid_resume_def)
  have "decode (resume_serialize r) = Inr (Dict (resume_dict r))"
    using decode_of_encode [OF valid_resume_dict [OF assms]]
    by (simp only: resume_serialize_dict sorted)
  then show ?thesis
    using read_mtimes_map [of "[]" "file_mtimes r"] read_in_progress_map [of "[]" "in_progress_pieces r"]
    by (simp add: resume_deserialize_def resume_dict_def sub_dict_def read_stats_def dict_at_def sorted)
qed

theorem resume_round_trip_witness:
  "resume_deserialize (resume_serialize
      \<lparr> have_bitfield = ''ab'', file_mtimes = [(''f'', 5), (''g'', - 1)], total_uploaded = - 1,
        total_downloaded = 3, in_progress_pieces = [(''12'', ''x'')] \<rparr>) =
    Inr \<lparr> have_bitfield = ''ab'', file_mtimes = [(''f'', 5), (''g'', - 1)], total_uploaded = - 1,
        total_downloaded = 3, in_progress_pieces = [(''12'', ''x'')] \<rparr>"
  by (rule resume_round_trip)
    (simp add: valid_resume_def int64_min_def int64_max_def less_char_def)

end
