(* ===== verification/Mse.thy ===== *)
theory Mse
  imports Wire "HOL-Library.Multiset"
begin

text \<open>
  The cryptographic pieces of message stream encryption, \<^verbatim>\<open>src/src/Mse.hpp\<close>: the RC4 stream cipher
  (key schedule and keystream), the key-derivation and big-endian helpers, and the per-connection
  state \<^verbatim>\<open>MseCrypto\<close>.

  SHA-1 and the modular exponentiation of big numbers are OpenSSL; where the code calls them they are
  parameters, and what is assumed of \<^verbatim>\<open>BN_mod_exp\<close> is that it computes the power modulo the prime.  The interface \<open>stream_cipher\<close> states what the socket layer relies on: a cipher that
  runs continuously over the bytes (so the way they are cut into frames does not matter) and that
  undoes itself from the same state.
\<close>

subsection \<open>Definitions\<close>

record Rc4 =
  rc_s :: "byte list"
  rc_i :: byte
  rc_j :: byte

definition swap_at :: "'a list \<Rightarrow> nat \<Rightarrow> nat \<Rightarrow> 'a list" where
  "swap_at xs a b = xs[a := xs ! b, b := xs ! a]"

text \<open>One iteration of the key-scheduling loop, at position \<open>i\<close>.\<close>

definition rc4_schedule_step :: "byte list \<Rightarrow> nat \<Rightarrow> byte list \<times> byte \<Rightarrow> byte list \<times> byte" where
  "rc4_schedule_step key i st =
    (let (s, j) = st;
         j = j + s ! i + key ! (i mod length key)
     in (swap_at s i (unat j), j))"

definition rc4_init :: "byte list \<Rightarrow> Rc4 option" where
  "rc4_init key =
    (if key = [] then None
     else let s = map of_nat [0..<256];
              (s, j) = fold (rc4_schedule_step key) [0..<256] (s, 0)
          in Some \<lparr> rc_s = s, rc_i = 0, rc_j = 0 \<rparr>)"

definition rc4_next :: "Rc4 \<Rightarrow> byte \<times> Rc4" where
  "rc4_next st =
    (let i = rc_i st + 1;
         j = rc_j st + rc_s st ! unat i;
         s = swap_at (rc_s st) (unat i) (unat j);
         k = s ! unat (s ! unat i + s ! unat j)
     in (k, \<lparr> rc_s = s, rc_i = i, rc_j = j \<rparr>))"

fun rc4_crypt :: "Rc4 \<Rightarrow> byte list \<Rightarrow> byte list \<times> Rc4" where
  "rc4_crypt st [] = ([], st)"
| "rc4_crypt st (b # data) =
    (let (k, st) = rc4_next st;
         (out, st) = rc4_crypt st data
     in (xor b k # out, st))"

definition kDhKeySize :: nat where "kDhKeySize = 96"
definition kRc4DiscardBytes :: nat where "kRc4DiscardBytes = 1024"
definition kMaxPadSize :: nat where "kMaxPadSize = 512"
definition kHandshakeLen :: nat where "kHandshakeLen = 68"
definition kCryptoPlaintext :: u32 where "kCryptoPlaintext = 1"
definition kCryptoRc4 :: u32 where "kCryptoRc4 = 2"
definition kCryptoAll :: u32 where "kCryptoAll = or kCryptoPlaintext kCryptoRc4"

text \<open>The key exchange; \<open>mod_exp\<close> stands for \<^verbatim>\<open>BN_mod_exp\<close> and \<open>priv\<close> for the random bytes of the
  private exponent.  Failures of the big-number library to allocate are not modelled.\<close>

definition kPrime :: nat where
  "kPrime = 0xFFFFFFFFFFFFFFFFC90FDAA22168C234C4C6628B80DC1CD129024E088A67CC74020BBEA63B139B22514A08798E3404DDEF9519B3CD3A431B302B0A6DF25F14374FE1356D6D51C245E485B576625E7EC6F44C42E9A63A36210000000000090563"

definition generate_keypair :: "(nat \<Rightarrow> nat \<Rightarrow> nat \<Rightarrow> nat) \<Rightarrow> byte list \<Rightarrow> byte list" where
  "generate_keypair mod_exp priv = be_enc kDhKeySize (mod_exp 2 (be_dec priv) kPrime)"

definition compute_secret :: "(nat \<Rightarrow> nat \<Rightarrow> nat \<Rightarrow> nat) \<Rightarrow> byte list \<Rightarrow> byte list \<Rightarrow> byte list" where
  "compute_secret mod_exp priv peer_pub = be_enc kDhKeySize (mod_exp (be_dec peer_pub) (be_dec priv) kPrime)"

definition discard_rc4 :: "Rc4 \<Rightarrow> Rc4" where
  "discard_rc4 rc4 = snd (rc4_crypt rc4 (replicate kRc4DiscardBytes 0))"

definition sha1_concat :: "(byte list \<Rightarrow> id20) \<Rightarrow> byte list \<Rightarrow> byte list \<Rightarrow> id20" where
  "sha1_concat sha1 a b = sha1 (a @ b)"

definition sha1_concat3 :: "(byte list \<Rightarrow> id20) \<Rightarrow> byte list \<Rightarrow> byte list \<Rightarrow> byte list \<Rightarrow> id20" where
  "sha1_concat3 sha1 a b c = sha1 (a @ b @ c)"

text \<open>The four shifts and masks of \<^verbatim>\<open>to_be32\<close> pick the bytes from the most significant one down; the
  shifts and ors of \<^verbatim>\<open>from_be32\<close> put them back.\<close>

definition to_be32 :: "u32 \<Rightarrow> byte list" where
  "to_be32 v = map (\<lambda>n. of_nat (unat v div 2 ^ n mod 256)) [24, 16, 8, 0]"

definition from_be32 :: "byte list \<Rightarrow> u32" where
  "from_be32 b = of_nat (unat (b ! 0) * 2 ^ 24 + unat (b ! 1) * 2 ^ 16 + unat (b ! 2) * 2 ^ 8 + unat (b ! 3))"

definition to_be16 :: "u16 \<Rightarrow> byte list" where
  "to_be16 v = map (\<lambda>n. of_nat (unat v div 2 ^ n mod 256)) [8, 0]"

definition from_be16 :: "byte list \<Rightarrow> u16" where
  "from_be16 b = of_nat (unat (b ! 0) * 2 ^ 8 + unat (b ! 1))"

record MseCrypto =
  mc_active :: bool
  mc_rc4 :: bool
  mc_encrypt :: Rc4
  mc_decrypt :: Rc4

definition valid_rc4 :: "Rc4 \<Rightarrow> bool" where
  "valid_rc4 st \<longleftrightarrow> length (rc_s st) = 256 \<and> distinct (rc_s st)"

subsection \<open>The interface of a stream cipher\<close>

locale stream_cipher =
  fixes crypt :: "'s \<Rightarrow> byte list \<Rightarrow> byte list \<times> 's"
  assumes crypt_Nil: "crypt st [] = ([], st)"
    and crypt_append: "crypt st (a @ b) =
      (let (a', st1) = crypt st a; (b', st2) = crypt st1 b in (a' @ b', st2))"
    and crypt_involutive: "crypt st (fst (crypt st d)) = (d, snd (crypt st d))"
    and crypt_length: "length (fst (crypt st d)) = length d"
begin

lemma fst_crypt_append: "fst (crypt st (a @ b)) = fst (crypt st a) @ fst (crypt (snd (crypt st a)) b)"
  by (simp add: crypt_append case_prod_unfold Let_def)

lemma snd_crypt_append: "snd (crypt st (a @ b)) = snd (crypt (snd (crypt st a)) b)"
  by (simp add: crypt_append case_prod_unfold Let_def)

text \<open>Decrypting a prefix of a ciphertext gives the prefix of the plaintext and leaves the cipher
  where the encryption of that prefix left it; so the receiver may cut the stream anywhere.\<close>

lemma crypt_take:
  assumes "n \<le> length d"
  shows "crypt st (take n (fst (crypt st d))) = (take n d, snd (crypt st (take n d)))"
proof -
  have "fst (crypt st d) = fst (crypt st (take n d)) @ fst (crypt (snd (crypt st (take n d))) (drop n d))"
    using fst_crypt_append [of st "take n d" "drop n d"] by simp
  then have "take n (fst (crypt st d)) = fst (crypt st (take n d))"
    using assms by (simp add: crypt_length)
  then show ?thesis
    by (simp add: crypt_involutive)
qed

lemma crypt_drop:
  assumes "n \<le> length d"
  shows "drop n (fst (crypt st d)) = fst (crypt (snd (crypt st (take n d))) (drop n d))"
proof -
  have "fst (crypt st d) = fst (crypt st (take n d)) @ fst (crypt (snd (crypt st (take n d))) (drop n d))"
    using fst_crypt_append [of st "take n d" "drop n d"] by simp
  then show ?thesis
    using assms by (simp add: crypt_length)
qed

end

subsection \<open>RC4 is a stream cipher\<close>

lemma xor_byte_cancel [simp]: "xor (xor (b::byte) k) k = b"
  by (simp add: xor.assoc)

lemma rc4_crypt_append:
  "rc4_crypt st (a @ b) =
    (let (a', st1) = rc4_crypt st a; (b', st2) = rc4_crypt st1 b in (a' @ b', st2))"
  by (induction a arbitrary: st) (auto simp: case_prod_unfold Let_def)

lemma rc4_crypt_involutive: "rc4_crypt st (fst (rc4_crypt st d)) = (d, snd (rc4_crypt st d))"
  by (induction d arbitrary: st) (auto simp: case_prod_unfold Let_def prod_eq_iff)

lemma rc4_crypt_length: "length (fst (rc4_crypt st d)) = length d"
  by (induction d arbitrary: st) (auto simp: case_prod_unfold Let_def)

interpretation rc4: stream_cipher rc4_crypt
  by unfold_locales
    (simp_all add: rc4_crypt_append rc4_crypt_involutive rc4_crypt_length)

subsection \<open>The permutation\<close>

lemma length_swap_at [simp]: "length (swap_at xs a b) = length xs"
  by (simp add: swap_at_def)

lemma mset_swap_at: "a < length xs \<Longrightarrow> b < length xs \<Longrightarrow> mset (swap_at xs a b) = mset xs"
  by (simp add: swap_at_def mset_swap)

lemma distinct_swap_at: "a < length xs \<Longrightarrow> b < length xs \<Longrightarrow> distinct (swap_at xs a b) \<longleftrightarrow> distinct xs"
  using mset_swap_at by (metis mset_eq_imp_distinct_iff)

lemma byte_less_256 [simp]: "unat (b::byte) < 256"
  using unat_bound [of b] by simp

lemma valid_rc4_next: "valid_rc4 st \<Longrightarrow> valid_rc4 (snd (rc4_next st))"
  by (simp add: valid_rc4_def rc4_next_def Let_def distinct_swap_at)

lemma valid_rc4_crypt: "valid_rc4 st \<Longrightarrow> valid_rc4 (snd (rc4_crypt st d))"
  by (induction d arbitrary: st) (auto simp: case_prod_unfold Let_def valid_rc4_next)

lemma rc4_schedule_valid:
  "length s = 256 \<Longrightarrow> distinct s \<Longrightarrow> set is \<subseteq> {0..<256} \<Longrightarrow>
    length (fst (fold (rc4_schedule_step key) is (s, j))) = 256 \<and>
    distinct (fst (fold (rc4_schedule_step key) is (s, j)))"
  by (induction "is" arbitrary: s j) (auto simp: rc4_schedule_step_def Let_def distinct_swap_at)

lemma inj_on_byte: "inj_on (of_nat :: nat \<Rightarrow> byte) {0..<256}"
proof (rule inj_onI)
  fix m n :: nat
  assume "m \<in> {0..<256}" "n \<in> {0..<256}" and eq: "(of_nat m :: byte) = of_nat n"
  then have "m < 2 ^ LENGTH(8)" "n < 2 ^ LENGTH(8)" by simp_all
  then show "m = n"
    using eq unat_of_nat_small [where 'a = 8] by metis
qed

lemma distinct_bytes: "distinct (map (of_nat :: nat \<Rightarrow> byte) [0..<256])"
  using inj_on_byte by (simp only: distinct_map set_upt distinct_upt)

lemma rc4_init_valid: "key \<noteq> [] \<Longrightarrow> \<exists>st. rc4_init key = Some st \<and> valid_rc4 st"
  using rc4_schedule_valid [of "map of_nat [0..<256]" "[0..<256]" key 0] distinct_bytes
  by (auto simp: rc4_init_def valid_rc4_def Let_def case_prod_unfold simp del: upt_rec_numeral)

subsection \<open>Big-endian helpers\<close>

lemma unat_byte_mod [simp]: "unat (of_nat (n mod 256) :: byte) = n mod 256"
  by (rule unat_of_nat_small) simp

lemma nat_base_256_32:
  assumes "n < (2::nat) ^ 32"
  shows "n div 2 ^ 24 mod 256 * 2 ^ 24 + n div 2 ^ 16 mod 256 * 2 ^ 16 +
    n div 2 ^ 8 mod 256 * 2 ^ 8 + n div 2 ^ 0 mod 256 = n"
proof -
  define a b c where "a = n div 256" and "b = a div 256" and "c = b div 256"
  have parts: "n div 2 ^ 8 = a" "n div 2 ^ 16 = b" "n div 2 ^ 24 = c"
    by (simp_all add: a_def b_def c_def div_mult2_eq [symmetric])
  have "n = a * 256 + n mod 256" "a = b * 256 + a mod 256" "b = c * 256 + b mod 256"
    by (simp_all add: a_def b_def c_def)
  moreover have "c < 256"
  proof -
    have "n < 256 * 2 ^ 24"
      using assms by simp
    then show ?thesis
      using parts(3) less_mult_imp_div_less by blast
  qed
  ultimately show ?thesis
    unfolding parts by simp
qed

lemma nat_base_256_16: "n < (2::nat) ^ 16 \<Longrightarrow> n div 2 ^ 8 mod 256 * 2 ^ 8 + n div 2 ^ 0 mod 256 = n"
  by simp

lemma nth_four: "[a, b, c, d] ! 0 = a" "[a, b, c, d] ! 1 = b" "[a, b, c, d] ! 2 = c" "[a, b, c, d] ! 3 = d"
  by simp_all

lemma nth_two: "[a, b] ! 0 = a" "[a, b] ! 1 = b"
  by simp_all

lemma from_to_be32 [simp, codec_simps]: "from_be32 (to_be32 v) = v"
  using nat_base_256_32 [of "unat v"] unat_bound [of v]
  by (simp only: from_be32_def to_be32_def list.map nth_four unat_byte_mod len_num1 len_bit0) simp

lemma from_to_be16 [simp, codec_simps]: "from_be16 (to_be16 v) = v"
  using nat_base_256_16 [of "unat v"] unat_bound [of v]
  by (simp only: from_be16_def to_be16_def list.map nth_two unat_byte_mod len_num1 len_bit0) simp

lemma length_to_be [simp]: "length (to_be32 v) = 4" "length (to_be16 w) = 2"
  by (simp_all add: to_be32_def to_be16_def)

subsection \<open>The key exchange\<close>

lemma kPrime_fits: "kPrime < 256 ^ kDhKeySize"
  unfolding kPrime_def kDhKeySize_def by simp

lemma length_keypair [simp]: "length (generate_keypair mod_exp priv) = 96"
  by (simp add: generate_keypair_def kDhKeySize_def)

lemma be_dec_keypair:
  assumes "mod_exp 2 (be_dec priv) kPrime = 2 ^ be_dec priv mod kPrime"
  shows "be_dec (generate_keypair mod_exp priv) = 2 ^ be_dec priv mod kPrime"
proof -
  have "2 ^ be_dec priv mod kPrime < kPrime"
    by (rule mod_less_divisor) (simp add: kPrime_def)
  then show ?thesis
    using kPrime_fits by (simp add: generate_keypair_def assms be_dec_be_enc)
qed

lemma dh_agreement:
  assumes "\<And>b e. mod_exp b e kPrime = b ^ e mod kPrime"
  shows "compute_secret mod_exp a (generate_keypair mod_exp b) = compute_secret mod_exp b (generate_keypair mod_exp a)"
  by (simp add: compute_secret_def assms be_dec_keypair power_mod mult.commute flip: power_mult)

subsection \<open>Properties\<close>

text \<open>C38: the RC4 stream is correct as a cipher.  Every non-empty key (and only such a key) initialises a
  state whose table is a permutation of the bytes, and no operation destroys that; from equal states
  the receiver recovers the plaintext, ends in the state the sender ended in, and does so even if it
  decrypts the ciphertext in two pieces cut at any place.\<close>

theorem rc4_stream:
  "(case rc4_init key of None \<Rightarrow> key = [] | Some st \<Rightarrow> key \<noteq> [] \<and> valid_rc4 (snd (rc4_crypt st d))) \<and>
   rc4_crypt st (fst (rc4_crypt st d)) = (d, snd (rc4_crypt st d)) \<and>
   (let c = fst (rc4_crypt st d); (p1, st1) = rc4_crypt st (take n c); (p2, st2) = rc4_crypt st1 (drop n c)
    in p1 @ p2 = d \<and> st2 = snd (rc4_crypt st d))"
proof -
  have "case rc4_init key of None \<Rightarrow> key = [] | Some st \<Rightarrow> key \<noteq> [] \<and> valid_rc4 (snd (rc4_crypt st d))"
  proof (cases "key = []")
    case False
    then obtain st where "rc4_init key = Some st" "valid_rc4 st"
      using rc4_init_valid by blast
    then show ?thesis
      using False by (simp add: valid_rc4_crypt)
  qed (simp add: rc4_init_def)
  moreover have "fst (rc4_crypt st (take n c)) @ fst (rc4_crypt (snd (rc4_crypt st (take n c))) (drop n c)) = d"
    and "snd (rc4_crypt (snd (rc4_crypt st (take n c))) (drop n c)) = snd (rc4_crypt st d)"
    if "c = fst (rc4_crypt st d)" for c
    using that rc4.fst_crypt_append [of st "take n c" "drop n c"] rc4.snd_crypt_append [of st "take n c" "drop n c"]
      rc4_crypt_involutive [of st d] by simp_all
  ultimately show ?thesis
    using rc4_crypt_involutive by (simp add: Let_def case_prod_unfold)
qed

end
