(* ===== verification/Socket.thy ===== *)
theory Socket
  imports Mse
begin

text \<open>
  The framed socket of \<^verbatim>\<open>src/src/AsyncSocket.hpp\<close>: the read buffer that is filled from the network in
  arbitrary chunks, message framing, transparent RC4 encryption, and the write queue that serializes
  concurrent writers.

  The network is a parameter of the state: \<open>incoming\<close> lists what each future \<^verbatim>\<open>async_read_some\<close> will
  deliver, an empty chunk or the end of the list being end of file (or the deadline).  The abstract
  view of a socket is \<open>stream\<close>, the bytes still to be consumed; the reading operations are shown to
  be functions of that view alone, so the way the network cuts the bytes never matters.

  The write queue is a step relation over a state with the queue, the frame being written and what
  has reached the wire; writers enqueue in any interleaving.
\<close>

subsection \<open>Definitions: state and exceptions\<close>

datatype socket_error =
    ReadFailed | MessageSizeExceeded | EmptyRc4Key
  | MseBadHandshakeLength | MseConstantNotFound | MseUnsupportedMethod | MseInvalidPad
  | MseSyncNotFound | MseOtherTorrent | MseInvalidConstant | MseBadPayloadLength | MseNoCommonMethod

record Socket =
  read_buf :: "byte list"
  read_pos :: nat
  incoming :: "byte list list"
  sent :: "byte list"
  sk_mse :: "MseCrypto option"

text \<open>A coroutine that may throw: the exception or the value, and the socket as it is left in either
  case.\<close>

type_synonym 'a io = "Socket \<Rightarrow> (socket_error + 'a) \<times> Socket"

definition io_return :: "'a \<Rightarrow> 'a io" where
  "io_return a s = (Inr a, s)"

definition io_throw :: "socket_error \<Rightarrow> 'a io" where
  "io_throw e s = (Inl e, s)"

definition io_bind :: "'a io \<Rightarrow> ('a \<Rightarrow> 'b io) \<Rightarrow> 'b io" where
  "io_bind m f s = (case m s of (Inl e, s') \<Rightarrow> (Inl e, s') | (Inr a, s') \<Rightarrow> f a s')"

subsection \<open>Definitions: reading and sending\<close>

definition MAX_MESSAGE_SIZE :: nat where "MAX_MESSAGE_SIZE = 10 * 1024 * 1024"

definition encrypting :: "MseCrypto option \<Rightarrow> bool" where
  "encrypting m = (case m of None \<Rightarrow> False | Some c \<Rightarrow> mc_active c \<and> mc_rc4 c)"

definition encrypt_outgoing :: "MseCrypto option \<Rightarrow> byte list \<Rightarrow> byte list \<times> MseCrypto option" where
  "encrypt_outgoing m frame =
    (if encrypting m then
       (let (out, r) = rc4_crypt (mc_encrypt (the m)) frame
        in (out, Some ((the m)\<lparr> mc_encrypt := r \<rparr>)))
     else (frame, m))"

definition decrypt_incoming :: "MseCrypto option \<Rightarrow> byte list \<Rightarrow> byte list \<times> MseCrypto option" where
  "decrypt_incoming m data =
    (if encrypting m then
       (let (out, r) = rc4_crypt (mc_decrypt (the m)) data
        in (out, Some ((the m)\<lparr> mc_decrypt := r \<rparr>)))
     else (data, m))"

text \<open>The loop of \<^verbatim>\<open>fill_buffer\<close>; the flag is false when the network ends (or the deadline passes)
  before enough bytes are there.\<close>

fun fill_loop ::
  "nat \<Rightarrow> byte list \<Rightarrow> nat \<Rightarrow> byte list list \<Rightarrow> bool \<times> byte list \<times> nat \<times> byte list list" where
  "fill_loop need buf pos [] = (\<not> length buf - pos < need, buf, pos, [])"
| "fill_loop need buf pos (chunk # rest) =
    (if length buf - pos < need then
       if chunk = [] then (False, buf, pos, rest)
       else if 65536 \<le> pos then fill_loop need (drop pos (buf @ chunk)) 0 rest
       else fill_loop need (buf @ chunk) pos rest
     else (True, buf, pos, chunk # rest))"

definition fill_buffer :: "nat \<Rightarrow> unit io" where
  "fill_buffer need s =
    (let (ok, buf, pos, inc) = fill_loop need (read_buf s) (read_pos s) (incoming s);
         s = s\<lparr> read_buf := buf, read_pos := pos, incoming := inc \<rparr>
     in if ok then (Inr (), s) else (Inl ReadFailed, s))"

definition consume_bytes :: "nat \<Rightarrow> byte list io" where
  "consume_bytes n s =
    (Inr (take n (drop (read_pos s) (read_buf s))), s\<lparr> read_pos := read_pos s + n \<rparr>)"

definition decrypt_io :: "byte list \<Rightarrow> byte list io" where
  "decrypt_io data s =
    (let (out, m) = decrypt_incoming (sk_mse s) data in (Inr out, s\<lparr> sk_mse := m \<rparr>))"

definition receive_raw :: "nat \<Rightarrow> byte list io" where
  "receive_raw n = io_bind (fill_buffer n) (\<lambda>_. io_bind (consume_bytes n) decrypt_io)"

definition receive_message :: "byte list io" where
  "receive_message =
    io_bind (receive_raw 4) (\<lambda>len_bytes.
      let len = unat (get32 len_bytes)
      in if MAX_MESSAGE_SIZE < len then io_throw MessageSizeExceeded
         else if len = 0 then io_return []
         else receive_raw len)"

fun receive_messages :: "nat \<Rightarrow> byte list list io" where
  "receive_messages 0 = io_return []"
| "receive_messages (Suc n) =
    io_bind receive_message (\<lambda>m. io_bind (receive_messages n) (\<lambda>ms. io_return (m # ms)))"

text \<open>\<^verbatim>\<open>send_raw\<close> of a sequential coroutine: the frame goes through the (empty) write queue, is encrypted
  by the drain and written.\<close>

definition send_raw :: "byte list \<Rightarrow> unit io" where
  "send_raw frame s =
    (let (out, m) = encrypt_outgoing (sk_mse s) frame
     in (Inr (), s\<lparr> sent := sent s @ out, sk_mse := m \<rparr>))"

text \<open>The frame \<^verbatim>\<open>send_message\<close> builds before enqueueing it.\<close>

definition message_frame :: "byte list \<Rightarrow> byte list" where
  "message_frame message =
    (if message = [] then replicate 4 0
     else put32 (of_nat (length message)) @ message)"

subsection \<open>Definitions: the write queue\<close>

text \<open>Where a draining coroutine stands: about to take the next entry, with an entry it has taken off the
  queue, or inside \<^verbatim>\<open>async_write\<close> with the encrypted bytes that are still to be written.\<close>

datatype drain = Looking | Popped nat "byte list" | Writing nat "byte list"

record WriteQueueState =
  wq_queue :: "(nat \<times> byte list) list"
  wq_writing :: bool
  wq_drains :: "drain list"
  wq_mse :: "MseCrypto option"
  wq_wire :: "byte list"
  wq_result :: "nat \<Rightarrow> bool"
  wq_failed :: bool
  wq_enqueued :: "byte list list"

text \<open>\<^verbatim>\<open>wq_drains\<close> are the coroutines inside \<^verbatim>\<open>drain_write_queue\<close> (nothing in the state limits their
  number), \<^verbatim>\<open>wq_wire\<close> the bytes that have been written, \<^verbatim>\<open>wq_result\<close> the writers whose error code is set;
  \<^verbatim>\<open>wq_failed\<close> and \<^verbatim>\<open>wq_enqueued\<close> are history variables: whether a write has failed, and every frame in
  the order of the calls.\<close>

definition enqueue_write :: "nat \<Rightarrow> byte list \<Rightarrow> WriteQueueState \<Rightarrow> WriteQueueState" where
  "enqueue_write writer frame w =
    (let become_drain = (\<not> wq_writing w);
         w = w\<lparr> wq_queue := wq_queue w @ [(writer, frame)], wq_writing := True,
                wq_enqueued := wq_enqueued w @ [frame] \<rparr>
     in if become_drain then w\<lparr> wq_drains := wq_drains w @ [Looking] \<rparr> else w)"

text \<open>The first critical section of the loop: an empty queue ends the drain.\<close>

definition drain_pop :: "nat \<Rightarrow> WriteQueueState \<Rightarrow> WriteQueueState" where
  "drain_pop k w =
    (case wq_queue w of
       [] \<Rightarrow> w\<lparr> wq_writing := False, wq_drains := take k (wq_drains w) @ drop (Suc k) (wq_drains w) \<rparr>
     | (writer, frame) # rest \<Rightarrow>
         w\<lparr> wq_queue := rest, wq_drains := (wq_drains w)[k := Popped writer frame] \<rparr>)"

definition drain_encrypt :: "nat \<Rightarrow> nat \<Rightarrow> byte list \<Rightarrow> WriteQueueState \<Rightarrow> WriteQueueState" where
  "drain_encrypt k writer frame w =
    (let (out, m) = encrypt_outgoing (wq_mse w) frame
     in w\<lparr> wq_mse := m, wq_drains := (wq_drains w)[k := Writing writer out] \<rparr>)"

text \<open>\<^verbatim>\<open>async_write\<close> writes in portions of any size, then the loop goes on.\<close>

definition drain_write :: "nat \<Rightarrow> nat \<Rightarrow> nat \<Rightarrow> byte list \<Rightarrow> WriteQueueState \<Rightarrow> WriteQueueState" where
  "drain_write k n writer out w =
    w\<lparr> wq_wire := wq_wire w @ take n out, wq_drains := (wq_drains w)[k := Writing writer (drop n out)] \<rparr>"

definition drain_written :: "nat \<Rightarrow> WriteQueueState \<Rightarrow> WriteQueueState" where
  "drain_written k w = w\<lparr> wq_drains := (wq_drains w)[k := Looking] \<rparr>"

text \<open>A write that fails: every queued writer gets the error and the drain ends.\<close>

definition fail_all_writes :: "nat \<Rightarrow> WriteQueueState \<Rightarrow> WriteQueueState" where
  "fail_all_writes k w =
    w\<lparr> wq_queue := [], wq_writing := False,
       wq_drains := take k (wq_drains w) @ drop (Suc k) (wq_drains w),
       wq_result := (\<lambda>i. wq_result w i \<or> i \<in> fst ` set (wq_queue w)), wq_failed := True \<rparr>"

definition drain_at :: "nat \<Rightarrow> WriteQueueState \<Rightarrow> drain option" where
  "drain_at k w = (if k < length (wq_drains w) then Some (wq_drains w ! k) else None)"

inductive wq_step :: "WriteQueueState \<Rightarrow> WriteQueueState \<Rightarrow> bool" where
  Enqueue: "wq_step w (enqueue_write writer frame w)"
| DrainPop: "drain_at k w = Some Looking \<Longrightarrow> wq_step w (drain_pop k w)"
| DrainEncrypt: "drain_at k w = Some (Popped writer frame) \<Longrightarrow> wq_step w (drain_encrypt k writer frame w)"
| DrainWrite: "drain_at k w = Some (Writing writer out) \<Longrightarrow> wq_step w (drain_write k n writer out w)"
| DrainWritten: "drain_at k w = Some (Writing writer []) \<Longrightarrow> wq_step w (drain_written k w)"
| DrainFailed: "drain_at k w = Some (Writing writer out) \<Longrightarrow> wq_step w (fail_all_writes k w)"

definition new_write_queue :: "MseCrypto option \<Rightarrow> WriteQueueState" where
  "new_write_queue m = \<lparr> wq_queue = [], wq_writing = False, wq_drains = [], wq_mse = m,
    wq_wire = [], wq_result = (\<lambda>_. False), wq_failed = False, wq_enqueued = [] \<rparr>"

inductive wq_reach :: "MseCrypto option \<Rightarrow> WriteQueueState \<Rightarrow> bool" for m0 where
  Init: "wq_reach m0 (new_write_queue m0)"
| Step: "wq_reach m0 w \<Longrightarrow> wq_step w w' \<Longrightarrow> wq_reach m0 w'"

subsection \<open>Both directions are stream ciphers\<close>

interpretation sock_out: stream_cipher encrypt_outgoing
  by unfold_locales
    (auto simp: encrypt_outgoing_def encrypting_def rc4.crypt_append rc4.crypt_involutive
      rc4.crypt_length case_prod_unfold Let_def split: option.splits)

interpretation sock_in: stream_cipher decrypt_incoming
  by unfold_locales
    (auto simp: decrypt_incoming_def encrypting_def rc4.crypt_append rc4.crypt_involutive
      rc4.crypt_length case_prod_unfold Let_def split: option.splits)

lemma encrypting_None [simp]: "\<not> encrypting None"
  by (simp add: encrypting_def)

text \<open>Two ends agree when the one encrypts exactly if the other decrypts, from the same state.\<close>

definition matched :: "MseCrypto option \<Rightarrow> MseCrypto option \<Rightarrow> bool" where
  "matched a b \<longleftrightarrow> encrypting a = encrypting b \<and>
    (encrypting a \<longrightarrow> mc_encrypt (the a) = mc_decrypt (the b))"

lemma matched_decrypt:
  assumes "matched a b"
  shows "fst (decrypt_incoming b (fst (encrypt_outgoing a d))) = d"
    and "matched (snd (encrypt_outgoing a d)) (snd (decrypt_incoming b (fst (encrypt_outgoing a d))))"
  using assms
  by (auto simp: matched_def encrypting_def encrypt_outgoing_def decrypt_incoming_def
      rc4.crypt_involutive case_prod_unfold Let_def split: option.splits if_splits)

subsection \<open>Reading depends on the stream only\<close>

definition wf_socket :: "Socket \<Rightarrow> bool" where
  "wf_socket s \<longleftrightarrow> read_pos s \<le> length (read_buf s)"

definition stream :: "Socket \<Rightarrow> byte list" where
  "stream s = drop (read_pos s) (read_buf s) @ concat (takeWhile (\<lambda>c. c \<noteq> []) (incoming s))"

lemma fill_loop_stream:
  "fill_loop need buf pos inc = (ok, buf', pos', inc') \<Longrightarrow> pos \<le> length buf \<Longrightarrow>
    pos' \<le> length buf' \<and> (ok \<longleftrightarrow> need \<le> length (drop pos buf @ concat (takeWhile (\<lambda>c. c \<noteq> []) inc))) \<and>
    (ok \<longrightarrow> need \<le> length buf' - pos' \<and>
      drop pos' buf' @ concat (takeWhile (\<lambda>c. c \<noteq> []) inc') =
      drop pos buf @ concat (takeWhile (\<lambda>c. c \<noteq> []) inc))"
  by (induction need buf pos inc rule: fill_loop.induct) (auto split: if_splits)

lemma fill_buffer_stream:
  assumes "wf_socket s" "n \<le> length (stream s)"
  shows "\<exists>s'. fill_buffer n s = (Inr (), s') \<and> wf_socket s' \<and> stream s' = stream s \<and>
    n \<le> length (drop (read_pos s') (read_buf s')) \<and> sk_mse s' = sk_mse s \<and> sent s' = sent s"
proof -
  obtain ok buf pos inc where fl: "fill_loop n (read_buf s) (read_pos s) (incoming s) = (ok, buf, pos, inc)"
    using prod_cases4 by blast
  note inv = fill_loop_stream [OF fl assms(1) [unfolded wf_socket_def]]
  then have ok
    using assms(2) by (simp add: stream_def)
  then show ?thesis
    using inv by (simp add: fill_buffer_def fl wf_socket_def stream_def)
qed

lemma fill_buffer_short:
  assumes "wf_socket s" "length (stream s) < n"
  shows "fst (fill_buffer n s) = Inl ReadFailed"
proof -
  obtain ok buf pos inc where fl: "fill_loop n (read_buf s) (read_pos s) (incoming s) = (ok, buf, pos, inc)"
    using prod_cases4 by blast
  from fill_loop_stream [OF fl assms(1) [unfolded wf_socket_def]] assms(2)
  have "\<not> ok"
    by (simp add: stream_def)
  then show ?thesis
    by (simp add: fill_buffer_def fl)
qed

lemma consume_bytes_stream:
  assumes "wf_socket s" "n \<le> length (drop (read_pos s) (read_buf s))"
  shows "\<exists>s'. consume_bytes n s = (Inr (take n (stream s)), s') \<and> wf_socket s' \<and>
    stream s' = drop n (stream s) \<and> sk_mse s' = sk_mse s \<and> sent s' = sent s"
  using assms by (auto simp: consume_bytes_def wf_socket_def stream_def add.commute)

lemma io_bind_Inr: "m s = (Inr a, s') \<Longrightarrow> io_bind m f s = f a s'"
  by (simp add: io_bind_def)

lemma io_bind_Inl: "fst (m s) = Inl e \<Longrightarrow> fst (io_bind m f s) = Inl e"
  by (simp add: io_bind_def case_prod_unfold)

text \<open>Filling and consuming together: \<open>n\<close> bytes off the front of the stream.\<close>

lemma read_stream:
  assumes "wf_socket s" "n \<le> length (stream s)"
  shows "\<exists>s'. io_bind (fill_buffer n) (\<lambda>_. consume_bytes n) s = (Inr (take n (stream s)), s') \<and>
    wf_socket s' \<and> stream s' = drop n (stream s) \<and> sk_mse s' = sk_mse s \<and> sent s' = sent s"
proof -
  obtain s1 where s1: "fill_buffer n s = (Inr (), s1)" "wf_socket s1" "stream s1 = stream s"
    "n \<le> length (drop (read_pos s1) (read_buf s1))" "sk_mse s1 = sk_mse s" "sent s1 = sent s"
    using fill_buffer_stream [OF assms] by blast
  show ?thesis
    using consume_bytes_stream [OF s1(2,4)] s1 by (simp add: io_bind_def)
qed

lemma receive_raw_stream:
  assumes "wf_socket s" "n \<le> length (stream s)"
  shows "\<exists>s'. receive_raw n s = (Inr (fst (decrypt_incoming (sk_mse s) (take n (stream s)))), s') \<and>
    wf_socket s' \<and> stream s' = drop n (stream s) \<and> sent s' = sent s \<and>
    sk_mse s' = snd (decrypt_incoming (sk_mse s) (take n (stream s)))"
proof -
  obtain s1 where s1: "fill_buffer n s = (Inr (), s1)" "wf_socket s1" "stream s1 = stream s"
    "n \<le> length (drop (read_pos s1) (read_buf s1))" "sk_mse s1 = sk_mse s" "sent s1 = sent s"
    using fill_buffer_stream [OF assms] by blast
  obtain s2 where s2: "consume_bytes n s1 = (Inr (take n (stream s)), s2)" "wf_socket s2"
    "stream s2 = drop n (stream s)" "sk_mse s2 = sk_mse s" "sent s2 = sent s"
    using consume_bytes_stream [OF s1(2,4)] s1 by auto
  show ?thesis
    using s1(1) s2
    by (simp add: receive_raw_def io_bind_def decrypt_io_def wf_socket_def stream_def case_prod_unfold Let_def)
qed

lemma receive_raw_short:
  "wf_socket s \<Longrightarrow> length (stream s) < n \<Longrightarrow> fst (receive_raw n s) = Inl ReadFailed"
  unfolding receive_raw_def by (intro io_bind_Inl fill_buffer_short)

subsection \<open>Receiving what was sent\<close>

text \<open>What a socket with the cipher state \<open>m\<close> puts on the wire for a sequence of messages: the drain
  encrypts frame after frame.\<close>

fun wire_bytes :: "MseCrypto option \<Rightarrow> byte list list \<Rightarrow> byte list" where
  "wire_bytes m [] = []"
| "wire_bytes m (f # fs) = fst (encrypt_outgoing m f) @ wire_bytes (snd (encrypt_outgoing m f)) fs"

lemma wire_bytes_concat: "wire_bytes m fs = fst (encrypt_outgoing m (concat fs))"
  by (induction fs arbitrary: m) (simp_all add: sock_out.fst_crypt_append sock_out.crypt_Nil)

lemma wire_bytes_append:
  "wire_bytes m (fs @ gs) = wire_bytes m fs @ wire_bytes (snd (encrypt_outgoing m (concat fs))) gs"
  by (induction fs arbitrary: m) (simp_all add: sock_out.snd_crypt_append sock_out.crypt_Nil)

lemma length_message_frame: "length (message_frame msg) = 4 + length msg"
  by (simp add: message_frame_def)

lemma replicate_four: "replicate 4 x = [x, x, x, x]"
  by (simp add: numeral_eq_Suc)

lemma get32_zero: "get32 (replicate 4 0) = 0"
  by (simp add: get32_def be_dec_def numeral_eq_Suc)

lemma get32_frame:
  "length msg \<le> MAX_MESSAGE_SIZE \<Longrightarrow> unat (get32 (take 4 (message_frame msg))) = length msg"
  by (auto simp: message_frame_def MAX_MESSAGE_SIZE_def unat_of_nat_small get32_zero)

lemma drop_frame: "drop 4 (message_frame msg) = msg"
  by (simp add: message_frame_def)

text \<open>Reading \<open>n\<close> plaintext bytes from a stream that an agreeing sender has encrypted.\<close>

lemma receive_raw_encrypted:
  assumes "wf_socket s" "matched m (sk_mse s)" "stream s = fst (encrypt_outgoing m d)" "n \<le> length d"
  shows "\<exists>s' m'. receive_raw n s = (Inr (take n d), s') \<and> wf_socket s' \<and> matched m' (sk_mse s') \<and>
    stream s' = fst (encrypt_outgoing m' (drop n d)) \<and> m' = snd (encrypt_outgoing m (take n d))"
proof -
  have "take n (stream s) = fst (encrypt_outgoing m (take n d))"
    using sock_out.fst_crypt_append [of m "take n d" "drop n d"] assms(3,4)
    by (simp add: sock_out.crypt_length)
  moreover have "drop n (stream s) = fst (encrypt_outgoing (snd (encrypt_outgoing m (take n d))) (drop n d))"
    using assms(3,4) by (simp add: sock_out.crypt_drop)
  moreover have "n \<le> length (stream s)"
    using assms(3,4) by (simp add: sock_out.crypt_length)
  ultimately show ?thesis
    using receive_raw_stream [OF assms(1)] matched_decrypt [OF assms(2), of "take n d"] by metis
qed

lemma receive_message_frame:
  assumes "wf_socket s" "matched m (sk_mse s)"
    and "stream s = fst (encrypt_outgoing m (message_frame msg @ rest))"
    and "length msg \<le> MAX_MESSAGE_SIZE"
  shows "\<exists>s' m'. receive_message s = (Inr msg, s') \<and> wf_socket s' \<and> matched m' (sk_mse s') \<and>
    stream s' = fst (encrypt_outgoing m' rest)"
proof -
  let ?d = "message_frame msg @ rest"
  have four: "4 \<le> length ?d" by (simp add: length_message_frame)
  obtain s1 m1 where s1: "receive_raw 4 s = (Inr (take 4 ?d), s1)" "wf_socket s1" "matched m1 (sk_mse s1)"
    "stream s1 = fst (encrypt_outgoing m1 (drop 4 ?d))"
    using receive_raw_encrypted [OF assms(1-3) four] by blast
  have hd: "take 4 ?d = take 4 (message_frame msg)" and tl: "drop 4 ?d = msg @ rest"
    by (simp_all add: length_message_frame drop_frame)
  have len: "unat (get32 (take 4 ?d)) = length msg"
    by (simp only: hd get32_frame [OF assms(4)])
  show ?thesis
  proof (cases "msg = []")
    case True
    then show ?thesis
      using s1 len tl assms(4) by (auto simp: receive_message_def io_bind_def io_return_def)
  next
    case False
    obtain s2 m2 where "receive_raw (length msg) s1 = (Inr (take (length msg) (msg @ rest)), s2)"
      "wf_socket s2" "matched m2 (sk_mse s2)" "stream s2 = fst (encrypt_outgoing m2 (drop (length msg) (msg @ rest)))"
      using receive_raw_encrypted [OF s1(2,3)] s1(4) tl by (metis le_add1 length_append)
    then show ?thesis
      using s1(1) len False assms(4) by (auto simp: receive_message_def io_bind_def)
  qed
qed

text \<open>C20: reliable framing.  Whatever messages the peer has sent (each at most ten mebibytes,
  keep-alives included), plain or RC4-encrypted with agreeing cipher states, are received as exactly
  those messages in that order, no matter into which chunks the network has cut the bytes and how
  much of them was already buffered; and nothing is left over.\<close>

theorem receive_sent_messages:
  assumes "wf_socket s" "matched m (sk_mse s)"
    and "stream s = wire_bytes m (map message_frame msgs)"
    and "\<forall>msg\<in>set msgs. length msg \<le> MAX_MESSAGE_SIZE"
  shows "\<exists>s'. receive_messages (length msgs) s = (Inr msgs, s') \<and> stream s' = [] \<and> wf_socket s'"
  using assms
proof (induction msgs arbitrary: s m)
  case Nil
  then show ?case by (simp add: io_return_def)
next
  case (Cons msg msgs)
  have "stream s = fst (encrypt_outgoing m (message_frame msg @ concat (map message_frame msgs)))"
    using Cons.prems(3) by (simp only: wire_bytes_concat list.map concat.simps)
  then obtain s1 m1 where s1: "receive_message s = (Inr msg, s1)" "wf_socket s1" "matched m1 (sk_mse s1)"
    "stream s1 = fst (encrypt_outgoing m1 (concat (map message_frame msgs)))"
    using receive_message_frame [OF Cons.prems(1,2)] Cons.prems(4) by (metis list.set_intros(1))
  then show ?case
    using Cons.IH [OF s1(2,3)] Cons.prems(4)
    by (auto simp: wire_bytes_concat io_bind_def io_return_def)
qed

theorem receive_sent_messages_witness:
  "\<exists>s'. receive_messages (length [[7, 8], [], [4 :: byte]])
      \<lparr> read_buf = [0, 0], read_pos = 0, incoming = [[0, 2], [7], [8, 0, 0, 0], [0, 0, 0, 0, 1, 4]],
        sent = [], sk_mse = None \<rparr> = (Inr [[7, 8], [], [4]], s') \<and> stream s' = [] \<and> wf_socket s'"
  by (rule receive_sent_messages [of _ None])
    (simp_all add: wf_socket_def matched_def encrypting_def stream_def encrypt_outgoing_def
      message_frame_def MAX_MESSAGE_SIZE_def put32_def be_enc_unfold replicate_four)

subsection \<open>The write queue\<close>

lemmas wq_defs = enqueue_write_def drain_pop_def drain_encrypt_def drain_write_def drain_written_def
  fail_all_writes_def

text \<open>The flag and the drains agree: there is exactly one drain while it is set and none otherwise.\<close>

definition one_drain :: "WriteQueueState \<Rightarrow> bool" where
  "one_drain w \<longleftrightarrow> (if wq_writing w then \<exists>d. wq_drains w = [d] else wq_drains w = [])"

lemma one_drain_step: "wq_step w w' \<Longrightarrow> one_drain w \<Longrightarrow> one_drain w'"
  by (induction rule: wq_step.induct)
    (auto simp: wq_defs one_drain_def drain_at_def case_prod_unfold Let_def split: list.splits if_splits)

lemma one_drain_reach: "wq_reach m0 w \<Longrightarrow> one_drain w"
  by (induction rule: wq_reach.induct) (auto simp: one_drain_def new_write_queue_def dest: one_drain_step)

lemma drain_only: "one_drain w \<Longrightarrow> drain_at k w = Some d \<Longrightarrow> k = 0 \<and> wq_drains w = [d] \<and> wq_writing w"
  by (auto simp: one_drain_def drain_at_def split: if_splits)

text \<open>The invariant while no write has failed: the frames enqueued so far are the ones that are written,
  then the one the drain has in hand, then the queue; the cipher has advanced past what was given to
  it; and what is on the wire, completed by what is being written, is the encryption of whole
  frames.\<close>

fun drain_inv :: "MseCrypto option \<Rightarrow> byte list list \<Rightarrow> byte list list \<Rightarrow> WriteQueueState \<Rightarrow> drain \<Rightarrow> bool" where
  "drain_inv m0 before current w Looking \<longleftrightarrow> current = [] \<and> wq_wire w = wire_bytes m0 before \<and>
     wq_mse w = snd (encrypt_outgoing m0 (concat before))"
| "drain_inv m0 before current w (Popped i f) \<longleftrightarrow> current = [f] \<and> wq_wire w = wire_bytes m0 before \<and>
     wq_mse w = snd (encrypt_outgoing m0 (concat before))"
| "drain_inv m0 before current w (Writing i out) \<longleftrightarrow> (\<exists>f. current = [f]) \<and>
     wq_wire w @ out = wire_bytes m0 (before @ current) \<and>
     wq_mse w = snd (encrypt_outgoing m0 (concat (before @ current)))"

definition wq_inv :: "MseCrypto option \<Rightarrow> WriteQueueState \<Rightarrow> bool" where
  "wq_inv m0 w \<longleftrightarrow> (\<exists>before current.
      wq_enqueued w = before @ current @ map snd (wq_queue w) \<and>
      (case wq_drains w of
         [] \<Rightarrow> wq_queue w = [] \<and> drain_inv m0 before current w Looking
       | d # _ \<Rightarrow> drain_inv m0 before current w d))"

lemma drain_inv_cong:
  "wq_wire w' = wq_wire w \<Longrightarrow> wq_mse w' = wq_mse w \<Longrightarrow> drain_inv m0 before current w' d = drain_inv m0 before current w d"
  by (cases d) auto

lemma wq_inv_enqueue:
  assumes "wq_inv m0 w" "one_drain w"
  shows "wq_inv m0 (enqueue_write i f w)"
proof -
  obtain before current where inv: "wq_enqueued w = before @ current @ map snd (wq_queue w)"
    "case wq_drains w of [] \<Rightarrow> wq_queue w = [] \<and> drain_inv m0 before current w Looking
       | d # _ \<Rightarrow> drain_inv m0 before current w d"
    using assms(1) by (auto simp: wq_inv_def)
  show ?thesis
  proof (cases "wq_drains w")
    case Nil
    then show ?thesis
      using inv assms(2) unfolding wq_inv_def
      by (intro exI [of _ before] exI [of _ "[]"]) (auto simp: enqueue_write_def one_drain_def Let_def split: if_splits)
  next
    case (Cons d ds)
    then have "wq_drains (enqueue_write i f w) = wq_drains w" "wq_wire (enqueue_write i f w) = wq_wire w"
      "wq_mse (enqueue_write i f w) = wq_mse w" "wq_queue (enqueue_write i f w) = wq_queue w @ [(i, f)]"
      "wq_enqueued (enqueue_write i f w) = wq_enqueued w @ [f]"
      using assms(2) by (auto simp: enqueue_write_def one_drain_def split: if_splits)
    then show ?thesis
      using inv Cons drain_inv_cong [of "enqueue_write i f w" w] unfolding wq_inv_def by auto
  qed
qed

lemma wq_inv_pop:
  assumes "wq_inv m0 w" "wq_drains w = [Looking]"
  shows "wq_inv m0 (drain_pop 0 w)"
proof -
  obtain before where inv: "wq_enqueued w = before @ map snd (wq_queue w)"
    "wq_wire w = wire_bytes m0 before" "wq_mse w = snd (encrypt_outgoing m0 (concat before))"
    using assms by (auto simp: wq_inv_def)
  show ?thesis
  proof (cases "wq_queue w")
    case Nil
    then show ?thesis
      using inv assms(2) by (auto simp: wq_inv_def drain_pop_def)
  next
    case (Cons e rest)
    obtain i f where e: "e = (i, f)" by (cases e)
    show ?thesis
      using inv assms(2) unfolding wq_inv_def
      by (intro exI [of _ before] exI [of _ "[f]"]) (simp add: drain_pop_def Cons e)
  qed
qed

lemma wq_inv_encrypt:
  assumes "wq_inv m0 w" "wq_drains w = [Popped i f]"
  shows "wq_inv m0 (drain_encrypt 0 i f w)"
proof -
  obtain before where inv: "wq_enqueued w = before @ [f] @ map snd (wq_queue w)"
    "wq_wire w = wire_bytes m0 before" "wq_mse w = snd (encrypt_outgoing m0 (concat before))"
    using assms by (auto simp: wq_inv_def)
  then show ?thesis
    using assms(2) unfolding wq_inv_def
    by (intro exI [of _ before] exI [of _ "[f]"])
      (simp add: drain_encrypt_def case_prod_unfold Let_def sock_out.snd_crypt_append wire_bytes_append)
qed

lemma wq_inv_write:
  assumes "wq_inv m0 w" "wq_drains w = [Writing i out]"
  shows "wq_inv m0 (drain_write 0 n i out w)" "out = [] \<Longrightarrow> wq_inv m0 (drain_written 0 w)"
proof -
  obtain before f where inv: "wq_enqueued w = before @ [f] @ map snd (wq_queue w)"
    "wq_wire w @ out = wire_bytes m0 (before @ [f])"
    "wq_mse w = snd (encrypt_outgoing m0 (concat (before @ [f])))"
    using assms by (auto simp: wq_inv_def)
  show "wq_inv m0 (drain_write 0 n i out w)"
    using inv assms(2) unfolding wq_inv_def
    by (intro exI [of _ before] exI [of _ "[f]"]) (simp add: drain_write_def)
  show "wq_inv m0 (drain_written 0 w)" if "out = []"
    using inv assms(2) that unfolding wq_inv_def
    by (intro exI [of _ "before @ [f]"] exI [of _ "[]"]) (simp add: drain_written_def)
qed

lemma wq_step_failed: "wq_step w w' \<Longrightarrow> wq_failed w \<Longrightarrow> wq_failed w'"
  by (induction rule: wq_step.induct)
    (auto simp: wq_defs case_prod_unfold Let_def split: list.splits option.splits)

lemma wq_inv_step:
  assumes "wq_step w w'" "wq_inv m0 w" "one_drain w" "\<not> wq_failed w'"
  shows "wq_inv m0 w'"
  using assms
proof (cases rule: wq_step.cases)
  case (DrainPop k)
  then show ?thesis
    using drain_only [OF assms(3)] assms(2) wq_inv_pop by blast
next
  case (DrainEncrypt k writer frame)
  then show ?thesis
    using drain_only [OF assms(3)] assms(2) wq_inv_encrypt by blast
next
  case (DrainWrite k writer out n)
  then show ?thesis
    using drain_only [OF assms(3)] assms(2) wq_inv_write(1) by blast
next
  case (DrainWritten k writer)
  then show ?thesis
    using drain_only [OF assms(3)] assms(2) wq_inv_write(2) by blast
qed (auto intro: wq_inv_enqueue simp: fail_all_writes_def)

lemma wq_inv_reach: "wq_reach m0 w \<Longrightarrow> \<not> wq_failed w \<Longrightarrow> wq_inv m0 w"
proof (induction rule: wq_reach.induct)
  case Init
  then show ?case
    by (simp add: wq_inv_def new_write_queue_def sock_out.crypt_Nil)
next
  case (Step w w')
  then show ?case
    using wq_step_failed wq_inv_step one_drain_reach by blast
qed

text \<open>C21: the write queue has one drain and frames never interleave. However the calls of
  \<^verbatim>\<open>enqueue_write\<close> and the steps of the drains interleave, at most one coroutine drains the queue at a
  time, also after failed writes. As long as no write fails, the bytes on the wire are a prefix of the
  encryption, under one continuous keystream, of all frames in the order they were enqueued; they end
  with a whole frame whenever the drain is between two frames, and when no drain is running all
  frames have been written.\<close>

theorem write_queue_serializes:
  assumes "wq_reach m0 w"
  shows "length (wq_drains w) \<le> 1 \<and>
    (\<not> wq_failed w \<longrightarrow>
      (\<exists>rest. wq_wire w @ rest = fst (encrypt_outgoing m0 (concat (wq_enqueued w)))) \<and>
      (wq_drains w = [Looking] \<longrightarrow>
        (\<exists>k. wq_wire w = fst (encrypt_outgoing m0 (concat (take k (wq_enqueued w)))))) \<and>
      (wq_drains w = [] \<longrightarrow> wq_wire w = fst (encrypt_outgoing m0 (concat (wq_enqueued w)))))"
proof (intro conjI impI)
  show one: "length (wq_drains w) \<le> 1"
    using one_drain_reach [OF assms] by (auto simp: one_drain_def split: if_splits)
  assume "\<not> wq_failed w"
  with assms have "wq_inv m0 w"
    by (rule wq_inv_reach)
  then obtain before current where enq: "wq_enqueued w = before @ current @ map snd (wq_queue w)"
    and d: "case wq_drains w of [] \<Rightarrow> wq_queue w = [] \<and> drain_inv m0 before current w Looking
       | d # _ \<Rightarrow> drain_inv m0 before current w d"
    by (auto simp: wq_inv_def)
  show "\<exists>rest. wq_wire w @ rest = fst (encrypt_outgoing m0 (concat (wq_enqueued w)))"
    using d unfolding enq wire_bytes_concat [symmetric]
    by (auto simp: wire_bytes_append split: list.splits elim!: drain_inv.elims(2)) (metis append.assoc)
  show "\<exists>k. wq_wire w = fst (encrypt_outgoing m0 (concat (take k (wq_enqueued w))))" if "wq_drains w = [Looking]"
    using d that by (intro exI [of _ "length before"]) (simp add: enq wire_bytes_concat)
  show "wq_wire w = fst (encrypt_outgoing m0 (concat (wq_enqueued w)))" if "wq_drains w = []"
    using d that by (simp add: enq wire_bytes_concat)
qed

theorem write_queue_serializes_witness:
  "\<exists>w. wq_reach None w \<and> wq_enqueued w = [[1, 2], [3]] \<and> wq_drains w = [] \<and> \<not> wq_failed w \<and>
    wq_wire w = [1, 2, 3]"
proof -
  define w1 where "w1 = enqueue_write 8 [3] (drain_write 0 1 7 [1, 2] (drain_encrypt 0 7 [1, 2]
    (drain_pop 0 (enqueue_write 7 [1, 2] (new_write_queue None)))))"
  define w2 where "w2 = drain_encrypt 0 8 [3] (drain_pop 0 (drain_written 0 (drain_write 0 1 7 [2] w1)))"
  define w where "w = drain_pop 0 (drain_written 0 (drain_write 0 1 8 [3] w2))"
  note defs = w1_def w2_def w_def wq_defs new_write_queue_def encrypt_outgoing_def drain_at_def
  have "wq_reach None w1"
    unfolding w1_def
    by (intro wq_reach.Step [OF _ wq_step.Enqueue] wq_reach.Step [OF _ wq_step.DrainWrite]
        wq_reach.Step [OF _ wq_step.DrainEncrypt] wq_reach.Step [OF _ wq_step.DrainPop] wq_reach.Init)
      (simp_all add: defs)
  then have "wq_reach None w2"
    unfolding w2_def
    by (intro wq_reach.Step [OF _ wq_step.DrainWrite] wq_reach.Step [OF _ wq_step.DrainEncrypt]
        wq_reach.Step [OF _ wq_step.DrainPop] wq_reach.Step [OF _ wq_step.DrainWritten])
      (simp_all add: defs)
  then have "wq_reach None w"
    unfolding w_def
    by (intro wq_reach.Step [OF _ wq_step.DrainPop] wq_reach.Step [OF _ wq_step.DrainWritten]
        wq_reach.Step [OF _ wq_step.DrainWrite])
      (simp_all add: defs)
  moreover have "wq_enqueued w = [[1, 2], [3]]" "wq_drains w = []" "\<not> wq_failed w"
    by (simp_all add: defs)
  ultimately show ?thesis
    using write_queue_serializes [of None w] by (auto simp: encrypt_outgoing_def)
qed

text \<open>When a write fails, \<^verbatim>\<open>fail_all_writes\<close> reports the error to the writers still queued, but the frame
  being written has already been taken off the queue: unless its writer is the draining coroutine
  itself, the writer is not told.\<close>

lemma failed_write_not_reported:
  assumes "drain_at k w = Some (Writing i out)" "\<not> wq_result w i" "i \<notin> fst ` set (wq_queue w)"
  shows "\<not> wq_result (fail_all_writes k w) i"
    and "j \<in> fst ` set (wq_queue w) \<Longrightarrow> wq_result (fail_all_writes k w) j"
  using assms by (simp_all add: fail_all_writes_def)

end
