(* ===== verification/MseHandshake.thy ===== *)
theory MseHandshake
  imports Socket
begin

text \<open>
  The negotiation of message stream encryption, \<^verbatim>\<open>mse_handshake_initiator\<close> and
  \<^verbatim>\<open>mse_handshake_acceptor\<close> of \<^verbatim>\<open>src/src/AsyncSocket.hpp\<close>, over the socket of theory \<open>Socket\<close>.

  OpenSSL is a parameter: \<open>sha1\<close> is the digest, and \<open>ya\<close>, \<open>yb\<close> and \<open>secret\<close> stand for the public keys
  the two sides have generated and the map from the other side's public key to the shared secret (the
  key exchange itself is in theory \<open>Mse\<close>).  What is assumed is that digests have twenty bytes and that
  the big-number library computes powers modulo the prime.  The ten-second deadlines are part of the network: a read that times out ends like a
  read at end of file.
\<close>

subsection \<open>Definitions\<close>

datatype MseResult = MseRc4 | MsePlaintext | MseFailed

text \<open>\<^verbatim>\<open>std::search\<close>: the offset of the first occurrence.\<close>

fun find_sub :: "'a list \<Rightarrow> 'a list \<Rightarrow> nat option" where
  "find_sub pat [] = (if pat = [] then Some 0 else None)"
| "find_sub pat (x # xs) =
    (if take (length pat) (x # xs) = pat then Some 0 else map_option Suc (find_sub pat xs))"

lemma fill_loop_le:
  "fill_loop need buf pos inc = (ok, buf', pos', inc') \<Longrightarrow> length inc' \<le> length inc"
  by (induction need buf pos inc rule: fill_loop.induct) (fastforce split: if_splits)+

lemma fill_loop_progress:
  "fill_loop need buf pos inc = (True, buf', pos', inc') \<Longrightarrow> length buf - pos < need \<Longrightarrow>
    length inc' < length inc"
  by (cases inc) (auto split: if_splits dest: fill_loop_le)

lemma fill_buffer_progress:
  "fill_buffer need s = (Inr u, s') \<Longrightarrow> length (read_buf s) - read_pos s < need \<Longrightarrow>
    length (incoming s') < length (incoming s)"
  by (auto simp: fill_buffer_def Let_def split: prod.splits if_splits dest!: fill_loop_progress)

text \<open>The loops that scan the buffered bytes for a pattern, reading more as long as the limit is not
  reached.\<close>

function scan_for :: "byte list \<Rightarrow> nat \<Rightarrow> socket_error \<Rightarrow> nat io" where
  "scan_for pat limit err s =
    (case find_sub pat (drop (read_pos s) (read_buf s)) of
       Some off \<Rightarrow> (Inr off, s)
     | None \<Rightarrow>
         if limit \<le> length (read_buf s) - read_pos s then (Inl err, s)
         else (case fill_buffer (length (read_buf s) - read_pos s + 1) s of
                 (Inl e, s') \<Rightarrow> (Inl e, s')
               | (Inr _, s') \<Rightarrow> scan_for pat limit err s'))"
  by pat_completeness auto
termination scan_for
  by (relation "measure (\<lambda>(pat, limit, err, s). length (incoming s))")
    (auto dest!: sym [of _ "fill_buffer _ _"] dest: fill_buffer_progress)

declare scan_for.simps [simp del]

text \<open>Keying both streams and discarding the first 1024 bytes of each.\<close>

definition mse_setup ::
  "(byte list \<Rightarrow> id20) \<Rightarrow> string \<Rightarrow> string \<Rightarrow> byte list \<Rightarrow> id20 \<Rightarrow> unit io" where
  "mse_setup sha1 enc_label dec_label S skey s =
    (case rc4_init (sha1_concat3 sha1 (bytes_of_string enc_label) S skey) of
       None \<Rightarrow> (Inl EmptyRc4Key, s)
     | Some e \<Rightarrow>
         (case rc4_init (sha1_concat3 sha1 (bytes_of_string dec_label) S skey) of
            None \<Rightarrow> (Inl EmptyRc4Key, s)
          | Some d \<Rightarrow>
              (Inr (), s\<lparr> sk_mse := Some \<lparr> mc_active = False, mc_rc4 = False,
                 mc_encrypt = discard_rc4 e, mc_decrypt = discard_rc4 d \<rparr> \<rparr>)))"

definition mse_encrypt :: "byte list \<Rightarrow> byte list io" where
  "mse_encrypt data s =
    (let c = the (sk_mse s); (out, r) = rc4_crypt (mc_encrypt c) data
     in (Inr out, s\<lparr> sk_mse := Some (c\<lparr> mc_encrypt := r \<rparr>) \<rparr>))"

definition mse_decrypt :: "byte list \<Rightarrow> byte list io" where
  "mse_decrypt data s =
    (let c = the (sk_mse s); (out, r) = rc4_crypt (mc_decrypt c) data
     in (Inr out, s\<lparr> sk_mse := Some (c\<lparr> mc_decrypt := r \<rparr>) \<rparr>))"

definition mse_set_rc4 :: "bool \<Rightarrow> unit io" where
  "mse_set_rc4 b s = (Inr (), s\<lparr> sk_mse := Some ((the (sk_mse s))\<lparr> mc_rc4 := b \<rparr>) \<rparr>)"

definition mse_set_active :: "unit io" where
  "mse_set_active s = (Inr (), s\<lparr> sk_mse := Some ((the (sk_mse s))\<lparr> mc_active := True \<rparr>) \<rparr>)"

definition read_dec :: "nat \<Rightarrow> byte list io" where
  "read_dec n = io_bind (fill_buffer n) (\<lambda>_. io_bind (consume_bytes n) mse_decrypt)"

definition xor_bytes :: "byte list \<Rightarrow> byte list \<Rightarrow> byte list" where
  "xor_bytes a b = map2 xor a b"

definition sync_hash :: "(byte list \<Rightarrow> id20) \<Rightarrow> byte list \<Rightarrow> byte list" where
  "sync_hash sha1 S = sha1_concat sha1 (bytes_of_string ''req1'') S"

definition skey_obf :: "(byte list \<Rightarrow> id20) \<Rightarrow> byte list \<Rightarrow> id20 \<Rightarrow> byte list" where
  "skey_obf sha1 S skey =
    xor_bytes (sha1_concat sha1 (bytes_of_string ''req2'') skey)
      (sha1_concat sha1 (bytes_of_string ''req3'') S)"

definition initiator_block :: "byte list" where
  "initiator_block =
    replicate 8 0 @ to_be32 kCryptoAll @ to_be16 0 @ to_be16 (of_nat kHandshakeLen)"

definition initiator_body ::
  "(byte list \<Rightarrow> id20) \<Rightarrow> byte list \<Rightarrow> (byte list \<Rightarrow> byte list) \<Rightarrow> id20 \<Rightarrow> byte list \<Rightarrow>
    (MseResult \<times> byte list) io" where
  "initiator_body sha1 ya secret skey bt_handshake =
    (if length bt_handshake \<noteq> kHandshakeLen then io_throw MseBadHandshakeLength
     else io_bind (send_raw ya) (\<lambda>_.
       io_bind (fill_buffer 96) (\<lambda>_. io_bind (consume_bytes 96) (\<lambda>yb.
       io_bind (mse_setup sha1 ''keyA'' ''keyB'' (secret yb) skey) (\<lambda>_.
       io_bind (mse_encrypt initiator_block) (\<lambda>block.
       io_bind (mse_encrypt bt_handshake) (\<lambda>ia.
       io_bind (send_raw (sync_hash sha1 (secret yb) @ skey_obf sha1 (secret yb) skey @ block @ ia)) (\<lambda>_.
       io_bind (mse_decrypt (replicate 8 0)) (\<lambda>vc_ct.
       io_bind (scan_for vc_ct (kMaxPadSize + 8) MseConstantNotFound) (\<lambda>vc_off.
       io_bind (consume_bytes (vc_off + 8)) (\<lambda>_.
       io_bind (read_dec 6) (\<lambda>hdr.
         let select = from_be32 (take 4 hdr);
             peer_len_pad = unat (from_be16 (take 2 (drop 4 hdr)))
         in io_bind (if select = kCryptoPlaintext then mse_set_rc4 False
                     else if select = kCryptoRc4 then mse_set_rc4 True
                     else io_throw MseUnsupportedMethod) (\<lambda>_.
            if kMaxPadSize < peer_len_pad then io_throw MseInvalidPad
            else io_bind (if 0 < peer_len_pad then read_dec peer_len_pad else io_return []) (\<lambda>_.
              io_bind (read_dec kHandshakeLen) (\<lambda>peer_hs.
              io_bind mse_set_active (\<lambda>_.
              io_return (if select = kCryptoRc4 then MseRc4 else MsePlaintext, peer_hs)))))))))))))))))"

definition mse_try :: "(MseResult \<times> byte list) io \<Rightarrow> Socket \<Rightarrow> (MseResult \<times> byte list) \<times> Socket" where
  "mse_try body s =
    (case body s of
       (Inl e, s') \<Rightarrow> ((MseFailed, []), s'\<lparr> sk_mse := None \<rparr>)
     | (Inr r, s') \<Rightarrow> (r, s'))"

definition mse_handshake_initiator where
  "mse_handshake_initiator sha1 ya secret skey bt_handshake =
    mse_try (initiator_body sha1 ya secret skey bt_handshake)"

definition peek_byte :: "byte io" where
  "peek_byte s = (Inr (read_buf s ! read_pos s), s)"

definition crypto_select :: "u32 \<Rightarrow> u32 option" where
  "crypto_select provide =
    (if and provide kCryptoRc4 \<noteq> 0 then Some kCryptoRc4
     else if and provide kCryptoPlaintext \<noteq> 0 then Some kCryptoPlaintext
     else None)"

definition acceptor_step4 :: "u32 \<Rightarrow> byte list" where
  "acceptor_step4 select = replicate 8 0 @ to_be32 select @ to_be16 0"

text \<open>From the encrypted block of the third step to the end of the negotiation.\<close>

definition acceptor_finish :: "(MseResult \<times> byte list) io" where
  "acceptor_finish =
    io_bind (read_dec 8) (\<lambda>vc.
      if vc \<noteq> replicate 8 0 then io_throw MseInvalidConstant
      else io_bind (read_dec 4) (\<lambda>provide_b. io_bind (read_dec 2) (\<lambda>len_pad_b.
        let len_pad = unat (from_be16 len_pad_b)
        in if kMaxPadSize < len_pad then io_throw MseInvalidPad
           else io_bind (if 0 < len_pad then read_dec len_pad else io_return []) (\<lambda>_.
             io_bind (read_dec 2) (\<lambda>len_ia_b.
               if unat (from_be16 len_ia_b) \<noteq> kHandshakeLen then io_throw MseBadPayloadLength
               else io_bind (read_dec kHandshakeLen) (\<lambda>ia.
                 case crypto_select (from_be32 provide_b) of
                   None \<Rightarrow> io_throw MseNoCommonMethod
                 | Some select \<Rightarrow>
                     io_bind (mse_set_rc4 (select = kCryptoRc4)) (\<lambda>_.
                     io_bind (if select = kCryptoRc4 then mse_encrypt (acceptor_step4 select)
                              else io_return (acceptor_step4 select)) (\<lambda>step4.
                     io_bind (send_raw step4) (\<lambda>_.
                     io_bind mse_set_active (\<lambda>_.
                     io_return (if select = kCryptoRc4 then MseRc4 else MsePlaintext, ia)))))))))))"

definition acceptor_body ::
  "(byte list \<Rightarrow> id20) \<Rightarrow> byte list \<Rightarrow> (byte list \<Rightarrow> byte list) \<Rightarrow> id20 \<Rightarrow> (MseResult \<times> byte list) io" where
  "acceptor_body sha1 yb secret skey =
    io_bind (fill_buffer 1) (\<lambda>_. io_bind peek_byte (\<lambda>b.
      if b = 0x13 then io_return (MsePlaintext, [])
      else io_bind (fill_buffer 96) (\<lambda>_. io_bind (consume_bytes 96) (\<lambda>ya.
        io_bind (send_raw yb) (\<lambda>_.
        io_bind (mse_setup sha1 ''keyB'' ''keyA'' (secret ya) skey) (\<lambda>_.
        io_bind (scan_for (sync_hash sha1 (secret ya)) (kMaxPadSize + 40) MseSyncNotFound) (\<lambda>sync_off.
        io_bind (consume_bytes sync_off) (\<lambda>_. io_bind (consume_bytes 20) (\<lambda>_.
        io_bind (fill_buffer 20) (\<lambda>_. io_bind (consume_bytes 20) (\<lambda>obf.
          if xor_bytes obf (sha1_concat sha1 (bytes_of_string ''req3'') (secret ya)) \<noteq>
             sha1_concat sha1 (bytes_of_string ''req2'') skey
          then io_throw MseOtherTorrent
          else acceptor_finish)))))))))))"

definition mse_handshake_acceptor where
  "mse_handshake_acceptor sha1 yb secret skey = mse_try (acceptor_body sha1 yb secret skey)"

subsection \<open>Steps of the negotiation\<close>

lemma find_sub_short: "length xs < length pat \<Longrightarrow> find_sub pat xs = None"
  by (induction xs) auto

lemma find_sub_front: "take (length pat) xs = pat \<Longrightarrow> find_sub pat xs = Some 0"
  by (cases xs) auto

lemma scan_for_front:
  assumes "wf_socket s" "take (length pat) (stream s) = pat" "length pat \<le> limit"
  shows "\<exists>s'. scan_for pat limit err s = (Inr 0, s') \<and> wf_socket s' \<and> stream s' = stream s \<and>
    length pat \<le> length (drop (read_pos s') (read_buf s')) \<and> sk_mse s' = sk_mse s \<and> sent s' = sent s"
  using assms
proof (induction pat limit err s rule: scan_for.induct)
  case (1 pat limit err s)
  let ?view = "drop (read_pos s) (read_buf s)"
  have len: "length pat \<le> length (stream s)"
    using "1.prems"(2) by (metis length_take min.cobounded1)
  show ?case
  proof (cases "length pat \<le> length ?view")
    case True
    then have "take (length pat) ?view = pat"
      using "1.prems"(2) by (simp add: stream_def)
    then show ?thesis
      using True "1.prems" by (subst scan_for.simps) (simp add: find_sub_front)
  next
    case False
    then have none: "find_sub pat ?view = None" and lim: "\<not> limit \<le> length (read_buf s) - read_pos s"
      using "1.prems"(3) by (simp_all add: find_sub_short)
    have "length (read_buf s) - read_pos s + 1 \<le> length (stream s)"
      using False len by simp
    then obtain s1 where s1: "fill_buffer (length (read_buf s) - read_pos s + 1) s = (Inr (), s1)"
      "wf_socket s1" "stream s1 = stream s" "sk_mse s1 = sk_mse s" "sent s1 = sent s"
      using fill_buffer_stream [OF "1.prems"(1)] by blast
    show ?thesis
      using "1.IH" [OF none lim s1(1) [symmetric] refl s1(2)] "1.prems"(2,3) s1 none lim
      by (subst scan_for.simps) simp
  qed
qed

lemma read_dec_step:
  assumes "wf_socket s" "sk_mse s = Some (c\<lparr> mc_decrypt := k \<rparr>)"
    and "stream s = fst (rc4_crypt k d) @ rest" and "length d = n"
  shows "\<exists>s'. read_dec n s = (Inr d, s') \<and> wf_socket s' \<and> stream s' = rest \<and> sent s' = sent s \<and>
    sk_mse s' = Some (c\<lparr> mc_decrypt := snd (rc4_crypt k d) \<rparr>)"
proof -
  have n: "n \<le> length (stream s)" "take n (stream s) = fst (rc4_crypt k d)" "drop n (stream s) = rest"
    using assms(3,4) by (simp_all add: rc4.crypt_length)
  obtain s1 where s1: "fill_buffer n s = (Inr (), s1)" "wf_socket s1" "stream s1 = stream s"
    "n \<le> length (drop (read_pos s1) (read_buf s1))" "sk_mse s1 = sk_mse s" "sent s1 = sent s"
    using fill_buffer_stream [OF assms(1) n(1)] by blast
  obtain s2 where s2: "consume_bytes n s1 = (Inr (take n (stream s)), s2)" "wf_socket s2"
    "stream s2 = drop n (stream s)" "sk_mse s2 = sk_mse s" "sent s2 = sent s"
    using consume_bytes_stream [OF s1(2,4)] s1 by auto
  have "read_dec n s = mse_decrypt (fst (rc4_crypt k d)) s2"
    using s1(1) s2(1) n(2) by (simp add: read_dec_def io_bind_def)
  then show ?thesis
    using s2 assms(2) n(3)
    by (simp add: mse_decrypt_def rc4.crypt_involutive wf_socket_def stream_def Let_def case_prod_unfold)
qed

lemma rc4_crypt_split:
  "rc4_crypt k (a @ b) =
    (fst (rc4_crypt k a) @ fst (rc4_crypt (snd (rc4_crypt k a)) b), snd (rc4_crypt (snd (rc4_crypt k a)) b))"
  by (simp add: rc4_crypt_append case_prod_unfold Let_def)

lemma kCryptoAll_bits [simp]: "crypto_select kCryptoAll = Some kCryptoRc4"
  by (simp add: crypto_select_def kCryptoAll_def kCryptoRc4_def kCryptoPlaintext_def)

lemma acceptor_finish_rc4:
  assumes "wf_socket s" "sk_mse s = Some c" "\<not> mc_active c" "length hs = kHandshakeLen"
    and "stream s = fst (rc4_crypt (mc_decrypt c) (initiator_block @ hs)) @ rest"
  shows "\<exists>s'. acceptor_finish s = (Inr (MseRc4, hs), s') \<and> wf_socket s' \<and> stream s' = rest \<and>
    sent s' = sent s @ fst (rc4_crypt (mc_encrypt c) (acceptor_step4 kCryptoRc4)) \<and>
    sk_mse s' = Some \<lparr> mc_active = True, mc_rc4 = True,
      mc_encrypt = snd (rc4_crypt (mc_encrypt c) (acceptor_step4 kCryptoRc4)),
      mc_decrypt = snd (rc4_crypt (mc_decrypt c) (initiator_block @ hs)) \<rparr>"
proof -
  let ?vc = "replicate 8 0 :: byte list" and ?pr = "to_be32 kCryptoAll" and ?lp = "to_be16 0"
    and ?li = "to_be16 (of_nat kHandshakeLen)"
  let ?k0 = "mc_decrypt c"
  let ?k1 = "snd (rc4_crypt ?k0 ?vc)" let ?k2 = "snd (rc4_crypt ?k1 ?pr)"
  let ?k3 = "snd (rc4_crypt ?k2 ?lp)" let ?k4 = "snd (rc4_crypt ?k3 ?li)"
  have st: "stream s = fst (rc4_crypt ?k0 ?vc) @ fst (rc4_crypt ?k1 ?pr) @ fst (rc4_crypt ?k2 ?lp) @
      fst (rc4_crypt ?k3 ?li) @ fst (rc4_crypt ?k4 hs) @ rest"
    and last: "snd (rc4_crypt ?k0 (initiator_block @ hs)) = snd (rc4_crypt ?k4 hs)"
    using assms(5) by (simp_all add: initiator_block_def rc4_crypt_split)
  obtain s1 where s1: "read_dec 8 s = (Inr ?vc, s1)" "wf_socket s1" "sent s1 = sent s"
    "stream s1 = fst (rc4_crypt ?k1 ?pr) @ fst (rc4_crypt ?k2 ?lp) @ fst (rc4_crypt ?k3 ?li) @ fst (rc4_crypt ?k4 hs) @ rest"
    "sk_mse s1 = Some (c\<lparr> mc_decrypt := ?k1 \<rparr>)"
    using read_dec_step [OF assms(1) _ st, of c 8] assms(2) by auto
  obtain s2 where s2: "read_dec 4 s1 = (Inr ?pr, s2)" "wf_socket s2" "sent s2 = sent s"
    "stream s2 = fst (rc4_crypt ?k2 ?lp) @ fst (rc4_crypt ?k3 ?li) @ fst (rc4_crypt ?k4 hs) @ rest"
    "sk_mse s2 = Some (c\<lparr> mc_decrypt := ?k2 \<rparr>)"
    using read_dec_step [OF s1(2,5,4), of 4] s1(3) by auto
  obtain s3 where s3: "read_dec 2 s2 = (Inr ?lp, s3)" "wf_socket s3" "sent s3 = sent s"
    "stream s3 = fst (rc4_crypt ?k3 ?li) @ fst (rc4_crypt ?k4 hs) @ rest"
    "sk_mse s3 = Some (c\<lparr> mc_decrypt := ?k3 \<rparr>)"
    using read_dec_step [OF s2(2,5,4), of 2] s2(3) by auto
  obtain s4 where s4: "read_dec 2 s3 = (Inr ?li, s4)" "wf_socket s4" "sent s4 = sent s"
    "stream s4 = fst (rc4_crypt ?k4 hs) @ rest" "sk_mse s4 = Some (c\<lparr> mc_decrypt := ?k4 \<rparr>)"
    using read_dec_step [OF s3(2,5,4), of 2] s3(3) by auto
  obtain s5 where s5: "read_dec kHandshakeLen s4 = (Inr hs, s5)" "wf_socket s5" "sent s5 = sent s"
    "stream s5 = rest" "sk_mse s5 = Some (c\<lparr> mc_decrypt := snd (rc4_crypt ?k4 hs) \<rparr>)"
    using read_dec_step [OF s4(2,5,4) assms(4)] s4(3) by auto
  have "unat (from_be16 ?li) = kHandshakeLen" "unat (from_be16 ?lp) = 0"
    by (simp_all add: kHandshakeLen_def)
  then show ?thesis
    using s1(1) s2(1) s3(1) s4(1) s5 assms(3) last
    by (simp add: acceptor_finish_def io_bind_def io_return_def mse_set_rc4_def mse_encrypt_def
        mse_set_active_def send_raw_def encrypt_outgoing_def encrypting_def kMaxPadSize_def
        wf_socket_def stream_def case_prod_unfold Let_def del: rc4_crypt.simps)
qed


definition stream_key :: "(byte list \<Rightarrow> id20) \<Rightarrow> string \<Rightarrow> byte list \<Rightarrow> id20 \<Rightarrow> Rc4" where
  "stream_key sha1 label S skey =
    discard_rc4 (the (rc4_init (sha1_concat3 sha1 (bytes_of_string label) S skey)))"

lemma mse_setup_keys:
  assumes "\<And>x. length (sha1 x) = 20"
  shows "mse_setup sha1 l1 l2 S skey s = (Inr (), s\<lparr> sk_mse := Some \<lparr> mc_active = False, mc_rc4 = False,
    mc_encrypt = stream_key sha1 l1 S skey, mc_decrypt = stream_key sha1 l2 S skey \<rparr> \<rparr>)"
proof -
  have "rc4_init (sha1 x) = Some (the (rc4_init (sha1 x)))" for x
    using assms [of x] rc4_init_valid [of "sha1 x"] by force
  then show ?thesis
    by (simp add: mse_setup_def stream_key_def sha1_concat3_def split: option.split) (metis option.distinct(1) option.sel)
qed

lemma length_xor_bytes [simp]: "length (xor_bytes a b) = min (length a) (length b)"
  by (simp add: xor_bytes_def)

lemma xor_bytes_cancel: "length a = length b \<Longrightarrow> xor_bytes (xor_bytes a b) b = a"
  by (induction a b rule: list_induct2) (simp_all add: xor_bytes_def)

lemma length_skey_obf: "(\<And>x. length (sha1 x) = 20) \<Longrightarrow> length (skey_obf sha1 S skey) = 20"
  by (simp add: skey_obf_def sha1_concat_def)

lemma length_sync_hash: "(\<And>x. length (sha1 x) = 20) \<Longrightarrow> length (sync_hash sha1 S) = 20"
  by (simp add: sync_hash_def sha1_concat_def)

text \<open>What the initiator sends after the key exchange.\<close>

definition mse_step3 :: "(byte list \<Rightarrow> id20) \<Rightarrow> byte list \<Rightarrow> id20 \<Rightarrow> byte list \<Rightarrow> byte list" where
  "mse_step3 sha1 S skey hs =
    sync_hash sha1 S @ skey_obf sha1 S skey @
    fst (rc4_crypt (stream_key sha1 ''keyA'' S skey) (initiator_block @ hs))"

lemma send_raw_plain:
  "\<not> encrypting (sk_mse s) \<Longrightarrow> send_raw d s = (Inr (), s\<lparr> sent := sent s @ d \<rparr>)"
  by (simp add: send_raw_def encrypt_outgoing_def)

lemma peek_stream:
  assumes "wf_socket s" "1 \<le> length (drop (read_pos s) (read_buf s))"
  shows "peek_byte s = (Inr (hd (stream s)), s)"
  using assms by (simp add: peek_byte_def stream_def hd_append hd_drop_conv_nth) linarith

lemma wf_upd [simp]:
  "wf_socket (s\<lparr> sent := x \<rparr>) = wf_socket s" "wf_socket (s\<lparr> sk_mse := m \<rparr>) = wf_socket s"
  "stream (s\<lparr> sent := x \<rparr>) = stream s" "stream (s\<lparr> sk_mse := m \<rparr>) = stream s"
  by (simp_all add: wf_socket_def stream_def)

lemma acceptor_rc4:
  assumes sha: "\<And>x. length (sha1 x) = 20"
    and s: "wf_socket s" "\<not> encrypting (sk_mse s)" "stream s = ya @ mse_step3 sha1 S skey hs @ rest"
    and ya: "length ya = 96" "hd ya \<noteq> 0x13" "secret ya = S" and hs: "length hs = kHandshakeLen"
  shows "\<exists>s'. acceptor_body sha1 yb secret skey s = (Inr (MseRc4, hs), s') \<and> wf_socket s' \<and> stream s' = rest \<and>
    sent s' = sent s @ yb @ fst (rc4_crypt (stream_key sha1 ''keyB'' S skey) (acceptor_step4 kCryptoRc4)) \<and>
    sk_mse s' = Some \<lparr> mc_active = True, mc_rc4 = True,
      mc_encrypt = snd (rc4_crypt (stream_key sha1 ''keyB'' S skey) (acceptor_step4 kCryptoRc4)),
      mc_decrypt = snd (rc4_crypt (stream_key sha1 ''keyA'' S skey) (initiator_block @ hs)) \<rparr>"
proof -
  let ?sync = "sync_hash sha1 S" and ?obf = "skey_obf sha1 S skey"
  let ?enc = "fst (rc4_crypt (stream_key sha1 ''keyA'' S skey) (initiator_block @ hs))"
  define c where "c = \<lparr> mc_active = False, mc_rc4 = False,
    mc_encrypt = stream_key sha1 ''keyB'' S skey, mc_decrypt = stream_key sha1 ''keyA'' S skey \<rparr>"
  note len = length_sync_hash [of sha1 S, OF sha] length_skey_obf [of sha1 S skey, OF sha]
  have "1 \<le> length (stream s)" "96 \<le> length (stream s)"
    using s(3) ya(1) by simp_all
  then obtain s1 where s1: "fill_buffer 1 s = (Inr (), s1)" "wf_socket s1" "stream s1 = stream s"
    "1 \<le> length (drop (read_pos s1) (read_buf s1))" "sk_mse s1 = sk_mse s" "sent s1 = sent s"
    using fill_buffer_stream [OF s(1)] by blast
  have "hd (stream s) = hd ya"
    using s(3) ya(1) by (cases ya) simp_all
  then have peek: "peek_byte s1 = (Inr (hd ya), s1)"
    using peek_stream [OF s1(2,4)] s1(3) by simp
  obtain s2 where s2: "fill_buffer 96 s1 = (Inr (), s2)" "wf_socket s2" "stream s2 = stream s"
    "96 \<le> length (drop (read_pos s2) (read_buf s2))" "sk_mse s2 = sk_mse s" "sent s2 = sent s"
    using fill_buffer_stream [OF s1(2)] s1 \<open>96 \<le> length (stream s)\<close> by metis
  obtain s3 where s3: "consume_bytes 96 s2 = (Inr ya, s3)" "wf_socket s3"
    "stream s3 = ?sync @ ?obf @ ?enc @ rest" "sk_mse s3 = sk_mse s" "sent s3 = sent s"
    using consume_bytes_stream [OF s2(2,4)] s2 s(3) ya(1) by (auto simp: mse_step3_def)
  define s4 where "s4 = s3\<lparr> sent := sent s @ yb, sk_mse := Some c \<rparr>"
  have send: "send_raw yb s3 = (Inr (), s3\<lparr> sent := sent s @ yb \<rparr>)"
    using s3 s(2) by (simp add: send_raw_plain)
  have keyed: "mse_setup sha1 ''keyB'' ''keyA'' S skey (s3\<lparr> sent := sent s @ yb \<rparr>) = (Inr (), s4)"
    by (simp add: mse_setup_keys [OF sha] s4_def c_def)
  have s4: "wf_socket s4" "stream s4 = ?sync @ ?obf @ ?enc @ rest" "sk_mse s4 = Some c"
    "sent s4 = sent s @ yb"
    using s3 by (simp_all add: s4_def)
  obtain s5 where s5: "scan_for ?sync (kMaxPadSize + 40) MseSyncNotFound s4 = (Inr 0, s5)" "wf_socket s5"
    "stream s5 = stream s4" "length ?sync \<le> length (drop (read_pos s5) (read_buf s5))"
    "sk_mse s5 = Some c" "sent s5 = sent s @ yb"
    using scan_for_front [OF s4(1), of ?sync "kMaxPadSize + 40"] s4 len by (auto simp: kMaxPadSize_def)
  have c0: "consume_bytes 0 s5 = (Inr [], s5)"
    by (simp add: consume_bytes_def)
  obtain s6 where s6: "consume_bytes 20 s5 = (Inr ?sync, s6)" "wf_socket s6"
    "stream s6 = ?obf @ ?enc @ rest" "sk_mse s6 = Some c" "sent s6 = sent s @ yb"
    using consume_bytes_stream [OF s5(2), of 20] s5 s4(2) len by auto
  have "20 \<le> length (stream s6)"
    using s6(3) len by simp
  then obtain s7 where s7: "fill_buffer 20 s6 = (Inr (), s7)" "wf_socket s7" "stream s7 = stream s6"
    "20 \<le> length (drop (read_pos s7) (read_buf s7))" "sk_mse s7 = Some c" "sent s7 = sent s @ yb"
    using fill_buffer_stream [OF s6(2)] s6 by metis
  obtain s8 where s8: "consume_bytes 20 s7 = (Inr ?obf, s8)" "wf_socket s8"
    "stream s8 = ?enc @ rest" "sk_mse s8 = Some c" "sent s8 = sent s @ yb"
    using consume_bytes_stream [OF s7(2,4)] s7 s6(3) len by auto
  have skey: "xor_bytes ?obf (sha1_concat sha1 (bytes_of_string ''req3'') S) =
      sha1_concat sha1 (bytes_of_string ''req2'') skey"
    by (simp add: skey_obf_def xor_bytes_cancel sha1_concat_def sha)
  have "acceptor_body sha1 yb secret skey s = acceptor_finish s8"
    using ya(2) skey
    by (simp add: acceptor_body_def io_bind_def s1(1) peek s2(1) s3(1) ya(3) send keyed s5(1) c0 s6(1)
        s7(1) s8(1) del: One_nat_def)
  moreover have "\<not> mc_active c" "mc_decrypt c = stream_key sha1 ''keyA'' S skey"
    "mc_encrypt c = stream_key sha1 ''keyB'' S skey"
    by (simp_all add: c_def)
  ultimately show ?thesis
    using acceptor_finish_rc4 [OF s8(2,4) _ hs, of rest] s8(3,5) by simp
qed


lemma crypto_codes: "kCryptoRc4 \<noteq> kCryptoPlaintext"
  by (simp add: kCryptoRc4_def kCryptoPlaintext_def)

lemma initiator_rc4:
  assumes sha: "\<And>x. length (sha1 x) = 20"
    and s: "wf_socket s" "\<not> encrypting (sk_mse s)"
      "stream s = yb @ fst (rc4_crypt (stream_key sha1 ''keyB'' S skey) (acceptor_step4 kCryptoRc4 @ hs')) @ rest"
    and yb: "length yb = 96" "secret yb = S"
    and hs: "length hs = kHandshakeLen" "length hs' = kHandshakeLen"
  shows "\<exists>s'. initiator_body sha1 ya secret skey hs s = (Inr (MseRc4, hs'), s') \<and> wf_socket s' \<and> stream s' = rest \<and>
    sent s' = sent s @ ya @ mse_step3 sha1 S skey hs \<and>
    sk_mse s' = Some \<lparr> mc_active = True, mc_rc4 = True,
      mc_encrypt = snd (rc4_crypt (stream_key sha1 ''keyA'' S skey) (initiator_block @ hs)),
      mc_decrypt = snd (rc4_crypt (stream_key sha1 ''keyB'' S skey) (acceptor_step4 kCryptoRc4 @ hs')) \<rparr>"
proof -
  let ?vc = "replicate 8 0 :: byte list" and ?hdr = "to_be32 kCryptoRc4 @ to_be16 0"
  let ?a0 = "stream_key sha1 ''keyA'' S skey" and ?b0 = "stream_key sha1 ''keyB'' S skey"
  let ?a1 = "snd (rc4_crypt ?a0 initiator_block)" let ?a2 = "snd (rc4_crypt ?a1 hs)"
  let ?b1 = "snd (rc4_crypt ?b0 ?vc)" let ?b2 = "snd (rc4_crypt ?b1 ?hdr)" let ?b3 = "snd (rc4_crypt ?b2 hs')"
  let ?vct = "fst (rc4_crypt ?b0 ?vc)"
  define tail where "tail = fst (rc4_crypt ?b1 ?hdr) @ fst (rc4_crypt ?b2 hs') @ rest"
  have split: "rc4_crypt ?b0 (acceptor_step4 kCryptoRc4 @ hs') =
      (?vct @ fst (rc4_crypt ?b1 ?hdr) @ fst (rc4_crypt ?b2 hs'), ?b3)"
    using rc4_crypt_split [of ?b0 ?vc "?hdr @ hs'"] rc4_crypt_split [of ?b1 ?hdr hs']
    by (simp add: acceptor_step4_def)
  have st: "stream s = yb @ ?vct @ tail"
    using s(3) by (simp add: split tail_def)
  define c where "c = \<lparr> mc_active = False, mc_rc4 = False, mc_encrypt = ?a2, mc_decrypt = ?b1 \<rparr>"
  define s0 where "s0 = s\<lparr> sent := sent s @ ya \<rparr>"
  have send: "send_raw ya s = (Inr (), s0)"
    using s(2) by (simp add: send_raw_plain s0_def)
  have s0: "wf_socket s0" "stream s0 = yb @ ?vct @ tail" "\<not> encrypting (sk_mse s0)" "sent s0 = sent s @ ya"
    using s st by (simp_all add: s0_def)
  have "96 \<le> length (stream s0)"
    using s0(2) yb(1) by simp
  then obtain s1 where s1: "fill_buffer 96 s0 = (Inr (), s1)" "wf_socket s1" "stream s1 = stream s0"
    "96 \<le> length (drop (read_pos s1) (read_buf s1))" "sk_mse s1 = sk_mse s0" "sent s1 = sent s0"
    using fill_buffer_stream [OF s0(1)] by blast
  obtain s2 where s2: "consume_bytes 96 s1 = (Inr yb, s2)" "wf_socket s2"
    "stream s2 = ?vct @ tail" "sent s2 = sent s @ ya"
    using consume_bytes_stream [OF s1(2,4)] s1 s0 yb(1) by auto
  define s3 where "s3 = s2\<lparr> sk_mse := Some (c\<lparr> mc_decrypt := ?b0 \<rparr>) \<rparr>"
  define s4 where "s4 = s2\<lparr> sent := sent s @ ya @ mse_step3 sha1 S skey hs, sk_mse := Some c \<rparr>"
  define m where "m a b = Some \<lparr> mc_active = False, mc_rc4 = False, mc_encrypt = a, mc_decrypt = b \<rparr>" for a b
  let ?block = "fst (rc4_crypt ?a0 initiator_block)" and ?ia = "fst (rc4_crypt ?a1 hs)"
  have step3: "mse_setup sha1 ''keyA'' ''keyB'' S skey s2 = (Inr (), s2\<lparr> sk_mse := m ?a0 ?b0 \<rparr>)"
    "mse_encrypt initiator_block (s2\<lparr> sk_mse := m ?a0 ?b0 \<rparr>) = (Inr ?block, s2\<lparr> sk_mse := m ?a1 ?b0 \<rparr>)"
    "mse_encrypt hs (s2\<lparr> sk_mse := m ?a1 ?b0 \<rparr>) = (Inr ?ia, s2\<lparr> sk_mse := m ?a2 ?b0 \<rparr>)"
    "send_raw (sync_hash sha1 S @ skey_obf sha1 S skey @ ?block @ ?ia) (s2\<lparr> sk_mse := m ?a2 ?b0 \<rparr>) =
      (Inr (), s2\<lparr> sent := sent s @ ya @ mse_step3 sha1 S skey hs, sk_mse := m ?a2 ?b0 \<rparr>)"
    "mse_decrypt ?vc (s2\<lparr> sent := sent s @ ya @ mse_step3 sha1 S skey hs, sk_mse := m ?a2 ?b0 \<rparr>) = (Inr ?vct, s4)"
    by (simp_all add: mse_setup_keys [OF sha] mse_encrypt_def mse_decrypt_def send_raw_plain
        encrypting_def Let_def case_prod_unfold s4_def c_def m_def mse_step3_def rc4_crypt_split s2(4)
        del: rc4_crypt.simps)
  have s4: "wf_socket s4" "stream s4 = ?vct @ tail" "sk_mse s4 = Some c"
    "sent s4 = sent s @ ya @ mse_step3 sha1 S skey hs"
    using s2 by (simp_all add: s4_def)
  have vlen: "length ?vct = 8"
    by (simp only: rc4.crypt_length length_replicate)
  then obtain s5 where s5: "scan_for ?vct (kMaxPadSize + 8) MseConstantNotFound s4 = (Inr 0, s5)" "wf_socket s5"
    "stream s5 = stream s4" "length ?vct \<le> length (drop (read_pos s5) (read_buf s5))"
    "sk_mse s5 = Some c" "sent s5 = sent s4"
    using scan_for_front [OF s4(1), of ?vct "kMaxPadSize + 8"] s4(2,3) by (metis append_eq_conv_conj le_add2)
  obtain s6 where s6: "consume_bytes 8 s5 = (Inr ?vct, s6)" "wf_socket s6"
    "stream s6 = tail" "sk_mse s6 = Some (c\<lparr> mc_decrypt := ?b1 \<rparr>)" "sent s6 = sent s4"
    using consume_bytes_stream [OF s5(2), of 8] s5 s4(2) vlen by (auto simp: c_def)
  obtain s7 where s7: "read_dec 6 s6 = (Inr ?hdr, s7)" "wf_socket s7" "sent s7 = sent s4"
    "stream s7 = fst (rc4_crypt ?b2 hs') @ rest" "sk_mse s7 = Some (c\<lparr> mc_decrypt := ?b2 \<rparr>)"
    using read_dec_step [OF s6(2,4) s6(3) [unfolded tail_def], of 6] s6(5) by auto
  define s8 where "s8 = s7\<lparr> sk_mse := Some (c\<lparr> mc_decrypt := ?b2, mc_rc4 := True \<rparr>) \<rparr>"
  have s8: "mse_set_rc4 True s7 = (Inr (), s8)" "wf_socket s8" "sent s8 = sent s4"
    "stream s8 = fst (rc4_crypt ?b2 hs') @ rest" "sk_mse s8 = Some (c\<lparr> mc_rc4 := True, mc_decrypt := ?b2 \<rparr>)"
    using s7 by (simp_all add: mse_set_rc4_def s8_def)
  obtain s9 where s9: "read_dec kHandshakeLen s8 = (Inr hs', s9)" "wf_socket s9" "sent s9 = sent s4"
    "stream s9 = rest" "sk_mse s9 = Some (c\<lparr> mc_rc4 := True, mc_decrypt := ?b3 \<rparr>)"
    using read_dec_step [OF s8(2,5,4) hs(2)] s8(3) by auto
  have "initiator_body sha1 ya secret skey hs s =
      (Inr (MseRc4, hs'), s9\<lparr> sk_mse := Some (c\<lparr> mc_rc4 := True, mc_decrypt := ?b3, mc_active := True \<rparr>) \<rparr>)"
    by (simp add: initiator_body_def io_bind_def send s1(1) s2(1) yb(2) hs(1) step3 s5(1) s6(1) s7(1) s8(1)
        s9(1,5) crypto_codes io_return_def mse_set_active_def
        del: rc4_crypt.simps)
  then show ?thesis
    using s9 s4(4) by (simp add: c_def rc4_crypt_split acceptor_step4_def)
qed


lemma mse_agreement_secret:
  fixes sha1 :: "byte list \<Rightarrow> id20"
  assumes "\<forall>x. length (sha1 x) = 20" "length ya = 96" "length yb = 96" "hd ya \<noteq> 0x13"
    and "secret_a yb = S" "secret_b ya = S"
    and "length hs_a = kHandshakeLen" "length hs_b = kHandshakeLen"
    and "wf_socket sa" "sk_mse sa = None" "wf_socket sb" "sk_mse sb = None"
    and "stream sb = ya @ mse_step3 sha1 S skey hs_a @ rest_b"
    and "stream sa = yb @ fst (rc4_crypt (stream_key sha1 ''keyB'' S skey) (acceptor_step4 kCryptoRc4)) @
      fst (rc4_crypt (snd (rc4_crypt (stream_key sha1 ''keyB'' S skey) (acceptor_step4 kCryptoRc4))) hs_b) @ rest_a"
  shows "\<exists>sa' sb' sb''.
    mse_handshake_initiator sha1 ya secret_a skey hs_a sa = ((MseRc4, hs_b), sa') \<and>
    mse_handshake_acceptor sha1 yb secret_b skey sb = ((MseRc4, hs_a), sb') \<and>
    send_raw hs_b sb' = (Inr (), sb'') \<and>
    sent sa' = sent sa @ ya @ mse_step3 sha1 S skey hs_a \<and> stream sb'' = rest_b \<and>
    (\<exists>reply. sent sb'' = sent sb @ reply \<and> stream sa = reply @ rest_a) \<and> stream sa' = rest_a \<and>
    matched (sk_mse sa') (sk_mse sb'') \<and> matched (sk_mse sb'') (sk_mse sa') \<and> encrypting (sk_mse sa')"
proof -
  let ?kb = "stream_key sha1 ''keyB'' S skey"
  have sha: "\<And>x. length (sha1 x) = 20"
    using assms(1) by blast
  have st: "stream sa = yb @ fst (rc4_crypt ?kb (acceptor_step4 kCryptoRc4 @ hs_b)) @ rest_a"
    using assms(14) by (simp add: rc4_crypt_split)
  obtain sb' where b: "acceptor_body sha1 yb secret_b skey sb = (Inr (MseRc4, hs_a), sb')" "stream sb' = rest_b"
    "sent sb' = sent sb @ yb @ fst (rc4_crypt ?kb (acceptor_step4 kCryptoRc4))"
    "sk_mse sb' = Some \<lparr> mc_active = True, mc_rc4 = True,
      mc_encrypt = snd (rc4_crypt ?kb (acceptor_step4 kCryptoRc4)),
      mc_decrypt = snd (rc4_crypt (stream_key sha1 ''keyA'' S skey) (initiator_block @ hs_a)) \<rparr>"
    using acceptor_rc4 [of sha1 sb ya S skey hs_a rest_b secret_b yb] sha assms(2,4,6,7,11,12,13) by auto
  obtain sa' where a: "initiator_body sha1 ya secret_a skey hs_a sa = (Inr (MseRc4, hs_b), sa')" "stream sa' = rest_a"
    "sent sa' = sent sa @ ya @ mse_step3 sha1 S skey hs_a"
    "sk_mse sa' = Some \<lparr> mc_active = True, mc_rc4 = True,
      mc_encrypt = snd (rc4_crypt (stream_key sha1 ''keyA'' S skey) (initiator_block @ hs_a)),
      mc_decrypt = snd (rc4_crypt ?kb (acceptor_step4 kCryptoRc4 @ hs_b)) \<rparr>"
    using initiator_rc4 [of sha1 sa yb S skey hs_b rest_a secret_a hs_a ya] sha assms(3,5,7,8,9,10) st by auto
  show ?thesis
    using a b st
    by (simp add: mse_handshake_initiator_def mse_handshake_acceptor_def mse_try_def send_raw_def
        encrypt_outgoing_def encrypting_def matched_def rc4_crypt_split case_prod_unfold Let_def
        stream_def del: rc4_crypt.simps)
qed

lemma hd_be_enc: "0 < n \<Longrightarrow> hd (be_enc n v) = of_nat (v div 256 ^ (n - 1))"
  by (cases n) (simp_all add: be_enc_Suc)

text \<open>C7: two ends of a connection that hold the same info hash negotiate RC4.  Each side draws a private
  exponent and runs the key exchange.  If digests have twenty bytes, the big-number library computes
  powers modulo the prime and the initiator's public key does not start with the byte of a plaintext
  handshake, then, however the network cuts the bytes, each side's negotiation succeeds with RC4 when
  it reads what the other side writes, each obtains the other's BitTorrent handshake exactly, no byte
  beyond the negotiation is consumed, and afterwards what either side encrypts the other decrypts.\<close>

theorem mse_agreement:
  fixes sha1 :: "byte list \<Rightarrow> id20"
  assumes "\<forall>x. length (sha1 x) = 20" and "\<forall>b e. mod_exp b e kPrime = b ^ e mod kPrime"
    and ya: "ya = generate_keypair mod_exp priv_a" "hd ya \<noteq> 0x13" and yb: "yb = generate_keypair mod_exp priv_b"
    and S: "S = compute_secret mod_exp priv_a yb"
    and "length hs_a = kHandshakeLen" "length hs_b = kHandshakeLen"
    and "wf_socket sa" "sk_mse sa = None" "wf_socket sb" "sk_mse sb = None"
    and "stream sb = ya @ mse_step3 sha1 S skey hs_a @ rest_b"
    and "stream sa = yb @ fst (rc4_crypt (stream_key sha1 ''keyB'' S skey) (acceptor_step4 kCryptoRc4)) @
      fst (rc4_crypt (snd (rc4_crypt (stream_key sha1 ''keyB'' S skey) (acceptor_step4 kCryptoRc4))) hs_b) @ rest_a"
  shows "\<exists>sa' sb' sb''.
    mse_handshake_initiator sha1 ya (compute_secret mod_exp priv_a) skey hs_a sa = ((MseRc4, hs_b), sa') \<and>
    mse_handshake_acceptor sha1 yb (compute_secret mod_exp priv_b) skey sb = ((MseRc4, hs_a), sb') \<and>
    send_raw hs_b sb' = (Inr (), sb'') \<and>
    sent sa' = sent sa @ ya @ mse_step3 sha1 S skey hs_a \<and> stream sb'' = rest_b \<and>
    (\<exists>reply. sent sb'' = sent sb @ reply \<and> stream sa = reply @ rest_a) \<and> stream sa' = rest_a \<and>
    matched (sk_mse sa') (sk_mse sb'') \<and> matched (sk_mse sb'') (sk_mse sa') \<and> encrypting (sk_mse sa')"
  using assms dh_agreement [of mod_exp priv_b priv_a]
  by (intro mse_agreement_secret) simp_all

theorem mse_agreement_witness:
  "let sha1 = (\<lambda>_. replicate 20 7); mod_exp = (\<lambda>b e m. b ^ e mod m); priv = replicate 96 0; skey = replicate 20 4;
       ya = generate_keypair mod_exp priv; S = compute_secret mod_exp priv ya in
   \<exists>sa' sb'. mse_handshake_initiator sha1 ya (compute_secret mod_exp priv) skey (replicate 68 5)
     \<lparr> read_buf = [], read_pos = 0,
        incoming = [ya @ fst (rc4_crypt (stream_key sha1 ''keyB'' S skey) (acceptor_step4 kCryptoRc4 @ replicate 68 6))],
        sent = [], sk_mse = None \<rparr> = ((MseRc4, replicate 68 6), sa') \<and>
    mse_handshake_acceptor sha1 ya (compute_secret mod_exp priv) skey
      \<lparr> read_buf = [], read_pos = 0, incoming = [ya, mse_step3 sha1 S skey (replicate 68 5)],
        sent = [], sk_mse = None \<rparr> = ((MseRc4, replicate 68 5), sb')"
proof -
  let ?f = "\<lambda>_ :: byte list. replicate 20 7 :: byte list" and ?me = "\<lambda>b e m :: nat. b ^ e mod m"
  let ?priv = "replicate 96 0 :: byte list" and ?skey = "replicate 20 4 :: byte list"
  define ya where "ya = generate_keypair ?me ?priv"
  define S where "S = compute_secret ?me ?priv ya"
  let ?kb = "stream_key ?f ''keyB'' S ?skey"
  let ?sa = "\<lparr> read_buf = [], read_pos = 0, incoming = [ya @
      fst (rc4_crypt ?kb (acceptor_step4 kCryptoRc4 @ replicate 68 6))], sent = [], sk_mse = None \<rparr>"
  let ?sb = "\<lparr> read_buf = [], read_pos = 0, incoming = [ya, mse_step3 ?f S ?skey (replicate 68 5)],
      sent = [], sk_mse = None \<rparr>"
  have "be_dec (replicate n 0) = 0" for n
    by (induction n) (simp_all add: be_dec_Cons)
  then have "hd ya = 0"
    by (simp add: ya_def generate_keypair_def hd_be_enc kDhKeySize_def kPrime_def)
  have len: "length ya = 96"
    by (simp add: ya_def)
  then have sb: "stream ?sb = ya @ mse_step3 ?f S ?skey (replicate 68 5) @ []"
    by (auto simp: stream_def mse_step3_def sync_hash_def sha1_concat_def)
  have sa: "stream ?sa = ya @ fst (rc4_crypt ?kb (acceptor_step4 kCryptoRc4)) @
      fst (rc4_crypt (snd (rc4_crypt ?kb (acceptor_step4 kCryptoRc4))) (replicate 68 6)) @ []"
    using len by (auto simp: stream_def rc4_crypt_split)
  show ?thesis
    using mse_agreement [of ?f ?me ya ?priv ya ?priv S "replicate 68 5" "replicate 68 6" ?sa ?sb ?skey "[]" "[]",
        OF _ _ ya_def _ ya_def S_def _ _ _ _ _ _ sb sa] \<open>hd ya = 0\<close>
    by (auto simp: wf_socket_def kHandshakeLen_def Let_def simp flip: ya_def S_def simp del: rc4_crypt.simps)
qed

end
