(* ===== verification/RouteTable.thy ===== *)
theory RouteTable
  imports Wire "HOL-Library.Multiset"
begin

text \<open>
  The Kademlia routing table of \<^verbatim>\<open>src/src/Kademlia.hpp\<close>: the XOR metric, the bucket index, the
  buckets with their least-recently-seen order, and the table operations.

  A bucket's \<^verbatim>\<open>std::list\<close> is a list; \<^verbatim>\<open>splice\<close> to the end is taking the element out and appending it.
  The steady clock is the argument \<open>now\<close> (nanoseconds).  The local set \<^verbatim>\<open>added_ids\<close> of
  \<^verbatim>\<open>find_closest_nodes\<close> always holds the ids of \<^verbatim>\<open>closest\<close>, so membership is tested there.  The mutex
  makes each operation atomic.

  Lemmas: the bucket index is the first bit in which two ids differ, the table invariant (bucket
  sizes, positions, distinct ids) holds in every reachable table, and the closest-nodes query returns
  exactly the nearest entries.
\<close>

subsection \<open>Definitions\<close>

definition K :: nat where "K = 8"
definition BUCKET_REFRESH_INTERVAL :: int where "BUCKET_REFRESH_INTERVAL = 15 * 60 * 1000000000"

datatype NodeStatus = Good | Qustionable | Bad

record BucketEntry =
  be_id :: id20
  be_endpoint :: endpoint
  be_status :: NodeStatus
  be_last_seen :: int
  be_last_replied :: int

definition distance :: "id20 \<Rightarrow> id20 \<Rightarrow> byte list" where
  "distance node1 node2 = map2 xor node1 node2"

text \<open>\<^verbatim>\<open>std::countl_zero\<close> of an unsigned char.\<close>

definition countl_zero :: "byte \<Rightarrow> nat" where
  "countl_zero b = length (takeWhile (\<lambda>i. \<not> bit b i) (rev [0..<8]))"

fun bucket_scan :: "nat \<Rightarrow> byte list \<Rightarrow> nat" where
  "bucket_scan i [] = HASH_SIZE * 8 - 1"
| "bucket_scan i (b # d) = (if b \<noteq> 0 then i * 8 + countl_zero b else bucket_scan (Suc i) d)"

definition get_bucket_index :: "id20 \<Rightarrow> id20 \<Rightarrow> nat" where
  "get_bucket_index my_id other_id = bucket_scan 0 (distance my_id other_id)"

record KBucket =
  kb_bucket :: "BucketEntry list"
  kb_last_changed :: int

definition kbucket_add :: "int \<Rightarrow> BucketEntry \<Rightarrow> KBucket \<Rightarrow> bool \<times> KBucket" where
  "kbucket_add now entry kb =
    (case List.extract (\<lambda>e. be_id e = be_id entry) (kb_bucket kb) of
       Some (before, it, after) \<Rightarrow>
         (True, kb\<lparr> kb_bucket := before @ after @ [it\<lparr> be_endpoint := be_endpoint entry,
             be_status := be_status entry, be_last_seen := now, be_last_replied := be_last_replied entry \<rparr>],
           kb_last_changed := now \<rparr>)
     | None \<Rightarrow>
         if length (kb_bucket kb) < K then
           (True, kb\<lparr> kb_bucket := kb_bucket kb @ [entry], kb_last_changed := now \<rparr>)
         else (case List.extract (\<lambda>e. be_status e = Bad) (kb_bucket kb) of
             Some (before, it, after) \<Rightarrow>
               (True, kb\<lparr> kb_bucket := before @ after @ [entry], kb_last_changed := now \<rparr>)
           | None \<Rightarrow> (False, kb)))"

definition kbucket_touch :: "int \<Rightarrow> id20 \<Rightarrow> KBucket \<Rightarrow> KBucket" where
  "kbucket_touch now nid kb =
    (case List.extract (\<lambda>e. be_id e = nid) (kb_bucket kb) of
       Some (before, it, after) \<Rightarrow>
         kb\<lparr> kb_bucket := before @ after @ [it\<lparr> be_last_seen := now \<rparr>], kb_last_changed := now \<rparr>
     | None \<Rightarrow> kb)"

record RouteTable =
  rt_my_node_id :: id20
  rt_buckets :: "KBucket list"

definition new_route_table :: "int \<Rightarrow> id20 \<Rightarrow> RouteTable" where
  "new_route_table now nid =
    \<lparr> rt_my_node_id = nid, rt_buckets = replicate 160 \<lparr> kb_bucket = [], kb_last_changed = now \<rparr> \<rparr>"

definition rt_insert :: "int \<Rightarrow> BucketEntry \<Rightarrow> RouteTable \<Rightarrow> RouteTable" where
  "rt_insert now entry rt =
    (if be_id entry = rt_my_node_id rt then rt
     else let idx = get_bucket_index (rt_my_node_id rt) (be_id entry)
          in if length (rt_buckets rt) \<le> idx then rt
             else rt\<lparr> rt_buckets := (rt_buckets rt)[idx := snd (kbucket_add now entry (rt_buckets rt ! idx))] \<rparr>)"

definition update_status :: "int \<Rightarrow> id20 \<Rightarrow> NodeStatus \<Rightarrow> RouteTable \<Rightarrow> RouteTable" where
  "update_status now nid status rt =
    (if rt_my_node_id rt = nid then rt
     else let idx = get_bucket_index (rt_my_node_id rt) nid
          in if length (rt_buckets rt) \<le> idx then rt
             else let b = rt_buckets rt ! idx in
               (case List.extract (\<lambda>e. be_id e = nid) (kb_bucket b) of
                  None \<Rightarrow> rt
                | Some (before, it, after) \<Rightarrow>
                    let entries = (if status = Good
                          then before @ after @ [it\<lparr> be_status := status, be_last_replied := now \<rparr>]
                          else before @ it\<lparr> be_status := status \<rparr> # after)
                    in rt\<lparr> rt_buckets := (rt_buckets rt)[idx :=
                         b\<lparr> kb_bucket := entries, kb_last_changed := now \<rparr>] \<rparr>))"

text \<open>The loop that appends the entries of one bucket not yet collected, and the expansion outwards
  from the target bucket.\<close>

definition collect_bucket :: "id20 \<Rightarrow> BucketEntry list \<Rightarrow> BucketEntry list \<Rightarrow> BucketEntry list" where
  "collect_bucket my_id bucket closest =
    fold (\<lambda>e closest. if be_id e \<noteq> my_id \<and> be_id e \<notin> set (map be_id closest)
        then closest @ [e] else closest) bucket closest"

fun expand_loop :: "RouteTable \<Rightarrow> nat \<Rightarrow> nat \<Rightarrow> nat list \<Rightarrow> BucketEntry list \<Rightarrow> BucketEntry list" where
  "expand_loop rt k target_idx [] closest = closest"
| "expand_loop rt k target_idx (i # is) closest =
    (let left_bucket = int target_idx - int i;
         right_bucket = target_idx + i;
         closest = (if left_bucket \<ge> 0
           then collect_bucket (rt_my_node_id rt) (kb_bucket (rt_buckets rt ! nat left_bucket)) closest else closest);
         closest = (if right_bucket < length (rt_buckets rt)
           then collect_bucket (rt_my_node_id rt) (kb_bucket (rt_buckets rt ! right_bucket)) closest else closest)
     in if k \<le> length closest \<and> left_bucket < 0 \<and> length (rt_buckets rt) \<le> right_bucket then closest
        else expand_loop rt k target_idx is closest)"

definition find_closest_nodes :: "id20 \<Rightarrow> nat \<Rightarrow> RouteTable \<Rightarrow> BucketEntry list" where
  "find_closest_nodes target k rt =
    (let target_idx = get_bucket_index (rt_my_node_id rt) target;
         closest = (if target_idx < length (rt_buckets rt)
           then collect_bucket (rt_my_node_id rt) (kb_bucket (rt_buckets rt ! target_idx)) [] else []);
         closest = expand_loop rt k target_idx [1..<HASH_SIZE * 8] closest
     in take k (sort_key (\<lambda>e. distance (be_id e) target) closest))"

definition needs_refresh :: "int \<Rightarrow> nat \<Rightarrow> RouteTable \<Rightarrow> bool" where
  "needs_refresh now bucket_idx rt =
    (if length (rt_buckets rt) \<le> bucket_idx then False
     else now - kb_last_changed (rt_buckets rt ! bucket_idx) > BUCKET_REFRESH_INTERVAL)"

definition rt_touch :: "int \<Rightarrow> nat \<Rightarrow> RouteTable \<Rightarrow> RouteTable" where
  "rt_touch now bucket_idx rt =
    (if length (rt_buckets rt) \<le> bucket_idx then rt
     else rt\<lparr> rt_buckets := (rt_buckets rt)[bucket_idx :=
       (rt_buckets rt ! bucket_idx)\<lparr> kb_last_changed := now \<rparr>] \<rparr>)"

definition rt_size :: "RouteTable \<Rightarrow> nat" where
  "rt_size rt = fold (\<lambda>kb total. total + length (kb_bucket kb)) (rt_buckets rt) 0"

definition all_entries :: "RouteTable \<Rightarrow> BucketEntry list" where
  "all_entries rt = concat (map kb_bucket (rt_buckets rt))"

text \<open>The tables a node can have: any sequence of operations from the empty table.  The ids are
  twenty-byte arrays.\<close>

inductive rt_reach :: "id20 \<Rightarrow> RouteTable \<Rightarrow> bool" for my_id where
  New: "valid_id my_id \<Longrightarrow> rt_reach my_id (new_route_table now my_id)"
| Insert: "rt_reach my_id rt \<Longrightarrow> valid_id (be_id e) \<Longrightarrow> rt_reach my_id (rt_insert now e rt)"
| Status: "rt_reach my_id rt \<Longrightarrow> rt_reach my_id (update_status now nid st rt)"
| Touch: "rt_reach my_id rt \<Longrightarrow> rt_reach my_id (rt_touch now i rt)"

definition bucket_ok :: "id20 \<Rightarrow> nat \<Rightarrow> BucketEntry list \<Rightarrow> bool" where
  "bucket_ok my_id i es \<longleftrightarrow> length es \<le> K \<and> distinct (map be_id es) \<and>
    (\<forall>e\<in>set es. valid_id (be_id e) \<and> be_id e \<noteq> my_id \<and> get_bucket_index my_id (be_id e) = i)"

definition rt_inv :: "RouteTable \<Rightarrow> bool" where
  "rt_inv rt \<longleftrightarrow> valid_id (rt_my_node_id rt) \<and> length (rt_buckets rt) = 160 \<and>
    (\<forall>i<160. bucket_ok (rt_my_node_id rt) i (kb_bucket (rt_buckets rt ! i)))"

text \<open>Bit \<open>n\<close> of an id, from the most significant one.\<close>

definition id_bit :: "id20 \<Rightarrow> nat \<Rightarrow> bool" where
  "id_bit i n = bit (i ! (n div 8)) (7 - n mod 8)"

subsection \<open>The metric and the bucket index\<close>

lemma length_distance [simp]: "length (distance a b) = min (length a) (length b)"
  by (simp add: distance_def)

lemma nth_distance: "i < length a \<Longrightarrow> i < length b \<Longrightarrow> distance a b ! i = xor (a ! i) (b ! i)"
  by (simp add: distance_def)

lemma distance_commute: "distance a b = distance b a"
  unfolding distance_def by (subst zip_commute) (simp add: xor.commute case_prod_unfold comp_def)

lemma xor_left_inject: "xor a (c::byte) = xor b c \<longleftrightarrow> a = b"
  by (metis xor.assoc xor.right_neutral xor_self_eq)

lemma distance_inject: "length a = length t \<Longrightarrow> length b = length t \<Longrightarrow> distance a t = distance b t \<longleftrightarrow> a = b"
  by (auto simp: list_eq_iff_nth_eq nth_distance xor_left_inject)

lemma countl_zero_props:
  assumes "b \<noteq> 0"
  shows "countl_zero b < 8" "bit b (7 - countl_zero b)" "\<And>m. m < countl_zero b \<Longrightarrow> \<not> bit b (7 - m)"
proof -
  let ?P = "\<lambda>i. \<not> bit b i" and ?xs = "rev [0..<8]"
  obtain n where n: "bit b n"
    using assms by (metis bit_eqI bit_0_eq bot_apply bot_bool_def)
  then have "n < 8"
    using bit_imp_le_length [of b n] by simp
  then have "takeWhile ?P ?xs \<noteq> ?xs"
    using n by (auto simp: takeWhile_eq_all_conv)
  then show lt: "countl_zero b < 8"
    unfolding countl_zero_def
    by (metis length_rev length_takeWhile_le length_upt minus_nat.diff_0 nat_less_le takeWhile_eq_take take_all_iff)
  have nth: "?xs ! m = 7 - m" if "m < 8" for m
    using that by (simp add: rev_nth)
  show "bit b (7 - countl_zero b)"
    using nth_length_takeWhile [of ?P ?xs] lt nth unfolding countl_zero_def by force
  show "\<not> bit b (7 - m)" if "m < countl_zero b" for m
    using that lt nth [of m] nth_mem [of m "takeWhile ?P ?xs"] takeWhile_nth [of m ?P ?xs] set_takeWhileD
    unfolding countl_zero_def by (metis (no_types, lifting) order.strict_trans)
qed

lemma bucket_scan_Suc: "\<exists>b\<in>set d. b \<noteq> 0 \<Longrightarrow> bucket_scan (Suc i) d = bucket_scan i d + 8"
  by (induction i d rule: bucket_scan.induct) auto

lemma bucket_scan_bound: "\<exists>b\<in>set d. b \<noteq> 0 \<Longrightarrow> bucket_scan i d < 8 * (i + length d)"
proof (induction i d rule: bucket_scan.induct)
  case (2 i b d)
  then show ?case
    using countl_zero_props(1) [of b] by (cases "b = 0") auto
qed simp

lemma id_bit_Cons: "id_bit (b # d) n = (if n < 8 then bit b (7 - n) else id_bit d (n - 8))"
proof (cases "n < 8")
  case False
  then have "n div 8 = Suc ((n - 8) div 8)" "n mod 8 = (n - 8) mod 8"
    by (simp_all add: le_div_geq le_mod_geq)
  then show ?thesis
    using False by (simp add: id_bit_def)
qed (simp add: id_bit_def)

lemma bucket_scan_first_bit:
  assumes "\<exists>b\<in>set d. b \<noteq> 0"
  shows "id_bit d (bucket_scan 0 d) \<and> (\<forall>m<bucket_scan 0 d. \<not> id_bit d m)"
  using assms
proof (induction d)
  case (Cons b d)
  show ?case
  proof (cases "b = 0")
    case True
    then have "\<exists>b\<in>set d. b \<noteq> 0"
      using Cons.prems by auto
    with Cons.IH True show ?thesis
      by (auto simp: id_bit_Cons bucket_scan_Suc)
  next
    case False
    then show ?thesis
      using countl_zero_props [OF False] by (auto simp: id_bit_Cons)
  qed
qed simp

lemma id_bit_distance:
  assumes "n < 160" "valid_id a" "valid_id b"
  shows "id_bit (distance a b) n \<longleftrightarrow> id_bit a n \<noteq> id_bit b n"
  using assms by (simp add: id_bit_def valid_id_def nth_distance bit_xor_iff)

lemma distance_nonzero:
  assumes "valid_id a" "valid_id b" "a \<noteq> b"
  shows "\<exists>x\<in>set (distance a b). x \<noteq> 0"
proof -
  obtain i where "i < 20" "a ! i \<noteq> b ! i"
    using assms by (auto simp: list_eq_iff_nth_eq valid_id_def)
  then have "distance a b ! i \<noteq> 0" and "i < length (distance a b)"
    using assms xor_left_inject [of "a ! i" "b ! i" "b ! i"] by (auto simp: valid_id_def nth_distance)
  then show ?thesis
    using nth_mem by blast
qed

lemma bucket_index_less: "valid_id a \<Longrightarrow> valid_id b \<Longrightarrow> get_bucket_index a b < 160"
proof (cases "a = b")
  case True
  have "bucket_scan i d = 159" if "\<forall>x\<in>set d. x = 0" for i d
    using that by (induction i d rule: bucket_scan.induct) (auto simp: HASH_SIZE_def)
  moreover have "\<forall>x\<in>set (distance a a). x = 0"
    by (auto simp: distance_def set_zip)
  ultimately show ?thesis
    using True by (simp add: get_bucket_index_def)
next
  case False
  then show "valid_id a \<Longrightarrow> valid_id b \<Longrightarrow> ?thesis"
    using bucket_scan_bound [OF distance_nonzero, of a b 0] by (simp add: get_bucket_index_def valid_id_def)
qed

lemma bucket_index_first_bit:
  assumes "valid_id a" "valid_id b" "a \<noteq> b"
  shows "id_bit a (get_bucket_index a b) \<noteq> id_bit b (get_bucket_index a b)"
    and "\<And>m. m < get_bucket_index a b \<Longrightarrow> id_bit a m = id_bit b m"
  using bucket_scan_first_bit [OF distance_nonzero [OF assms]] bucket_index_less [OF assms(1,2)]
    id_bit_distance [OF _ assms(1,2)]
  by (auto simp: get_bucket_index_def)

subsection \<open>The invariant\<close>

lemma bucket_okI_move:
  assumes "bucket_ok my i (xs @ x # ys)" "be_id x' = be_id x"
  shows "bucket_ok my i (xs @ ys @ [x'])" "bucket_ok my i (xs @ x' # ys)"
  using assms by (auto simp: bucket_ok_def)

lemma bucket_ok_replace:
  assumes "bucket_ok my i (xs @ x # ys)" "valid_id (be_id e)" "be_id e \<noteq> my" "get_bucket_index my (be_id e) = i"
    and "be_id e \<notin> be_id ` set (xs @ x # ys)"
  shows "bucket_ok my i (xs @ ys @ [e])"
  using assms by (auto simp: bucket_ok_def)

lemma extract_SomeD:
  "List.extract P xs = Some (ys, y, zs) \<Longrightarrow> xs = ys @ y # zs \<and> P y \<and> (\<forall>x\<in>set ys. \<not> P x)"
  by (auto simp: extract_Some_iff)

lemma kbucket_add_ok:
  assumes "bucket_ok my i (kb_bucket kb)" "valid_id (be_id e)" "be_id e \<noteq> my" "get_bucket_index my (be_id e) = i"
  shows "bucket_ok my i (kb_bucket (snd (kbucket_add now e kb)))"
proof (cases "List.extract (\<lambda>x. be_id x = be_id e) (kb_bucket kb)")
  case None
  then have new: "be_id e \<notin> be_id ` set (kb_bucket kb)"
    by (auto simp: extract_None_iff)
  show ?thesis
  proof (cases "length (kb_bucket kb) < K")
    case True
    then show ?thesis
      using assms None new by (auto simp: kbucket_add_def bucket_ok_def)
  next
    case False
    then show ?thesis
      using assms None new bucket_ok_replace [OF _ assms(2,3,4)]
      by (auto simp: kbucket_add_def split: option.splits dest!: extract_SomeD)
  qed
next
  case (Some t)
  then obtain xs x ys where t: "t = (xs, x, ys)" "kb_bucket kb = xs @ x # ys"
    by (metis extract_SomeD prod_cases3)
  then show ?thesis
    using assms Some bucket_okI_move(1) [of my i xs x ys] by (simp add: kbucket_add_def)
qed

lemma rt_inv_new: "valid_id my_id \<Longrightarrow> rt_inv (new_route_table now my_id)"
  by (simp add: rt_inv_def new_route_table_def bucket_ok_def)

lemma rt_inv_update:
  assumes "rt_inv rt" "i < 160 \<longrightarrow> bucket_ok (rt_my_node_id rt) i (kb_bucket b)"
  shows "rt_inv (rt\<lparr> rt_buckets := (rt_buckets rt)[i := b] \<rparr>)"
  using assms by (cases "i < 160") (auto simp: rt_inv_def nth_list_update)

lemma rt_inv_insert: "rt_inv rt \<Longrightarrow> valid_id (be_id e) \<Longrightarrow> rt_inv (rt_insert now e rt)"
  by (auto simp: rt_insert_def Let_def rt_inv_def [of rt] intro!: rt_inv_update kbucket_add_ok)

lemma rt_inv_update_status: "rt_inv rt \<Longrightarrow> rt_inv (update_status now nid st rt)"
proof (cases "List.extract (\<lambda>e. be_id e = nid) (kb_bucket (rt_buckets rt ! get_bucket_index (rt_my_node_id rt) nid))")
  case (Some t)
  assume inv: "rt_inv rt"
  let ?idx = "get_bucket_index (rt_my_node_id rt) nid"
  obtain xs x ys where t: "t = (xs, x, ys)" "kb_bucket (rt_buckets rt ! ?idx) = xs @ x # ys"
    by (metis Some extract_SomeD prod_cases3)
  have "?idx < 160 \<Longrightarrow> bucket_ok (rt_my_node_id rt) ?idx (xs @ x # ys)"
    using inv t(2) by (metis rt_inv_def)
  then show ?thesis
    using inv Some t(1)
    by (auto simp: update_status_def Let_def intro!: rt_inv_update elim!: bucket_okI_move)
qed (simp add: update_status_def Let_def)

lemma rt_inv_touch: "rt_inv rt \<Longrightarrow> rt_inv (rt_touch now i rt)"
  by (auto simp: rt_touch_def rt_inv_def [of rt] intro!: rt_inv_update)

lemma rt_reach_inv: "rt_reach my rt \<Longrightarrow> rt_inv rt \<and> rt_my_node_id rt = my"
  by (induction rule: rt_reach.induct)
    (auto simp: rt_inv_new rt_inv_insert rt_inv_update_status rt_inv_touch,
     auto simp: new_route_table_def rt_insert_def update_status_def rt_touch_def Let_def split: option.splits)

subsection \<open>The closest nodes\<close>

lemma rt_bucket_mem:
  "rt_inv rt \<Longrightarrow> i < 160 \<Longrightarrow> e \<in> set (kb_bucket (rt_buckets rt ! i)) \<Longrightarrow>
    e \<in> set (all_entries rt) \<and> be_id e \<noteq> rt_my_node_id rt \<and> valid_id (be_id e) \<and>
    get_bucket_index (rt_my_node_id rt) (be_id e) = i"
  by (auto simp: rt_inv_def all_entries_def bucket_ok_def intro!: bexI [of _ "rt_buckets rt ! i"])

lemma all_entries_mem:
  assumes "rt_inv rt" "e \<in> set (all_entries rt)"
  obtains i where "i < 160" "e \<in> set (kb_bucket (rt_buckets rt ! i))"
proof -
  obtain b where "b \<in> set (rt_buckets rt)" "e \<in> set (kb_bucket b)"
    using assms(2) by (auto simp: all_entries_def)
  then show ?thesis
    using assms(1) that by (metis in_set_conv_nth rt_inv_def)
qed

lemma all_entries_inj: "rt_inv rt \<Longrightarrow> inj_on be_id (set (all_entries rt))"
proof (rule inj_onI)
  fix a b
  assume inv: "rt_inv rt" and "a \<in> set (all_entries rt)" "b \<in> set (all_entries rt)" and eq: "be_id a = be_id b"
  then obtain i j where ij: "i < 160" "a \<in> set (kb_bucket (rt_buckets rt ! i))" "j < 160" "b \<in> set (kb_bucket (rt_buckets rt ! j))"
    by (metis all_entries_mem)
  then have "i = j"
    using rt_bucket_mem [OF inv] eq by metis
  moreover have "distinct (map be_id (kb_bucket (rt_buckets rt ! i)))"
    using inv ij(1) by (simp add: rt_inv_def bucket_ok_def)
  ultimately show "a = b"
    using ij eq by (auto simp: distinct_map dest: inj_onD)
qed

lemma collect_bucket_Nil [simp]: "collect_bucket my [] acc = acc"
  by (simp add: collect_bucket_def)

lemma collect_bucket_Cons:
  "collect_bucket my (e # b) acc =
    collect_bucket my b (if be_id e \<noteq> my \<and> be_id e \<notin> set (map be_id acc) then acc @ [e] else acc)"
  by (simp add: collect_bucket_def)

lemma collect_bucket_distinct: "distinct (map be_id acc) \<Longrightarrow> distinct (map be_id (collect_bucket my b acc))"
  by (induction b arbitrary: acc) (auto simp: collect_bucket_Cons)

lemma collect_bucket_set:
  assumes "inj_on be_id E" "set acc \<subseteq> E" "set b \<subseteq> E" "\<forall>e\<in>E. be_id e \<noteq> my"
  shows "set (collect_bucket my b acc) = set acc \<union> set b"
  using assms(2,3)
proof (induction b arbitrary: acc)
  case (Cons e b)
  have "be_id e \<in> be_id ` set acc \<longleftrightarrow> e \<in> set acc"
    using Cons.prems assms(1) by (auto dest: inj_onD)
  then show ?case
    using Cons.prems assms(4) by (auto simp: collect_bucket_Cons Cons.IH)
qed simp

lemma expand_loop_distinct:
  "distinct (map be_id acc) \<Longrightarrow> distinct (map be_id (expand_loop rt k t is acc))"
  by (induction rt k t "is" acc rule: expand_loop.induct) (auto simp: Let_def collect_bucket_distinct)

definition ring :: "RouteTable \<Rightarrow> nat \<Rightarrow> nat \<Rightarrow> BucketEntry set" where
  "ring rt t i = (\<Union>j\<in>{j. j < 160 \<and> (j + i \<le> t \<or> t + i \<le> j)}. set (kb_bucket (rt_buckets rt ! j)))"

lemma ring_step:
  assumes "i < n"
  shows "ring rt t i = (if i \<le> t \<and> t - i < 160 then set (kb_bucket (rt_buckets rt ! (t - i))) else {}) \<union>
    (if t + i < 160 then set (kb_bucket (rt_buckets rt ! (t + i))) else {}) \<union> ring rt t (Suc i)"
proof -
  have "{j. j < 160 \<and> (j + i \<le> t \<or> t + i \<le> j)} =
      {j. j < 160 \<and> (j + Suc i \<le> t \<or> t + Suc i \<le> j)} \<union> {j. j = t - i \<and> i \<le> t \<and> j < 160} \<union> {j. j = t + i \<and> j < 160}"
    by auto
  then show ?thesis
    unfolding ring_def by auto
qed

lemma expand_loop_set:
  assumes inv: "rt_inv rt" and "t < 160" "set acc \<subseteq> set (all_entries rt)" "i \<le> 160"
  shows "set (expand_loop rt k t [i..<160] acc) = set acc \<union> ring rt t i"
  using assms(3,4)
proof (induction "160 - i" arbitrary: i acc)
  case 0
  then have "i = 160" by simp
  then show ?case
    using \<open>t < 160\<close> by (auto simp: ring_def)
next
  case (Suc n)
  let ?b = "\<lambda>j. kb_bucket (rt_buckets rt ! j)" and ?my = "rt_my_node_id rt" and ?E = "set (all_entries rt)"
  define acc1 where "acc1 = (if i \<le> t then collect_bucket ?my (?b (t - i)) acc else acc)"
  define acc2 where "acc2 = (if t + i < 160 then collect_bucket ?my (?b (t + i)) acc1 else acc1)"
  have len: "length (rt_buckets rt) = 160"
    using inv by (simp add: rt_inv_def)
  have E: "set (?b j) \<subseteq> ?E" if "j < 160" for j
    using rt_bucket_mem [OF inv that] by blast
  have my: "\<forall>e\<in>?E. be_id e \<noteq> ?my"
    using rt_bucket_mem [OF inv] all_entries_mem [OF inv] by metis
  note col = collect_bucket_set [OF all_entries_inj [OF inv] _ _ my]
  have s1: "set acc1 = set acc \<union> (if i \<le> t then set (?b (t - i)) else {})" and "set acc1 \<subseteq> ?E"
    using Suc.prems(1) E [of "t - i"] \<open>t < 160\<close> by (auto simp: acc1_def col)
  then have s2: "set acc2 = set acc1 \<union> (if t + i < 160 then set (?b (t + i)) else {})" and sub2: "set acc2 \<subseteq> ?E"
    using E [of "t + i"] by (auto simp: acc2_def col)
  have ring: "ring rt t i = (if i \<le> t then set (?b (t - i)) else {}) \<union>
      (if t + i < 160 then set (?b (t + i)) else {}) \<union> ring rt t (Suc i)"
    using ring_step [of i 160 rt t] Suc \<open>t < 160\<close> by auto
  have upt: "[i..<160] = i # [Suc i..<160]"
    using Suc by (intro upt_conv_Cons) simp
  have "expand_loop rt k t [i..<160] acc =
      (if k \<le> length acc2 \<and> t < i \<and> 160 \<le> t + i then acc2 else expand_loop rt k t [Suc i..<160] acc2)"
    unfolding upt using len by (auto simp: Let_def acc1_def acc2_def nat_diff_distrib simp flip: of_nat_add)
  moreover have "ring rt t (Suc i) = {}" if "t < i" "160 \<le> t + i"
    using that by (auto simp: ring_def)
  moreover have "set (expand_loop rt k t [Suc i..<160] acc2) = set acc2 \<union> ring rt t (Suc i)"
    using Suc sub2 by (intro Suc.hyps(1)) auto
  ultimately show ?case
    using s1 s2 ring by auto
qed

lemma distinct_concat_upt:
  assumes "\<And>i. i < n \<Longrightarrow> distinct (f i)" "\<And>i j x. i < n \<Longrightarrow> j < n \<Longrightarrow> x \<in> set (f i) \<Longrightarrow> x \<in> set (f j) \<Longrightarrow> i = j"
  shows "distinct (concat (map f [0..<n]))"
  using assms
proof (induction n)
  case (Suc n)
  have "distinct (concat (map f [0..<n]))"
    using Suc.prems by (intro Suc.IH) (meson less_SucI)+
  moreover have "x \<notin> set (f n)" if "i < n" "x \<in> set (f i)" for i x
    using Suc.prems(2) [of i n x] that by auto
  ultimately show ?case
    using Suc.prems(1) [of n] by auto
qed simp

lemma distinct_all_entries: "rt_inv rt \<Longrightarrow> distinct (all_entries rt)"
proof -
  assume inv: "rt_inv rt"
  then have "length (rt_buckets rt) = 160"
    by (simp add: rt_inv_def)
  then have "map kb_bucket (rt_buckets rt) = map (\<lambda>i. kb_bucket (rt_buckets rt ! i)) [0..<160]"
    using map_nth [of "rt_buckets rt"] by (metis (no_types, lifting) map_map comp_def map_eq_conv)
  moreover have "distinct (kb_bucket (rt_buckets rt ! i))" if "i < 160" for i
    using inv that by (simp add: rt_inv_def bucket_ok_def distinct_map)
  moreover have "i = j" if "i < 160" "j < 160" "x \<in> set (kb_bucket (rt_buckets rt ! i))"
    "x \<in> set (kb_bucket (rt_buckets rt ! j))" for i j x
    using rt_bucket_mem [OF inv] that by metis
  ultimately show ?thesis
    unfolding all_entries_def by (simp only:) (blast intro: distinct_concat_upt)
qed

lemma rt_size_length: "rt_size rt = length (all_entries rt)"
proof -
  have "fold (\<lambda>kb total. total + length (kb_bucket kb)) bs n = n + length (concat (map kb_bucket bs))" for bs n
    by (induction bs arbitrary: n) auto
  from this [of "rt_buckets rt" 0] show ?thesis
    by (simp add: rt_size_def all_entries_def)
qed

lemma find_closest_eq:
  assumes "rt_inv rt" "valid_id target"
  obtains xs where "find_closest_nodes target k rt = take k (sort_key (\<lambda>e. distance (be_id e) target) xs)"
    "set xs = set (all_entries rt)" "distinct (map be_id xs)"
proof -
  define t where "t = get_bucket_index (rt_my_node_id rt) target"
  define acc where "acc = collect_bucket (rt_my_node_id rt) (kb_bucket (rt_buckets rt ! t)) []"
  have len: "length (rt_buckets rt) = 160" and t: "t < 160"
    using assms bucket_index_less by (auto simp: rt_inv_def t_def)
  have my: "\<forall>e\<in>set (all_entries rt). be_id e \<noteq> rt_my_node_id rt"
    using rt_bucket_mem [OF assms(1)] all_entries_mem [OF assms(1)] by metis
  have sub: "set (kb_bucket (rt_buckets rt ! t)) \<subseteq> set (all_entries rt)"
    using rt_bucket_mem [OF assms(1) t] by blast
  have acc: "set acc = set (kb_bucket (rt_buckets rt ! t))"
    using collect_bucket_set [OF all_entries_inj [OF assms(1)] _ sub my, of "[]"] by (simp add: acc_def)
  have "set (expand_loop rt k t [1..<160] acc) = set acc \<union> ring rt t 1"
    using expand_loop_set [OF assms(1) t, of acc 1 k] acc sub by simp
  moreover have "set acc \<union> ring rt t 1 = set (all_entries rt)"
  proof -
    have "e \<in> set acc \<union> ring rt t 1" if "e \<in> set (all_entries rt)" for e
    proof -
      obtain i where "i < 160" "e \<in> set (kb_bucket (rt_buckets rt ! i))"
        using assms(1) \<open>e \<in> set (all_entries rt)\<close> by (rule all_entries_mem)
      then show ?thesis
        by (cases i t rule: linorder_cases) (auto simp: ring_def acc Suc_le_eq)
    qed
    moreover have "set acc \<union> ring rt t 1 \<subseteq> set (all_entries rt)"
      using acc sub rt_bucket_mem [OF assms(1)] by (auto simp: ring_def)
    ultimately show ?thesis
      by blast
  qed
  moreover have "distinct (map be_id (expand_loop rt k t [1..<160] acc))"
    unfolding acc_def by (intro expand_loop_distinct collect_bucket_distinct) simp
  moreover have "find_closest_nodes target k rt =
      take k (sort_key (\<lambda>e. distance (be_id e) target) (expand_loop rt k t [1..<160] acc))"
    using len t by (simp add: find_closest_nodes_def Let_def HASH_SIZE_def flip: t_def acc_def)
  ultimately show ?thesis
    using that by simp
qed

text \<open>A concrete table for the witnesses: one node inserted into the empty table.\<close>

definition example_table :: RouteTable where
  "example_table = rt_insert 5 \<lparr> be_id = replicate 20 1, be_endpoint = (V4 [127, 0, 0, 1], 6881), be_status = Good,
    be_last_seen = 5, be_last_replied = 5 \<rparr> (new_route_table 0 (replicate 20 0))"

lemma example_reach: "rt_reach (replicate 20 0) example_table"
  unfolding example_table_def by (intro rt_reach.intros) (simp_all add: valid_id_def)

text \<open>C10: the shape of the routing table.  In every table that insertions, status updates and touches can
  produce there are 160 buckets of at most eight nodes each, so never more than 1280 nodes; no id
  occurs twice and our own never; and the nodes of bucket \<open>i\<close> are those whose ids agree with ours in
  the first \<open>i\<close> bits and differ in the next one.\<close>

theorem routing_table_shape:
  assumes "rt_reach my_id rt"
  shows "length (rt_buckets rt) = 160 \<and> rt_size rt \<le> 1280 \<and> distinct (map be_id (all_entries rt)) \<and>
    my_id \<notin> be_id ` set (all_entries rt) \<and>
    (\<forall>i<160. length (kb_bucket (rt_buckets rt ! i)) \<le> K \<and>
      (\<forall>e\<in>set (kb_bucket (rt_buckets rt ! i)). valid_id (be_id e) \<and>
        id_bit (be_id e) i \<noteq> id_bit my_id i \<and> (\<forall>m<i. id_bit (be_id e) m = id_bit my_id m)))"
proof -
  have inv: "rt_inv rt" and my: "rt_my_node_id rt = my_id" and v: "valid_id my_id"
    using rt_reach_inv [OF assms] by (auto simp: rt_inv_def)
  have len: "length (rt_buckets rt) = 160" and K: "length (kb_bucket (rt_buckets rt ! i)) \<le> 8" if "i < 160" for i
    using inv that by (auto simp: rt_inv_def bucket_ok_def K_def)
  have concat: "length (concat (map kb_bucket bs)) \<le> 8 * length bs" if "\<forall>b\<in>set bs. length (kb_bucket b) \<le> 8" for bs
    using that by (induction bs) auto
  have "\<forall>b\<in>set (rt_buckets rt). length (kb_bucket b) \<le> 8" and len160: "length (rt_buckets rt) = 160"
    using inv K by (auto simp: in_set_conv_nth rt_inv_def)
  from concat [OF this(1)] have size: "rt_size rt \<le> 1280"
    unfolding rt_size_length all_entries_def len160 by simp
  have "distinct (map be_id (all_entries rt))"
    using distinct_all_entries [OF inv] all_entries_inj [OF inv] by (simp add: distinct_map)
  moreover have bits: "valid_id (be_id e) \<and> id_bit (be_id e) i \<noteq> id_bit my_id i \<and> (\<forall>m<i. id_bit (be_id e) m = id_bit my_id m)"
    if "i < 160" "e \<in> set (kb_bucket (rt_buckets rt ! i))" for i e
    using rt_bucket_mem [OF inv that] bucket_index_first_bit [of my_id "be_id e"] v my by auto
  moreover have "be_id e \<noteq> my_id" if e: "e \<in> set (all_entries rt)" for e
  proof -
    from inv e obtain i where "i < 160" "e \<in> set (kb_bucket (rt_buckets rt ! i))"
      by (rule all_entries_mem)
    then show ?thesis
      using rt_bucket_mem [OF inv, of i e] my by simp
  qed
  ultimately show ?thesis
    using size inv K by (auto simp: rt_inv_def K_def)
qed

theorem routing_table_shape_witness:
  "rt_reach (replicate 20 0) example_table \<and> rt_size example_table \<le> 1280"
  using routing_table_shape [OF example_reach] example_reach by simp

text \<open>C18: a closest-nodes query is answered correctly.  In every table a node can reach, the answer has
  as many entries as were asked for (or all there are), they are entries of the table in strictly
  increasing distance from the target, and every entry left out is farther away than all of them.\<close>

theorem find_closest_nodes_nearest:
  assumes "rt_reach my_id rt" "valid_id target"
  shows "let r = find_closest_nodes target k rt in
    length r = min k (rt_size rt) \<and> set r \<subseteq> set (all_entries rt) \<and>
    sorted_wrt (\<lambda>a b. distance (be_id a) target < distance (be_id b) target) r \<and>
    (\<forall>e\<in>set (all_entries rt). e \<notin> set r \<longrightarrow>
      (\<forall>x\<in>set r. distance (be_id x) target < distance (be_id e) target))"
proof -
  let ?d = "\<lambda>e. distance (be_id e) target"
  have inv: "rt_inv rt"
    using assms(1) rt_reach_inv by blast
  obtain xs where xs: "find_closest_nodes target k rt = take k (sort_key ?d xs)"
    "set xs = set (all_entries rt)" "distinct (map be_id xs)"
    using find_closest_eq [OF inv assms(2)] .
  define ys where "ys = sort_key ?d xs"
  have ids: "valid_id (be_id e)" if "e \<in> set (all_entries rt)" for e
    using that by (metis all_entries_mem inv rt_bucket_mem)
  have "inj_on ?d (set xs)"
    using xs(2,3) ids assms(2) all_entries_inj [OF inv]
    by (auto simp: inj_on_def distance_inject valid_id_def)
  then have "distinct (map ?d ys)"
    using xs(3) by (simp add: ys_def distinct_map)
  moreover have "sorted (map ?d ys)"
    by (simp add: ys_def)
  ultimately have "sorted_wrt (<) (map ?d ys)"
    by (simp add: strict_sorted_iff)
  then have strict: "sorted_wrt (\<lambda>a b. ?d a < ?d b) ys"
    by (simp add: sorted_wrt_map)
  have "length ys = rt_size rt"
    using xs(2,3) distinct_all_entries [OF inv]
    by (metis distinct_card distinct_map length_sort rt_size_length ys_def)
  moreover have "sorted_wrt (\<lambda>a b. ?d a < ?d b) (take k ys @ drop k ys)"
    using strict by simp
  then have "sorted_wrt (\<lambda>a b. ?d a < ?d b) (take k ys)"
    and "\<forall>x\<in>set (take k ys). \<forall>e\<in>set (drop k ys). ?d x < ?d e"
    by (auto simp: sorted_wrt_append simp del: append_take_drop_id)
  moreover have "set (all_entries rt) = set (take k ys) \<union> set (drop k ys)"
    using xs(2) by (metis append_take_drop_id set_append set_sort ys_def)
  ultimately show ?thesis
    unfolding xs(1) ys_def [symmetric] by (auto simp: Let_def)
qed


theorem find_closest_nodes_nearest_witness:
  "rt_reach (replicate 20 0) example_table \<and> valid_id (replicate 20 7) \<and>
    length (find_closest_nodes (replicate 20 7) K example_table) = min K (rt_size example_table)"
proof -
  have "valid_id (replicate 20 7)"
    by (simp add: valid_id_def)
  then show ?thesis
    using find_closest_nodes_nearest [OF example_reach, of "replicate 20 7" K] example_reach by (simp add: Let_def)
qed

subsection \<open>Insertion\<close>

text \<open>What insertion does to a bucket that holds no entry with the new id.\<close>

lemma rt_insert_buckets:
  assumes "rt_inv rt" "valid_id (be_id e)" "be_id e \<noteq> rt_my_node_id rt"
    and "idx = get_bucket_index (rt_my_node_id rt) (be_id e)"
  shows "rt_insert now e rt =
    rt\<lparr> rt_buckets := (rt_buckets rt)[idx := snd (kbucket_add now e (rt_buckets rt ! idx))] \<rparr>" "idx < 160"
proof -
  show "idx < 160"
    using assms bucket_index_less by (simp add: rt_inv_def)
  then show "rt_insert now e rt =
    rt\<lparr> rt_buckets := (rt_buckets rt)[idx := snd (kbucket_add now e (rt_buckets rt ! idx))] \<rparr>"
    using assms by (simp add: rt_insert_def rt_inv_def Let_def not_le)
qed

lemma kbucket_add_ids:
  "be_id e \<in> be_id ` set (kb_bucket (snd (kbucket_add now e kb))) \<longleftrightarrow> fst (kbucket_add now e kb)"
  by (auto simp: kbucket_add_def extract_None_iff split: option.splits dest!: extract_SomeD)

lemma kbucket_add_subset:
  "be_id ` set (kb_bucket (snd (kbucket_add now e kb))) \<subseteq> insert (be_id e) (be_id ` set (kb_bucket kb))"
proof (cases "List.extract (\<lambda>x. be_id x = be_id e) (kb_bucket kb)")
  case None
  then show ?thesis
    by (auto simp: kbucket_add_def split: option.split dest!: extract_SomeD)
next
  case (Some t)
  then show ?thesis
    by (cases t) (auto simp: kbucket_add_def dest!: extract_SomeD)
qed

lemma kbucket_add_keeps:
  assumes "x \<in> set (kb_bucket kb)" "be_status x \<noteq> Bad"
  shows "be_id x \<in> be_id ` set (kb_bucket (snd (kbucket_add now e kb)))"
proof (cases "List.extract (\<lambda>x. be_id x = be_id e) (kb_bucket kb)")
  case None
  then show ?thesis
    using assms by (auto simp: kbucket_add_def split: option.split dest!: extract_SomeD)
next
  case (Some t)
  then show ?thesis
    using assms by (cases t) (auto simp: kbucket_add_def dest!: extract_SomeD)
qed

lemma kbucket_add_refused:
  "\<not> fst (kbucket_add now e kb) \<longleftrightarrow> be_id e \<notin> be_id ` set (kb_bucket kb) \<and> K \<le> length (kb_bucket kb) \<and>
    (\<forall>x\<in>set (kb_bucket kb). be_status x \<noteq> Bad)"
  by (auto simp: kbucket_add_def extract_None_iff split: option.splits dest!: extract_SomeD)

definition rt_ids :: "RouteTable \<Rightarrow> id20 set" where
  "rt_ids rt = be_id ` set (all_entries rt)"

lemma rt_ids_buckets:
  "length (rt_buckets rt) = 160 \<Longrightarrow> rt_ids rt = (\<Union>i<160. be_id ` set (kb_bucket (rt_buckets rt ! i)))"
proof -
  assume "length (rt_buckets rt) = 160"
  then have "set (rt_buckets rt) = (\<lambda>i. rt_buckets rt ! i) ` {..<160}"
    by (auto simp: set_conv_nth)
  then show ?thesis
    by (auto simp: rt_ids_def all_entries_def)
qed

text \<open>C35: inserting a node prefers nodes that are already known.  In every reachable table, insertion never
  removes a node that is not marked bad, never adds an id other than the new one, and it leaves the
  new node out exactly when it is our own id, or its bucket already holds eight other nodes none of
  which is bad.\<close>

theorem insert_keeps_known_nodes:
  assumes "rt_reach my_id rt" "valid_id (be_id e)"
  shows "let bucket = kb_bucket (rt_buckets rt ! get_bucket_index my_id (be_id e)); rt' = rt_insert now e rt in
    (\<forall>x\<in>set (all_entries rt). be_status x \<noteq> Bad \<longrightarrow> be_id x \<in> rt_ids rt') \<and>
    rt_ids rt' \<subseteq> insert (be_id e) (rt_ids rt) \<and>
    (be_id e \<notin> rt_ids rt' \<longleftrightarrow> be_id e = my_id \<or>
      (be_id e \<notin> rt_ids rt \<and> length bucket = K \<and> (\<forall>x\<in>set bucket. be_status x \<noteq> Bad)))"
proof -
  have inv: "rt_inv rt" and my: "rt_my_node_id rt = my_id"
    using assms(1) rt_reach_inv by auto
  show ?thesis
  proof (cases "be_id e = my_id")
    case True
    moreover have "my_id \<notin> rt_ids rt"
    proof
      assume "my_id \<in> rt_ids rt"
      then obtain x where x: "x \<in> set (all_entries rt)" "be_id x = my_id"
        by (auto simp: rt_ids_def)
      from inv x(1) obtain i where "i < 160" "x \<in> set (kb_bucket (rt_buckets rt ! i))"
        by (rule all_entries_mem)
      then show False
        using rt_bucket_mem [OF inv, of i x] x(2) my by simp
    qed
    ultimately show ?thesis
      using my by (auto simp: rt_insert_def rt_ids_def Let_def)
  next
    case False
    define idx where "idx = get_bucket_index my_id (be_id e)"
    define kb where "kb = rt_buckets rt ! idx"
    define B where "B i = be_id ` set (kb_bucket (rt_buckets rt ! i))" for i
    define B' where "B' = be_id ` set (kb_bucket (snd (kbucket_add now e kb)))"
    have rt': "rt_insert now e rt = rt\<lparr> rt_buckets := (rt_buckets rt)[idx := snd (kbucket_add now e kb)] \<rparr>"
      and idx: "idx < 160" and len: "length (rt_buckets rt) = 160"
      using rt_insert_buckets [OF inv assms(2), of idx] my False inv by (simp_all add: idx_def kb_def rt_inv_def)
    have ids: "rt_ids rt = (\<Union>i<160. B i)"
      unfolding B_def by (rule rt_ids_buckets [OF len])
    have ids': "rt_ids (rt_insert now e rt) = (\<Union>i<160. if i = idx then B' else B i)"
      unfolding rt' using len by (subst rt_ids_buckets) (auto simp: B_def B'_def nth_list_update split: if_splits)
    have other: "be_id e \<notin> B i" if "i < 160" "i \<noteq> idx" for i
      using rt_bucket_mem [OF inv \<open>i < 160\<close>] that my by (auto simp: B_def idx_def)
    have "length (kb_bucket kb) \<le> K"
      using inv idx by (simp add: rt_inv_def bucket_ok_def kb_def)
    then have "be_id e \<notin> B' \<longleftrightarrow> be_id e \<notin> B idx \<and> length (kb_bucket kb) = K \<and> (\<forall>x\<in>set (kb_bucket kb). be_status x \<noteq> Bad)"
      unfolding B'_def kbucket_add_ids kbucket_add_refused B_def kb_def by auto
    moreover have "be_id e \<in> rt_ids rt \<longleftrightarrow> be_id e \<in> B idx"
    proof
      assume "be_id e \<in> rt_ids rt"
      then obtain i where "i \<in> {..<160}" "be_id e \<in> B i"
        unfolding ids by (elim UN_E)
      then show "be_id e \<in> B idx"
        using other [of i] by (cases "i = idx") simp_all
    next
      assume "be_id e \<in> B idx"
      then show "be_id e \<in> rt_ids rt"
        unfolding ids using idx by (intro UN_I [of idx]) simp_all
    qed
    moreover have "be_id e \<in> rt_ids (rt_insert now e rt) \<longleftrightarrow> be_id e \<in> B'"
    proof
      assume "be_id e \<in> rt_ids (rt_insert now e rt)"
      then obtain i where "i \<in> {..<160}" "be_id e \<in> (if i = idx then B' else B i)"
        unfolding ids' by (elim UN_E)
      then show "be_id e \<in> B'"
        using other [of i] by (cases "i = idx") simp_all
    next
      assume "be_id e \<in> B'"
      then show "be_id e \<in> rt_ids (rt_insert now e rt)"
        unfolding ids' using idx by (intro UN_I [of idx]) simp_all
    qed
    moreover have "rt_ids (rt_insert now e rt) \<subseteq> insert (be_id e) (rt_ids rt)"
    proof -
      have "B' \<subseteq> insert (be_id e) (B idx)"
        using kbucket_add_subset [of now e kb] by (simp add: B_def B'_def kb_def)
      then have "(if i = idx then B' else B i) \<subseteq> insert (be_id e) (B i)" for i
        by auto
      then show ?thesis
        unfolding ids ids' by (intro UN_least) (meson UN_upper insert_mono order_trans)
    qed
    moreover have "be_id x \<in> rt_ids (rt_insert now e rt)" if x: "x \<in> set (all_entries rt)" "be_status x \<noteq> Bad" for x
    proof -
      obtain i where "i < 160" "x \<in> set (kb_bucket (rt_buckets rt ! i))"
        using inv x(1) by (rule all_entries_mem)
      then show ?thesis
        unfolding ids' using kbucket_add_keeps [of x kb now e] x(2)
        by (intro UN_I [of i]) (auto simp: B_def B'_def kb_def)
    qed
    ultimately show ?thesis
      using False by (simp add: Let_def flip: idx_def kb_def)
  qed
qed

theorem insert_keeps_known_nodes_witness:
  "let e = \<lparr> be_id = replicate 20 2, be_endpoint = (V4 [127, 0, 0, 1], 6882), be_status = Good,
       be_last_seen = 6, be_last_replied = 6 \<rparr>
   in rt_reach (replicate 20 0) example_table \<and> valid_id (be_id e) \<and>
     rt_ids (rt_insert 6 e example_table) \<subseteq> insert (be_id e) (rt_ids example_table)"
proof -
  let ?e = "\<lparr> be_id = replicate 20 2, be_endpoint = (V4 [127, 0, 0, 1], 6882), be_status = Good,
       be_last_seen = 6, be_last_replied = 6 \<rparr>"
  have v: "valid_id (be_id ?e)"
    by (simp add: valid_id_def)
  show ?thesis
    using insert_keeps_known_nodes [OF example_reach v, of 6] example_reach v by (simp add: Let_def)
qed

end
