(* ===== verification/Krpc.thy ===== *)
theory Krpc
  imports Bencode RouteTable
begin

text \<open>
  The KRPC messages of the DHT: the query and response builders of \<^verbatim>\<open>src/src/Utils.hpp\<close> and the
  compact node and peer encodings of \<^verbatim>\<open>src/src/Kademlia.hpp\<close>.

  A \<^verbatim>\<open>Dict\<close> written as a braced list is inserted pair by pair into the ordered map (\<open>mk_dict\<close>).

  Lemmas: every message built is a valid bencode value (so it survives encoding and decoding), with the
  fields it was built from, and the compact encodings are inverted by their readers.
\<close>

subsection \<open>Definitions: messages\<close>

definition mk_dict :: "(string \<times> Value) list \<Rightarrow> Value" where
  "mk_dict kvs = Dict (fold (\<lambda>(k, v). map_emplace k v) kvs [])"

definition create_ping_query :: "string \<Rightarrow> id20 \<Rightarrow> Value" where
  "create_ping_query transaction_id sender_id =
    (let args = map_assign ''id'' (String (id_to_string sender_id)) []
     in mk_dict [(''t'', String transaction_id), (''y'', String ''q''), (''q'', String ''ping''), (''a'', Dict args)])"

definition create_find_node_query :: "string \<Rightarrow> id20 \<Rightarrow> id20 \<Rightarrow> Value" where
  "create_find_node_query transaction_id sender_id target_id =
    (let args = map_assign ''id'' (String (id_to_string sender_id)) [];
         args = map_assign ''target'' (String (id_to_string target_id)) args
     in mk_dict [(''t'', String transaction_id), (''y'', String ''q''), (''q'', String ''find_node''), (''a'', Dict args)])"

definition create_get_peers_query :: "string \<Rightarrow> id20 \<Rightarrow> id20 \<Rightarrow> Value" where
  "create_get_peers_query transaction_id sender_id info_hash =
    (let args = map_assign ''id'' (String (id_to_string sender_id)) [];
         args = map_assign ''info_hash'' (String (id_to_string info_hash)) args
     in mk_dict [(''t'', String transaction_id), (''y'', String ''q''), (''q'', String ''get_peers''), (''a'', Dict args)])"

definition create_announce_peer_query :: "string \<Rightarrow> id20 \<Rightarrow> id20 \<Rightarrow> u16 \<Rightarrow> string \<Rightarrow> Value" where
  "create_announce_peer_query transaction_id sender_id info_hash port token =
    (let args = map_assign ''id'' (String (id_to_string sender_id)) [];
         args = map_assign ''info_hash'' (String (id_to_string info_hash)) args;
         args = map_assign ''port'' (Integer (uint port)) args;
         args = map_assign ''token'' (String token) args
     in mk_dict [(''t'', String transaction_id), (''y'', String ''q''), (''q'', String ''announce_peer''), (''a'', Dict args)])"

definition create_ping_response :: "string \<Rightarrow> id20 \<Rightarrow> Value" where
  "create_ping_response transaction_id responder_id =
    (let r = map_assign ''id'' (String (id_to_string responder_id)) []
     in mk_dict [(''t'', String transaction_id), (''y'', String ''r''), (''r'', Dict r)])"

definition create_find_node_response :: "string \<Rightarrow> id20 \<Rightarrow> string \<Rightarrow> Value" where
  "create_find_node_response transaction_id responder_id compact_nodes =
    (let r = map_assign ''id'' (String (id_to_string responder_id)) [];
         r = map_assign ''nodes'' (String compact_nodes) r
     in mk_dict [(''t'', String transaction_id), (''y'', String ''r''), (''r'', Dict r)])"

definition create_get_peers_response_with_peers :: "string \<Rightarrow> id20 \<Rightarrow> string \<Rightarrow> Value list \<Rightarrow> Value" where
  "create_get_peers_response_with_peers transaction_id responder_id token compact_peers_list =
    (let r = map_assign ''id'' (String (id_to_string responder_id)) [];
         r = map_assign ''token'' (String token) r;
         r = map_assign ''values'' (List compact_peers_list) r
     in mk_dict [(''t'', String transaction_id), (''y'', String ''r''), (''r'', Dict r)])"

definition create_get_peers_response_with_nodes :: "string \<Rightarrow> id20 \<Rightarrow> string \<Rightarrow> string \<Rightarrow> Value" where
  "create_get_peers_response_with_nodes transaction_id responder_id token compact_nodes =
    (let r = map_assign ''id'' (String (id_to_string responder_id)) [];
         r = map_assign ''token'' (String token) r;
         r = map_assign ''nodes'' (String compact_nodes) r
     in mk_dict [(''t'', String transaction_id), (''y'', String ''r''), (''r'', Dict r)])"

definition create_announce_peer_response :: "string \<Rightarrow> id20 \<Rightarrow> Value" where
  "create_announce_peer_response transaction_id responder_id = create_ping_response transaction_id responder_id"

definition create_error_response :: "string \<Rightarrow> int \<Rightarrow> string \<Rightarrow> Value" where
  "create_error_response transaction_id error_code error_message =
    mk_dict [(''t'', String transaction_id), (''y'', String ''e''), (''e'', List [Integer error_code, String error_message])]"

subsection \<open>Definitions: compact encodings\<close>

text \<open>\<^verbatim>\<open>to_v4\<close> throws on a version 6 address (\<open>None\<close>).\<close>

fun to_v4 :: "ip_address \<Rightarrow> byte list option" where
  "to_v4 (V4 b) = Some b"
| "to_v4 (V6 b) = None"

definition to_compact_peer_info :: "endpoint \<Rightarrow> string option" where
  "to_compact_peer_info ep =
    (case to_v4 (fst ep) of None \<Rightarrow> None
     | Some addr_bytes \<Rightarrow> Some (string_of_bytes addr_bytes @ string_of_bytes (put16 (snd ep))))"

fun to_compact_node_info :: "BucketEntry list \<Rightarrow> string option" where
  "to_compact_node_info [] = Some []"
| "to_compact_node_info (node # nodes) =
    (case to_v4 (fst (be_endpoint node)) of None \<Rightarrow> None
     | Some addr_bytes \<Rightarrow>
         (case to_compact_node_info nodes of None \<Rightarrow> None
          | Some compact \<Rightarrow> Some (string_of_bytes (be_id node) @ string_of_bytes addr_bytes @
              string_of_bytes (put16 (snd (be_endpoint node))) @ compact)))"

fun to_compact_peer_list :: "endpoint list \<Rightarrow> Value list option" where
  "to_compact_peer_list [] = Some []"
| "to_compact_peer_list (peer # peers) =
    (case to_compact_peer_info peer of None \<Rightarrow> None
     | Some s \<Rightarrow> (case to_compact_peer_list peers of None \<Rightarrow> None | Some l \<Rightarrow> Some (String s # l)))"



definition node_of_compact :: "int \<Rightarrow> byte list \<Rightarrow> BucketEntry" where
  "node_of_compact now b =
    \<lparr> be_id = take 20 b, be_endpoint = (V4 (take 4 (drop 20 b)), get16 (take 2 (drop 24 b))),
      be_status = Qustionable, be_last_seen = now, be_last_replied = now \<rparr>"

definition from_compact_node_info :: "int \<Rightarrow> string \<Rightarrow> BucketEntry list" where
  "from_compact_node_info now compact =
    (if compact = [] then []
     else if length compact mod 26 \<noteq> 0 then []
     else map (node_of_compact now) (chunks 26 (bytes_of_string compact)))"

definition peer_of_compact :: "byte list \<Rightarrow> endpoint" where
  "peer_of_compact b = (V4 (take 4 b), get16 (take 2 (drop 4 b)))"

definition from_compact_peer_info :: "string \<Rightarrow> endpoint list" where
  "from_compact_peer_info compact =
    (if compact = [] then []
     else if length compact mod 6 \<noteq> 0 then []
     else map peer_of_compact (chunks 6 (bytes_of_string compact)))"

text \<open>A version 4 endpoint with the four address bytes its type has.\<close>

definition v4_endpoint :: "endpoint \<Rightarrow> bool" where
  "v4_endpoint ep \<longleftrightarrow> (\<exists>b. fst ep = V4 b \<and> length b = 4)"

subsection \<open>The messages in full\<close>

lemma query_eqs:
  "create_ping_query t i = Dict [(''a'', Dict [(''id'', String (id_to_string i))]), (''q'', String ''ping''),
     (''t'', String t), (''y'', String ''q'')]"
  "create_find_node_query t i j = Dict [(''a'', Dict [(''id'', String (id_to_string i)),
     (''target'', String (id_to_string j))]), (''q'', String ''find_node''), (''t'', String t), (''y'', String ''q'')]"
  "create_get_peers_query t i h = Dict [(''a'', Dict [(''id'', String (id_to_string i)),
     (''info_hash'', String (id_to_string h))]), (''q'', String ''get_peers''), (''t'', String t), (''y'', String ''q'')]"
  "create_announce_peer_query t i h p k = Dict [(''a'', Dict [(''id'', String (id_to_string i)),
     (''info_hash'', String (id_to_string h)), (''port'', Integer (uint p)), (''token'', String k)]),
     (''q'', String ''announce_peer''), (''t'', String t), (''y'', String ''q'')]"
  by (simp_all add: create_ping_query_def create_find_node_query_def create_get_peers_query_def
      create_announce_peer_query_def mk_dict_def less_char_def)

lemma response_eqs:
  "create_ping_response t i = Dict [(''r'', Dict [(''id'', String (id_to_string i))]), (''t'', String t), (''y'', String ''r'')]"
  "create_find_node_response t i n = Dict [(''r'', Dict [(''id'', String (id_to_string i)), (''nodes'', String n)]),
     (''t'', String t), (''y'', String ''r'')]"
  "create_get_peers_response_with_peers t i k l = Dict [(''r'', Dict [(''id'', String (id_to_string i)),
     (''token'', String k), (''values'', List l)]), (''t'', String t), (''y'', String ''r'')]"
  "create_get_peers_response_with_nodes t i k n = Dict [(''r'', Dict [(''id'', String (id_to_string i)),
     (''nodes'', String n), (''token'', String k)]), (''t'', String t), (''y'', String ''r'')]"
  "create_announce_peer_response t i = create_ping_response t i"
  "create_error_response t c m = Dict [(''e'', List [Integer c, String m]), (''t'', String t), (''y'', String ''e'')]"
  by (simp_all add: create_ping_response_def create_find_node_response_def create_get_peers_response_with_peers_def
      create_get_peers_response_with_nodes_def create_announce_peer_response_def create_error_response_def
      mk_dict_def less_char_def)

lemma string_less_literals:
  "''id'' < ''info_hash''" "''id'' < ''target''" "''id'' < ''port''" "''id'' < ''token''" "''info_hash'' < ''port''"
  "''info_hash'' < ''token''" "''port'' < ''token''" "''a'' < ''q''" "''a'' < ''t''" "''a'' < ''y''" "''q'' < ''t''"
  "''q'' < ''y''" "''t'' < ''y''" "''r'' < ''t''" "''r'' < ''y''" "''e'' < ''t''" "''e'' < ''y''" "''id'' < ''nodes''"
  "''id'' < ''values''" "''token'' < ''values''" "''nodes'' < ''token''"
  by (simp_all add: less_char_def)

text \<open>A string short enough to have its length written as a 64-bit integer.\<close>

lemma fits_id [simp]: "valid_id i \<Longrightarrow> fits (id_to_string i)"
  by (simp add: valid_id_def id_to_string_def int64_max_def)

lemma uint_port: "int64_min \<le> uint (p::u16)" "uint (p::u16) \<le> int64_max"
proof -
  have "uint p < 2 ^ 16"
    using uint_bounded [of p] by simp
  moreover have "0 \<le> uint p"
    by simp
  ultimately show "int64_min \<le> uint p" and "uint p \<le> int64_max"
    by (simp_all add: int64_min_def int64_max_def order_trans [of _ 0])
qed

lemma valid_queries:
  assumes "fits t" "valid_id i" "valid_id j" "fits k"
  shows "valid_value (create_ping_query t i)" "valid_value (create_find_node_query t i j)"
    "valid_value (create_get_peers_query t i j)" "valid_value (create_announce_peer_query t i j p k)"
  using assms by (simp_all add: query_eqs string_less_literals uint_port del: Cons_less_Cons)

lemma valid_responses:
  assumes "fits t" "valid_id i" "fits k" "fits n" "\<forall>v\<in>set l. valid_value v"
  shows "valid_value (create_ping_response t i)" "valid_value (create_find_node_response t i n)"
    "valid_value (create_get_peers_response_with_peers t i k l)"
    "valid_value (create_get_peers_response_with_nodes t i k n)"
  using assms by (simp_all add: response_eqs string_less_literals del: Cons_less_Cons)

subsection \<open>Compact encodings\<close>

definition node_bytes :: "BucketEntry \<Rightarrow> byte list" where
  "node_bytes e = be_id e @ the (to_v4 (fst (be_endpoint e))) @ put16 (snd (be_endpoint e))"

definition peer_bytes :: "endpoint \<Rightarrow> byte list" where
  "peer_bytes ep = the (to_v4 (fst ep)) @ put16 (snd ep)"

lemma to_compact_peer_info_v4: "v4_endpoint ep \<Longrightarrow> to_compact_peer_info ep = Some (string_of_bytes (peer_bytes ep))"
  by (auto simp: to_compact_peer_info_def v4_endpoint_def peer_bytes_def)

lemma to_compact_node_info_v4:
  "\<forall>e\<in>set es. v4_endpoint (be_endpoint e) \<Longrightarrow>
    to_compact_node_info es = Some (string_of_bytes (concat (map node_bytes es)))"
  by (induction es) (auto simp: v4_endpoint_def node_bytes_def string_of_bytes_def [of "[]"])

lemma to_compact_peer_list_v4:
  "\<forall>ep\<in>set eps. v4_endpoint ep \<Longrightarrow>
    to_compact_peer_list eps = Some (map (\<lambda>ep. String (string_of_bytes (peer_bytes ep))) eps)"
  by (induction eps) (auto simp: to_compact_peer_info_v4)

lemma length_peer_bytes: "v4_endpoint ep \<Longrightarrow> length (peer_bytes ep) = 6"
  by (auto simp: v4_endpoint_def peer_bytes_def)

lemma length_node_bytes: "valid_id (be_id e) \<Longrightarrow> v4_endpoint (be_endpoint e) \<Longrightarrow> length (node_bytes e) = 26"
  by (auto simp: v4_endpoint_def node_bytes_def valid_id_def)

lemma peer_of_compact_bytes: "v4_endpoint ep \<Longrightarrow> peer_of_compact (peer_bytes ep) = ep"
  by (cases ep) (auto simp: v4_endpoint_def peer_of_compact_def peer_bytes_def)

lemma node_of_compact_bytes:
  "valid_id (be_id e) \<Longrightarrow> v4_endpoint (be_endpoint e) \<Longrightarrow>
    node_of_compact now (node_bytes e) =
      e\<lparr> be_status := Qustionable, be_last_seen := now, be_last_replied := now \<rparr>"
  by (cases e; cases "be_endpoint e")
    (auto simp: v4_endpoint_def node_of_compact_def node_bytes_def valid_id_def)

lemma from_compact_peer_bytes: "v4_endpoint ep \<Longrightarrow> from_compact_peer_info (string_of_bytes (peer_bytes ep)) = [ep]"
  using length_peer_bytes [of ep] chunks_append [of 6 "peer_bytes ep" "[]"]
  by (auto simp: from_compact_peer_info_def peer_of_compact_bytes)

lemma from_compact_node_bytes:
  assumes "\<forall>e\<in>set es. valid_id (be_id e) \<and> v4_endpoint (be_endpoint e)"
  shows "from_compact_node_info now (string_of_bytes (concat (map node_bytes es))) =
    map (\<lambda>e. e\<lparr> be_status := Qustionable, be_last_seen := now, be_last_replied := now \<rparr>) es"
proof -
  have len: "\<forall>x\<in>set (map node_bytes es). length x = 26"
    using assms by (simp add: length_node_bytes)
  then have "length (concat (map node_bytes es)) = 26 * length es"
    by (induction es) auto
  then have "length (string_of_bytes (concat (map node_bytes es))) mod 26 = 0"
    by (simp only: length_string_of_bytes mod_mult_self1_is_0)
  moreover have "map (node_of_compact now) (map node_bytes es) =
      map (\<lambda>e. e\<lparr> be_status := Qustionable, be_last_seen := now, be_last_replied := now \<rparr>) es"
    using assms by (simp add: node_of_compact_bytes)
  moreover have "concat (map node_bytes es) = [] \<Longrightarrow> es = []"
    using len by (cases es) auto
  ultimately show ?thesis
    using chunks_concat [OF _ len] by (auto simp: from_compact_node_info_def)
qed

lemma from_compact_nodes_valid:
  assumes "e \<in> set (from_compact_node_info now s)"
  shows "valid_id (be_id e) \<and> v4_endpoint (be_endpoint e)"
proof -
  obtain b where "b \<in> set (chunks 26 (bytes_of_string s))" "length (bytes_of_string s) mod 26 = 0"
    and e: "e = node_of_compact now b"
    using assms by (auto simp: from_compact_node_info_def split: if_splits)
  then have "length b = 26"
    by (intro chunks_length [of b 26 "bytes_of_string s"]) simp_all
  then show ?thesis
    by (simp add: e node_of_compact_def valid_id_def v4_endpoint_def)
qed

end
