(* ===== verification/Dht.thy ===== *)
theory Dht
  imports Krpc
begin

text \<open>
  The DHT node of \<^verbatim>\<open>src/src/Kademlia.hpp\<close> as a server: its state, the handlers of incoming KRPC
  messages, announce tokens, the book-keeping of outstanding queries, the periodic clean-up, and the
  state file.

  What lies outside is in the environment record: the steady clock, the textual form of addresses
  (\<^verbatim>\<open>asio\<close>), SHA-256 (OpenSSL) and whether the system accepts a datagram for sending (it refuses one that is
  too long, say).  A datagram is the string of its bytes; sending appends to \<open>dn_sent\<close>.
  A handler that throws leaves the changes it has made (the monad \<open>sx\<close> of the prelude); the listen loop
  swallows the exception.

  A pending query is named by the coroutine that waits for it (\<open>pq_handler\<close>); \<open>dn_completed\<close> lists the
  coroutines resumed so far with the outcome they got, which also is the \<^verbatim>\<open>completed\<close> flag of each query;
  \<open>dn_timers\<close> are the queries whose expiry timer is armed.  What a resumed coroutine does next (the lookups of
  the theory of the client) is not part of the step that resumes it.
\<close>

subsection \<open>Definitions: state\<close>

datatype dht_error = BadVariant | InvalidId | AddressCast | MissingKey | BadHex | BadBencode | SendFailed

record dht_env =
  de_now :: int
  de_addr_str :: "ip_address \<Rightarrow> string"
  de_sha256 :: "byte list \<Rightarrow> byte list"
  de_send_ok :: "string \<Rightarrow> endpoint \<Rightarrow> bool"

definition minute :: int where "minute = 60 * 1000000000"
definition ANNOUNCE_TOKEN_LIFETIME :: int where "ANNOUNCE_TOKEN_LIFETIME = 10"
definition PEER_STORAGE_LIFETIME :: int where "PEER_STORAGE_LIFETIME = 30 * minute"
definition KRPC_QUERY_TIMEOUT :: int where "KRPC_QUERY_TIMEOUT = 10 * 1000000000"

record PeerInfo =
  pi_endpoint :: endpoint
  pi_expiry :: int

record PendingQuery =
  pq_handler :: nat
  pq_remote :: endpoint
  pq_expiry :: int

datatype krpc_outcome = Response Value | ProtocolError Value | Aborted | TimedOut

record DHTNode =
  dn_id :: id20
  dn_table :: RouteTable
  dn_known_peers :: "(id20 \<times> PeerInfo list) list"
  dn_tokens_issued :: "(id20 \<times> (endpoint \<times> string \<times> int) list) list"
  dn_pending :: "(string \<times> PendingQuery) list"
  dn_completed :: "(nat \<times> krpc_outcome) list"
  dn_timers :: "PendingQuery list"
  dn_sent :: "(string \<times> endpoint) list"
  dn_shuting_down :: bool

type_synonym 'a dht = "(DHTNode, dht_error, 'a) sx"

definition new_dht_node :: "int \<Rightarrow> id20 \<Rightarrow> DHTNode" where
  "new_dht_node now nid =
    \<lparr> dn_id = nid, dn_table = new_route_table now nid, dn_known_peers = [], dn_tokens_issued = [],
      dn_pending = [], dn_completed = [], dn_timers = [], dn_sent = [], dn_shuting_down = False \<rparr>"

subsection \<open>Definitions: sending, tokens, outstanding queries\<close>

definition send_krpc_response :: "dht_env \<Rightarrow> Value \<Rightarrow> endpoint \<Rightarrow> unit dht" where
  "send_krpc_response env response remote =
    (if de_send_ok env (encode response) remote then sx_modify (\<lambda>n. n\<lparr> dn_sent := dn_sent n @ [(encode response, remote)] \<rparr>)
     else sx_throw SendFailed)"

definition send_krpc_error :: "dht_env \<Rightarrow> string \<Rightarrow> int \<Rightarrow> string \<Rightarrow> endpoint \<Rightarrow> unit dht" where
  "send_krpc_error env transaction_id error_code error_message remote =
    send_krpc_response env (create_error_response transaction_id error_code error_message) remote"

definition calculate_data_hash :: "(byte list \<Rightarrow> byte list) \<Rightarrow> byte list \<Rightarrow> string" where
  "calculate_data_hash sha256 data = bytes_to_hex (sha256 data)"

definition generate_token :: "dht_env \<Rightarrow> endpoint \<Rightarrow> string" where
  "generate_token env remote =
    (let time_window = nat (de_now env div minute div ANNOUNCE_TOKEN_LIFETIME);
         secret = ''DHT-TOKEN-SECRET-'' @ show_nat time_window;
         input = de_addr_str env (fst remote) @ secret
     in take 8 (calculate_data_hash (de_sha256 env) (bytes_of_string input)))"

text \<open>The completion wrapper: only the first call cancels the expiry timer and resumes the waiting coroutine.\<close>

definition complete :: "PendingQuery \<Rightarrow> krpc_outcome \<Rightarrow> DHTNode \<Rightarrow> DHTNode" where
  "complete q outcome n =
    (if pq_handler q \<in> fst ` set (dn_completed n) then n
     else n\<lparr> dn_completed := dn_completed n @ [(pq_handler q, outcome)],
       dn_timers := filter (\<lambda>q'. pq_handler q' \<noteq> pq_handler q) (dn_timers n) \<rparr>)"

definition create_pending_query :: "int \<Rightarrow> nat \<Rightarrow> endpoint \<Rightarrow> PendingQuery" where
  "create_pending_query now handler remote =
    \<lparr> pq_handler = handler, pq_remote = remote, pq_expiry = now + KRPC_QUERY_TIMEOUT + 1000000000 \<rparr>"

text \<open>The common body of \<^verbatim>\<open>async_ping\<close>, \<^verbatim>\<open>async_find_nodes\<close>, \<^verbatim>\<open>async_get_peers\<close> and
  \<^verbatim>\<open>async_announce_peer\<close>: register the query and send the encoded message.\<close>

definition async_query :: "int \<Rightarrow> nat \<Rightarrow> string \<Rightarrow> Value \<Rightarrow> endpoint \<Rightarrow> DHTNode \<Rightarrow> DHTNode" where
  "async_query now handler tid message target n =
    n\<lparr> dn_pending := map_assign tid (create_pending_query now handler target) (dn_pending n),
       dn_timers := dn_timers n @ [create_pending_query now handler target],
       dn_sent := dn_sent n @ [(encode message, target)] \<rparr>"

definition take_pending :: "string \<Rightarrow> DHTNode \<Rightarrow> PendingQuery option \<times> DHTNode" where
  "take_pending tid n = (map_of (dn_pending n) tid, n\<lparr> dn_pending := map_erase tid (dn_pending n) \<rparr>)"

definition complete_pending :: "string \<Rightarrow> krpc_outcome \<Rightarrow> DHTNode \<Rightarrow> DHTNode" where
  "complete_pending tid outcome n =
    (case take_pending tid n of (None, n) \<Rightarrow> n | (Some q, n) \<Rightarrow> complete q outcome n)"

definition handle_response :: "(string \<times> Value) list \<Rightarrow> string \<Rightarrow> endpoint \<Rightarrow> unit dht" where
  "handle_response response_dict transaction_id remote =
    sx_modify (complete_pending transaction_id (Response (Dict response_dict)))"

definition handle_error :: "(string \<times> Value) list \<Rightarrow> string \<Rightarrow> endpoint \<Rightarrow> unit dht" where
  "handle_error error_dict transaction_id remote =
    sx_modify (complete_pending transaction_id (ProtocolError (Dict error_dict)))"

text \<open>The cancellation slot of a query, its expiry timer, and \<^verbatim>\<open>stop\<close>.\<close>

definition cancel_query :: "string \<Rightarrow> DHTNode \<Rightarrow> DHTNode" where
  "cancel_query tid = complete_pending tid Aborted"

definition expiry_timer_fires :: "PendingQuery \<Rightarrow> DHTNode \<Rightarrow> DHTNode" where
  "expiry_timer_fires q = complete q TimedOut"

definition abort_query :: "PendingQuery \<Rightarrow> DHTNode \<Rightarrow> DHTNode" where
  "abort_query q n =
    (let n = complete q Aborted n in n\<lparr> dn_timers := filter (\<lambda>q'. pq_handler q' \<noteq> pq_handler q) (dn_timers n) \<rparr>)"

definition dht_stop :: "DHTNode \<Rightarrow> DHTNode" where
  "dht_stop n =
    (let n = n\<lparr> dn_shuting_down := True \<rparr>;
         queries = map snd (dn_pending n);
         n = n\<lparr> dn_pending := [] \<rparr>
     in fold abort_query queries n)"

definition erase_pending :: "string \<Rightarrow> DHTNode \<Rightarrow> DHTNode" where
  "erase_pending tid n = n\<lparr> dn_pending := map_erase tid (dn_pending n) \<rparr>"

definition cleanup_peers :: "int \<Rightarrow> (id20 \<times> PeerInfo list) list \<Rightarrow> (id20 \<times> PeerInfo list) list" where
  "cleanup_peers now known =
    filter (\<lambda>(h, peers). peers \<noteq> []) (map (\<lambda>(h, peers). (h, filter (\<lambda>pi. \<not> pi_expiry pi \<le> now) peers)) known)"

definition cleanup_tokens ::
  "int \<Rightarrow> (id20 \<times> (endpoint \<times> string \<times> int) list) list \<Rightarrow> (id20 \<times> (endpoint \<times> string \<times> int) list) list" where
  "cleanup_tokens now tokens =
    filter (\<lambda>(h, eps). eps \<noteq> []) (map (\<lambda>(h, eps). (h, filter (\<lambda>(ep, tok, expiry). \<not> expiry \<le> now) eps)) tokens)"

definition cleanup_pass :: "int \<Rightarrow> DHTNode \<Rightarrow> DHTNode" where
  "cleanup_pass now n =
    (if dn_shuting_down n then n
     else let n = n\<lparr> dn_known_peers := cleanup_peers now (dn_known_peers n),
                     dn_tokens_issued := cleanup_tokens now (dn_tokens_issued n) \<rparr>;
              expired = map snd (filter (\<lambda>(tid, q). pq_expiry q \<le> now) (dn_pending n));
              n = n\<lparr> dn_pending := filter (\<lambda>(tid, q). \<not> pq_expiry q \<le> now) (dn_pending n) \<rparr>
          in fold (\<lambda>q. complete q TimedOut) expired n)"

subsection \<open>Definitions: query handlers\<close>

text \<open>\<^verbatim>\<open>Crypto::from_string(std::get<String>(v))\<close>\<close>

definition get_id :: "Value \<Rightarrow> dht_error + id20" where
  "get_id v = (case as_String v of None \<Rightarrow> Inl BadVariant
     | Some s \<Rightarrow> (case id_from_string s of Inl _ \<Rightarrow> Inl InvalidId | Inr i \<Rightarrow> Inr i))"

definition get_string :: "Value \<Rightarrow> dht_error + string" where
  "get_string v = (case as_String v of None \<Rightarrow> Inl BadVariant | Some s \<Rightarrow> Inr s)"

definition get_integer :: "Value \<Rightarrow> dht_error + int" where
  "get_integer v = (case as_Integer v of None \<Rightarrow> Inl BadVariant | Some i \<Rightarrow> Inr i)"

definition good_entry :: "int \<Rightarrow> id20 \<Rightarrow> endpoint \<Rightarrow> BucketEntry" where
  "good_entry now nid ep =
    \<lparr> be_id = nid, be_endpoint = ep, be_status = Good, be_last_seen = now, be_last_replied = now \<rparr>"

definition table_insert :: "dht_env \<Rightarrow> id20 \<Rightarrow> endpoint \<Rightarrow> unit dht" where
  "table_insert env nid ep =
    sx_modify (\<lambda>n. n\<lparr> dn_table := rt_insert (de_now env) (good_entry (de_now env) nid ep) (dn_table n) \<rparr>)"

definition insert_sender :: "dht_env \<Rightarrow> id20 \<Rightarrow> endpoint \<Rightarrow> unit dht" where
  "insert_sender env sender_id remote =
    sx_bind (sx_gets dn_id) (\<lambda>my. if sender_id \<noteq> my then table_insert env sender_id remote else sx_return ())"

text \<open>The paragraph the first three handlers start with.\<close>

definition note_sender :: "dht_env \<Rightarrow> (string \<times> Value) list \<Rightarrow> endpoint \<Rightarrow> unit dht" where
  "note_sender env args remote =
    (case map_of args ''id'' of None \<Rightarrow> sx_return ()
     | Some v \<Rightarrow> sx_bind (sx_lift (get_id v)) (\<lambda>sender_id. insert_sender env sender_id remote))"

definition on_ping_query :: "dht_env \<Rightarrow> (string \<times> Value) list \<Rightarrow> string \<Rightarrow> endpoint \<Rightarrow> unit dht" where
  "on_ping_query env args transaction_id remote =
    sx_bind (note_sender env args remote) (\<lambda>_.
    sx_bind (sx_gets dn_id) (\<lambda>my.
    send_krpc_response env (create_ping_response transaction_id my) remote))"

definition on_find_node_query :: "dht_env \<Rightarrow> (string \<times> Value) list \<Rightarrow> string \<Rightarrow> endpoint \<Rightarrow> unit dht" where
  "on_find_node_query env args transaction_id remote =
    sx_bind (note_sender env args remote) (\<lambda>_.
    case map_of args ''target'' of
      None \<Rightarrow> send_krpc_error env transaction_id 203 ''Missing target argument'' remote
    | Some v \<Rightarrow>
        sx_bind (sx_lift (get_id v)) (\<lambda>target_id.
        sx_bind (sx_gets (\<lambda>n. find_closest_nodes target_id K (dn_table n))) (\<lambda>closest.
        sx_bind (sx_some AddressCast (to_compact_node_info closest)) (\<lambda>compact_nodes.
        sx_bind (sx_gets dn_id) (\<lambda>my.
        send_krpc_response env (create_find_node_response transaction_id my compact_nodes) remote)))))"

definition live_peers :: "int \<Rightarrow> id20 \<Rightarrow> DHTNode \<Rightarrow> endpoint list" where
  "live_peers now info_hash n =
    (case map_of (dn_known_peers n) info_hash of None \<Rightarrow> []
     | Some peers \<Rightarrow> map pi_endpoint (filter (\<lambda>pi. pi_expiry pi > now) peers))"

definition on_get_peers_query :: "dht_env \<Rightarrow> (string \<times> Value) list \<Rightarrow> string \<Rightarrow> endpoint \<Rightarrow> unit dht" where
  "on_get_peers_query env args transaction_id remote =
    sx_bind (note_sender env args remote) (\<lambda>_.
    case map_of args ''info_hash'' of
      None \<Rightarrow> send_krpc_error env transaction_id 203 ''Missing info_hash argument'' remote
    | Some v \<Rightarrow>
        sx_bind (sx_lift (get_id v)) (\<lambda>info_hash.
        let token = generate_token env remote in
        sx_bind (sx_gets (live_peers (de_now env) info_hash)) (\<lambda>peers_for_hash.
        sx_bind (sx_gets dn_id) (\<lambda>my.
        if peers_for_hash \<noteq> [] then
          sx_bind (sx_some AddressCast (to_compact_peer_list peers_for_hash)) (\<lambda>peer_list.
          send_krpc_response env (create_get_peers_response_with_peers transaction_id my token peer_list) remote)
        else
          sx_bind (sx_gets (\<lambda>n. find_closest_nodes info_hash K (dn_table n))) (\<lambda>closest.
          sx_bind (sx_some AddressCast (to_compact_node_info closest)) (\<lambda>compact_nodes.
          send_krpc_response env (create_get_peers_response_with_nodes transaction_id my token compact_nodes) remote))))))"

definition store_peer :: "int \<Rightarrow> id20 \<Rightarrow> endpoint \<Rightarrow> DHTNode \<Rightarrow> DHTNode" where
  "store_peer now info_hash peer n =
    (let peers = (case map_of (dn_known_peers n) info_hash of None \<Rightarrow> [] | Some ps \<Rightarrow> ps);
         peers = filter (\<lambda>pi. pi_endpoint pi \<noteq> peer) peers @ [\<lparr> pi_endpoint = peer, pi_expiry = now + PEER_STORAGE_LIFETIME \<rparr>]
     in n\<lparr> dn_known_peers := map_assign info_hash peers (dn_known_peers n) \<rparr>)"

definition on_announce_peer_query :: "dht_env \<Rightarrow> (string \<times> Value) list \<Rightarrow> string \<Rightarrow> endpoint \<Rightarrow> unit dht" where
  "on_announce_peer_query env args transaction_id remote =
    (case (map_of args ''id'', map_of args ''info_hash'', map_of args ''port'', map_of args ''token'') of
       (Some id_v, Some hash_v, Some port_v, Some token_v) \<Rightarrow>
         sx_bind (sx_lift (get_id hash_v)) (\<lambda>info_hash.
         sx_bind (sx_lift (get_string token_v)) (\<lambda>received_token.
         sx_bind (sx_lift (get_integer port_v)) (\<lambda>port_i.
         sx_bind (case map_of args ''implied_port'' of
                    None \<Rightarrow> sx_return (of_int port_i)
                  | Some v \<Rightarrow> sx_bind (sx_lift (get_integer v)) (\<lambda>implied_port.
                      sx_return (if implied_port \<noteq> 0 then snd remote else of_int port_i))) (\<lambda>port.
         sx_bind (sx_lift (get_id id_v)) (\<lambda>sender_id.
         sx_bind (insert_sender env sender_id remote) (\<lambda>_.
         if received_token \<noteq> generate_token env remote then
           send_krpc_error env transaction_id 203 ''Invalid or expired token'' remote
         else
           sx_bind (sx_modify (store_peer (de_now env) info_hash (fst remote, port))) (\<lambda>_.
           sx_bind (sx_gets dn_id) (\<lambda>my.
           send_krpc_response env (create_announce_peer_response transaction_id my) remote))))))))
     | _ \<Rightarrow> send_krpc_error env transaction_id 203 ''Missing required arguments'' remote)"

definition handle_query :: "dht_env \<Rightarrow> (string \<times> Value) list \<Rightarrow> string \<Rightarrow> endpoint \<Rightarrow> unit dht" where
  "handle_query env query_dict transaction_id remote =
    (case map_of query_dict ''q'' of
       None \<Rightarrow> send_krpc_error env transaction_id 203 ''Missing query method'' remote
     | Some qv \<Rightarrow>
         sx_bind (sx_lift (get_string qv)) (\<lambda>meth.
         case map_of query_dict ''a'' of
           None \<Rightarrow> send_krpc_error env transaction_id 203 ''Missing query arguments'' remote
         | Some av \<Rightarrow>
             sx_bind (sx_some BadVariant (as_Dict av)) (\<lambda>args.
             if meth = ''ping'' then on_ping_query env args transaction_id remote
             else if meth = ''find_node'' then on_find_node_query env args transaction_id remote
             else if meth = ''get_peers'' then on_get_peers_query env args transaction_id remote
             else if meth = ''announce_peer'' then on_announce_peer_query env args transaction_id remote
             else send_krpc_error env transaction_id 204 ''Method unknown'' remote)))"

definition handle_krpc_message :: "dht_env \<Rightarrow> string \<Rightarrow> endpoint \<Rightarrow> unit dht" where
  "handle_krpc_message env data remote =
    (case decode data of
       Inl _ \<Rightarrow> sx_return ()
     | Inr decoded \<Rightarrow>
         (case as_Dict decoded of
            None \<Rightarrow> sx_return ()
          | Some msg_dict \<Rightarrow>
              (case map_of msg_dict ''t'' of
                 None \<Rightarrow> sx_return ()
               | Some tv \<Rightarrow>
                   sx_bind (sx_lift (get_string tv)) (\<lambda>transaction_id.
                   case map_of msg_dict ''y'' of
                     None \<Rightarrow> sx_return ()
                   | Some yv \<Rightarrow>
                       sx_bind (sx_lift (get_string yv)) (\<lambda>msg_type.
                       if msg_type = ''q'' then handle_query env msg_dict transaction_id remote
                       else if msg_type = ''r'' then handle_response msg_dict transaction_id remote
                       else if msg_type = ''e'' then handle_error msg_dict transaction_id remote
                       else sx_return ())))))"

text \<open>One iteration of \<^verbatim>\<open>udp_listen_loop\<close> that received a datagram; what does not fit the buffer is cut off.\<close>

definition udp_receive :: "dht_env \<Rightarrow> string \<Rightarrow> endpoint \<Rightarrow> DHTNode \<Rightarrow> DHTNode" where
  "udp_receive env data remote n =
    (if dn_shuting_down n then n
     else snd (sx_catch (handle_krpc_message env (take 2048 data) remote) (\<lambda>_. sx_return ()) n))"

subsection \<open>Composition rules\<close>

lemma get_id_valid: "get_id v = Inr i \<Longrightarrow> valid_id i \<and> as_String v = Some (id_to_string i)"
  by (auto simp: get_id_def id_from_string_def valid_id_def id_to_string_def split: option.splits if_splits)

lemmas handler_keeps = sx_keeps_bind_lift sx_keeps_bind_some sx_keeps_bind_gets sx_keeps_return sx_keeps_throw
  sx_keeps_if sx_keeps_option

text \<open>A property that the three kinds of state change keep is kept by the whole message handler: this
  is how the invariant and the safety statement about stored peers are proved.\<close>

lemma handle_query_keeps:
  assumes send: "\<And>n m. P n \<Longrightarrow> P (n\<lparr> dn_sent := dn_sent n @ [(encode m, remote)] \<rparr>)"
    and table: "\<And>n i. P n \<Longrightarrow> valid_id i \<Longrightarrow>
      P (n\<lparr> dn_table := rt_insert (de_now env) (good_entry (de_now env) i remote) (dn_table n) \<rparr>)"
    and store: "\<And>n h port args. P n \<Longrightarrow> map_of d ''a'' = Some (Dict args) \<Longrightarrow>
      map_of args ''token'' = Some (String (generate_token env remote)) \<Longrightarrow>
      map_of args ''info_hash'' = Some (String (id_to_string h)) \<Longrightarrow> valid_id h \<Longrightarrow>
      P (store_peer (de_now env) h (fst remote, port) n)"
  shows "sx_keeps P (handle_query env d tid remote)"
proof -
  have reply [intro]: "sx_keeps P (send_krpc_response env v remote)" "sx_keeps P (send_krpc_error env tid c m remote)" for v c m
    using send by (auto simp: send_krpc_error_def send_krpc_response_def intro: sx_keeps_modify sx_keeps_throw)
  have ins: "sx_keeps P (insert_sender env i remote)" if "valid_id i" for i
    unfolding insert_sender_def table_insert_def using table that
    by (auto intro!: sx_keeps_bind_gets sx_keeps_modify sx_keeps_return)
  have note_sender [intro]: "sx_keeps P (note_sender env args remote)" for args
    unfolding note_sender_def
    by (auto intro!: handler_keeps ins dest: get_id_valid split: option.split)
  have ping: "sx_keeps P (on_ping_query env args tid remote)" for args
    unfolding on_ping_query_def by (intro sx_keeps_bind note_sender sx_keeps_gets reply)
  have find: "sx_keeps P (on_find_node_query env args tid remote)" for args
    unfolding on_find_node_query_def
    by (intro sx_keeps_bind note_sender sx_keeps_option reply sx_keeps_lift handler_keeps)
  have get: "sx_keeps P (on_get_peers_query env args tid remote)" for args
    unfolding on_get_peers_query_def Let_def
    by (intro sx_keeps_bind note_sender sx_keeps_option reply sx_keeps_lift handler_keeps)
  have ann: "sx_keeps P (on_announce_peer_query env args tid remote)" if "map_of d ''a'' = Some (Dict args)" for args
  proof (cases "map_of args ''id''"; cases "map_of args ''info_hash''"; cases "map_of args ''port''"; cases "map_of args ''token''")
    fix iv hv pv tv
    assume "map_of args ''id'' = Some iv" and h: "map_of args ''info_hash'' = Some hv"
      and "map_of args ''port'' = Some pv" and t: "map_of args ''token'' = Some tv"
    moreover have "sx_keeps P (sx_modify (store_peer (de_now env) i (fst remote, port)))"
      if "get_id hv = Inr i" "get_string tv = Inr (generate_token env remote)" for i port
    proof (rule sx_keeps_modify)
      fix n
      assume "P n"
      moreover have "tv = String (generate_token env remote)"
        using that(2) by (cases tv) (auto simp: get_string_def)
      moreover have "hv = String (id_to_string i)" "valid_id i"
        using get_id_valid [OF that(1)] by (cases hv; simp)+
      ultimately show "P (store_peer (de_now env) i (fst remote, port) n)"
        using store \<open>map_of d ''a'' = Some (Dict args)\<close> h t by blast
    qed
    ultimately show ?thesis
      unfolding on_announce_peer_query_def
      by (auto intro!: handler_keeps sx_keeps_bind reply ins sx_keeps_gets dest: get_id_valid)
  qed (auto simp: on_announce_peer_query_def intro!: reply)
  have dict: "v = Dict a" if "as_Dict v = Some a" for v a
    using that by (cases v) simp_all
  show ?thesis
    unfolding handle_query_def
    by (intro sx_keeps_option sx_keeps_bind_lift sx_keeps_bind_some sx_keeps_if reply ping find get ann)
      (simp add: dict)
qed


lemma handle_krpc_message_keeps:
  assumes send: "\<And>n m. P n \<Longrightarrow> P (n\<lparr> dn_sent := dn_sent n @ [(encode m, remote)] \<rparr>)"
    and table: "\<And>n i. P n \<Longrightarrow> valid_id i \<Longrightarrow>
      P (n\<lparr> dn_table := rt_insert (de_now env) (good_entry (de_now env) i remote) (dn_table n) \<rparr>)"
    and store: "\<And>n h port d args. P n \<Longrightarrow> decode data = Inr (Dict d) \<Longrightarrow> map_of d ''a'' = Some (Dict args) \<Longrightarrow>
      map_of args ''token'' = Some (String (generate_token env remote)) \<Longrightarrow>
      map_of args ''info_hash'' = Some (String (id_to_string h)) \<Longrightarrow> valid_id h \<Longrightarrow>
      P (store_peer (de_now env) h (fst remote, port) n)"
    and pend: "\<And>n tid outcome. P n \<Longrightarrow> P (complete_pending tid outcome n)"
  shows "sx_keeps P (handle_krpc_message env data remote)"
proof (cases "decode data")
  case (Inl e)
  then show ?thesis
    by (simp add: handle_krpc_message_def sx_keeps_return)
next
  case (Inr v)
  have query: "sx_keeps P (handle_query env d tid remote)" if "v = Dict d" for d tid
    using handle_query_keeps [of P remote env d tid] send table store that Inr by blast
  have dict: "v = Dict a" if "as_Dict v = Some a" for a
    using that by (cases v) simp_all
  show ?thesis
    unfolding handle_krpc_message_def Inr sum.case handle_response_def handle_error_def
    by (intro sx_keeps_option sx_keeps_return sx_keeps_bind_lift sx_keeps_if query dict sx_keeps_modify pend)
qed

lemma udp_receive_keeps:
  assumes "P n"
    and "\<And>n m. P n \<Longrightarrow> P (n\<lparr> dn_sent := dn_sent n @ [(encode m, remote)] \<rparr>)"
    and "\<And>n i. P n \<Longrightarrow> valid_id i \<Longrightarrow>
      P (n\<lparr> dn_table := rt_insert (de_now env) (good_entry (de_now env) i remote) (dn_table n) \<rparr>)"
    and "\<And>n h port d args. P n \<Longrightarrow> decode (take 2048 data) = Inr (Dict d) \<Longrightarrow> map_of d ''a'' = Some (Dict args) \<Longrightarrow>
      map_of args ''token'' = Some (String (generate_token env remote)) \<Longrightarrow>
      map_of args ''info_hash'' = Some (String (id_to_string h)) \<Longrightarrow> valid_id h \<Longrightarrow>
      P (store_peer (de_now env) h (fst remote, port) n)"
    and "\<And>n tid outcome. P n \<Longrightarrow> P (complete_pending tid outcome n)"
  shows "P (udp_receive env data remote n)"
proof -
  have "sx_keeps P (handle_krpc_message env (take 2048 data) remote)"
    using assms(2-5) by (rule handle_krpc_message_keeps)
  then have "P (snd (handle_krpc_message env (take 2048 data) remote n))"
    using assms(1) by (simp add: sx_keeps_def)
  then show ?thesis
    using assms(1) by (auto simp: udp_receive_def sx_catch_def sx_return_def split: prod.split sum.split)
qed

subsection \<open>The invariant of the node\<close>

definition peers_of :: "id20 \<Rightarrow> DHTNode \<Rightarrow> PeerInfo list" where
  "peers_of h n = (case map_of (dn_known_peers n) h of None \<Rightarrow> [] | Some ps \<Rightarrow> ps)"

definition dht_inv :: "DHTNode \<Rightarrow> bool" where
  "dht_inv n \<longleftrightarrow> rt_inv (dn_table n) \<and> rt_my_node_id (dn_table n) = dn_id n \<and> valid_id (dn_id n) \<and>
    (\<forall>e\<in>set (all_entries (dn_table n)). v4_endpoint (be_endpoint e)) \<and>
    (\<forall>h. \<forall>p\<in>set (peers_of h n). v4_endpoint (pi_endpoint p))"

lemma peers_of_store:
  "peers_of h' (store_peer now h ep n) =
    (if h' = h then filter (\<lambda>p. pi_endpoint p \<noteq> ep) (peers_of h n) @
       [\<lparr> pi_endpoint = ep, pi_expiry = now + PEER_STORAGE_LIFETIME \<rparr>] else peers_of h' n)"
  by (simp add: peers_of_def store_peer_def map_of_map_assign Let_def)

lemma peers_of_simps [simp]:
  "peers_of h (n\<lparr> dn_sent := x \<rparr>) = peers_of h n" "peers_of h (n\<lparr> dn_table := t \<rparr>) = peers_of h n"
  "peers_of h (n\<lparr> dn_pending := q \<rparr>) = peers_of h n" "peers_of h (n\<lparr> dn_completed := c \<rparr>) = peers_of h n"
  by (simp_all add: peers_of_def)

lemma complete_fields [simp]:
  "dn_table (complete q oc n) = dn_table n" "dn_id (complete q oc n) = dn_id n"
  "dn_known_peers (complete q oc n) = dn_known_peers n" "dn_sent (complete q oc n) = dn_sent n"
  "dn_pending (complete q oc n) = dn_pending n" "dn_shuting_down (complete q oc n) = dn_shuting_down n"
  by (simp_all add: complete_def)

lemma complete_pending_fields [simp]:
  "dn_table (complete_pending tid oc n) = dn_table n" "dn_id (complete_pending tid oc n) = dn_id n"
  "dn_known_peers (complete_pending tid oc n) = dn_known_peers n" "dn_sent (complete_pending tid oc n) = dn_sent n"
  "dn_shuting_down (complete_pending tid oc n) = dn_shuting_down n"
  by (simp_all add: complete_pending_def take_pending_def split: option.split)

lemma kbucket_add_endpoints:
  "be_endpoint ` set (kb_bucket (snd (kbucket_add now e kb))) \<subseteq> insert (be_endpoint e) (be_endpoint ` set (kb_bucket kb))"
proof (cases "List.extract (\<lambda>x. be_id x = be_id e) (kb_bucket kb)")
  case None
  then show ?thesis
    by (auto simp: kbucket_add_def split: option.split dest!: extract_SomeD)
next
  case (Some t)
  then show ?thesis
    by (cases t) (auto simp: kbucket_add_def dest!: extract_SomeD)
qed

lemma rt_insert_endpoints:
  "be_endpoint ` set (all_entries (rt_insert now e rt)) \<subseteq> insert (be_endpoint e) (be_endpoint ` set (all_entries rt))"
proof -
  define idx where "idx = get_bucket_index (rt_my_node_id rt) (be_id e)"
  define kb where "kb = rt_buckets rt ! idx"
  define kb' where "kb' = snd (kbucket_add now e kb)"
  have "be_endpoint ` set (all_entries (rt\<lparr> rt_buckets := (rt_buckets rt)[idx := kb'] \<rparr>))
      \<subseteq> insert (be_endpoint e) (be_endpoint ` set (all_entries rt))" if "idx < length (rt_buckets rt)"
  proof -
    have "set ((rt_buckets rt)[idx := kb']) \<subseteq> insert kb' (set (rt_buckets rt))"
      by (rule set_update_subset_insert)
    then have "set (all_entries (rt\<lparr> rt_buckets := (rt_buckets rt)[idx := kb'] \<rparr>)) \<subseteq> set (kb_bucket kb') \<union> set (all_entries rt)"
      by (auto simp: all_entries_def)
    moreover have "set (kb_bucket kb) \<subseteq> set (all_entries rt)"
      using nth_mem [OF that] by (auto simp: all_entries_def kb_def)
    ultimately show ?thesis
      using kbucket_add_endpoints [of now e kb] unfolding kb'_def by blast
  qed
  then show ?thesis
    by (auto simp: rt_insert_def Let_def simp flip: idx_def kb_def kb'_def)
qed

lemma dht_inv_receive:
  assumes "dht_inv n" "v4_endpoint remote"
  shows "dht_inv (udp_receive env data remote n)"
proof (rule udp_receive_keeps [where P = dht_inv])
  show "dht_inv n"
    by (rule assms(1))
next
  fix n i
  assume inv: "dht_inv n" and i: "valid_id i"
  let ?e = "good_entry (de_now env) i remote"
  have "rt_my_node_id (rt_insert (de_now env) ?e (dn_table n)) = rt_my_node_id (dn_table n)"
    by (simp add: rt_insert_def Let_def)
  moreover have "\<forall>e\<in>set (all_entries (rt_insert (de_now env) ?e (dn_table n))). v4_endpoint (be_endpoint e)"
    using rt_insert_endpoints [of "de_now env" ?e "dn_table n"] inv assms(2)
    by (fastforce simp: dht_inv_def good_entry_def)
  moreover have "rt_inv (rt_insert (de_now env) ?e (dn_table n))"
    using inv i by (intro rt_inv_insert) (simp_all add: dht_inv_def good_entry_def)
  ultimately show "dht_inv (n\<lparr> dn_table := rt_insert (de_now env) ?e (dn_table n) \<rparr>)"
    using inv by (simp add: dht_inv_def)
next
  fix n h port
  assume "dht_inv n"
  moreover have "v4_endpoint (fst remote, port)"
    using assms(2) by (simp add: v4_endpoint_def)
  moreover have "dn_table (store_peer (de_now env) h (fst remote, port) n) = dn_table n"
    "dn_id (store_peer (de_now env) h (fst remote, port) n) = dn_id n"
    by (simp_all add: store_peer_def Let_def)
  ultimately show "dht_inv (store_peer (de_now env) h (fst remote, port) n)"
    by (auto simp: dht_inv_def peers_of_store)
next
  fix n tid oc
  assume "dht_inv n"
  moreover have "peers_of h (complete_pending tid oc n) = peers_of h n" for h
    by (simp add: peers_of_def)
  ultimately show "dht_inv (complete_pending tid oc n)"
    by (simp add: dht_inv_def)
qed (simp add: dht_inv_def)

subsection \<open>Stored peers\<close>

text \<open>C22: a peer is stored only for a sender that proves a recent query.  Whatever datagram arrives, every
  peer that is known afterwards was known before, or it has the sender's own address, a lifetime of
  thirty minutes, and the datagram (as received, at most 2048 bytes) is a dictionary whose arguments name that info hash and carry the
  token this node gives that address at this time.\<close>

theorem stored_peer_has_token:
  assumes "p \<in> set (peers_of h (udp_receive env data remote n))" "p \<notin> set (peers_of h n)"
  shows "fst (pi_endpoint p) = fst remote \<and> pi_expiry p = de_now env + PEER_STORAGE_LIFETIME \<and>
    (\<exists>d args. decode (take 2048 data) = Inr (Dict d) \<and> map_of d ''a'' = Some (Dict args) \<and>
      map_of args ''info_hash'' = Some (String (id_to_string h)) \<and>
      map_of args ''token'' = Some (String (generate_token env remote)))"
proof -
  define C where "C h p \<longleftrightarrow> fst (pi_endpoint p) = fst remote \<and> pi_expiry p = de_now env + PEER_STORAGE_LIFETIME \<and>
    (\<exists>d args. decode (take 2048 data) = Inr (Dict d) \<and> map_of d ''a'' = Some (Dict args) \<and>
      map_of args ''info_hash'' = Some (String (id_to_string h)) \<and>
      map_of args ''token'' = Some (String (generate_token env remote)))" for h and p :: PeerInfo
  define P where "P n' \<longleftrightarrow> (\<forall>h. \<forall>p\<in>set (peers_of h n'). p \<in> set (peers_of h n) \<or> C h p)" for n'
  have "P (udp_receive env data remote n)"
  proof (rule udp_receive_keeps [where P = P])
    fix n' h' port d args
    assume "P n'" "decode (take 2048 data) = Inr (Dict d)" "map_of d ''a'' = Some (Dict args)"
      "map_of args ''token'' = Some (String (generate_token env remote))"
      "map_of args ''info_hash'' = Some (String (id_to_string h'))"
    then show "P (store_peer (de_now env) h' (fst remote, port) n')"
      by (auto simp: P_def C_def peers_of_store)
  next
    fix n' tid oc
    assume "P n'"
    moreover have "peers_of h (complete_pending tid oc n') = peers_of h n'" for h
      by (simp add: peers_of_def)
    ultimately show "P (complete_pending tid oc n')"
      by (simp add: P_def)
  qed (simp_all add: P_def)
  then show ?thesis
    using assms by (auto simp: P_def C_def)
qed


subsection \<open>Well-formed queries\<close>

text \<open>The node after it has noted the sender of a query.\<close>

definition seen_sender :: "dht_env \<Rightarrow> id20 \<Rightarrow> endpoint \<Rightarrow> DHTNode \<Rightarrow> DHTNode" where
  "seen_sender env i remote n =
    (if i \<noteq> dn_id n then n\<lparr> dn_table := rt_insert (de_now env) (good_entry (de_now env) i remote) (dn_table n) \<rparr> else n)"

lemma seen_sender_fields [simp]:
  "dn_id (seen_sender env i remote n) = dn_id n" "dn_sent (seen_sender env i remote n) = dn_sent n"
  "dn_known_peers (seen_sender env i remote n) = dn_known_peers n" "peers_of h (seen_sender env i remote n) = peers_of h n"
  "dn_shuting_down (seen_sender env i remote n) = dn_shuting_down n"
  by (simp_all add: seen_sender_def)

lemma insert_sender_eq: "insert_sender env i remote n = (Inr (), seen_sender env i remote n)"
  by (simp add: insert_sender_def table_insert_def seen_sender_def sx_defs)

lemma get_id_string [simp]: "valid_id i \<Longrightarrow> get_id (String (id_to_string i)) = Inr i"
  by (simp add: get_id_def id_from_string_def id_to_string_def valid_id_def)

lemma note_sender_eq:
  "map_of args ''id'' = Some (String (id_to_string i)) \<Longrightarrow> valid_id i \<Longrightarrow>
    note_sender env args remote n = (Inr (), seen_sender env i remote n)"
  by (simp add: note_sender_def sx_bind_def sx_lift_def insert_sender_eq)

lemma length_token: "length (generate_token env remote) \<le> 8"
  by (simp add: generate_token_def Let_def)

lemma fits_token [simp]: "fits (generate_token env remote)"
  using length_token [of env remote] by (intro fits_small) linarith

lemma receive_query:
  assumes "\<not> dn_shuting_down n" "length (encode (Dict d)) \<le> 2048" "valid_value (Dict d)" "map_of d ''t'' = Some (String tid)" "map_of d ''y'' = Some (String ''q'')"
  shows "udp_receive env (encode (Dict d)) remote n = snd (handle_query env d tid remote n)"
  using assms
  by (simp add: udp_receive_def handle_krpc_message_def decode_of_encode get_string_def sx_defs
      split: prod.split sum.split del: encode.simps)

text \<open>Queries with transaction ids of at most 400 bytes (the node's own have two) fit the buffer.\<close>

lemma length_show_nat: "n < 10 ^ k \<Longrightarrow> 0 < k \<Longrightarrow> length (show_nat n) \<le> k"
proof (induction k arbitrary: n)
  case (Suc k)
  show ?case
  proof (cases "n < 10")
    case False
    then have "0 < k"
      using Suc.prems(1) by (cases k) simp_all
    moreover have "n div 10 < 10 ^ k"
      using Suc.prems(1) by (simp add: less_mult_imp_div_less mult.commute)
    ultimately show ?thesis
      using False Suc.IH [of "n div 10"] by (subst show_nat.simps) simp
  qed (simp add: show_nat.simps)
qed simp

lemma length_encode_string: "length s \<le> 400 \<Longrightarrow> length (encode_string s) \<le> 4 + length s"
  using length_show_nat [of "length s" 3] by (simp add: encode_string_def)

lemma short_queries:
  assumes "length t \<le> 400" "valid_id i" "valid_id h"
  shows "length (encode (create_get_peers_query t i h)) \<le> 2048"
    "length k \<le> 8 \<Longrightarrow> length (encode (create_announce_peer_query t i h p k)) \<le> 2048"
proof -
  have ids: "length (id_to_string j) = 20" if "valid_id j" for j
    using that by (simp add: id_to_string_def valid_id_def)
  have "unat p < 10 ^ 5"
    using unat_bound [of p] by simp
  then have "length (show_int (uint p)) \<le> 5"
    using length_show_nat [of "unat p" 5] by (simp add: show_int_def)
  moreover note l = length_encode_string [of t] length_encode_string [of k] 
    length_encode_string [of "id_to_string i"] length_encode_string [of "id_to_string h"]
    length_encode_string [of "''a''"] length_encode_string [of "''id''"] length_encode_string [of "''info_hash''"]
    length_encode_string [of "''port''"] length_encode_string [of "''token''"] length_encode_string [of "''q''"]
    length_encode_string [of "''t''"] length_encode_string [of "''y''"] length_encode_string [of "''get_peers''"]
    length_encode_string [of "''announce_peer''"]
  ultimately show "length (encode (create_get_peers_query t i h)) \<le> 2048"
    "length k \<le> 8 \<Longrightarrow> length (encode (create_announce_peer_query t i h p k)) \<le> 2048"
    using assms ids by (simp_all add: query_eqs)
qed

lemma announce_step:
  assumes "\<not> dn_shuting_down n" "valid_id i" "valid_id h" "fits t"
    and "length (encode (create_announce_peer_query t i h p (generate_token env remote))) \<le> 2048"
  shows "udp_receive env (encode (create_announce_peer_query t i h p (generate_token env remote))) remote n =
    (let n' = store_peer (de_now env) h (fst remote, p) (seen_sender env i remote n)
     in if de_send_ok env (encode (create_announce_peer_response t (dn_id n))) remote
        then n'\<lparr> dn_sent := dn_sent n' @ [(encode (create_announce_peer_response t (dn_id n)), remote)] \<rparr> else n')"
proof -
  have "valid_value (create_announce_peer_query t i h p (generate_token env remote))"
    using assms by (intro valid_queries) simp_all
  moreover have "dn_id (store_peer now h' ep n') = dn_id n'" for now h' ep n'
    by (simp add: store_peer_def Let_def)
  ultimately show ?thesis
    using assms unfolding query_eqs
    by (subst receive_query)
      (simp_all add: handle_query_def get_string_def sx_bind_def sx_lift_def sx_some_def sx_return_def
        on_announce_peer_query_def get_integer_def insert_sender_eq sx_modify_def sx_gets_def
        send_krpc_response_def sx_throw_def Let_def del: encode.simps, auto)
qed

definition get_peers_reply :: "dht_env \<Rightarrow> string \<Rightarrow> id20 \<Rightarrow> endpoint \<Rightarrow> DHTNode \<Rightarrow> Value" where
  "get_peers_reply env t h remote n =
    (let peers = live_peers (de_now env) h n
     in if peers \<noteq> [] then
          create_get_peers_response_with_peers t (dn_id n) (generate_token env remote)
            (map (\<lambda>ep. String (string_of_bytes (peer_bytes ep))) peers)
        else create_get_peers_response_with_nodes t (dn_id n) (generate_token env remote)
            (string_of_bytes (concat (map node_bytes (find_closest_nodes h K (dn_table n))))))"

lemma live_peers_of: "live_peers now h n = map pi_endpoint (filter (\<lambda>p. pi_expiry p > now) (peers_of h n))"
  by (simp add: live_peers_def peers_of_def split: option.split)

lemma get_peers_step:
  assumes "\<not> dn_shuting_down n" "valid_id i" "valid_id h" "fits t" and inv: "dht_inv (seen_sender env i remote n)"
    and "length (encode (create_get_peers_query t i h)) \<le> 2048"
  shows "udp_receive env (encode (create_get_peers_query t i h)) remote n =
    (let n' = seen_sender env i remote n
     in if de_send_ok env (encode (get_peers_reply env t h remote n')) remote
        then n'\<lparr> dn_sent := dn_sent n' @ [(encode (get_peers_reply env t h remote n'), remote)] \<rparr> else n')"
proof -
  let ?n = "seen_sender env i remote n"
  have "valid_value (create_get_peers_query t i h)"
    using assms valid_queries by blast
  moreover have "\<forall>ep\<in>set (live_peers (de_now env) h ?n). v4_endpoint ep"
    using inv by (auto simp: live_peers_of dht_inv_def)
  moreover have "\<forall>e\<in>set (find_closest_nodes h K (dn_table ?n)). v4_endpoint (be_endpoint e)"
  proof -
    have "rt_inv (dn_table ?n)"
      using inv by (simp add: dht_inv_def)
    then obtain xs where "find_closest_nodes h K (dn_table ?n) = take K (sort_key (\<lambda>e. distance (be_id e) h) xs)"
      "set xs = set (all_entries (dn_table ?n))"
      using find_closest_eq assms(3) by metis
    then show ?thesis
      using inv by (auto simp: dht_inv_def dest!: in_set_takeD)
  qed
  ultimately show ?thesis
    using assms unfolding query_eqs
    by (subst receive_query)
      (simp_all add: handle_query_def get_string_def sx_bind_def sx_lift_def sx_some_def sx_return_def
        on_get_peers_query_def note_sender_eq sx_modify_def sx_gets_def to_compact_peer_list_v4
        to_compact_node_info_v4 send_krpc_response_def sx_throw_def get_peers_reply_def Let_def del: encode.simps, auto)
qed

text \<open>A concrete environment for the witnesses.\<close>

definition example_env :: dht_env where
  "example_env = \<lparr> de_now = 0, de_addr_str = (\<lambda>_. ''1.2.3.4''), de_sha256 = (\<lambda>_. replicate 32 0), de_send_ok = (\<lambda>_ _. True) \<rparr>"

theorem stored_peer_has_token_witness:
  "let p = \<lparr> pi_endpoint = (V4 [1, 2, 3, 4], 6881), pi_expiry = 0 + PEER_STORAGE_LIFETIME \<rparr>; h = replicate 20 2;
       remote = (V4 [1, 2, 3, 4], 9999); n = new_dht_node 0 (replicate 20 0);
       data = encode (create_announce_peer_query ''aa'' (replicate 20 1) h 6881 (generate_token example_env remote))
   in p \<in> set (peers_of h (udp_receive example_env data remote n)) \<and> p \<notin> set (peers_of h n) \<and>
     fst (pi_endpoint p) = fst remote"
proof -
  let ?p = "\<lparr> pi_endpoint = (V4 [1, 2, 3, 4], 6881), pi_expiry = 0 + PEER_STORAGE_LIFETIME \<rparr>"
  let ?remote = "(V4 [1, 2, 3, 4] , 9999 :: u16)" and ?n = "new_dht_node 0 (replicate 20 0)"
  let ?data = "encode (create_announce_peer_query ''aa'' (replicate 20 1) (replicate 20 2) 6881 (generate_token example_env ?remote))"
  have short: "length ?data \<le> 2048"
    by (rule short_queries(2)) (simp_all add: valid_id_def length_token)
  have "udp_receive example_env ?data ?remote ?n =
    (let n' = store_peer (de_now example_env) (replicate 20 2) (fst ?remote, 6881) (seen_sender example_env (replicate 20 1) ?remote ?n)
     in n'\<lparr> dn_sent := dn_sent n' @ [(encode (create_announce_peer_response ''aa'' (dn_id ?n)), ?remote)] \<rparr>)"
    using announce_step [of ?n "replicate 20 1" "replicate 20 2" "''aa''" 6881 example_env ?remote] short
    by (simp add: valid_id_def new_dht_node_def example_env_def Let_def del: encode.simps)
  then have "?p \<in> set (peers_of (replicate 20 2) (udp_receive example_env ?data ?remote ?n))"
    by (simp add: Let_def peers_of_store example_env_def)
  moreover have "?p \<notin> set (peers_of (replicate 20 2) ?n)"
    by (simp add: peers_of_def new_dht_node_def)
  ultimately show ?thesis
    using stored_peer_has_token [of ?p "replicate 20 2" example_env ?data ?remote ?n] by (simp add: Let_def)
qed

subsection \<open>Replies\<close>

text \<open>A computation that sends nothing, and one that sends at most one message, back to the sender and
  with the given transaction id.\<close>

definition quiet :: "'a dht \<Rightarrow> bool" where
  "quiet m \<longleftrightarrow> (\<forall>n. dn_sent (snd (m n)) = dn_sent n)"

definition answers :: "string \<Rightarrow> endpoint \<Rightarrow> unit dht \<Rightarrow> bool" where
  "answers tid remote m \<longleftrightarrow> (\<forall>n. dn_sent (snd (m n)) = dn_sent n \<or>
    (\<exists>d. dn_sent (snd (m n)) = dn_sent n @ [(encode (Dict d), remote)] \<and> map_of d ''t'' = Some (String tid)))"

lemma quiet_simps [intro]:
  "quiet (sx_return a)" "quiet (sx_throw e)" "quiet (sx_gets f)" "quiet (sx_lift r)" "quiet (sx_some e x)"
  by (auto simp: quiet_def sx_defs sx_some_def split: option.split)

lemma quiet_bind: "quiet m \<Longrightarrow> (\<And>a. quiet (f a)) \<Longrightarrow> quiet (sx_bind m f)"
  unfolding quiet_def sx_bind_def
  by (auto split: prod.split sum.split) (metis snd_conv)+

lemma quiet_modify: "(\<And>n. dn_sent (g n) = dn_sent n) \<Longrightarrow> quiet (sx_modify g)"
  by (simp add: quiet_def sx_modify_def)

lemma quiet_note_sender: "quiet (note_sender env args remote)" "quiet (insert_sender env i remote)"
proof -
  show "quiet (insert_sender env i remote)" for i
    unfolding insert_sender_def table_insert_def
    by (intro quiet_bind quiet_simps) (auto intro: quiet_modify)
  then show "quiet (note_sender env args remote)"
    unfolding note_sender_def by (auto intro!: quiet_bind split: option.split)
qed

lemma answers_quiet: "quiet m \<Longrightarrow> answers tid remote m"
  by (simp add: quiet_def answers_def)

lemma answers_bind: "quiet m \<Longrightarrow> (\<And>a. answers tid remote (f a)) \<Longrightarrow> answers tid remote (sx_bind m f)"
  unfolding quiet_def answers_def sx_bind_def
  by (auto split: prod.split sum.split) (metis snd_conv)+

lemma answers_if: "answers tid remote m \<Longrightarrow> answers tid remote m' \<Longrightarrow> answers tid remote (if b then m else m')"
  by simp

lemma answers_option:
  "answers tid remote m \<Longrightarrow> (\<And>x. answers tid remote (f x)) \<Longrightarrow>
    answers tid remote (case a of None \<Rightarrow> m | Some x \<Rightarrow> f x)"
  by (cases a) simp_all

lemma answers_reply:
  "map_of d ''t'' = Some (String tid) \<Longrightarrow> answers tid remote (send_krpc_response env (Dict d) remote)"
  by (auto simp: answers_def send_krpc_response_def sx_modify_def sx_throw_def)

lemma answers_responses:
  "answers tid remote (send_krpc_response env (create_ping_response tid i) remote)"
  "answers tid remote (send_krpc_response env (create_announce_peer_response tid i) remote)"
  "answers tid remote (send_krpc_response env (create_find_node_response tid i n) remote)"
  "answers tid remote (send_krpc_response env (create_get_peers_response_with_peers tid i k l) remote)"
  "answers tid remote (send_krpc_response env (create_get_peers_response_with_nodes tid i k n) remote)"
  "answers tid remote (send_krpc_error env tid c m remote)"
  by (simp_all add: answers_reply response_eqs send_krpc_error_def)

lemmas answers_intros = answers_bind answers_if answers_option answers_responses quiet_note_sender quiet_simps

lemma handle_query_answers: "answers tid remote (handle_query env d tid remote)"
proof -
  have store: "quiet (sx_modify (store_peer now h ep))" for now h ep
    by (rule quiet_modify) (simp add: store_peer_def Let_def)
  have "answers tid remote (on_ping_query env args tid remote)" for args
    unfolding on_ping_query_def by (intro answers_intros)
  moreover have "answers tid remote (on_find_node_query env args tid remote)" for args
    unfolding on_find_node_query_def by (intro answers_intros)
  moreover have "answers tid remote (on_get_peers_query env args tid remote)" for args
    unfolding on_get_peers_query_def Let_def by (intro answers_intros)
  moreover have "answers tid remote (on_announce_peer_query env args tid remote)" for args
    unfolding on_announce_peer_query_def
    by (auto intro!: answers_intros store quiet_bind split: option.split)
  ultimately show ?thesis
    unfolding handle_query_def by (intro answers_intros)
qed

text \<open>the node does not amplify or misdirect traffic.  A datagram that is not a reply (replies resume the
  coroutine that waits for them, which goes on by itself) makes the node send nothing, or exactly one datagram, to
  the address it came from; in the second case the datagram was a query and the answer carries the query's
  transaction id.\<close>

theorem at_most_one_answer:
  assumes "\<And>q. decode (take 2048 data) = Inr (Dict q) \<Longrightarrow> map_of q ''y'' \<noteq> Some (String ''r'') \<and> map_of q ''y'' \<noteq> Some (String ''e'')"
  shows "dn_sent (udp_receive env data remote n) = dn_sent n \<or>
   (\<exists>q tid d. decode (take 2048 data) = Inr (Dict q) \<and> map_of q ''y'' = Some (String ''q'') \<and> map_of q ''t'' = Some (String tid) \<and>
     dn_sent (udp_receive env data remote n) = dn_sent n @ [(encode (Dict d), remote)] \<and>
     map_of d ''t'' = Some (String tid))"
proof -
  have run: "dn_sent (udp_receive env data remote n) =
      (if dn_shuting_down n then dn_sent n else dn_sent (snd (handle_krpc_message env (take 2048 data) remote n)))"
    by (simp add: udp_receive_def sx_catch_def sx_return_def split: prod.split sum.split)
  have str: "v = String s" if "get_string v = Inr s" for v s
    using that by (cases v) (auto simp: get_string_def)
  have "dn_sent (snd (handle_krpc_message env (take 2048 data) remote n)) = dn_sent n \<or>
    (\<exists>q tid d. decode (take 2048 data) = Inr (Dict q) \<and> map_of q ''y'' = Some (String ''q'') \<and> map_of q ''t'' = Some (String tid) \<and>
      dn_sent (snd (handle_krpc_message env (take 2048 data) remote n)) = dn_sent n @ [(encode (Dict d), remote)] \<and>
      map_of d ''t'' = Some (String tid))"
  proof (cases "decode (take 2048 data)")
    case (Inr v)
    show ?thesis
    proof (cases v)
      case (Dict q)
      then show ?thesis
      proof (cases "\<exists>tid. map_of q ''t'' = Some (String tid) \<and> map_of q ''y'' = Some (String ''q'')")
        case True
        then obtain tid where tid: "map_of q ''t'' = Some (String tid)" "map_of q ''y'' = Some (String ''q'')"
          by blast
        then have "handle_krpc_message env (take 2048 data) remote n = handle_query env q tid remote n"
          using Inr Dict by (simp add: handle_krpc_message_def get_string_def sx_defs)
        then show ?thesis
          using handle_query_answers [of tid remote env q] Inr Dict tid by (auto simp: answers_def)
      next
        case False
        have "sx_bind (sx_lift r) f n = (case r of Inl e \<Rightarrow> (Inl e, n) | Inr a \<Rightarrow> f a n)"
          for r and f :: "string \<Rightarrow> unit dht"
          by (simp add: sx_defs split: sum.split)
        then show ?thesis
          using False Inr Dict
          by (auto simp: handle_krpc_message_def handle_response_def handle_error_def sx_return_def sx_modify_def
              dest!: str split: option.split sum.split)
      qed
    qed (simp_all add: Inr handle_krpc_message_def sx_return_def)
  qed (simp add: handle_krpc_message_def sx_return_def)
  then show ?thesis
    using run by auto
qed


subsection \<open>Outstanding queries\<close>

text \<open>The node together with every query that was ever registered, under any interleaving of new queries
  (each by a new coroutine, with any transaction id), incoming datagrams, cancellations, expiry timers,
  the clean-up and the shutdown.\<close>

record query_world =
  qw_node :: DHTNode
  qw_registered :: "PendingQuery list"

inductive query_step :: "query_world \<Rightarrow> query_world \<Rightarrow> bool" where
  Register: "handler \<notin> pq_handler ` set (qw_registered w) \<Longrightarrow>
    query_step w (w\<lparr> qw_node := async_query now handler tid msg target (qw_node w),
      qw_registered := qw_registered w @ [create_pending_query now handler target] \<rparr>)"
| Receive: "query_step w (w\<lparr> qw_node := udp_receive env data remote (qw_node w) \<rparr>)"
| Cancel: "query_step w (w\<lparr> qw_node := cancel_query tid (qw_node w) \<rparr>)"
| Expire: "q \<in> set (dn_timers (qw_node w)) \<Longrightarrow> pq_expiry q \<le> now \<Longrightarrow> query_step w (w\<lparr> qw_node := expiry_timer_fires q (qw_node w) \<rparr>)"
| Erase: "query_step w (w\<lparr> qw_node := erase_pending tid (qw_node w) \<rparr>)"
| Cleanup: "query_step w (w\<lparr> qw_node := cleanup_pass now (qw_node w) \<rparr>)"
| Stop: "query_step w (w\<lparr> qw_node := dht_stop (qw_node w) \<rparr>)"

definition query_init :: "query_world \<Rightarrow> bool" where
  "query_init w \<longleftrightarrow> (\<exists>now nid. w = \<lparr> qw_node = new_dht_node now nid, qw_registered = [] \<rparr>)"

definition queries_ok :: "PendingQuery list \<Rightarrow> DHTNode \<Rightarrow> bool" where
  "queries_ok qs n \<longleftrightarrow> distinct (map fst (dn_completed n)) \<and> fst ` set (dn_completed n) \<subseteq> pq_handler ` set qs \<and>
    snd ` set (dn_pending n) \<subseteq> set qs \<and> set (dn_timers n) \<subseteq> set qs \<and>
    (\<forall>q\<in>set qs. q \<in> set (dn_timers n) \<longleftrightarrow> pq_handler q \<notin> fst ` set (dn_completed n))"

definition query_inv :: "query_world \<Rightarrow> bool" where
  "query_inv w \<longleftrightarrow> queries_ok (qw_registered w) (qw_node w) \<and> distinct (map pq_handler (qw_registered w))"

lemma queries_ok_complete: "queries_ok qs n \<Longrightarrow> q \<in> set qs \<Longrightarrow> queries_ok qs (complete q oc n)"
  by (auto simp: queries_ok_def complete_def)

lemma queries_ok_timer: "queries_ok qs n \<Longrightarrow> q \<in> set (dn_timers n) \<Longrightarrow> queries_ok qs (complete q oc n)"
  by (rule queries_ok_complete) (auto simp: queries_ok_def)

lemma queries_ok_abort:
  assumes "queries_ok qs n" "q \<in> set qs"
  shows "queries_ok qs (abort_query q n)"
proof -
  have ok: "queries_ok qs (complete q Aborted n)"
    using assms by (rule queries_ok_complete)
  have "pq_handler q \<in> fst ` set (dn_completed (complete q Aborted n))"
    by (auto simp: complete_def)
  then show ?thesis
    using ok unfolding queries_ok_def abort_query_def Let_def by (auto simp del: image_iff) (metis image_eqI fst_conv)
qed

lemma queries_ok_fold_abort: "queries_ok qs n \<Longrightarrow> set ps \<subseteq> set qs \<Longrightarrow> queries_ok qs (fold abort_query ps n)"
  by (induction ps arbitrary: n) (auto intro: queries_ok_abort)

lemma queries_ok_fold_complete:
  "queries_ok qs n \<Longrightarrow> set ps \<subseteq> set qs \<Longrightarrow> queries_ok qs (fold (\<lambda>q. complete q oc) ps n)"
  by (induction ps arbitrary: n) (auto intro: queries_ok_complete)

lemma queries_ok_shrink:
  "queries_ok qs n \<Longrightarrow> snd ` set p \<subseteq> snd ` set (dn_pending n) \<Longrightarrow> queries_ok qs (n\<lparr> dn_pending := p \<rparr>)"
proof -
  assume ok: "queries_ok qs n" and "snd ` set p \<subseteq> snd ` set (dn_pending n)"
  then have "snd ` set p \<subseteq> set qs"
    unfolding queries_ok_def by (meson order_trans)
  then show ?thesis
    using ok by (simp add: queries_ok_def)
qed

lemma queries_ok_complete_pending: "queries_ok qs n \<Longrightarrow> queries_ok qs (complete_pending tid oc n)"
proof -
  assume ok: "queries_ok qs n"
  have "queries_ok qs (n\<lparr> dn_pending := map_erase tid (dn_pending n) \<rparr>)"
    using ok by (rule queries_ok_shrink) (auto simp: map_erase_def)
  moreover have "q \<in> set qs" if "map_of (dn_pending n) tid = Some q" for q
    using ok map_of_SomeD [OF that] by (force simp: queries_ok_def)
  ultimately show ?thesis
    by (auto simp: complete_pending_def take_pending_def intro: queries_ok_complete split: option.split)
qed

lemma snd_map_assign: "snd ` set (map_assign k v m) \<subseteq> insert v (snd ` set m)"
  by (induction k v m rule: map_assign.induct) auto

lemma query_inv_step: "query_inv w \<Longrightarrow> query_step w w' \<Longrightarrow> query_inv w'"
proof (erule query_step.cases)
  fix handler w0 now tid msg target
  assume inv: "query_inv w" and w: "w = w0" and new: "handler \<notin> pq_handler ` set (qw_registered w0)"
    and w': "w' = w0\<lparr> qw_node := async_query now handler tid msg target (qw_node w0),
      qw_registered := qw_registered w0 @ [create_pending_query now handler target] \<rparr>"
  have "snd ` set (map_assign tid (create_pending_query now handler target) (dn_pending (qw_node w0))) \<subseteq>
      insert (create_pending_query now handler target) (snd ` set (dn_pending (qw_node w0)))"
    by (rule snd_map_assign)
  then have "snd ` set (map_assign tid (create_pending_query now handler target) (dn_pending (qw_node w0))) \<subseteq>
      insert (create_pending_query now handler target) (set (qw_registered w0))"
    using inv w unfolding query_inv_def queries_ok_def by (meson insert_mono order_trans)
  moreover have "pq_handler (create_pending_query now handler target) = handler"
    by (simp add: create_pending_query_def)
  ultimately show "query_inv w'"
    using inv w w' new by (auto simp: query_inv_def queries_ok_def async_query_def simp del: image_subset_iff)
next
  fix w0 env data remote
  assume inv: "query_inv w" and w: "w = w0" and w': "w' = w0\<lparr> qw_node := udp_receive env data remote (qw_node w0) \<rparr>"
  have "queries_ok (qw_registered w0) (udp_receive env data remote (qw_node w0))"
  proof (rule udp_receive_keeps [where P = "queries_ok (qw_registered w0)"])
    show "queries_ok (qw_registered w0) (qw_node w0)"
      using inv w by (simp add: query_inv_def)
  qed (auto intro: queries_ok_complete_pending, auto simp: queries_ok_def store_peer_def Let_def)
  then show "query_inv w'"
    using inv w w' by (simp add: query_inv_def)
next
  fix w0 tid
  assume "query_inv w" "w = w0" "w' = w0\<lparr> qw_node := erase_pending tid (qw_node w0) \<rparr>"
  then show "query_inv w'"
    by (auto simp: query_inv_def erase_pending_def map_erase_def intro!: queries_ok_shrink)
next
  fix w0 now
  assume inv: "query_inv w" and w: "w = w0" and w': "w' = w0\<lparr> qw_node := cleanup_pass now (qw_node w0) \<rparr>"
  then have "queries_ok (qw_registered w0) (qw_node w0)"
    by (simp add: query_inv_def)
  then have "queries_ok (qw_registered w0) (cleanup_pass now (qw_node w0))"
    unfolding cleanup_pass_def Let_def
    by (auto intro!: queries_ok_fold_complete, auto simp: queries_ok_def)
  then show "query_inv w'"
    using inv w w' by (simp add: query_inv_def)
next
  fix w0
  assume inv: "query_inv w" and w: "w = w0" and w': "w' = w0\<lparr> qw_node := dht_stop (qw_node w0) \<rparr>"
  then have "queries_ok (qw_registered w0) (qw_node w0)"
    by (simp add: query_inv_def)
  then have "queries_ok (qw_registered w0) (dht_stop (qw_node w0))"
    unfolding dht_stop_def Let_def
    by (auto intro!: queries_ok_fold_abort, auto simp: queries_ok_def)
  then show "query_inv w'"
    using inv w w' by (simp add: query_inv_def)
qed (auto simp: query_inv_def cancel_query_def expiry_timer_fires_def
      intro: queries_ok_complete_pending queries_ok_timer)

interpretation dht_queries: invariant_system query_init query_step query_inv
proof unfold_locales
  show "query_inv w" if "query_init w" for w
    using that by (auto simp: query_init_def query_inv_def queries_ok_def new_dht_node_def)
qed (rule query_inv_step)

text \<open>Completions are only ever appended.\<close>

definition extends :: "(nat \<times> krpc_outcome) list \<Rightarrow> DHTNode \<Rightarrow> bool" where
  "extends done n \<longleftrightarrow> (\<exists>more. dn_completed n = done @ more)"

lemma extends_complete: "extends done n \<Longrightarrow> extends done (complete q oc n)"
  by (auto simp: extends_def complete_def)

lemma extends_fold: "extends done n \<Longrightarrow> extends done (fold (\<lambda>q. complete q oc) qs n)"
  by (induction qs arbitrary: n) (auto intro: extends_complete)

lemma extends_fold_abort: "extends done n \<Longrightarrow> extends done (fold abort_query qs n)"
proof (induction qs arbitrary: n)
  case (Cons q qs)
  have "extends done (abort_query q n)"
    using extends_complete [OF Cons.prems, of q Aborted] by (simp add: abort_query_def extends_def Let_def)
  then show ?case
    using Cons.IH by simp
qed simp

lemma extends_complete_pending: "extends done n \<Longrightarrow> extends done (complete_pending tid oc n)"
  by (auto simp: complete_pending_def take_pending_def extends_def complete_def split: option.split)

lemma extends_receive: "extends done n \<Longrightarrow> extends done (udp_receive env data remote n)"
proof (rule udp_receive_keeps [where P = "extends done"])
  show "extends done (complete_pending tid oc n)" if "extends done n" for n tid oc
    using that by (rule extends_complete_pending)
qed (auto simp: extends_def store_peer_def Let_def)

lemma query_step_extends: "query_step w w' \<Longrightarrow> extends (dn_completed (qw_node w)) (qw_node w')"
proof -
  have refl: "extends (dn_completed n) n" for n
    by (simp add: extends_def)
  show "query_step w w' \<Longrightarrow> ?thesis"
  proof (erule query_step.cases)
    show "extends (dn_completed (qw_node w)) (qw_node w')"
      if "w = w0" "w' = w0\<lparr> qw_node := cleanup_pass now (qw_node w0) \<rparr>" for w0 now
      using that unfolding cleanup_pass_def Let_def
      by (auto intro!: extends_fold, auto simp: extends_def)
    show "extends (dn_completed (qw_node w)) (qw_node w')"
      if "w = w0" "w' = w0\<lparr> qw_node := dht_stop (qw_node w0) \<rparr>" for w0
      using that unfolding dht_stop_def Let_def by (auto intro!: extends_fold_abort, auto simp: extends_def)
  qed (auto simp: cancel_query_def expiry_timer_fires_def async_query_def erase_pending_def
      intro!: extends_complete_pending extends_complete extends_receive refl, auto simp: extends_def)
qed

lemma fold_abort_done: "fst ` set (dn_completed n) \<union> pq_handler ` set qs \<subseteq> fst ` set (dn_completed (fold abort_query qs n))"
proof (induction qs arbitrary: n)
  case (Cons q qs)
  have "fst ` set (dn_completed n) \<union> {pq_handler q} \<subseteq> fst ` set (dn_completed (abort_query q n))"
    by (auto simp: complete_def abort_query_def Let_def)
  then show ?case
    using Cons [of "abort_query q n"] by auto
qed simp

text \<open>C19: no coroutine that waits for a reply is resumed twice or forgotten.  In every state reachable under any
  interleaving, only coroutines that registered a query have been resumed, none twice, and a further step never
  changes an outcome that was delivered.  A coroutine that has not been resumed still has its expiry timer
  armed, whatever happened to the entry of its query (another query may have taken over its transaction id);
  when the timer fires, the coroutine is resumed with a timeout.  A shutdown resumes every coroutine whose query
  still has its entry; the others are left to their timers.\<close>

theorem query_completed_once:
  assumes "reachable query_init query_step w"
  shows "distinct (map fst (dn_completed (qw_node w))) \<and>
    fst ` set (dn_completed (qw_node w)) \<subseteq> pq_handler ` set (qw_registered w) \<and>
    (\<forall>w'. query_step w w' \<longrightarrow> (\<exists>more. dn_completed (qw_node w') = dn_completed (qw_node w) @ more)) \<and>
    (\<forall>q\<in>set (qw_registered w). pq_handler q \<notin> fst ` set (dn_completed (qw_node w)) \<longrightarrow>
      q \<in> set (dn_timers (qw_node w)) \<and> (pq_handler q, TimedOut) \<in> set (dn_completed (expiry_timer_fires q (qw_node w)))) \<and>
    (\<forall>q\<in>snd ` set (dn_pending (qw_node w)). pq_handler q \<in> fst ` set (dn_completed (dht_stop (qw_node w))))"
proof -
  have inv: "query_inv w"
    using assms by (rule dht_queries.reachable_inv)
  moreover have "\<exists>more. dn_completed (qw_node w') = dn_completed (qw_node w) @ more" if "query_step w w'" for w'
    using query_step_extends [OF that] by (simp add: extends_def)
  moreover have "q \<in> set (dn_timers (qw_node w)) \<and> (pq_handler q, TimedOut) \<in> set (dn_completed (expiry_timer_fires q (qw_node w)))"
    if "q \<in> set (qw_registered w)" "pq_handler q \<notin> fst ` set (dn_completed (qw_node w))" for q
    using inv that by (auto simp: query_inv_def queries_ok_def expiry_timer_fires_def complete_def)
  moreover have "pq_handler q \<in> fst ` set (dn_completed (dht_stop (qw_node w)))"
    if "q \<in> snd ` set (dn_pending (qw_node w))" for q
  proof -
    have "pq_handler ` snd ` set (dn_pending (qw_node w)) \<subseteq> fst ` set (dn_completed (dht_stop (qw_node w)))"
      using fold_abort_done [of "(qw_node w)\<lparr> dn_shuting_down := True, dn_pending := [] \<rparr>" "map snd (dn_pending (qw_node w))"]
      by (simp add: dht_stop_def Let_def)
    then show ?thesis
      using that by blast
  qed
  ultimately show ?thesis
    by (auto simp: query_inv_def queries_ok_def)
qed

text \<open>A query whose entry was replaced by another with the same transaction id is not resumed by the shutdown.\<close>

lemma replaced_query_outlives_stop:
  "dn_completed (dht_stop (async_query 0 2 ''aa'' m target (async_query 0 1 ''aa'' m target (new_dht_node 0 nid)))) = [(2, Aborted)] \<and>
   map pq_handler (dn_timers (dht_stop (async_query 0 2 ''aa'' m target (async_query 0 1 ''aa'' m target (new_dht_node 0 nid))))) = [1]"
  by (simp add: dht_stop_def async_query_def abort_query_def complete_def create_pending_query_def new_dht_node_def Let_def)

theorem query_completed_once_witness:
  "let w = \<lparr> qw_node = async_query 0 7 ''aa'' (Integer 0) (V4 [1, 2, 3, 4], 5) (new_dht_node 0 (replicate 20 0)),
        qw_registered = [create_pending_query 0 7 (V4 [1, 2, 3, 4], 5)] \<rparr>
   in reachable query_init query_step w \<and> 7 \<in> fst ` set (dn_completed (dht_stop (qw_node w)))"
proof -
  let ?q = "create_pending_query 0 7 (V4 [1, 2, 3, 4], 5)"
  let ?start = "\<lparr> qw_node = new_dht_node 0 (replicate 20 0), qw_registered = [] \<rparr>"
  let ?w = "\<lparr> qw_node = async_query 0 7 ''aa'' (Integer 0) (V4 [1, 2, 3, 4], 5) (new_dht_node 0 (replicate 20 0)),
        qw_registered = [?q] \<rparr>"
  have r0: "reachable query_init query_step ?start"
    by (rule reachable_init) (unfold query_init_def, blast)
  have "query_step ?start (?start\<lparr> qw_node := async_query 0 7 ''aa'' (Integer 0) (V4 [1, 2, 3, 4], 5) (qw_node ?start),
      qw_registered := qw_registered ?start @ [?q] \<rparr>)"
    by (rule Register) simp
  then have "query_step ?start ?w"
    by simp
  with r0 have r: "reachable query_init query_step ?w"
    by (rule reachable_step)
  have "?q \<in> snd ` set (dn_pending (qw_node ?w))"
    by (simp add: async_query_def new_dht_node_def)
  with query_completed_once [OF r] have "pq_handler ?q \<in> fst ` set (dn_completed (dht_stop (qw_node ?w)))"
    by blast
  then show ?thesis
    using r by (simp add: Let_def create_pending_query_def)
qed

end
