(* ===== verification/DhtState.thy ===== *)
theory DhtState
  imports Dht
begin

text \<open>
  The state file of the DHT node (\<^verbatim>\<open>save_persisted_state\<close>, \<^verbatim>\<open>load_persisted_state\<close> and
  \<^verbatim>\<open>load_or_generate_node_id\<close> of \<^verbatim>\<open>src/src/Kademlia.hpp\<close>).  The file is its contents, \<open>None\<close> when it does not
  exist; the textual form of addresses (\<^verbatim>\<open>to_string\<close> and \<^verbatim>\<open>make_address\<close> of \<^verbatim>\<open>asio\<close>) is a parameter.
\<close>

subsection \<open>Definitions\<close>

fun is_v4 :: "ip_address \<Rightarrow> bool" where
  "is_v4 (V4 _) = True"
| "is_v4 (V6 _) = False"

definition persisted_node :: "(ip_address \<Rightarrow> string) \<Rightarrow> BucketEntry \<Rightarrow> Value" where
  "persisted_node addr_str e =
    (let nd = map_assign ''i'' (String (bytes_to_hex (be_id e))) [];
         nd = map_assign ''ip'' (String (addr_str (fst (be_endpoint e)))) nd;
         nd = map_assign ''p'' (Integer (uint (snd (be_endpoint e)))) nd
     in Dict nd)"

definition save_persisted_state :: "(ip_address \<Rightarrow> string) \<Rightarrow> DHTNode \<Rightarrow> string" where
  "save_persisted_state addr_str n =
    (let entries = all_entries (dn_table n);
         root = map_assign ''i'' (String (bytes_to_hex (dn_id n))) [];
         nodes = map (persisted_node addr_str) (filter (\<lambda>e. is_v4 (fst (be_endpoint e))) entries);
         root = map_assign ''n'' (List nodes) root
     in encode (Dict root))"

text \<open>One entry of the list: an exception, an entry that is passed over, or a node to insert.\<close>

definition read_persisted_node ::
  "(string \<Rightarrow> ip_address option) \<Rightarrow> int \<Rightarrow> Value \<Rightarrow> wire_error + BucketEntry option" where
  "read_persisted_node make_address now nv =
    (case as_Dict nv of
       None \<Rightarrow> Inr None
     | Some nd \<Rightarrow>
         (case (map_of nd ''i'', map_of nd ''ip'', map_of nd ''p'') of
            (Some id_v, Some ip_v, Some p_v) \<Rightarrow>
              (case (as_String id_v, as_String ip_v, as_Integer p_v) of
                 (Some id_str, Some ip_str, Some p_int) \<Rightarrow>
                   (case hex_to_bytes id_str of
                      Inl e \<Rightarrow> Inl e
                    | Inr id_bytes \<Rightarrow>
                        if length id_bytes \<noteq> 20 then Inr None
                        else (case make_address ip_str of
                            None \<Rightarrow> Inr None
                          | Some addr \<Rightarrow>
                              if is_v4 addr then Inr (Some (good_entry now id_bytes (addr, of_int p_int)))
                              else Inr None))
               | _ \<Rightarrow> Inr None)
          | _ \<Rightarrow> Inr None))"

fun load_nodes :: "(string \<Rightarrow> ip_address option) \<Rightarrow> int \<Rightarrow> Value list \<Rightarrow> RouteTable \<Rightarrow> RouteTable" where
  "load_nodes make_address now [] rt = rt"
| "load_nodes make_address now (nv # nodes) rt =
    (case read_persisted_node make_address now nv of
       Inl _ \<Rightarrow> rt
     | Inr None \<Rightarrow> load_nodes make_address now nodes rt
     | Inr (Some entry) \<Rightarrow> load_nodes make_address now nodes (rt_insert now entry rt))"

definition load_persisted_state ::
  "(string \<Rightarrow> ip_address option) \<Rightarrow> int \<Rightarrow> string option \<Rightarrow> DHTNode \<Rightarrow> DHTNode" where
  "load_persisted_state make_address now file n =
    (case file of
       None \<Rightarrow> n
     | Some data \<Rightarrow>
         if data = [] then n
         else (case decode data of
             Inl _ \<Rightarrow> n
           | Inr v \<Rightarrow>
               (case as_Dict v of
                  None \<Rightarrow> n
                | Some root \<Rightarrow>
                    (case map_of root ''n'' of
                       None \<Rightarrow> n
                     | Some nv \<Rightarrow>
                         (case as_List nv of
                            None \<Rightarrow> n
                          | Some nodes \<Rightarrow> n\<lparr> dn_table := load_nodes make_address now nodes (dn_table n) \<rparr>)))))"

definition load_or_generate_node_id :: "string option \<Rightarrow> id20 \<Rightarrow> id20" where
  "load_or_generate_node_id file generated =
    (case file of
       None \<Rightarrow> generated
     | Some data \<Rightarrow>
         if data = [] then generated
         else (case decode data of
             Inl _ \<Rightarrow> generated
           | Inr v \<Rightarrow>
               (case as_Dict v of
                  None \<Rightarrow> generated
                | Some d \<Rightarrow>
                    (case map_of d ''i'' of
                       None \<Rightarrow> generated
                     | Some iv \<Rightarrow>
                         (case as_String iv of
                            None \<Rightarrow> generated
                          | Some id_str \<Rightarrow>
                              (case hex_to_bytes id_str of
                                 Inl _ \<Rightarrow> generated
                               | Inr bytes \<Rightarrow> if length bytes = 20 then bytes else generated))))))"

subsection \<open>Inserting new nodes into buckets that have room\<close>

lemma filter_concat_nth:
  assumes "\<forall>j<length bs. \<forall>e\<in>set (bs ! j). f e = j + k" "i < length bs"
  shows "filter (\<lambda>e. f e = i + k) (concat bs) = bs ! i"
  using assms
proof (induction bs arbitrary: i k)
  case (Cons b bs)
  have b: "\<forall>e\<in>set b. f e = k" and bs: "\<forall>j<length bs. \<forall>e\<in>set (bs ! j). f e = j + Suc k"
    using Cons.prems(1) by auto
  show ?case
  proof (cases i)
    case 0
    have "f e \<noteq> k" if e: "e \<in> set (concat bs)" for e
    proof -
      obtain j where "j < length bs" "e \<in> set (bs ! j)"
        using e by (metis UN_E in_set_conv_nth set_concat)
      then show ?thesis
        using bs by auto
    qed
    then have "filter (\<lambda>e. f e = k) (concat bs) = []"
      by (simp add: filter_empty_conv)
    moreover have "filter (\<lambda>e. f e = k) b = b"
      using b by (simp add: filter_id_conv)
    ultimately show ?thesis
      using 0 by simp
  next
    case (Suc i')
    then show ?thesis
      using Cons.IH [OF bs, of i'] Cons.prems(2) b by (auto simp: filter_empty_conv)
  qed
qed simp

lemma distinct_concat_nth:
  assumes "\<forall>j<length bs. distinct (bs ! j) \<and> (\<forall>e\<in>set (bs ! j). f e = j + k)"
  shows "distinct (concat bs) \<and> (\<forall>e\<in>set (concat bs). k \<le> f e)"
  using assms
proof (induction bs arbitrary: k)
  case (Cons b bs)
  have b: "distinct b" "\<forall>e\<in>set b. f e = k"
    using Cons.prems by auto
  have "distinct (concat bs) \<and> (\<forall>e\<in>set (concat bs). Suc k \<le> f e)"
    using Cons.prems by (intro Cons.IH) auto
  then show ?case
    using b by fastforce
qed simp

lemma all_entries_distinct:
  assumes "rt_inv rt"
  shows "distinct (map be_id (all_entries rt))"
proof -
  have "distinct (concat (map kb_bucket (rt_buckets rt))) \<and> (\<forall>e\<in>set (concat (map kb_bucket (rt_buckets rt))).
      0 \<le> get_bucket_index (rt_my_node_id rt) (be_id e))"
    using assms by (intro distinct_concat_nth) (auto simp: rt_inv_def bucket_ok_def distinct_map)
  then show ?thesis
    using all_entries_inj [OF assms] by (simp add: distinct_map all_entries_def)
qed

lemma kbucket_add_room:
  "be_id e \<notin> be_id ` set (kb_bucket kb) \<Longrightarrow> length (kb_bucket kb) < K \<Longrightarrow>
    kb_bucket (snd (kbucket_add now e kb)) = kb_bucket kb @ [e]"
  by (auto simp: kbucket_add_def extract_None_iff split: option.split dest!: extract_SomeD)

definition in_bucket :: "RouteTable \<Rightarrow> nat \<Rightarrow> BucketEntry list \<Rightarrow> BucketEntry list" where
  "in_bucket rt i es = filter (\<lambda>e. get_bucket_index (rt_my_node_id rt) (be_id e) = i) es"

lemma rt_insert_my_id [simp]: "rt_my_node_id (rt_insert now e rt) = rt_my_node_id rt"
  by (simp add: rt_insert_def Let_def)

lemma insert_all_room:
  assumes "rt_inv rt" "distinct (map be_id es)"
    and "\<forall>e\<in>set es. valid_id (be_id e) \<and> be_id e \<noteq> rt_my_node_id rt \<and> be_id e \<notin> be_id ` set (all_entries rt)"
    and "\<forall>i<160. length (kb_bucket (rt_buckets rt ! i)) + length (in_bucket rt i es) \<le> K" "i < 160"
  shows "kb_bucket (rt_buckets (fold (rt_insert now) es rt) ! i) = kb_bucket (rt_buckets rt ! i) @ in_bucket rt i es \<and>
    rt_inv (fold (rt_insert now) es rt)"
  using assms
proof (induction es arbitrary: rt)
  case Nil
  then show ?case
    by (simp add: in_bucket_def)
next
  case (Cons e es)
  let ?idx = "get_bucket_index (rt_my_node_id rt) (be_id e)" and ?rt = "rt_insert now e rt"
  have len: "length (rt_buckets rt) = 160" and idx: "?idx < 160"
    using Cons.prems(1,3) bucket_index_less by (auto simp: rt_inv_def)
  have fresh: "be_id e \<notin> be_id ` set (kb_bucket (rt_buckets rt ! ?idx))"
    using Cons.prems(3) rt_bucket_mem [OF Cons.prems(1) idx] by auto
  have "length (kb_bucket (rt_buckets rt ! ?idx)) < K"
    using Cons.prems(4) idx by (force simp: in_bucket_def)
  then have buckets: "kb_bucket (rt_buckets ?rt ! j) = kb_bucket (rt_buckets rt ! j) @ in_bucket rt j [e]" if "j < 160" for j
    using that Cons.prems(3) idx len kbucket_add_room [OF fresh]
    by (cases "j = ?idx") (simp_all add: rt_insert_def Let_def in_bucket_def)
  have inv: "rt_inv ?rt"
    using Cons.prems(1,3) by (simp add: rt_inv_insert)
  have "set (all_entries ?rt) \<subseteq> insert e (set (all_entries rt))"
  proof
    fix x assume "x \<in> set (all_entries ?rt)"
    with inv obtain j where "j < 160" "x \<in> set (kb_bucket (rt_buckets ?rt ! j))"
      by (rule all_entries_mem)
    then show "x \<in> insert e (set (all_entries rt))"
      using buckets [of j] rt_bucket_mem [OF Cons.prems(1), of j x] by (auto simp: in_bucket_def split: if_splits)
  qed
  then have "be_id ` set (all_entries ?rt) \<subseteq> insert (be_id e) (be_id ` set (all_entries rt))"
    by (metis image_insert image_mono)
  moreover have "\<forall>e'\<in>set es. be_id e' \<notin> insert (be_id e) (be_id ` set (all_entries rt))"
    using Cons.prems(2,3) by (metis distinct.simps(2) image_eqI insertE list.set_intros(2) list.set_map list.simps(9))
  ultimately have "\<forall>e'\<in>set es. be_id e' \<notin> be_id ` set (all_entries ?rt)"
    by blast
  moreover have "\<forall>j<160. length (kb_bucket (rt_buckets ?rt ! j)) + length (in_bucket ?rt j es) \<le> K"
    using Cons.prems(4) buckets by (fastforce simp: in_bucket_def)
  ultimately show ?case
    using Cons.IH [OF inv] Cons.prems(2,3,5) buckets [OF Cons.prems(5)] by (simp add: in_bucket_def)
qed

subsection \<open>Reading back what was written\<close>

text \<open>What the address text has to satisfy: reading the dotted form of a version-4 address gives it back.\<close>

definition address_text :: "(ip_address \<Rightarrow> string) \<Rightarrow> (string \<Rightarrow> ip_address option) \<Rightarrow> bool" where
  "address_text addr_str make_address \<longleftrightarrow>
    (\<forall>b. length b = 4 \<longrightarrow> make_address (addr_str (V4 b)) = Some (V4 b) \<and> length (addr_str (V4 b)) \<le> 15)"

definition reloaded :: "int \<Rightarrow> BucketEntry \<Rightarrow> BucketEntry" where
  "reloaded now e = good_entry now (be_id e) (be_endpoint e)"

lemma reloaded_fields [simp]: "be_id (reloaded now e) = be_id e" "be_endpoint (reloaded now e) = be_endpoint e"
  by (simp_all add: reloaded_def good_entry_def)

lemma persisted_node_eq:
  "persisted_node addr_str e =
    Dict [(''i'', String (bytes_to_hex (be_id e))), (''ip'', String (addr_str (fst (be_endpoint e)))),
      (''p'', Integer (uint (snd (be_endpoint e))))]"
  by (simp add: persisted_node_def Let_def less_char_def)

lemma read_persisted_node_ok:
  assumes "address_text addr_str make_address" "v4_endpoint (be_endpoint e)" "valid_id (be_id e)"
  shows "read_persisted_node make_address now (persisted_node addr_str e) = Inr (Some (reloaded now e))"
    "valid_value (persisted_node addr_str e)"
proof -
  obtain b where b: "fst (be_endpoint e) = V4 b" "length b = 4"
    using assms(2) by (auto simp: v4_endpoint_def)
  then have ep: "(V4 b, snd (be_endpoint e)) = be_endpoint e"
    by (metis prod.collapse)
  have addr: "make_address (addr_str (V4 b)) = Some (V4 b)" "length (addr_str (V4 b)) \<le> 15"
    using assms(1) b(2) by (auto simp: address_text_def)
  show "read_persisted_node make_address now (persisted_node addr_str e) = Inr (Some (reloaded now e))"
    using assms(3) addr b by (simp add: read_persisted_node_def persisted_node_eq hex_to_bytes_to_hex valid_id_def
        reloaded_def ep)
  have "fits (bytes_to_hex (be_id e))" "fits (addr_str (V4 b))"
    using assms(3) addr by (simp_all add: fits_small even_length_bytes_to_hex valid_id_def)
  then show "valid_value (persisted_node addr_str e)"
    using b uint_lt2p [of "snd (be_endpoint e)"] order_trans [OF _ uint_ge_0 [of "snd (be_endpoint e)"]] by (simp add: persisted_node_eq less_char_def int64_max_def int64_min_def)
qed

lemma load_nodes_ok:
  assumes "address_text addr_str make_address" "\<forall>e\<in>set es. v4_endpoint (be_endpoint e) \<and> valid_id (be_id e)"
  shows "load_nodes make_address now (map (persisted_node addr_str) es) rt = fold (rt_insert now) (map (reloaded now) es) rt"
  using assms(2) by (induction es arbitrary: rt) (simp_all add: read_persisted_node_ok [OF assms(1)])

lemma reload_table:
  assumes "rt_inv rt"
  shows "all_entries (fold (rt_insert now) (map (reloaded now) (all_entries rt)) (new_route_table now (rt_my_node_id rt))) =
    map (reloaded now) (all_entries rt)"
proof -
  let ?my = "rt_my_node_id rt" and ?es = "map (reloaded now) (all_entries rt)"
  let ?new = "new_route_table now ?my"
  have len: "length (rt_buckets rt) = 160"
    using assms by (simp add: rt_inv_def)
  have new: "rt_inv ?new" "rt_my_node_id ?new = ?my" "all_entries ?new = []" "\<forall>i<160. kb_bucket (rt_buckets ?new ! i) = []"
    using assms rt_inv_new by (auto simp: rt_inv_def new_route_table_def all_entries_def)
  have mem: "\<forall>e\<in>set (all_entries rt). valid_id (be_id e) \<and> be_id e \<noteq> ?my"
    using all_entries_mem [OF assms] rt_bucket_mem [OF assms] by metis
  have bucket: "in_bucket ?new i ?es = map (reloaded now) (kb_bucket (rt_buckets rt ! i))" if "i < 160" for i
    using filter_concat_nth [of "map kb_bucket (rt_buckets rt)" "\<lambda>e. get_bucket_index ?my (be_id e)" 0 i] that len
      rt_bucket_mem [OF assms]
    by (simp add: in_bucket_def new(2) filter_map comp_def all_entries_def)
  have room: "\<forall>i<160. length (kb_bucket (rt_buckets ?new ! i)) + length (in_bucket ?new i ?es) \<le> K"
    using bucket new(4) assms by (auto simp: rt_inv_def bucket_ok_def)
  have ids: "distinct (map be_id ?es)"
    using all_entries_distinct [OF assms] by (simp add: comp_def)
  have res: "kb_bucket (rt_buckets (fold (rt_insert now) ?es ?new) ! i) = map (reloaded now) (kb_bucket (rt_buckets rt ! i)) \<and>
    rt_inv (fold (rt_insert now) ?es ?new)" if "i < 160" for i
    using insert_all_room [OF new(1) ids _ room that] mem new bucket [OF that] that by auto
  then have "length (rt_buckets (fold (rt_insert now) ?es ?new)) = 160"
    using res [of 0] by (simp add: rt_inv_def)
  then have "map kb_bucket (rt_buckets (fold (rt_insert now) ?es ?new)) = map (map (reloaded now)) (map kb_bucket (rt_buckets rt))"
    using len res by (intro nth_equalityI) simp_all
  then show ?thesis
    by (simp add: all_entries_def map_concat)
qed

text \<open>C37: a restarted node continues where it stopped.  From the file that \<^verbatim>\<open>save_persisted_state\<close> wrote, the
  node id is restored, and loading it into the fresh node with that id gives a routing table with the
  same nodes at the same endpoints in the same order, none lost to a full bucket.\<close>

theorem persisted_state_roundtrip:
  assumes "address_text addr_str make_address" "dht_inv n"
  defines "file \<equiv> Some (save_persisted_state addr_str n)"
  shows "load_or_generate_node_id file generated = dn_id n \<and>
      map (\<lambda>e. (be_id e, be_endpoint e))
        (all_entries (dn_table (load_persisted_state make_address now file (new_dht_node now (dn_id n))))) =
      map (\<lambda>e. (be_id e, be_endpoint e)) (all_entries (dn_table n))"
proof -
  let ?nodes = "map (persisted_node addr_str) (all_entries (dn_table n))"
  let ?root = "[(''i'', String (bytes_to_hex (dn_id n))), (''n'', List ?nodes)]"
  have inv: "rt_inv (dn_table n)" and my: "valid_id (dn_id n)" "rt_my_node_id (dn_table n) = dn_id n"
    and v4: "\<forall>e\<in>set (all_entries (dn_table n)). v4_endpoint (be_endpoint e)"
    using assms(2) by (simp_all add: dht_inv_def)
  have es: "\<forall>e\<in>set (all_entries (dn_table n)). v4_endpoint (be_endpoint e) \<and> valid_id (be_id e)"
    using v4 all_entries_mem [OF inv] rt_bucket_mem [OF inv] by metis
  have "filter (\<lambda>e. is_v4 (fst (be_endpoint e))) (all_entries (dn_table n)) = all_entries (dn_table n)"
    using v4 by (auto simp: filter_id_conv v4_endpoint_def)
  then have eq: "file = Some (encode (Dict ?root))"
    by (simp add: file_def save_persisted_state_def Let_def less_char_def)
  have "valid_value (Dict ?root)"
    using my(1) es read_persisted_node_ok(2) [OF assms(1)]
    by (simp add: less_char_def fits_small even_length_bytes_to_hex valid_id_def)
  then have dec: "decode (encode (Dict ?root)) = Inr (Dict ?root)" "encode (Dict ?root) \<noteq> []"
    by (rule decode_of_encode) simp
  have "load_or_generate_node_id file generated = dn_id n"
    using dec my(1) by (simp add: load_or_generate_node_id_def eq hex_to_bytes_to_hex valid_id_def del: encode.simps)
  moreover have "map (\<lambda>e. (be_id e, be_endpoint e))
        (all_entries (dn_table (load_persisted_state make_address now file (new_dht_node now (dn_id n))))) =
      map (\<lambda>e. (be_id e, be_endpoint e)) (all_entries (dn_table n))"
    using dec reload_table [OF inv, of now] my(2) load_nodes_ok [OF assms(1) es]
    by (simp add: load_persisted_state_def eq new_dht_node_def comp_def del: encode.simps)
  ultimately show ?thesis ..
qed


subsection \<open>A node for the witnesses\<close>

definition example_node :: DHTNode where
  "example_node = (new_dht_node 0 (replicate 20 0))\<lparr> dn_table :=
    rt_insert 0 (good_entry 0 (replicate 20 1) (V4 [1, 2, 3, 4], 6881)) (new_route_table 0 (replicate 20 0)) \<rparr>"

lemma dht_inv_example: "dht_inv example_node" "\<not> dn_shuting_down example_node" "dn_id example_node = replicate 20 0"
proof -
  let ?e = "good_entry 0 (replicate 20 1) (V4 [1, 2, 3, 4], 6881)"
  have "rt_inv (rt_insert 0 ?e (new_route_table 0 (replicate 20 0)))"
    by (intro rt_inv_insert rt_inv_new) (simp_all add: valid_id_def good_entry_def)
  moreover have "be_endpoint ` set (all_entries (rt_insert 0 ?e (new_route_table 0 (replicate 20 0)))) \<subseteq> {be_endpoint ?e}"
    using rt_insert_endpoints [of 0 ?e "new_route_table 0 (replicate 20 0)"]
    by (simp add: all_entries_def new_route_table_def)
  ultimately show "dht_inv example_node"
    by (auto simp: dht_inv_def example_node_def new_dht_node_def peers_of_def valid_id_def v4_endpoint_def
        new_route_table_def good_entry_def image_subset_iff)
qed (simp_all add: example_node_def new_dht_node_def)

lemma example_entries: "map (\<lambda>e. (be_id e, be_endpoint e)) (all_entries (dn_table example_node)) = [(replicate 20 1, (V4 [1, 2, 3, 4], 6881))]"
proof -
  let ?e = "good_entry 0 (replicate 20 1) (V4 [1, 2, 3, 4], 6881)" and ?new = "new_route_table 0 (replicate 20 0)"
  have idx: "get_bucket_index (replicate 20 0) (replicate 20 1) < 160"
    by (rule bucket_index_less) (simp_all add: valid_id_def)
  have upd: "concat (map kb_bucket ((replicate n kb)[i := kb'])) = kb_bucket kb'" if "i < n" "kb_bucket kb = []" for n i kb kb'
    using that by (induction n arbitrary: i) (auto split: nat.split)
  have "all_entries (rt_insert 0 ?e ?new) = [?e]"
    using idx upd [of _ 160 "\<lparr> kb_bucket = [], kb_last_changed = 0 \<rparr>"]
    by (simp add: rt_insert_def new_route_table_def good_entry_def all_entries_def Let_def kbucket_add_room K_def)
  then show ?thesis
    by (simp add: example_node_def good_entry_def)
qed

theorem persisted_state_roundtrip_witness:
  "let text = (\<lambda>a. case a of V4 b \<Rightarrow> string_of_bytes b | V6 b \<Rightarrow> []);
       read = (\<lambda>s. if length s = 4 then Some (V4 (bytes_of_string s)) else None)
   in address_text text read \<and> dht_inv example_node \<and>
     load_or_generate_node_id (Some (save_persisted_state text example_node)) (replicate 20 7) = replicate 20 0 \<and>
     map (\<lambda>e. (be_id e, be_endpoint e)) (all_entries (dn_table (load_persisted_state read 9
         (Some (save_persisted_state text example_node)) (new_dht_node 9 (replicate 20 0))))) =
       [(replicate 20 1, (V4 [1, 2, 3, 4], 6881))]"
proof -
  let ?text = "\<lambda>a. case a of V4 b \<Rightarrow> string_of_bytes b | V6 b \<Rightarrow> []"
  let ?read = "\<lambda>s. if length s = 4 then Some (V4 (bytes_of_string s)) else None"
  have "address_text ?text ?read"
    by (simp add: address_text_def)
  then show ?thesis
    using persisted_state_roundtrip [of ?text ?read example_node "replicate 20 7" 9] dht_inv_example example_entries
    by (simp add: Let_def)
qed

end
