(* ===== verification/DhtClient.thy ===== *)
theory DhtClient
  imports DhtState
begin

text \<open>
  The DHT node of \<^verbatim>\<open>src/src/Kademlia.hpp\<close> as a client: iterative lookups, announcing, pings, the
  bootstrap and refresh passes, and the state file.

  The network is a parameter: the outcome of the \<open>k\<close>-th query is \<open>ce_net k\<close>, an arbitrary response, error,
  abort or timeout.  So is the random generator (\<open>ce_rng k\<close>), the order in which the queries of one
  parallel group finish (\<open>ce_order\<close>, a permutation) and the resolver.  \<open>lk_asked\<close> is a history variable:
  the ids of the nodes a lookup has queried.  Datagrams that arrive during a lookup are left to theory
  \<open>Dht\<close>; here the queries of a lookup follow each other.
\<close>

subsection \<open>Definitions: one query\<close>

definition ALPHA :: nat where "ALPHA = 3"

record client_env =
  ce_env :: dht_env
  ce_net :: "nat \<Rightarrow> krpc_outcome"
  ce_rng :: "nat \<Rightarrow> nat"
  ce_order :: "BucketEntry list \<Rightarrow> BucketEntry list"

abbreviation ce_now :: "client_env \<Rightarrow> int" where
  "ce_now ce \<equiv> de_now (ce_env ce)"

record lookup =
  lk_node :: DHTNode
  lk_next :: nat
  lk_asked :: "id20 list"

text \<open>Two bytes of the generator's output, in memory order.\<close>

definition generate_transaction_id :: "nat \<Rightarrow> string" where
  "generate_transaction_id r = string_of_bytes [of_nat (r mod 256), of_nat (r div 256 mod 256)]"

definition krpc :: "client_env \<Rightarrow> (string \<Rightarrow> Value) \<Rightarrow> endpoint \<Rightarrow> lookup \<Rightarrow> krpc_outcome \<times> lookup" where
  "krpc ce message target L =
    (let k = lk_next L;
         tid = generate_transaction_id (ce_rng ce k);
         outcome = ce_net ce k;
         n = async_query (ce_now ce) k tid (message tid) target (lk_node L);
         n = complete (create_pending_query (ce_now ce) k target) outcome n;
         n = erase_pending tid n
     in (outcome, L\<lparr> lk_node := n, lk_next := Suc k \<rparr>))"

definition async_ping :: "client_env \<Rightarrow> endpoint \<Rightarrow> lookup \<Rightarrow> krpc_outcome \<times> lookup" where
  "async_ping ce target L = krpc ce (\<lambda>tid. create_ping_query tid (dn_id (lk_node L))) target L"

definition async_find_nodes :: "client_env \<Rightarrow> endpoint \<Rightarrow> id20 \<Rightarrow> lookup \<Rightarrow> krpc_outcome \<times> lookup" where
  "async_find_nodes ce target target_id L =
    krpc ce (\<lambda>tid. create_find_node_query tid (dn_id (lk_node L)) target_id) target L"

definition async_get_peers :: "client_env \<Rightarrow> endpoint \<Rightarrow> id20 \<Rightarrow> lookup \<Rightarrow> krpc_outcome \<times> lookup" where
  "async_get_peers ce target info_hash L =
    krpc ce (\<lambda>tid. create_get_peers_query tid (dn_id (lk_node L)) info_hash) target L"

definition async_announce_peer ::
  "client_env \<Rightarrow> endpoint \<Rightarrow> id20 \<Rightarrow> u16 \<Rightarrow> string \<Rightarrow> lookup \<Rightarrow> krpc_outcome \<times> lookup" where
  "async_announce_peer ce target info_hash client_port token L =
    krpc ce (\<lambda>tid. create_announce_peer_query tid (dn_id (lk_node L)) info_hash client_port token) target L"

lemmas async_defs = async_ping_def async_find_nodes_def async_get_peers_def async_announce_peer_def

definition on_table :: "(RouteTable \<Rightarrow> RouteTable) \<Rightarrow> lookup \<Rightarrow> lookup" where
  "on_table f L = L\<lparr> lk_node := (lk_node L)\<lparr> dn_table := f (dn_table (lk_node L)) \<rparr> \<rparr>"

definition mark_bad :: "client_env \<Rightarrow> id20 \<Rightarrow> lookup \<Rightarrow> lookup" where
  "mark_bad ce nid = on_table (update_status (ce_now ce) nid Bad)"

definition insert_good :: "client_env \<Rightarrow> id20 \<Rightarrow> endpoint \<Rightarrow> lookup \<Rightarrow> lookup" where
  "insert_good ce nid ep = on_table (rt_insert (ce_now ce) (good_entry (ce_now ce) nid ep))"

definition asked :: "BucketEntry \<Rightarrow> lookup \<Rightarrow> lookup" where
  "asked node L = L\<lparr> lk_asked := lk_asked L @ [be_id node] \<rparr>"

subsection \<open>Definitions: reading responses\<close>

definition dict_get :: "(string \<times> Value) list \<Rightarrow> string \<Rightarrow> dht_error + Value" where
  "dict_get d k = (case map_of d k of None \<Rightarrow> Inl MissingKey | Some v \<Rightarrow> Inr v)"

definition response_values :: "Value \<Rightarrow> dht_error + (string \<times> Value) list" where
  "response_values response =
    sum_bind (sum_some BadVariant (as_Dict response)) (\<lambda>response_dict.
    sum_bind (dict_get response_dict ''r'') (\<lambda>r.
    sum_some BadVariant (as_Dict r)))"

definition responder :: "(string \<times> Value) list \<Rightarrow> dht_error + id20" where
  "responder r_values = sum_bind (dict_get r_values ''id'') get_id"

definition read_find_node :: "int \<Rightarrow> Value \<Rightarrow> dht_error + id20 \<times> BucketEntry list" where
  "read_find_node now response =
    sum_bind (response_values response) (\<lambda>r_values.
    sum_bind (responder r_values) (\<lambda>responder_id.
    sum_bind (dict_get r_values ''nodes'') (\<lambda>nv.
    sum_bind (get_string nv) (\<lambda>compact_nodes_str.
    Inr (responder_id, from_compact_node_info now compact_nodes_str)))))"

text \<open>The loop over \<^verbatim>\<open>values\<close>; an item that is not a string throws after the ones before it were taken.\<close>

fun read_values :: "Value list \<Rightarrow> endpoint list \<times> bool" where
  "read_values [] = ([], True)"
| "read_values (val # vals) =
    (case as_String val of None \<Rightarrow> ([], False)
     | Some s \<Rightarrow> (let (peers, ok) = read_values vals in (from_compact_peer_info s @ peers, ok)))"

subsection \<open>Definitions: pings and node lookups\<close>

definition send_ping :: "client_env \<Rightarrow> endpoint \<Rightarrow> lookup \<Rightarrow> lookup" where
  "send_ping ce target L =
    (if dn_shuting_down (lk_node L) then L
     else case async_ping ce target L of
       (Response response, L) \<Rightarrow>
         (case sum_bind (response_values response) responder of
            Inl _ \<Rightarrow> L
          | Inr responder_id \<Rightarrow> insert_good ce responder_id target L)
     | (_, L) \<Rightarrow> L)"

definition find_nodes_coro :: "client_env \<Rightarrow> id20 \<Rightarrow> id20 set \<Rightarrow> BucketEntry \<Rightarrow>
    BucketEntry list \<times> lookup \<Rightarrow> BucketEntry list \<times> lookup" where
  "find_nodes_coro ce target_id queried node st =
    (case st of (discovered, L) \<Rightarrow>
      if dn_shuting_down (lk_node L) then (discovered, L)
      else case async_find_nodes ce (be_endpoint node) target_id (asked node L) of
        (Response response, L) \<Rightarrow>
          (case read_find_node (ce_now ce) response of
             Inl _ \<Rightarrow> (discovered, mark_bad ce (be_id node) L)
           | Inr (responder_id, nodes) \<Rightarrow>
               (discovered @ filter (\<lambda>n. be_id n \<noteq> dn_id (lk_node L) \<and> be_id n \<notin> queried) nodes,
                insert_good ce responder_id (be_endpoint node) L))
      | (_, L) \<Rightarrow> (discovered, mark_bad ce (be_id node) L))"

definition by_distance :: "id20 \<Rightarrow> BucketEntry list \<Rightarrow> BucketEntry list" where
  "by_distance target = sort_key (\<lambda>e. distance (be_id e) target)"

text \<open>The merge of what a round discovered into the result and the next candidates.\<close>

definition merge_node :: "BucketEntry \<Rightarrow> BucketEntry list \<times> BucketEntry list \<times> id20 set \<Rightarrow>
    BucketEntry list \<times> BucketEntry list \<times> id20 set" where
  "merge_node node st =
    (case st of (result, next, queried) \<Rightarrow>
      (if be_id node \<in> be_id ` set result then result else result @ [node],
       if be_id node \<notin> queried then next @ [node] else next,
       if be_id node \<notin> queried then insert (be_id node) queried else queried))"

fun find_nodes_rounds :: "client_env \<Rightarrow> id20 \<Rightarrow> nat \<Rightarrow> nat \<Rightarrow> BucketEntry list \<Rightarrow> BucketEntry list \<Rightarrow>
    id20 set \<Rightarrow> lookup \<Rightarrow> BucketEntry list \<times> lookup" where
  "find_nodes_rounds ce target_id want 0 result nodes_to_query queried L = (result, L)"
| "find_nodes_rounds ce target_id want (Suc i) result nodes_to_query queried L =
    (if dn_shuting_down (lk_node L) \<or> nodes_to_query = [] then (result, L)
     else let (discovered, L) = fold (find_nodes_coro ce target_id queried) (ce_order ce nodes_to_query) ([], L);
              (result, next, queried) = fold merge_node discovered (result, [], queried);
              result = take want (by_distance target_id result);
              next = take ALPHA (by_distance target_id next)
          in find_nodes_rounds ce target_id want i result next queried L)"

definition find_nodes :: "client_env \<Rightarrow> id20 \<Rightarrow> nat \<Rightarrow> lookup \<Rightarrow> BucketEntry list \<times> lookup" where
  "find_nodes ce target_id want L =
    (if dn_shuting_down (lk_node L) then ([], L)
     else let closest = find_closest_nodes target_id want (dn_table (lk_node L));
              result = by_distance target_id
                (filter (\<lambda>e. be_id e \<noteq> dn_id (lk_node L) \<and> be_status e \<noteq> Bad) closest);
              nodes_to_query = take ALPHA result
          in find_nodes_rounds ce target_id want 3 result nodes_to_query (be_id ` set nodes_to_query) L)"

subsection \<open>Definitions: peer lookups and announcing\<close>

text \<open>The peers announced to this node that are still alive; more than \<^verbatim>\<open>count\<close> of them end the lookup
  (the flag).\<close>

fun known_loop :: "int \<Rightarrow> nat \<Rightarrow> PeerInfo list \<Rightarrow> endpoint list \<Rightarrow> bool \<times> endpoint list" where
  "known_loop now want [] discovered = (False, discovered)"
| "known_loop now want (p # ps) discovered =
    (if pi_expiry p > now \<and> pi_endpoint p \<notin> set discovered then
       let discovered = discovered @ [pi_endpoint p]
       in if length discovered > want then (True, discovered) else known_loop now want ps discovered
     else known_loop now want ps discovered)"

definition store_token :: "int \<Rightarrow> id20 \<Rightarrow> endpoint \<Rightarrow> string \<Rightarrow> lookup \<Rightarrow> lookup" where
  "store_token now info_hash ep token L =
    (let n = lk_node L;
         per_hash = (case map_of (dn_tokens_issued n) info_hash of None \<Rightarrow> [] | Some m \<Rightarrow> m);
         per_hash = map_assign ep (token, now + ANNOUNCE_TOKEN_LIFETIME * minute) per_hash
     in L\<lparr> lk_node := n\<lparr> dn_tokens_issued := map_assign info_hash per_hash (dn_tokens_issued n) \<rparr> \<rparr>)"

text \<open>The body of the \<^verbatim>\<open>try\<close> block after a response: the peers and nodes taken, whether it completed
  without an exception, and the node.\<close>

definition read_get_peers :: "client_env \<Rightarrow> id20 \<Rightarrow> BucketEntry \<Rightarrow> Value \<Rightarrow> lookup \<Rightarrow>
    endpoint list \<times> BucketEntry list \<times> bool \<times> lookup" where
  "read_get_peers ce info_hash node response L =
    (case sum_bind (response_values response) (\<lambda>r. sum_bind (responder r) (\<lambda>i. Inr (r, i))) of
       Inl _ \<Rightarrow> ([], [], False, L)
     | Inr (r_values, responder_id) \<Rightarrow>
         let L = insert_good ce responder_id (be_endpoint node) L;
             (peers, nodes, ok) =
               (case map_of r_values ''values'' of
                  Some v \<Rightarrow> (case as_List v of None \<Rightarrow> ([], [], False)
                     | Some l \<Rightarrow> (let (peers, ok) = read_values l in (peers, [], ok)))
                | None \<Rightarrow> (case map_of r_values ''nodes'' of
                     None \<Rightarrow> ([], [], True)
                   | Some v \<Rightarrow> (case as_String v of None \<Rightarrow> ([], [], False)
                        | Some s \<Rightarrow> ([], from_compact_node_info (ce_now ce) s, True))))
         in if \<not> ok then (peers, nodes, False, L)
            else case map_of r_values ''token'' of
              None \<Rightarrow> (peers, nodes, True, L)
            | Some v \<Rightarrow> (case as_String v of
                 None \<Rightarrow> (peers, nodes, False, L)
               | Some token_val \<Rightarrow> (peers, nodes, True, store_token (ce_now ce) info_hash (be_endpoint node) token_val L)))"

definition get_peers_coro :: "client_env \<Rightarrow> id20 \<Rightarrow> BucketEntry \<Rightarrow>
    endpoint list \<times> BucketEntry list \<times> lookup \<Rightarrow> endpoint list \<times> BucketEntry list \<times> lookup" where
  "get_peers_coro ce info_hash node st =
    (case st of (current_peers, current_nodes, L) \<Rightarrow>
      if dn_shuting_down (lk_node L) then st
      else case async_get_peers ce (be_endpoint node) info_hash (asked node L) of
        (Response response, L) \<Rightarrow>
          (case read_get_peers ce info_hash node response L of (peers, nodes, ok, L) \<Rightarrow>
            (current_peers @ peers, current_nodes @ nodes, if ok then L else mark_bad ce (be_id node) L))
      | (_, L) \<Rightarrow> (current_peers, current_nodes, mark_bad ce (be_id node) L))"

text \<open>The loop that takes up to \<open>ALPHA\<close> candidates off the front and spawns those not yet queried.\<close>

fun spawn_loop :: "id20 \<Rightarrow> nat \<Rightarrow> BucketEntry list \<Rightarrow> id20 set \<Rightarrow> BucketEntry list \<times> id20 set" where
  "spawn_loop my 0 nodes queried = ([], queried)"
| "spawn_loop my (Suc i) [] queried = ([], queried)"
| "spawn_loop my (Suc i) (node # nodes) queried =
    (if be_id node = my \<or> be_id node \<in> queried then spawn_loop my i nodes queried
     else let (spawned, queried) = spawn_loop my i nodes (insert (be_id node) queried)
          in (node # spawned, queried))"

definition enqueue_nodes :: "id20 set \<Rightarrow> BucketEntry list \<Rightarrow> BucketEntry list" where
  "enqueue_nodes queried nodes =
    fold (\<lambda>n acc. if be_id n \<notin> be_id ` set acc \<and> be_id n \<notin> queried then acc @ [n] else acc) nodes []"

definition add_peers :: "endpoint list \<Rightarrow> endpoint list \<Rightarrow> endpoint list" where
  "add_peers peers discovered = fold (\<lambda>ep acc. if ep \<notin> set acc then acc @ [ep] else acc) peers discovered"

fun get_peers_rounds :: "client_env \<Rightarrow> id20 \<Rightarrow> nat \<Rightarrow> nat \<Rightarrow> endpoint list \<Rightarrow> BucketEntry list \<Rightarrow>
    id20 set \<Rightarrow> lookup \<Rightarrow> endpoint list \<times> lookup" where
  "get_peers_rounds ce info_hash want 0 discovered nodes_to_query queried L = (discovered, L)"
| "get_peers_rounds ce info_hash want (Suc i) discovered nodes_to_query queried L =
    (if dn_shuting_down (lk_node L) \<or> nodes_to_query = [] \<or> length discovered > want then (discovered, L)
     else let (spawned, queried) = spawn_loop (dn_id (lk_node L)) ALPHA nodes_to_query queried;
              (current_peers, current_nodes, L) = fold (get_peers_coro ce info_hash) (ce_order ce spawned) ([], [], L);
              next = enqueue_nodes queried current_nodes;
              discovered = add_peers current_peers discovered;
              next = take ALPHA (by_distance info_hash next)
          in if want \<le> length discovered then (discovered, L)
             else get_peers_rounds ce info_hash want i discovered next queried L)"

definition get_peers :: "client_env \<Rightarrow> id20 \<Rightarrow> nat \<Rightarrow> lookup \<Rightarrow> endpoint list \<times> lookup" where
  "get_peers ce info_hash want L =
    (if dn_shuting_down (lk_node L) then ([], L)
     else case (case map_of (dn_known_peers (lk_node L)) info_hash of
                  None \<Rightarrow> (False, []) | Some peers \<Rightarrow> known_loop (ce_now ce) want peers []) of
       (True, discovered) \<Rightarrow> (discovered, L)
     | (False, discovered) \<Rightarrow>
         if rt_size (dn_table (lk_node L)) = 0 then (discovered, L)
         else get_peers_rounds ce info_hash want 3 discovered
                (find_closest_nodes info_hash want (dn_table (lk_node L))) {} L)"

text \<open>Announcing to one node: ask it for a token, then announce with it.\<close>

definition announce_token :: "client_env \<Rightarrow> id20 \<Rightarrow> BucketEntry \<Rightarrow> lookup \<Rightarrow> string \<times> lookup" where
  "announce_token ce info_hash node L =
    (case async_get_peers ce (be_endpoint node) info_hash L of
       (Response response, L) \<Rightarrow>
         (case response_values response of
            Inl _ \<Rightarrow> ('''', mark_bad ce (be_id node) L)
          | Inr r_values \<Rightarrow>
              (case (case map_of r_values ''token'' of None \<Rightarrow> Inr '''' | Some v \<Rightarrow> get_string v) of
                 Inl _ \<Rightarrow> ('''', mark_bad ce (be_id node) L)
               | Inr token \<Rightarrow>
                   (case responder r_values of
                      Inl _ \<Rightarrow> (token, mark_bad ce (be_id node) L)
                    | Inr responder_id \<Rightarrow> (token, insert_good ce responder_id (be_endpoint node) L))))
     | (_, L) \<Rightarrow> ('''', mark_bad ce (be_id node) L))"

definition announce_to :: "client_env \<Rightarrow> id20 \<Rightarrow> u16 \<Rightarrow> BucketEntry \<Rightarrow> nat \<times> lookup \<Rightarrow> nat \<times> lookup" where
  "announce_to ce info_hash client_port node st =
    (case st of (announced_count, L) \<Rightarrow>
      if dn_shuting_down (lk_node L) then (announced_count, L)
      else if be_id node = dn_id (lk_node L) \<or> be_status node = Bad then (announced_count, L)
      else let (token, L) = announce_token ce info_hash node L
           in if token = '''' then (announced_count, L)
              else case async_announce_peer ce (be_endpoint node) info_hash client_port token (asked node L) of
                (Response _, L) \<Rightarrow> (Suc announced_count, L)
              | (_, L) \<Rightarrow> (announced_count, mark_bad ce (be_id node) L))"

definition announce_peer :: "client_env \<Rightarrow> id20 \<Rightarrow> u16 \<Rightarrow> lookup \<Rightarrow> nat \<times> lookup" where
  "announce_peer ce info_hash client_port L =
    (if dn_shuting_down (lk_node L) then (0, L)
     else fold (announce_to ce info_hash client_port)
            (find_closest_nodes info_hash K (dn_table (lk_node L))) (0, L))"

subsection \<open>Definitions: bootstrap and refresh\<close>

definition ping_one :: "client_env \<Rightarrow> (string \<Rightarrow> u16 \<Rightarrow> endpoint option) \<Rightarrow> string \<Rightarrow> lookup \<Rightarrow> lookup" where
  "ping_one ce resolve addr L =
    (if dn_shuting_down (lk_node L) then L
     else case decode_address addr of
       Inl _ \<Rightarrow> L
     | Inr (host, port) \<Rightarrow> (case resolve host port of None \<Rightarrow> L | Some ep \<Rightarrow> send_ping ce ep L))"

definition random_lookups :: "client_env \<Rightarrow> id20 list \<Rightarrow> lookup \<Rightarrow> lookup" where
  "random_lookups ce random_ids L =
    fold (\<lambda>random_id L. if dn_shuting_down (lk_node L) then L else snd (find_nodes ce random_id K L)) random_ids L"

definition bootstrap :: "client_env \<Rightarrow> (string \<Rightarrow> u16 \<Rightarrow> endpoint option) \<Rightarrow> id20 list \<Rightarrow> string list \<Rightarrow> lookup \<Rightarrow> lookup" where
  "bootstrap ce resolve random_ids addrs L =
    (let L = fold (ping_one ce resolve) addrs L
     in if dn_shuting_down (lk_node L) then L
        else let L = snd (find_nodes ce (dn_id (lk_node L)) K L)
             in random_lookups ce (take 3 random_ids) L)"

definition refresh_pass :: "client_env \<Rightarrow> (nat \<Rightarrow> id20) \<Rightarrow> lookup \<Rightarrow> lookup" where
  "refresh_pass ce random_id L =
    (if dn_shuting_down (lk_node L) then L
     else let stale = filter (\<lambda>i. needs_refresh (ce_now ce) i (dn_table (lk_node L))) [0..<160];
              small = (if rt_size (dn_table (lk_node L)) < K then [160, 161, 162] else [])
          in fold (\<lambda>i L. snd (find_nodes ce (random_id i) K L)) (small @ stale) L)"


subsection \<open>Queries keep the invariant\<close>

definition node_ok :: "BucketEntry \<Rightarrow> bool" where
  "node_ok e \<longleftrightarrow> valid_id (be_id e) \<and> v4_endpoint (be_endpoint e)"

definition lk_ok :: "lookup \<Rightarrow> bool" where
  "lk_ok L \<longleftrightarrow> dht_inv (lk_node L) \<and> \<not> dn_shuting_down (lk_node L)"

text \<open>What a query and the routing-table updates around it leave alone.\<close>

definition same_node :: "lookup \<Rightarrow> lookup \<Rightarrow> bool" where
  "same_node L L' \<longleftrightarrow> dn_id (lk_node L') = dn_id (lk_node L) \<and> lk_asked L' = lk_asked L"

lemma dht_inv_fields:
  "dn_table n' = dn_table n \<Longrightarrow> dn_id n' = dn_id n \<Longrightarrow> dn_known_peers n' = dn_known_peers n \<Longrightarrow> dht_inv n' = dht_inv n"
  by (simp add: dht_inv_def peers_of_def)

lemma krpc_ok:
  assumes "krpc ce message target L = (outcome, L')" "lk_ok L"
  shows "lk_ok L' \<and> same_node L L'"
proof -
  have "dn_table (lk_node L') = dn_table (lk_node L)" "dn_id (lk_node L') = dn_id (lk_node L)"
    "dn_known_peers (lk_node L') = dn_known_peers (lk_node L)" "dn_shuting_down (lk_node L') = dn_shuting_down (lk_node L)"
    "lk_asked L' = lk_asked L"
    using assms(1) by (auto simp: krpc_def Let_def async_query_def erase_pending_def)
  then show ?thesis
    using assms(2) dht_inv_fields [of "lk_node L'" "lk_node L"] by (simp add: lk_ok_def same_node_def)
qed

lemma update_status_endpoints:
  "be_endpoint ` set (all_entries (update_status now nid st rt)) \<subseteq> be_endpoint ` set (all_entries rt)"
proof -
  define idx where "idx = get_bucket_index (rt_my_node_id rt) nid"
  define b where "b = rt_buckets rt ! idx"
  have upd: "be_endpoint ` set (all_entries (rt\<lparr> rt_buckets := (rt_buckets rt)[idx := b\<lparr> kb_bucket := es, kb_last_changed := now \<rparr>] \<rparr>))
      \<subseteq> be_endpoint ` set (all_entries rt)"
    if "idx < length (rt_buckets rt)" "be_endpoint ` set es \<subseteq> be_endpoint ` set (kb_bucket b)" for es
  proof -
    have "set ((rt_buckets rt)[idx := b\<lparr> kb_bucket := es, kb_last_changed := now \<rparr>]) \<subseteq>
        insert (b\<lparr> kb_bucket := es, kb_last_changed := now \<rparr>) (set (rt_buckets rt))"
      by (rule set_update_subset_insert)
    then have "set (all_entries (rt\<lparr> rt_buckets := (rt_buckets rt)[idx := b\<lparr> kb_bucket := es, kb_last_changed := now \<rparr>] \<rparr>))
        \<subseteq> set es \<union> set (all_entries rt)"
      by (auto simp: all_entries_def)
    moreover have "set (kb_bucket b) \<subseteq> set (all_entries rt)"
      using nth_mem [OF that(1)] by (auto simp: all_entries_def b_def)
    ultimately show ?thesis
      using that(2) by blast
  qed
  show ?thesis
  proof (cases "List.extract (\<lambda>e. be_id e = nid) (kb_bucket b)")
    case None
    then show ?thesis
      by (simp add: update_status_def Let_def flip: idx_def b_def)
  next
    case (Some t)
    then obtain xs x ys where t: "t = (xs, x, ys)" "kb_bucket b = xs @ x # ys"
      by (metis extract_SomeD prod_cases3)
    define es where "es = (if st = Good then xs @ ys @ [x\<lparr> be_status := st, be_last_replied := now \<rparr>]
      else xs @ x\<lparr> be_status := st \<rparr> # ys)"
    have "be_endpoint ` set es \<subseteq> be_endpoint ` set (kb_bucket b)"
      by (simp add: es_def t(2))
    then show ?thesis
      using Some upd [of es] t(1) by (simp add: update_status_def Let_def flip: idx_def b_def es_def)
  qed
qed

lemma on_table_ok:
  assumes "lk_ok L" "rt_inv (f (dn_table (lk_node L)))"
    and "rt_my_node_id (f (dn_table (lk_node L))) = rt_my_node_id (dn_table (lk_node L))"
    and "\<And>ep. ep \<in> be_endpoint ` set (all_entries (f (dn_table (lk_node L)))) \<Longrightarrow>
      ep \<in> be_endpoint ` set (all_entries (dn_table (lk_node L))) \<or> v4_endpoint ep"
  shows "lk_ok (on_table f L) \<and> same_node L (on_table f L)"
proof -
  have "\<forall>e\<in>set (all_entries (f (dn_table (lk_node L)))). v4_endpoint (be_endpoint e)"
    using assms(1,4) by (fastforce simp: lk_ok_def dht_inv_def)
  then show ?thesis
    using assms(1-3) by (simp add: lk_ok_def same_node_def on_table_def dht_inv_def)
qed

lemma rt_my_node_id_keep [simp]:
  "rt_my_node_id (rt_insert now e rt) = rt_my_node_id rt" "rt_my_node_id (update_status now i st rt) = rt_my_node_id rt"
  by (simp_all add: rt_insert_def update_status_def Let_def split: option.split)

lemma mark_bad_ok: "lk_ok L \<Longrightarrow> lk_ok (mark_bad ce i L) \<and> same_node L (mark_bad ce i L)"
  unfolding mark_bad_def using update_status_endpoints [of "ce_now ce" i Bad "dn_table (lk_node L)"]
  by (intro on_table_ok) (auto simp: lk_ok_def dht_inv_def rt_inv_update_status)

lemma insert_good_ok:
  "lk_ok L \<Longrightarrow> valid_id i \<Longrightarrow> v4_endpoint ep \<Longrightarrow> lk_ok (insert_good ce i ep L) \<and> same_node L (insert_good ce i ep L)"
  unfolding insert_good_def
  using rt_insert_endpoints [of "ce_now ce" "good_entry (ce_now ce) i ep" "dn_table (lk_node L)"]
  by (intro on_table_ok) (auto simp: lk_ok_def dht_inv_def good_entry_def intro!: rt_inv_insert)

lemma asked_fields [simp]:
  "lk_node (asked node L) = lk_node L" "lk_asked (asked node L) = lk_asked L @ [be_id node]"
  by (simp_all add: asked_def)

lemma responder_valid: "responder r = Inr i \<Longrightarrow> valid_id i"
  by (auto simp: responder_def sum_bind_def dest: get_id_valid split: sum.splits)

lemma read_find_node_ok:
  "read_find_node now v = Inr (i, nodes) \<Longrightarrow> valid_id i \<and> (\<forall>e\<in>set nodes. node_ok e)"
  by (auto simp: read_find_node_def sum_bind_def node_ok_def dest: responder_valid from_compact_nodes_valid split: sum.splits)

lemma closest_node_ok:
  assumes "dht_inv n" "valid_id target" "e \<in> set (find_closest_nodes target want (dn_table n))"
  shows "node_ok e"
proof -
  have inv: "rt_inv (dn_table n)"
    using assms(1) by (simp add: dht_inv_def)
  obtain xs where xs: "find_closest_nodes target want (dn_table n) = take want (sort_key (\<lambda>e. distance (be_id e) target) xs)"
    "set xs = set (all_entries (dn_table n))" "distinct (map be_id xs)"
    by (rule find_closest_eq [OF inv assms(2), where k = want])
  have "e \<in> set (sort_key (\<lambda>e. distance (be_id e) target) xs)"
    using assms(3) unfolding xs(1) by (rule in_set_takeD)
  then have e: "e \<in> set (all_entries (dn_table n))"
    by (simp add: xs(2))
  from inv e obtain i where "i < 160" "e \<in> set (kb_bucket (rt_buckets (dn_table n) ! i))"
    by (rule all_entries_mem)
  then show ?thesis
    using rt_bucket_mem [OF inv, of i e] assms(1) e by (simp add: node_ok_def dht_inv_def)
qed

subsection \<open>Node lookups\<close>

lemma find_nodes_coro_ok:
  assumes "lk_ok L" "node_ok node" "find_nodes_coro ce target queried node (discovered, L) = (discovered', L')"
    and "\<forall>e\<in>set discovered. node_ok e \<and> be_id e \<noteq> dn_id (lk_node L) \<and> be_id e \<notin> queried"
  shows "lk_ok L' \<and> dn_id (lk_node L') = dn_id (lk_node L) \<and> lk_asked L' = lk_asked L @ [be_id node] \<and>
    (\<forall>e\<in>set discovered'. node_ok e \<and> be_id e \<noteq> dn_id (lk_node L) \<and> be_id e \<notin> queried)"
proof -
  obtain outcome L1 where k: "krpc ce (\<lambda>tid. create_find_node_query tid (dn_id (lk_node L)) target) (be_endpoint node)
      (asked node L) = (outcome, L1)"
    by (metis surj_pair)
  have "lk_ok (asked node L)"
    using assms(1) by (simp add: lk_ok_def)
  then have L1: "lk_ok L1" "dn_id (lk_node L1) = dn_id (lk_node L)" "lk_asked L1 = lk_asked L @ [be_id node]"
    using krpc_ok [OF k] by (simp_all add: same_node_def)
  have bad: "lk_ok (mark_bad ce i L1) \<and> dn_id (lk_node (mark_bad ce i L1)) = dn_id (lk_node L) \<and>
      lk_asked (mark_bad ce i L1) = lk_asked L @ [be_id node]" for i
    using mark_bad_ok [OF L1(1)] L1 by (simp add: same_node_def)
  show ?thesis
  proof (cases "\<exists>v i nodes. outcome = Response v \<and> read_find_node (ce_now ce) v = Inr (i, nodes)")
    case True
    then obtain v i nodes where v: "outcome = Response v" "read_find_node (ce_now ce) v = Inr (i, nodes)"
      by blast
    then have "lk_ok (insert_good ce i (be_endpoint node) L1) \<and> same_node L1 (insert_good ce i (be_endpoint node) L1)"
      using read_find_node_ok [OF v(2)] assms(2) L1(1) by (intro insert_good_ok) (simp_all add: node_ok_def)
    then show ?thesis
      using assms(1,3,4) k v read_find_node_ok [OF v(2)] L1
      by (auto simp: find_nodes_coro_def async_defs lk_ok_def same_node_def)
  next
    case False
    then have "(discovered', L') = (discovered, mark_bad ce (be_id node) L1)"
      using assms(1,3) k by (auto simp: find_nodes_coro_def async_defs lk_ok_def split: krpc_outcome.splits sum.splits)
    then show ?thesis
      using bad assms(4) by simp
  qed
qed

lemma find_nodes_fold_ok:
  assumes "fold (find_nodes_coro ce target queried) nodes (discovered, L) = (discovered', L')"
    and "lk_ok L" "\<forall>e\<in>set nodes. node_ok e"
    and "\<forall>e\<in>set discovered. node_ok e \<and> be_id e \<noteq> dn_id (lk_node L) \<and> be_id e \<notin> queried"
  shows "lk_ok L' \<and> dn_id (lk_node L') = dn_id (lk_node L) \<and> lk_asked L' = lk_asked L @ map be_id nodes \<and>
    (\<forall>e\<in>set discovered'. node_ok e \<and> be_id e \<noteq> dn_id (lk_node L) \<and> be_id e \<notin> queried)"
  using assms
proof (induction nodes arbitrary: discovered L)
  case (Cons node nodes)
  obtain d1 L1 where step: "find_nodes_coro ce target queried node (discovered, L) = (d1, L1)"
    by (metis surj_pair)
  have one: "lk_ok L1 \<and> dn_id (lk_node L1) = dn_id (lk_node L) \<and> lk_asked L1 = lk_asked L @ [be_id node] \<and>
    (\<forall>e\<in>set d1. node_ok e \<and> be_id e \<noteq> dn_id (lk_node L) \<and> be_id e \<notin> queried)"
    using Cons.prems by (intro find_nodes_coro_ok [OF _ _ step]) simp_all
  then show ?case
    using Cons.IH [of d1 L1] Cons.prems step by simp
qed simp

lemma merge_fold:
  assumes "fold merge_node discovered (result, next, queried) = (result', next', queried')"
    and "distinct (map be_id result)" "distinct (map be_id next)" "be_id ` set next \<subseteq> queried"
  shows "distinct (map be_id result') \<and> distinct (map be_id next') \<and> set result' \<subseteq> set result \<union> set discovered \<and>
    set next' \<subseteq> set next \<union> set discovered \<and> be_id ` set next' \<subseteq> queried' \<and> queried \<subseteq> queried' \<and>
    be_id ` set next' \<inter> (queried - be_id ` set next) = {}"
  using assms
proof (induction discovered arbitrary: result "next" queried)
  case (Cons node discovered)
  obtain r1 n1 q1 where step: "merge_node node (result, next, queried) = (r1, n1, q1)"
    using prod_cases3 by blast
  have s: "distinct (map be_id r1)" "distinct (map be_id n1)" "be_id ` set n1 \<subseteq> q1" "set r1 \<subseteq> insert node (set result)"
    "set n1 \<subseteq> insert node (set next)" "queried \<subseteq> q1" "queried - be_id ` set next \<subseteq> q1 - be_id ` set n1"
    using Cons.prems(2-4) step by (auto simp: merge_node_def image_subset_iff split: if_splits)
  have ih: "distinct (map be_id result') \<and> distinct (map be_id next') \<and> set result' \<subseteq> set r1 \<union> set discovered \<and>
    set next' \<subseteq> set n1 \<union> set discovered \<and> be_id ` set next' \<subseteq> queried' \<and> q1 \<subseteq> queried' \<and>
    be_id ` set next' \<inter> (q1 - be_id ` set n1) = {}"
    using Cons.prems(1) step s by (intro Cons.IH) simp_all
  have "be_id ` set next' \<inter> (q1 - be_id ` set n1) = {}"
    using ih by (elim conjE)
  then have "be_id ` set next' \<inter> (queried - be_id ` set next) = {}"
    using s(7) by blast
  moreover have "set result' \<subseteq> set result \<union> set (node # discovered)"
    using conjunct1 [OF conjunct2 [OF conjunct2 [OF ih]]] s(4) by auto
  moreover have "set next' \<subseteq> set next \<union> set (node # discovered)"
    using conjunct1 [OF conjunct2 [OF conjunct2 [OF conjunct2 [OF ih]]]] s(5) by auto
  ultimately show ?case
    using ih s(6) by (metis order_trans)
qed auto


lemma set_by_distance [simp]: "set (by_distance t es) = set es" "length (by_distance t es) = length es"
  by (simp_all add: by_distance_def)

lemma distinct_by_distance [simp]: "distinct (map f (by_distance t es)) = distinct (map f es)"
proof -
  have "mset (map f (by_distance t es)) = mset (map f es)"
    by (simp add: by_distance_def)
  then show ?thesis
    by (metis mset_eq_imp_distinct_iff)
qed

lemma distinct_map_take: "distinct (map f xs) \<Longrightarrow> distinct (map f (take k xs))"
  by (metis distinct_take take_map)

lemma sorted_by_distance:
  assumes "\<forall>e\<in>set es. valid_id (be_id e)" "valid_id t" "distinct (map be_id es)"
  shows "sorted_wrt (\<lambda>a b. distance (be_id a) t < distance (be_id b) t) (take k (by_distance t es))"
proof -
  let ?d = "\<lambda>e. distance (be_id e) t"
  have "inj_on be_id (set es)"
    using assms(3) by (simp add: distinct_map)
  then have "inj_on ?d (set es)"
    using assms by (auto simp: inj_on_def distance_inject valid_id_def)
  then have "distinct (map ?d (by_distance t es))"
    using assms(3) by (simp add: distinct_map by_distance_def)
  moreover have "sorted (map ?d (by_distance t es))"
    by (simp add: by_distance_def)
  ultimately have "sorted_wrt (<) (map ?d (by_distance t es))"
    by (simp add: strict_sorted_iff)
  then show ?thesis
    by (simp add: sorted_wrt_map sorted_wrt_take)
qed

definition order_ok :: "client_env \<Rightarrow> bool" where
  "order_ok ce \<longleftrightarrow> (\<forall>xs. mset (ce_order ce xs) = mset xs)"

lemma order_okD:
  assumes "order_ok ce"
  shows "set (ce_order ce xs) = set xs" "length (ce_order ce xs) = length xs"
    "distinct (map f (ce_order ce xs)) = distinct (map f xs)"
proof -
  have "mset (ce_order ce xs) = mset xs"
    using assms by (simp add: order_ok_def)
  then show "set (ce_order ce xs) = set xs" "length (ce_order ce xs) = length xs"
    "distinct (map f (ce_order ce xs)) = distinct (map f xs)"
    by (metis mset_eq_setD, metis mset_eq_length, metis mset_map mset_eq_imp_distinct_iff)
qed

text \<open>What the rounds of a lookup guarantee: \<open>new\<close> lists the ids of the nodes queried.\<close>

definition lookup_result :: "id20 \<Rightarrow> nat \<Rightarrow> id20 \<Rightarrow> lookup \<Rightarrow> BucketEntry list \<Rightarrow> lookup \<Rightarrow> id20 list \<Rightarrow> bool" where
  "lookup_result target want my L result L' new \<longleftrightarrow> lk_ok L' \<and> dn_id (lk_node L') = my \<and>
    lk_asked L' = lk_asked L @ new \<and> distinct new \<and> my \<notin> set new \<and> length result \<le> want \<and>
    sorted_wrt (\<lambda>a b. distance (be_id a) target < distance (be_id b) target) result \<and>
    (\<forall>e\<in>set result. node_ok e \<and> be_id e \<noteq> my)"

lemma find_nodes_rounds_ok:
  assumes "order_ok ce" "valid_id target" "lk_ok L" "dn_id (lk_node L) = my"
    and "distinct (map be_id result)" "length result \<le> want" "\<forall>e\<in>set result. node_ok e \<and> be_id e \<noteq> my"
    and "sorted_wrt (\<lambda>a b. distance (be_id a) target < distance (be_id b) target) result"
    and "distinct (map be_id nodes)" "length nodes \<le> ALPHA" "\<forall>e\<in>set nodes. node_ok e \<and> be_id e \<noteq> my"
    and "be_id ` set nodes \<subseteq> queried"
    and "find_nodes_rounds ce target want i result nodes queried L = (result', L')"
  shows "\<exists>new. lookup_result target want my L result' L' new \<and> length new \<le> ALPHA * i \<and>
    set new \<inter> (queried - be_id ` set nodes) = {}"
  using assms(3-)
proof (induction i arbitrary: result nodes queried L)
  case 0
  then show ?case
    by (auto simp: lookup_result_def)
next
  case (Suc i)
  show ?case
  proof (cases "nodes = []")
    case True
    then show ?thesis
      using Suc.prems by (auto simp: lookup_result_def)
  next
    case False
    obtain d L1 where f: "fold (find_nodes_coro ce target queried) (ce_order ce nodes) ([], L) = (d, L1)"
      by (metis surj_pair)
    have L1: "lk_ok L1" "dn_id (lk_node L1) = my" "lk_asked L1 = lk_asked L @ map be_id (ce_order ce nodes)"
      "\<forall>e\<in>set d. node_ok e \<and> be_id e \<noteq> my \<and> be_id e \<notin> queried"
      using find_nodes_fold_ok [OF f] Suc.prems order_okD(1) [OF assms(1)] by auto
    obtain r1 n1 q1 where m: "fold merge_node d (result, [], queried) = (r1, n1, q1)"
      using prod_cases3 by blast
    have m1: "distinct (map be_id r1)" "distinct (map be_id n1)" "set r1 \<subseteq> set result \<union> set d" "set n1 \<subseteq> set d"
      "be_id ` set n1 \<subseteq> q1" "queried \<subseteq> q1" "be_id ` set n1 \<inter> queried = {}"
      using merge_fold [OF m] Suc.prems(3) by auto
    define r2 n2 where "r2 = take want (by_distance target r1)" and "n2 = take ALPHA (by_distance target n1)"
    have r1: "\<forall>e\<in>set r1. node_ok e \<and> be_id e \<noteq> my"
      using m1(3) L1(4) Suc.prems(5) by blast
    have n1: "\<forall>e\<in>set n1. node_ok e \<and> be_id e \<noteq> my"
      using m1(4) L1(4) by blast
    have sub: "set r2 \<subseteq> set r1" "set n2 \<subseteq> set n1"
      by (auto simp: r2_def n2_def dest: in_set_takeD)
    have "find_nodes_rounds ce target want i r2 n2 q1 L1 = (result', L')"
      using Suc.prems(11) Suc.prems(1) False f m by (simp add: lk_ok_def r2_def n2_def)
    moreover have "sorted_wrt (\<lambda>a b. distance (be_id a) target < distance (be_id b) target) r2"
      unfolding r2_def using r1 assms(2) m1(1) by (intro sorted_by_distance) (simp_all add: node_ok_def)
    moreover have "distinct (map be_id r2)" "distinct (map be_id n2)" "length r2 \<le> want" "length n2 \<le> ALPHA"
      using m1(1,2) by (auto simp: r2_def n2_def intro: distinct_map_take)
    moreover have "be_id ` set n2 \<subseteq> q1"
      using sub m1(5) by blast
    moreover have "\<forall>e\<in>set r2. node_ok e \<and> be_id e \<noteq> my" "\<forall>e\<in>set n2. node_ok e \<and> be_id e \<noteq> my"
      using r1 n1 sub by blast+
    ultimately have "\<exists>new. lookup_result target want my L1 result' L' new \<and> length new \<le> ALPHA * i \<and>
      set new \<inter> (q1 - be_id ` set n2) = {}"
      using L1(1,2) by (intro Suc.IH)
    then obtain new where new: "lookup_result target want my L1 result' L' new" "length new \<le> ALPHA * i"
      "set new \<inter> (q1 - be_id ` set n2) = {}"
      by blast
    have disj: "set new \<inter> queried = {}"
      using new(3) m1(6,7) sub(2) by blast
    have ids: "distinct (map be_id (ce_order ce nodes))" "set (map be_id (ce_order ce nodes)) = be_id ` set nodes"
      "length (ce_order ce nodes) \<le> ALPHA"
      using Suc.prems(7,8) by (simp_all add: order_okD [OF assms(1)])
    have "lookup_result target want my L result' L' (map be_id (ce_order ce nodes) @ new)"
      using new(1) L1(3) ids disj Suc.prems(9,10) by (auto simp: lookup_result_def)
    moreover have "length (map be_id (ce_order ce nodes) @ new) \<le> ALPHA * Suc i"
      using ids(3) new(2) by simp
    moreover have "set (map be_id (ce_order ce nodes) @ new) \<inter> (queried - be_id ` set nodes) = {}"
      using ids(2) disj by auto
    ultimately show ?thesis
      by blast
  qed
qed

text \<open>C26: an iterative node lookup is bounded and correct whatever the network does.  For every behaviour of
  the network, every random draw and every order in which parallel queries finish, a lookup asks at most
  nine nodes, no node twice and never itself; it returns at most as many nodes as wanted, in strictly
  increasing distance from the target, and leaves the node's invariant intact.\<close>

theorem find_nodes_bounded:
  assumes "order_ok ce" "lk_ok L" "valid_id target" "find_nodes ce target want L = (result, L')"
  shows "\<exists>new. lk_asked L' = lk_asked L @ new \<and> length new \<le> 9 \<and> distinct new \<and> dn_id (lk_node L) \<notin> set new \<and>
    length result \<le> want \<and> sorted_wrt (\<lambda>a b. distance (be_id a) target < distance (be_id b) target) result \<and>
    dht_inv (lk_node L')"
proof -
  let ?my = "dn_id (lk_node L)" and ?rt = "dn_table (lk_node L)"
  define closest where "closest = find_closest_nodes target want ?rt"
  define es where "es = filter (\<lambda>e. be_id e \<noteq> ?my \<and> be_status e \<noteq> Bad) closest"
  define result0 where "result0 = by_distance target es"
  have inv: "rt_inv ?rt"
    using assms(2) by (simp add: lk_ok_def dht_inv_def)
  obtain xs where xs: "closest = take want (sort_key (\<lambda>e. distance (be_id e) target) xs)" "set xs = set (all_entries ?rt)"
    "distinct (map be_id xs)"
    using find_closest_eq [OF inv assms(3)] unfolding closest_def by metis
  have closest: "closest = take want (by_distance target xs)"
    by (simp add: xs(1) by_distance_def)
  have "distinct (map be_id closest)"
    unfolding closest using xs(3) by (intro distinct_map_take) simp
  then have d: "distinct (map be_id es)"
    by (simp add: es_def distinct_map_filter)
  have "length closest \<le> want"
    by (simp add: closest)
  then have l: "length es \<le> want"
    unfolding es_def by (meson length_filter_le order_trans)
  have n: "\<forall>e\<in>set es. node_ok e \<and> be_id e \<noteq> ?my"
    using closest_node_ok [OF _ assms(3)] assms(2) by (auto simp: es_def closest_def lk_ok_def)
  note es = d l n
  have "sorted_wrt (\<lambda>a b. distance (be_id a) target < distance (be_id b) target) (take (length es) (by_distance target es))"
    using es assms(3) by (intro sorted_by_distance) (simp_all add: node_ok_def)
  then have sorted: "sorted_wrt (\<lambda>a b. distance (be_id a) target < distance (be_id b) target) result0"
    by (simp add: result0_def)
  have run: "find_nodes_rounds ce target want 3 result0 (take ALPHA result0) (be_id ` set (take ALPHA result0)) L = (result, L')"
    using assms(2,4) by (simp add: find_nodes_def lk_ok_def Let_def result0_def es_def closest_def)
  have r0: "distinct (map be_id result0)" "length result0 \<le> want" "\<forall>e\<in>set result0. node_ok e \<and> be_id e \<noteq> ?my"
    using es by (simp_all add: result0_def)
  have n0: "distinct (map be_id (take ALPHA result0))" "length (take ALPHA result0) \<le> ALPHA"
    "\<forall>e\<in>set (take ALPHA result0). node_ok e \<and> be_id e \<noteq> ?my"
    using r0 set_take_subset [of ALPHA result0] by (auto intro: distinct_map_take)
  obtain new where "lookup_result target want ?my L result L' new" "length new \<le> ALPHA * 3"
    using find_nodes_rounds_ok [OF assms(1,3,2) refl r0 sorted n0 order_refl run] by blast
  then show ?thesis
    by (auto simp: lookup_result_def lk_ok_def ALPHA_def)
qed


subsection \<open>Peer lookups\<close>

lemma read_get_peers_ok:
  assumes "read_get_peers ce info_hash node response L = (peers, nodes, ok, L')" "lk_ok L" "node_ok node"
  shows "lk_ok L' \<and> same_node L L' \<and> (\<forall>e\<in>set nodes. node_ok e)"
proof (cases "sum_bind (response_values response) (\<lambda>r. sum_bind (responder r) (\<lambda>i. Inr (r, i)))")
  case (Inl e)
  then show ?thesis
    using assms by (auto simp: read_get_peers_def same_node_def)
next
  case (Inr ri)
  obtain r i where ri: "ri = (r, i)"
    by (cases ri)
  have i: "valid_id i"
    using Inr ri by (auto simp: sum_bind_def dest: responder_valid split: sum.splits)
  have good: "lk_ok (insert_good ce i (be_endpoint node) L)" "same_node L (insert_good ce i (be_endpoint node) L)"
    using insert_good_ok [OF assms(2) i] assms(3) by (auto simp: node_ok_def)
  have token: "lk_ok (store_token now h ep t M) \<and> same_node M (store_token now h ep t M)" if "lk_ok M" for now h ep t M
    using that dht_inv_fields [of "lk_node (store_token now h ep t M)" "lk_node M"]
    by (simp add: store_token_def lk_ok_def same_node_def Let_def)
  have "(L' = insert_good ce i (be_endpoint node) L \<or>
      (\<exists>t. L' = store_token (ce_now ce) info_hash (be_endpoint node) t (insert_good ce i (be_endpoint node) L))) \<and>
    (nodes = [] \<or> (\<exists>now s. nodes = from_compact_node_info now s))"
    using assms(1) Inr ri
    by (auto simp: read_get_peers_def Let_def split: option.splits prod.splits if_splits)
  then show ?thesis
    using good token [OF good(1), of "ce_now ce" info_hash "be_endpoint node"] from_compact_nodes_valid
    by (auto simp: same_node_def node_ok_def)
qed

lemma get_peers_coro_ok:
  assumes "lk_ok L" "node_ok node" "get_peers_coro ce info_hash node (peers, nodes, L) = (peers', nodes', L')"
    and "\<forall>e\<in>set nodes. node_ok e"
  shows "lk_ok L' \<and> dn_id (lk_node L') = dn_id (lk_node L) \<and> lk_asked L' = lk_asked L @ [be_id node] \<and>
    (\<forall>e\<in>set nodes'. node_ok e)"
proof -
  obtain outcome L1 where k: "krpc ce (\<lambda>tid. create_get_peers_query tid (dn_id (lk_node L)) info_hash) (be_endpoint node)
      (asked node L) = (outcome, L1)"
    by (metis surj_pair)
  have "lk_ok (asked node L)"
    using assms(1) by (simp add: lk_ok_def)
  then have L1: "lk_ok L1" "dn_id (lk_node L1) = dn_id (lk_node L)" "lk_asked L1 = lk_asked L @ [be_id node]"
    using krpc_ok [OF k] by (simp_all add: same_node_def)
  show ?thesis
  proof (cases outcome)
    case (Response v)
    obtain ps ns ok L2 where r: "read_get_peers ce info_hash node v L1 = (ps, ns, ok, L2)"
      using prod_cases4 by blast
    note r2 = read_get_peers_ok [OF r L1(1) assms(2)]
    have "L' = (if ok then L2 else mark_bad ce (be_id node) L2)" "nodes' = nodes @ ns"
      using assms(1,3) k Response r by (auto simp: get_peers_coro_def async_defs lk_ok_def)
    then show ?thesis
      using r2 L1 assms(4) mark_bad_ok [of L2 ce "be_id node"] by (auto simp: same_node_def)
  qed (use assms k L1 mark_bad_ok [OF L1(1), of ce "be_id node"] in
      \<open>auto simp: get_peers_coro_def async_defs lk_ok_def same_node_def\<close>)
qed

lemma get_peers_fold_ok:
  assumes "fold (get_peers_coro ce info_hash) spawned (peers, nodes, L) = (peers', nodes', L')"
    and "lk_ok L" "\<forall>e\<in>set spawned. node_ok e" "\<forall>e\<in>set nodes. node_ok e"
  shows "lk_ok L' \<and> dn_id (lk_node L') = dn_id (lk_node L) \<and> lk_asked L' = lk_asked L @ map be_id spawned \<and>
    (\<forall>e\<in>set nodes'. node_ok e)"
  using assms
proof (induction spawned arbitrary: peers nodes L)
  case (Cons node spawned)
  obtain p1 n1 L1 where step: "get_peers_coro ce info_hash node (peers, nodes, L) = (p1, n1, L1)"
    using prod_cases3 by blast
  have one: "lk_ok L1 \<and> dn_id (lk_node L1) = dn_id (lk_node L) \<and> lk_asked L1 = lk_asked L @ [be_id node] \<and>
    (\<forall>e\<in>set n1. node_ok e)"
    using Cons.prems by (intro get_peers_coro_ok [OF _ _ step]) simp_all
  then show ?case
    using Cons.IH [of p1 n1 L1] Cons.prems step by simp
qed simp

lemma spawn_loop_ok:
  assumes "spawn_loop my i nodes queried = (spawned, queried')"
  shows "set spawned \<subseteq> set nodes \<and> distinct (map be_id spawned) \<and> my \<notin> be_id ` set spawned \<and> length spawned \<le> i \<and>
    (\<forall>e\<in>set spawned. be_id e \<notin> queried) \<and> queried' = queried \<union> be_id ` set spawned"
  using assms
proof (induction my i nodes queried arbitrary: spawned queried' rule: spawn_loop.induct)
  case (3 my i node nodes queried)
  show ?case
  proof (cases "be_id node = my \<or> be_id node \<in> queried")
    case True
    then show ?thesis
      using "3.IH"(1) [OF True, of spawned queried'] "3.prems" by auto
  next
    case False
    obtain sp q where s: "spawn_loop my i nodes (insert (be_id node) queried) = (sp, q)"
      by (metis surj_pair)
    then show ?thesis
      using "3.IH"(2) [OF False s] "3.prems" False by auto blast+
  qed
qed auto

lemma enqueue_nodes_set: "set (enqueue_nodes queried nodes) \<subseteq> set nodes"
proof -
  have "set (fold (\<lambda>n acc. if be_id n \<notin> be_id ` set acc \<and> be_id n \<notin> queried then acc @ [n] else acc) nodes acc)
      \<subseteq> set acc \<union> set nodes" for acc
  proof (induction nodes arbitrary: acc)
    case (Cons n nodes)
    then show ?case
      using Cons.IH [of acc] Cons.IH [of "acc @ [n]"] by (simp split: if_splits) blast+
  qed simp
  from this [of "[]"] show ?thesis
    by (simp add: enqueue_nodes_def)
qed

lemma add_peers_distinct: "distinct discovered \<Longrightarrow> distinct (add_peers peers discovered)"
proof -
  have "distinct acc \<Longrightarrow> distinct (fold (\<lambda>ep acc. if ep \<notin> set acc then acc @ [ep] else acc) peers acc)" for acc :: "endpoint list"
    by (induction peers arbitrary: acc) auto
  then show "distinct discovered \<Longrightarrow> ?thesis"
    by (simp add: add_peers_def)
qed

lemma known_loop_distinct: "distinct discovered \<Longrightarrow> known_loop now want ps discovered = (b, d) \<Longrightarrow> distinct d"
  by (induction now want ps discovered rule: known_loop.induct) (auto simp: Let_def split: if_splits)

lemma get_peers_rounds_ok:
  assumes "order_ok ce" "lk_ok L" "distinct discovered" "\<forall>e\<in>set nodes. node_ok e"
    and "get_peers_rounds ce info_hash want i discovered nodes queried L = (result, L')"
  shows "\<exists>new. lk_ok L' \<and> lk_asked L' = lk_asked L @ new \<and> distinct new \<and> dn_id (lk_node L) \<notin> set new \<and>
    length new \<le> ALPHA * i \<and> set new \<inter> queried = {} \<and> distinct result"
  using assms(2-)
proof (induction i arbitrary: discovered nodes queried L)
  case 0
  then show ?case
    by auto
next
  case (Suc i)
  show ?case
  proof (cases "nodes = [] \<or> length discovered > want")
    case True
    then show ?thesis
      using Suc.prems by auto
  next
    case False
    obtain sp q1 where sp: "spawn_loop (dn_id (lk_node L)) ALPHA nodes queried = (sp, q1)"
      by (metis surj_pair)
    note s = spawn_loop_ok [OF sp]
    obtain ps ns L1 where f: "fold (get_peers_coro ce info_hash) (ce_order ce sp) ([], [], L) = (ps, ns, L1)"
      using prod_cases3 by blast
    have L1: "lk_ok L1" "dn_id (lk_node L1) = dn_id (lk_node L)" "lk_asked L1 = lk_asked L @ map be_id (ce_order ce sp)"
      "\<forall>e\<in>set ns. node_ok e"
      using get_peers_fold_ok [OF f] Suc.prems(1,3) s order_okD(1) [OF assms(1), of sp] by auto
    define d1 n1 where "d1 = add_peers ps discovered" and "n1 = take ALPHA (by_distance info_hash (enqueue_nodes q1 ns))"
    have d1: "distinct d1"
      unfolding d1_def using Suc.prems(2) by (rule add_peers_distinct)
    have "set n1 \<subseteq> set ns"
      using set_take_subset [of ALPHA "by_distance info_hash (enqueue_nodes q1 ns)"]
      unfolding n1_def set_by_distance by (rule subset_trans [OF _ enqueue_nodes_set])
    then have n1: "\<forall>e\<in>set n1. node_ok e"
      using L1(4) by blast
    have run: "(if want \<le> length d1 then (d1, L1) else get_peers_rounds ce info_hash want i d1 n1 q1 L1) = (result, L')"
      using Suc.prems(1,4) False sp f unfolding d1_def n1_def by (auto simp: lk_ok_def Let_def)
    have ids: "distinct (map be_id (ce_order ce sp))" "set (map be_id (ce_order ce sp)) = be_id ` set sp"
      "length (map be_id (ce_order ce sp)) \<le> ALPHA"
      using s by (simp_all add: order_okD [OF assms(1)])
    show ?thesis
    proof (cases "want \<le> length d1")
      case True
      then show ?thesis
        using run L1 d1 ids s by (intro exI [of _ "map be_id (ce_order ce sp)"]) auto
    next
      case False
      then obtain new where new: "lk_ok L'" "lk_asked L' = lk_asked L1 @ new" "distinct new"
        "dn_id (lk_node L1) \<notin> set new" "length new \<le> ALPHA * i" "set new \<inter> q1 = {}" "distinct result"
        using Suc.IH [OF L1(1) d1 n1] run by auto
      then show ?thesis
        using L1 ids s by (intro exI [of _ "map be_id (ce_order ce sp) @ new"]) auto
    qed
  qed
qed

text \<open>a peer lookup is bounded and returns no duplicates whatever the network does: at most nine nodes are
  asked, none twice and never the node itself, the peers returned are distinct, and the node's invariant
  is kept.\<close>

theorem get_peers_bounded:
  assumes "order_ok ce" "lk_ok L" "valid_id info_hash" "get_peers ce info_hash want L = (result, L')"
  shows "distinct result \<and> dht_inv (lk_node L') \<and>
    (\<exists>new. lk_asked L' = lk_asked L @ new \<and> length new \<le> 9 \<and> distinct new \<and> dn_id (lk_node L) \<notin> set new)"
proof -
  obtain stop d where k: "(case map_of (dn_known_peers (lk_node L)) info_hash of
      None \<Rightarrow> (False, []) | Some peers \<Rightarrow> known_loop (ce_now ce) want peers []) = (stop, d)"
    by (metis surj_pair)
  then have d: "distinct d"
    using known_loop_distinct [of "[]"] by (auto split: option.splits)
  let ?closest = "find_closest_nodes info_hash want (dn_table (lk_node L))"
  have run: "(if stop \<or> rt_size (dn_table (lk_node L)) = 0 then (d, L)
      else get_peers_rounds ce info_hash want 3 d ?closest {} L) = (result, L')"
    using assms(2,4) k by (auto simp: get_peers_def lk_ok_def split: bool.splits)
  show ?thesis
  proof (cases "stop \<or> rt_size (dn_table (lk_node L)) = 0")
    case True
    then show ?thesis
      using run d assms(2) by (auto simp: lk_ok_def)
  next
    case False
    have "\<forall>e\<in>set ?closest. node_ok e"
      using closest_node_ok assms(2,3) by (auto simp: lk_ok_def)
    then show ?thesis
      using get_peers_rounds_ok [OF assms(1,2) d, of ?closest info_hash want 3 "{}"] run False
      by (auto simp: lk_ok_def ALPHA_def)
  qed
qed


subsection \<open>A client for the witnesses\<close>

text \<open>The network answers nothing, and the queries of a group finish in reverse order.\<close>

definition example_client :: client_env where
  "example_client = \<lparr> ce_env = example_env, ce_net = (\<lambda>_. TimedOut), ce_rng = (\<lambda>k. k), ce_order = rev \<rparr>"

definition example_lookup :: lookup where
  "example_lookup = \<lparr> lk_node = example_node, lk_next = 0, lk_asked = [] \<rparr>"

lemma example_client_ok: "order_ok example_client" "lk_ok example_lookup" "valid_id (replicate 20 5)"
  using dht_inv_example by (simp_all add: order_ok_def example_client_def lk_ok_def example_lookup_def valid_id_def)

theorem find_nodes_bounded_witness:
  "order_ok example_client \<and> lk_ok example_lookup \<and> valid_id (replicate 20 5 :: id20) \<and>
    length (fst (find_nodes example_client (replicate 20 5) 8 example_lookup)) \<le> 8 \<and>
    length (lk_asked (snd (find_nodes example_client (replicate 20 5) 8 example_lookup))) \<le> 9"
  using find_nodes_bounded [OF example_client_ok, of 8 "fst (find_nodes example_client (replicate 20 5) 8 example_lookup)"
      "snd (find_nodes example_client (replicate 20 5) 8 example_lookup)"] example_client_ok
  by (auto simp: example_lookup_def)

theorem get_peers_bounded_witness:
  "order_ok example_client \<and> lk_ok example_lookup \<and> valid_id (replicate 20 5 :: id20) \<and>
    distinct (fst (get_peers example_client (replicate 20 5) 8 example_lookup)) \<and>
    length (lk_asked (snd (get_peers example_client (replicate 20 5) 8 example_lookup))) \<le> 9"
  using get_peers_bounded [OF example_client_ok, of 8 "fst (get_peers example_client (replicate 20 5) 8 example_lookup)"
      "snd (get_peers example_client (replicate 20 5) 8 example_lookup)"] example_client_ok
  by (auto simp: example_lookup_def)

subsection \<open>Announcing and finding\<close>

text \<open>What a client takes from the datagram that answers its \<^verbatim>\<open>get_peers\<close> query.\<close>

definition reply_token :: "string \<Rightarrow> string option" where
  "reply_token data =
    (case decode data of
       Inl _ \<Rightarrow> None
     | Inr v \<Rightarrow> (case response_values v of
           Inl _ \<Rightarrow> None
         | Inr r \<Rightarrow> (case map_of r ''token'' of None \<Rightarrow> None | Some t \<Rightarrow> as_String t)))"

definition reply_peers :: "string \<Rightarrow> endpoint list" where
  "reply_peers data =
    (case decode data of
       Inl _ \<Rightarrow> []
     | Inr v \<Rightarrow> (case response_values v of
           Inl _ \<Rightarrow> []
         | Inr r \<Rightarrow> (case map_of r ''values'' of
               Some (List l) \<Rightarrow> fst (read_values l)
             | _ \<Rightarrow> [])))"

text \<open>What else happens at a node: datagrams of any sender, and passes of the clean-up loop.\<close>

datatype node_event = Datagram dht_env string endpoint | Cleanup int

fun handle_event :: "node_event \<Rightarrow> DHTNode \<Rightarrow> DHTNode" where
  "handle_event (Datagram env data remote) n = udp_receive env data remote n"
| "handle_event (Cleanup now) n = cleanup_pass now n"

text \<open>The events between the times \<open>t\<close> and \<open>t'\<close>.\<close>

fun event_within :: "int \<Rightarrow> int \<Rightarrow> node_event \<Rightarrow> bool" where
  "event_within t t' (Datagram env data remote) \<longleftrightarrow> t \<le> de_now env \<and> v4_endpoint remote"
| "event_within t t' (Cleanup now) \<longleftrightarrow> now < t'"

definition node_inv :: "DHTNode \<Rightarrow> bool" where
  "node_inv n \<longleftrightarrow> dht_inv n \<and> sorted_keys (dn_known_peers n) \<and> \<not> dn_shuting_down n"

definition keeps_peer :: "id20 \<Rightarrow> endpoint \<Rightarrow> int \<Rightarrow> DHTNode \<Rightarrow> bool" where
  "keeps_peer h ep t n \<longleftrightarrow> (\<exists>p\<in>set (peers_of h n). pi_endpoint p = ep \<and> t + PEER_STORAGE_LIFETIME \<le> pi_expiry p)"

lemma node_inv_receive:
  assumes "node_inv n" "v4_endpoint remote"
  shows "node_inv (udp_receive env data remote n)"
proof -
  define P where "P n \<longleftrightarrow> sorted_keys (dn_known_peers n) \<and> \<not> dn_shuting_down n" for n :: DHTNode
  have "P (udp_receive env data remote n)"
    by (rule udp_receive_keeps) (use assms(1) in \<open>simp_all add: P_def node_inv_def store_peer_def Let_def\<close>)
  then show ?thesis
    using assms dht_inv_receive by (simp add: P_def node_inv_def)
qed

lemma keeps_peer_receive:
  assumes "keeps_peer h ep t n" "t \<le> de_now env"
  shows "keeps_peer h ep t (udp_receive env data remote n)"
proof (rule udp_receive_keeps [where P = "keeps_peer h ep t"])
  fix n h' port
  assume "keeps_peer h ep t n"
  then show "keeps_peer h ep t (store_peer (de_now env) h' (fst remote, port) n)"
    using assms(2) by (auto simp: keeps_peer_def peers_of_store)
next
  fix n tid oc
  have "peers_of h (complete_pending tid oc n) = peers_of h n"
    by (simp add: peers_of_def)
  then show "keeps_peer h ep t n \<Longrightarrow> keeps_peer h ep t (complete_pending tid oc n)"
    by (simp add: keeps_peer_def)
qed (use assms(1) in \<open>simp_all add: keeps_peer_def\<close>)

lemma map_of_cleanup_peers:
  "distinct (map fst known) \<Longrightarrow> map_of (cleanup_peers now known) h =
    (case map_of known h of None \<Rightarrow> None
     | Some ps \<Rightarrow> let live = filter (\<lambda>p. \<not> pi_expiry p \<le> now) ps in if live = [] then None else Some live)"
proof (induction known)
  case (Cons x known)
  obtain k ps where x: "x = (k, ps)"
    by (cases x)
  have "map_of known k = None"
    using Cons.prems x by (simp add: map_of_eq_None_iff)
  then have "map_of (cleanup_peers now known) k = None"
    by (force simp: map_of_eq_None_iff cleanup_peers_def)
  then show ?case
    using Cons x by (auto simp: cleanup_peers_def Let_def)
qed (simp add: cleanup_peers_def)

lemma fold_complete_fields [simp]:
  "dn_known_peers (fold (\<lambda>q. complete q oc) qs n) = dn_known_peers n" "dn_table (fold (\<lambda>q. complete q oc) qs n) = dn_table n"
  "dn_id (fold (\<lambda>q. complete q oc) qs n) = dn_id n" "dn_shuting_down (fold (\<lambda>q. complete q oc) qs n) = dn_shuting_down n"
  by (induction qs arbitrary: n) simp_all

lemma peers_of_cleanup:
  assumes "node_inv n"
  shows "peers_of h (cleanup_pass now n) = filter (\<lambda>p. \<not> pi_expiry p \<le> now) (peers_of h n)"
  using assms map_of_cleanup_peers [OF sorted_keys_distinct, of "dn_known_peers n" now h]
  by (simp add: node_inv_def cleanup_pass_def Let_def peers_of_def split: option.split)

lemma sorted_keys_cleanup: "sorted_keys known \<Longrightarrow> sorted_keys (cleanup_peers now known)"
proof (induction known)
  case (Cons x known)
  have "fst ` set (cleanup_peers now known) \<subseteq> fst ` set known"
    by (force simp: cleanup_peers_def)
  then show ?case
    using Cons by (cases x) (auto simp: cleanup_peers_def)
qed (simp add: cleanup_peers_def)

lemma node_inv_cleanup:
  assumes "node_inv n"
  shows "node_inv (cleanup_pass now n)"
proof -
  have "dn_table (cleanup_pass now n) = dn_table n" "dn_id (cleanup_pass now n) = dn_id n"
    "dn_known_peers (cleanup_pass now n) = cleanup_peers now (dn_known_peers n)"
    "\<not> dn_shuting_down (cleanup_pass now n)"
    using assms by (simp_all add: cleanup_pass_def node_inv_def Let_def)
  then show ?thesis
    using assms peers_of_cleanup [OF assms] sorted_keys_cleanup by (auto simp: node_inv_def dht_inv_def)
qed

lemma events_keep:
  assumes "node_inv n" "keeps_peer h ep t n" "\<forall>e\<in>set es. event_within t (t + PEER_STORAGE_LIFETIME) e"
  shows "node_inv (fold handle_event es n) \<and> keeps_peer h ep t (fold handle_event es n)"
  using assms
proof (induction es arbitrary: n)
  case (Cons e es)
  have "node_inv (handle_event e n) \<and> keeps_peer h ep t (handle_event e n)"
  proof (cases e)
    case (Datagram env data remote)
    then show ?thesis
      using Cons.prems node_inv_receive keeps_peer_receive by simp
  next
    case (Cleanup now)
    then show ?thesis
      using Cons.prems node_inv_cleanup by (auto simp: keeps_peer_def peers_of_cleanup)
  qed
  then show ?case
    using Cons by simp
qed simp

lemma length_find_closest: "length (find_closest_nodes h k rt) \<le> k"
  by (simp add: find_closest_nodes_def Let_def)

lemma length_node_list: "\<forall>e\<in>set es. node_ok e \<Longrightarrow> length (concat (map node_bytes es)) = 26 * length es"
  by (induction es) (simp_all add: length_node_bytes node_ok_def)

lemma valid_get_peers_reply:
  assumes "dht_inv n" "valid_id h" "fits t"
  shows "valid_value (get_peers_reply env t h remote n)"
proof -
  let ?nodes = "find_closest_nodes h K (dn_table n)"
  have "\<forall>e\<in>set ?nodes. node_ok e"
    using closest_node_ok [OF assms(1,2)] by blast
  then have "length (concat (map node_bytes ?nodes)) = 26 * length ?nodes"
    by (rule length_node_list)
  then have "fits (string_of_bytes (concat (map node_bytes ?nodes)))"
    using length_find_closest [of h K "dn_table n"] by (intro fits_small) (simp add: K_def)
  moreover have "\<forall>v\<in>set (map (\<lambda>ep. String (string_of_bytes (peer_bytes ep))) (live_peers (de_now env) h n)). valid_value v"
    using assms(1) by (auto simp: live_peers_of dht_inv_def length_peer_bytes int64_max_def)
  ultimately show ?thesis
    using assms by (simp add: get_peers_reply_def Let_def valid_responses(3) [where n = "[]"] valid_responses(4) [where l = "[]"] dht_inv_def)
qed

lemma read_reply:
  assumes "dht_inv n" "valid_id h" "fits t"
  shows "reply_token (encode (get_peers_reply env t h remote n)) = Some (generate_token env remote)"
    "reply_peers (encode (get_peers_reply env t h remote n)) = live_peers (de_now env) h n"
proof -
  note dec = decode_of_encode [OF valid_get_peers_reply [OF assms, of env remote]]
  have "\<forall>ep\<in>set eps. v4_endpoint ep \<Longrightarrow>
      read_values (map (\<lambda>ep. String (string_of_bytes (peer_bytes ep))) eps) = (eps, True)" for eps
    by (induction eps) (simp_all add: from_compact_peer_bytes)
  moreover have "\<forall>ep\<in>set (live_peers (de_now env) h n). v4_endpoint ep"
    using assms(1) by (auto simp: live_peers_of dht_inv_def)
  ultimately show "reply_token (encode (get_peers_reply env t h remote n)) = Some (generate_token env remote)"
    "reply_peers (encode (get_peers_reply env t h remote n)) = live_peers (de_now env) h n"
    unfolding reply_token_def reply_peers_def dec
    by (auto simp: get_peers_reply_def Let_def response_eqs response_values_def sum_bind_def sum_some_def dict_get_def)
qed

lemma node_inv_seen: "node_inv n \<Longrightarrow> v4_endpoint remote \<Longrightarrow> valid_id i \<Longrightarrow> dht_inv (seen_sender env i remote n)"
  using insert_good_ok [of "\<lparr> lk_node = n, lk_next = 0, lk_asked = [] \<rparr>" i remote
      "\<lparr> ce_env = env, ce_net = \<lambda>_. TimedOut, ce_rng = \<lambda>_. 0, ce_order = \<lambda>xs. xs \<rparr>"]
  by (simp add: node_inv_def lk_ok_def seen_sender_def insert_good_def on_table_def)

text \<open>C8: a peer that announces itself is found.  An announcer asks a node for the peers of an info hash and
  gets a token; it announces itself with that token within the same ten-minute window.  Whatever
  datagrams arrive afterwards and whenever the clean-up runs, to every other node that asks within the
  next thirty minutes the node sends an answer that lists the announcer's address and port.  The queries have
  transaction ids of at most 400 bytes, and the system accepts the two answers for sending; addresses are IPv4.\<close>

theorem announced_peer_is_found:
  assumes "node_inv s" "v4_endpoint ra" "v4_endpoint rq" "valid_id a" "valid_id q" "valid_id h"
    and "length t1 \<le> 400" "length t2 \<le> 400" "length t3 \<le> 400" "\<And>data ep. de_send_ok env1 data ep" "\<And>data ep. de_send_ok env3 data ep"
    and "env2 = env1\<lparr> de_now := now2 \<rparr>" "now2 div minute div 10 = de_now env1 div minute div 10"
    and "\<forall>e\<in>set events. event_within now2 (now2 + PEER_STORAGE_LIFETIME) e" "de_now env3 < now2 + PEER_STORAGE_LIFETIME"
  defines "s1 \<equiv> udp_receive env1 (encode (create_get_peers_query t1 a h)) ra s"
  shows "\<exists>tok. reply_token (fst (last (dn_sent s1))) = Some tok \<and>
    (let s2 = udp_receive env2 (encode (create_announce_peer_query t2 a h port tok)) ra s1;
         s3 = fold handle_event events s2;
         s4 = udp_receive env3 (encode (create_get_peers_query t3 q h)) rq s3
     in snd (last (dn_sent s4)) = rq \<and> (fst ra, port) \<in> set (reply_peers (fst (last (dn_sent s4)))))"
proof -
  let ?tok = "generate_token env1 ra"
  have fit: "fits t1" "fits t2" "fits t3"
    using assms(7-9) by (simp_all add: fits_small)
  have token: "generate_token env2 ra = ?tok"
    using assms(12,13) by (simp add: generate_token_def Let_def ANNOUNCE_TOKEN_LIFETIME_def)
  have s: "\<not> dn_shuting_down s" and seen: "dht_inv (seen_sender env1 a ra s)"
    using assms(1,2,4) node_inv_seen by (auto simp: node_inv_def)
  have "last (dn_sent s1) = (encode (get_peers_reply env1 t1 h ra (seen_sender env1 a ra s)), ra)"
    unfolding s1_def get_peers_step [OF s assms(4,6) fit(1) seen short_queries(1) [OF assms(7,4,6)]] using assms(10) by (simp add: Let_def)
  then have tok: "reply_token (fst (last (dn_sent s1))) = Some ?tok"
    using read_reply(1) [OF seen assms(6) fit(1)] by simp
  have s1: "node_inv s1"
    unfolding s1_def using assms(1,2) by (rule node_inv_receive)
  define s2 where "s2 = udp_receive env2 (encode (create_announce_peer_query t2 a h port ?tok)) ra s1"
  define s3 where "s3 = fold handle_event events s2"
  define s4 where "s4 = udp_receive env3 (encode (create_get_peers_query t3 q h)) rq s3"
  have "node_inv s2"
    unfolding s2_def using s1 assms(2) by (rule node_inv_receive)
  moreover have "keeps_peer h (fst ra, port) now2 s2"
    unfolding s2_def token [symmetric] using s1 assms(4,6,8,12) fit(2)
    by (subst announce_step) (simp_all add: short_queries(2) length_token Let_def keeps_peer_def peers_of_store node_inv_def)
  ultimately have s3: "node_inv s3" "keeps_peer h (fst ra, port) now2 s3"
    unfolding s3_def using events_keep assms(14) by blast+
  then have s3': "\<not> dn_shuting_down s3" and seen3: "dht_inv (seen_sender env3 q rq s3)"
    using assms(3,5) node_inv_seen by (auto simp: node_inv_def)
  have "last (dn_sent s4) = (encode (get_peers_reply env3 t3 h rq (seen_sender env3 q rq s3)), rq)"
    unfolding s4_def get_peers_step [OF s3' assms(5,6) fit(3) seen3 short_queries(1) [OF assms(9,5,6)]] using assms(11) by (simp add: Let_def)
  moreover have "(fst ra, port) \<in> set (live_peers (de_now env3) h (seen_sender env3 q rq s3))"
    using s3(2) assms(15) by (force simp: live_peers_of keeps_peer_def)
  ultimately have "snd (last (dn_sent s4)) = rq \<and> (fst ra, port) \<in> set (reply_peers (fst (last (dn_sent s4))))"
    using read_reply(2) [OF seen3 assms(6) fit(3)] by simp
  then show ?thesis
    using tok by (simp add: s2_def s3_def s4_def)
qed


theorem announced_peer_is_found_witness:
  "node_inv example_node \<and>
    (let ra = (V4 [1, 2, 3, 4], 9999); h = replicate 20 5;
         s1 = udp_receive example_env (encode (create_get_peers_query ''aa'' (replicate 20 1) h)) ra example_node
     in \<exists>tok. reply_token (fst (last (dn_sent s1))) = Some tok \<and>
       (let s2 = udp_receive (example_env\<lparr> de_now := 5 \<rparr>) (encode (create_announce_peer_query ''bb'' (replicate 20 1) h 6881 tok)) ra s1;
            s4 = udp_receive (example_env\<lparr> de_now := 7 \<rparr>) (encode (create_get_peers_query ''cc'' (replicate 20 3) h))
              (V4 [5, 6, 7, 8], 1) (cleanup_pass 6 s2)
        in (V4 [1, 2, 3, 4], 6881) \<in> set (reply_peers (fst (last (dn_sent s4))))))"
proof -
  have inv: "node_inv example_node"
    using dht_inv_example by (simp add: node_inv_def example_node_def new_dht_node_def)
  show ?thesis
    using announced_peer_is_found [OF inv, where ra = "(V4 [1, 2, 3, 4], 9999)" and rq = "(V4 [5, 6, 7, 8], 1)"
        and a = "replicate 20 1" and q = "replicate 20 3" and h = "replicate 20 5" and ?t1.0 = "''aa''" and ?t2.0 = "''bb''"
        and ?t3.0 = "''cc''" and ?env1.0 = example_env and ?env2.0 = "example_env\<lparr> de_now := 5 \<rparr>" and ?now2.0 = 5
        and events = "[Cleanup 6]" and ?env3.0 = "example_env\<lparr> de_now := 7 \<rparr>" and port = 6881] inv
    by (auto simp: v4_endpoint_def valid_id_def int64_max_def minute_def PEER_STORAGE_LIFETIME_def example_env_def Let_def
        del: encode.simps)
qed

end
