(* ===== verification/RateLimiter.thy ===== *)
theory RateLimiter
  imports Prelude "HOL-Library.Multiset"
begin

text \<open>
  The token bucket of \<^verbatim>\<open>AsyncRateLimiter.hpp\<close> that every upload and download waits on. The state
  is that of \<^verbatim>\<open>State\<close>; its \<^verbatim>\<open>steady_timer\<close> is modelled by what the code can observe of it: whether
  a wait is armed, how many waits have run out or were cancelled while their handler has not run
  yet. \<^verbatim>\<open>on_refill\<close> gives up the lock before it starts the next wait, so that second half is an event
  of its own (\<open>Reschedule\<close>) and any other call may come in between.

  A completion handler is a value of type \<open>'h\<close>; every operation returns the handlers it invokes,
  each with its amount and whether it is invoked without an error.

  The lemmas show that the granted bytes never exceed the capacity plus what the refills add, that
  every handler is invoked exactly once or is still queued, and that the queue drains as long as no
  request exceeds the capacity.
\<close>

subsection \<open>State\<close>

record 'h limiter =
  rl_rate :: u64
  rl_capacity :: u64
  rl_tokens :: u64
  rl_refill_active :: bool
  rl_shutting_down :: bool
  rl_waiters :: "(u64 \<times> 'h) list"
  rl_armed :: bool
  rl_expired :: nat
  rl_aborted :: nat
  rl_reschedules :: nat

text \<open>A handler that is invoked: its amount, itself, and whether the error code is clear.\<close>

type_synonym 'h completion = "u64 \<times> 'h \<times> bool"

definition new_limiter :: "u64 \<Rightarrow> u64 \<Rightarrow> 'h limiter" where
  "new_limiter rate_bps capacity_factor =
    \<lparr> rl_rate = rate_bps, rl_capacity = rate_bps * capacity_factor,
      rl_tokens = rate_bps * capacity_factor, rl_refill_active = False, rl_shutting_down = False,
      rl_waiters = [], rl_armed = False, rl_expired = 0, rl_aborted = 0, rl_reschedules = 0 \<rparr>"

subsection \<open>Operations\<close>

text \<open>\<^verbatim>\<open>steady_timer::cancel\<close>: a pending wait is going to complete with \<^verbatim>\<open>operation_aborted\<close>; one that
  has run out already is not affected.\<close>

definition cancel_timer :: "'h limiter \<Rightarrow> 'h limiter" where
  "cancel_timer st =
    (if rl_armed st then st\<lparr>rl_armed := False, rl_aborted := rl_aborted st + 1\<rparr> else st)"

text \<open>\<^verbatim>\<open>expires_after\<close> cancels a pending wait, then \<^verbatim>\<open>async_wait\<close> starts the new one.\<close>

definition schedule_refill :: "'h limiter \<Rightarrow> 'h limiter" where
  "schedule_refill st = (cancel_timer st)\<lparr>rl_armed := True\<rparr>"

definition maybe_start_refill_locked :: "'h limiter \<Rightarrow> 'h limiter" where
  "maybe_start_refill_locked st =
    (if rl_shutting_down st \<or> rl_refill_active st \<or> rl_rate st = 0 then st
     else schedule_refill (st\<lparr>rl_refill_active := True\<rparr>))"

fun collect_waiters :: "u64 \<Rightarrow> (u64 \<times> 'h) list \<Rightarrow> u64 \<times> (u64 \<times> 'h) list \<times> 'h completion list" where
  "collect_waiters tokens [] = (tokens, [], [])"
| "collect_waiters tokens ((amount, h) # ws) =
    (if amount \<le> tokens
     then (let (t, rest, ready) = collect_waiters (tokens - amount) ws
           in (t, rest, (amount, h, True) # ready))
     else (tokens, (amount, h) # ws, []))"

definition collect_ready_waiters_locked :: "'h limiter \<Rightarrow> 'h limiter \<times> 'h completion list" where
  "collect_ready_waiters_locked st =
    (let (t, rest, ready) = collect_waiters (rl_tokens st) (rl_waiters st)
     in (st\<lparr>rl_tokens := t, rl_waiters := rest\<rparr>, ready))"

definition await_tokens :: "u64 \<Rightarrow> 'h \<Rightarrow> 'h limiter \<Rightarrow> 'h limiter \<times> 'h completion list" where
  "await_tokens amount h st =
    (if rl_shutting_down st then (st, [(amount, h, False)])
     else if rl_rate st = 0 then (st, [(amount, h, True)])
     else
       (let st = maybe_start_refill_locked st
        in if amount \<le> rl_tokens st
           then (st\<lparr>rl_tokens := rl_tokens st - amount\<rparr>, [(amount, h, True)])
           else (st\<lparr>rl_waiters := rl_waiters st @ [(amount, h)]\<rparr>, [])))"

definition set_rate :: "u64 \<Rightarrow> 'h limiter \<Rightarrow> 'h limiter \<times> 'h completion list" where
  "set_rate bps st =
    (if rl_shutting_down st then (st, [])
     else
       (let st = st\<lparr>rl_rate := bps, rl_capacity := bps\<rparr>
        in if bps = 0
           then (cancel_timer (st\<lparr>rl_tokens := - 1, rl_refill_active := False, rl_waiters := []\<rparr>),
                 map (\<lambda>(amount, h). (amount, h, True)) (rl_waiters st))
           else collect_ready_waiters_locked
                  (maybe_start_refill_locked (st\<lparr>rl_tokens := min (rl_tokens st) bps\<rparr>))))"

definition stop_limiter :: "'h limiter \<Rightarrow> 'h limiter \<times> 'h completion list" where
  "stop_limiter st =
    (if rl_shutting_down st then (st, [])
     else (cancel_timer (st\<lparr>rl_shutting_down := True, rl_refill_active := False, rl_waiters := []\<rparr>),
           map (\<lambda>(amount, h). (amount, h, False)) (rl_waiters st)))"

text \<open>The tokens of one interval of 100 milliseconds. The code computes in \<^verbatim>\<open>long double\<close> and truncates,
  which is exact as long as \<open>100 * rate\<close> fits its 64-bit significand.\<close>

definition refill_amount :: "u64 \<Rightarrow> u64" where
  "refill_amount rate = of_nat (unat rate * 100 div 1000)"

text \<open>\<^verbatim>\<open>on_refill\<close> up to the end of its critical section. A cancelled or failed wait only clears the
  flag.\<close>

datatype wait_result = WaitDone | WaitAborted | WaitFailed

definition on_refill :: "wait_result \<Rightarrow> 'h limiter \<Rightarrow> 'h limiter \<times> 'h completion list" where
  "on_refill ec st =
    (if ec = WaitAborted then (st\<lparr>rl_refill_active := False\<rparr>, [])
     else if ec = WaitFailed then (st\<lparr>rl_refill_active := False\<rparr>, [])
     else if rl_shutting_down st then (st\<lparr>rl_refill_active := False\<rparr>, [])
     else
       (let st = st\<lparr>rl_tokens := min (rl_tokens st + refill_amount (rl_rate st)) (rl_capacity st)\<rparr>;
            (st, ready) = collect_ready_waiters_locked st
        in if 0 < rl_rate st then (st\<lparr>rl_reschedules := rl_reschedules st + 1\<rparr>, ready)
           else (st\<lparr>rl_refill_active := False\<rparr>, ready)))"

subsection \<open>Events\<close>

text \<open>What can happen to a limiter, in any order: the three calls, a wait that runs out or fails, the
  handler of a wait that ran out or was cancelled, and the end of an earlier \<^verbatim>\<open>on_refill\<close>. An event
  that is not enabled changes nothing.\<close>

datatype 'h event = Await u64 'h | SetRate u64 | Stop | Expire | Fail | Refill | Abort | Reschedule

fun limiter_event :: "'h event \<Rightarrow> 'h limiter \<Rightarrow> 'h limiter \<times> 'h completion list" where
  "limiter_event (Await amount h) st = await_tokens amount h st"
| "limiter_event (SetRate bps) st = set_rate bps st"
| "limiter_event Stop st = stop_limiter st"
| "limiter_event Expire st =
    ((if rl_armed st then st\<lparr>rl_armed := False, rl_expired := rl_expired st + 1\<rparr> else st), [])"
| "limiter_event Fail st =
    (if rl_armed st then on_refill WaitFailed (st\<lparr>rl_armed := False\<rparr>) else (st, []))"
| "limiter_event Refill st =
    (if rl_expired st = 0 then (st, [])
     else on_refill WaitDone (st\<lparr>rl_expired := rl_expired st - 1\<rparr>))"
| "limiter_event Abort st =
    (if rl_aborted st = 0 then (st, [])
     else on_refill WaitAborted (st\<lparr>rl_aborted := rl_aborted st - 1\<rparr>))"
| "limiter_event Reschedule st =
    ((if rl_reschedules st = 0 then st
      else schedule_refill (st\<lparr>rl_reschedules := rl_reschedules st - 1\<rparr>)), [])"

fun limiter_run :: "'h event list \<Rightarrow> 'h limiter \<Rightarrow> 'h limiter \<times> 'h completion list" where
  "limiter_run [] st = (st, [])"
| "limiter_run (e # es) st =
    (let (st, done1) = limiter_event e st; (st, done2) = limiter_run es st in (st, done1 @ done2))"

text \<open>The bytes a list of completions lets through, and the handlers a list of events brings in.\<close>

definition granted :: "'h completion list \<Rightarrow> nat" where
  "granted cs = sum_list (map (\<lambda>(a, h, ok). if ok then unat a else 0) cs)"

fun awaited :: "'h event list \<Rightarrow> (u64 \<times> 'h) list" where
  "awaited [] = []"
| "awaited (Await a h # es) = (a, h) # awaited es"
| "awaited (_ # es) = awaited es"

definition served :: "'h completion list \<Rightarrow> (u64 \<times> 'h) list" where
  "served cs = map (\<lambda>(a, h, ok). (a, h)) cs"

fun refills :: "'h event list \<Rightarrow> nat" where
  "refills [] = 0"
| "refills (Refill # es) = Suc (refills es)"
| "refills (_ # es) = refills es"

subsection \<open>Lemmas: the parts\<close>

lemma granted_simps [simp]:
  "granted [] = 0"
  "granted ((a, h, ok) # cs) = (if ok then unat a else 0) + granted cs"
  "granted (cs @ ds) = granted cs + granted ds"
  by (simp_all add: granted_def)

lemma served_simps [simp]:
  "served [] = []"
  "served ((a, h, ok) # cs) = (a, h) # served cs"
  "served (cs @ ds) = served cs @ served ds"
  "served (map (\<lambda>(a, h). (a, h, ok)) ws) = ws"
  by (simp_all add: served_def case_prod_beta comp_def)

lemma unat_minus_le: "(a::'a::len word) \<le> b \<Longrightarrow> unat (b - a) = unat b - unat a"
  by (simp add: unat_sub)

lemma collect_waiters_served:
  "collect_waiters t0 ws = (t, rest, ready) \<Longrightarrow> served ready @ rest = ws"
  by (induction t0 ws arbitrary: t rest ready rule: collect_waiters.induct)
    (auto split: if_splits prod.splits)

lemma collect_waiters_ok:
  "collect_waiters t0 ws = (t, rest, ready) \<Longrightarrow> \<forall>(a, h, ok) \<in> set ready. ok"
  by (induction t0 ws arbitrary: t rest ready rule: collect_waiters.induct)
    (fastforce split: if_splits prod.splits)+

lemma collect_waiters_head:
  "collect_waiters t0 ws = (t, rest, ready) \<Longrightarrow> rest \<noteq> [] \<Longrightarrow> t < fst (hd rest)"
  by (induction t0 ws arbitrary: t rest ready rule: collect_waiters.induct)
    (auto split: if_splits prod.splits)

lemma collect_waiters_granted:
  "collect_waiters t0 ws = (t, rest, ready) \<Longrightarrow> granted ready + unat t = unat t0"
proof (induction t0 ws arbitrary: t rest ready rule: collect_waiters.induct)
  case (2 tokens amount h ws)
  show ?case
  proof (cases "amount \<le> tokens")
    case True
    then obtain ready' where c: "collect_waiters (tokens - amount) ws = (t, rest, ready')"
      and r: "ready = (amount, h, True) # ready'"
      using "2.prems" by (auto split: prod.splits)
    have "granted ready' + unat t = unat tokens - unat amount"
      using "2.IH" [OF True c] True by (simp add: unat_minus_le)
    moreover have "unat amount \<le> unat tokens"
      using True by (simp add: word_le_nat_alt)
    ultimately show ?thesis
      by (simp add: r)
  qed (use "2.prems" in auto)
qed simp

lemmas collect_waiters_spec =
  collect_waiters_granted collect_waiters_served collect_waiters_ok collect_waiters_head

lemma timer_only [simp]:
  "rl_tokens (cancel_timer st) = rl_tokens st" "rl_waiters (cancel_timer st) = rl_waiters st"
  "rl_rate (cancel_timer st) = rl_rate st" "rl_capacity (cancel_timer st) = rl_capacity st"
  "rl_shutting_down (cancel_timer st) = rl_shutting_down st"
  "rl_refill_active (cancel_timer st) = rl_refill_active st"
  "\<not> rl_armed (cancel_timer st)"
  "rl_tokens (schedule_refill st) = rl_tokens st" "rl_waiters (schedule_refill st) = rl_waiters st"
  "rl_rate (schedule_refill st) = rl_rate st" "rl_capacity (schedule_refill st) = rl_capacity st"
  "rl_shutting_down (schedule_refill st) = rl_shutting_down st"
  "rl_refill_active (schedule_refill st) = rl_refill_active st"
  "rl_armed (schedule_refill st)"
  by (simp_all add: cancel_timer_def schedule_refill_def)

lemma maybe_start_only [simp]:
  "rl_tokens (maybe_start_refill_locked st) = rl_tokens st"
  "rl_waiters (maybe_start_refill_locked st) = rl_waiters st"
  "rl_rate (maybe_start_refill_locked st) = rl_rate st"
  "rl_capacity (maybe_start_refill_locked st) = rl_capacity st"
  "rl_shutting_down (maybe_start_refill_locked st) = rl_shutting_down st"
  by (simp_all add: maybe_start_refill_locked_def)

lemma collect_ready_spec:
  assumes "collect_ready_waiters_locked st = (st', ready)"
  shows "granted ready + unat (rl_tokens st') = unat (rl_tokens st)"
    "served ready @ rl_waiters st' = rl_waiters st"
    "rl_waiters st' \<noteq> [] \<Longrightarrow> rl_tokens st' < fst (hd (rl_waiters st'))"
    "\<exists>t ws. st' = st\<lparr>rl_tokens := t, rl_waiters := ws\<rparr>"
    "\<forall>(a, h, ok) \<in> set ready. ok"
proof -
  obtain t rest where c: "collect_waiters (rl_tokens st) (rl_waiters st) = (t, rest, ready)"
    and st': "st' = st\<lparr>rl_tokens := t, rl_waiters := rest\<rparr>"
    using assms by (auto simp: collect_ready_waiters_locked_def split: prod.splits)
  note s = collect_waiters_spec [OF c]
  show "granted ready + unat (rl_tokens st') = unat (rl_tokens st)"
    "served ready @ rl_waiters st' = rl_waiters st"
    "\<forall>(a, h, ok) \<in> set ready. ok"
    using s(1,2,3) by (simp_all add: st')
  show "rl_tokens st' < fst (hd (rl_waiters st'))" if "rl_waiters st' \<noteq> []"
    using s(4) that by (simp add: st')
  show "\<exists>t ws. st' = st\<lparr>rl_tokens := t, rl_waiters := ws\<rparr>"
    using st' by blast
qed

lemma unat_refill_amount: "unat (refill_amount r) = unat r div 10"
proof -
  have "unat r div 10 < 2 ^ 64"
    using unat_bound [of r] by simp
  moreover have "unat r * 100 div 1000 = unat r div 10"
    by simp
  ultimately show ?thesis
    by (simp add: refill_amount_def unat_of_nat_small)
qed

lemma limiter_run_append:
  "limiter_run (es @ fs) st =
    (let (st1, d1) = limiter_run es st; (st2, d2) = limiter_run fs st1 in (st2, d1 @ d2))"
  by (induction es arbitrary: st) (auto split: prod.splits)

lemma limiter_run_ConsE:
  assumes "limiter_run (e # es) st = (st', cs)"
  obtains st1 d1 d2 where "limiter_event e st = (st1, d1)" "limiter_run es st1 = (st', d2)"
    "cs = d1 @ d2"
proof -
  obtain st1 d1 where e: "limiter_event e st = (st1, d1)"
    by (cases "limiter_event e st")
  moreover obtain st2 d2 where r: "limiter_run es st1 = (st2, d2)"
    by (cases "limiter_run es st1")
  ultimately show thesis
    using assms that by simp
qed

subsection \<open>Lemmas: every handler is invoked once\<close>

lemma set_rate_handlers:
  assumes "set_rate bps st = (st', cs)"
  shows "served cs @ rl_waiters st' = rl_waiters st"
proof -
  consider "rl_shutting_down st" | "\<not> rl_shutting_down st" "bps = 0" | "\<not> rl_shutting_down st" "bps \<noteq> 0"
    by blast
  then show ?thesis
  proof cases
    case 3
    then have "collect_ready_waiters_locked (maybe_start_refill_locked
        (st\<lparr>rl_rate := bps, rl_capacity := bps, rl_tokens := min (rl_tokens st) bps\<rparr>)) = (st', cs)"
      using assms by (simp add: set_rate_def Let_def)
    from collect_ready_spec(2) [OF this] show ?thesis
      by simp
  qed (use assms in \<open>simp_all add: set_rate_def Let_def, auto\<close>)
qed

lemma on_refill_handlers:
  assumes "on_refill ec st = (st', cs)"
  shows "served cs @ rl_waiters st' = rl_waiters st"
proof (cases "ec = WaitDone \<and> \<not> rl_shutting_down st")
  case True
  let ?st = "st\<lparr>rl_tokens := min (rl_tokens st + refill_amount (rl_rate st)) (rl_capacity st)\<rparr>"
  obtain st1 ready where c: "collect_ready_waiters_locked ?st = (st1, ready)"
    by fastforce
  then have "rl_waiters st' = rl_waiters st1" "cs = ready"
    using assms True by (auto simp: on_refill_def split: if_splits)
  with collect_ready_spec(2) [OF c] show ?thesis
    by simp
next
  case False
  then show ?thesis
    using assms by (cases ec) (auto simp: on_refill_def split: if_splits)
qed

lemma on_refill_mset:
  "on_refill ec st = (st', cs) \<Longrightarrow> mset (served cs) + mset (rl_waiters st') = mset (rl_waiters st)"
  using on_refill_handlers by (metis mset_append)

lemma await_handlers:
  assumes "await_tokens a h st = (st', cs)"
  shows "mset (served cs @ rl_waiters st') = add_mset (a, h) (mset (rl_waiters st))"
  using assms by (auto simp: await_tokens_def Let_def split: if_splits)

lemma event_handlers:
  assumes "limiter_event e st = (st', cs)"
  shows "mset (served cs @ rl_waiters st') = mset (rl_waiters st) + mset (awaited [e])"
proof (cases e)
  case (Await a h)
  then show ?thesis using assms await_handlers by fastforce
next
  case (SetRate bps)
  then show ?thesis using assms set_rate_handlers [of bps st st' cs] by simp
next
  case Stop
  then show ?thesis using assms by (auto simp: stop_limiter_def split: if_splits)
next
  case Fail
  then show ?thesis using assms by (auto dest: on_refill_mset split: if_splits)
next
  case Refill
  then show ?thesis using assms by (auto dest: on_refill_mset split: if_splits)
next
  case Abort
  then show ?thesis using assms by (auto dest: on_refill_mset split: if_splits)
qed (use assms in auto)

lemma awaited_Cons: "mset (awaited (e # es)) = mset (awaited [e]) + mset (awaited es)"
  by (cases e) auto

lemma run_handlers:
  "limiter_run es st = (st', cs) \<Longrightarrow>
    mset (served cs @ rl_waiters st') = mset (rl_waiters st) + mset (awaited es)"
proof (induction es arbitrary: st cs)
  case (Cons e es)
  obtain st1 d1 d2 where e: "limiter_event e st = (st1, d1)"
    and r: "limiter_run es st1 = (st', d2)" and cs: "cs = d1 @ d2"
    using Cons.prems by (rule limiter_run_ConsE)
  show ?case
    unfolding awaited_Cons [of e es] cs using event_handlers [OF e] Cons.IH [OF r]
    by (simp add: ac_simps)
qed auto

subsection \<open>Lemmas: the budget\<close>

text \<open>The tokens are the balance: what an event lets through is paid from it, and only a refill adds
  to it.\<close>

definition positive_rates :: "nat \<Rightarrow> 'h event list \<Rightarrow> bool" where
  "positive_rates R es \<longleftrightarrow> (\<forall>r. SetRate r \<in> set es \<longrightarrow> r \<noteq> 0 \<and> unat r \<le> R)"

definition rate_inv :: "nat \<Rightarrow> nat \<Rightarrow> 'h limiter \<Rightarrow> bool" where
  "rate_inv K R st \<longleftrightarrow> rl_rate st \<noteq> 0 \<and> unat (rl_rate st) \<le> R \<and> R \<le> K \<and> unat (rl_capacity st) \<le> K \<and>
     unat (rl_tokens st) \<le> K"

lemma granted_aborted [simp]: "granted (map (\<lambda>(a, h). (a, h, False)) ws) = 0"
  by (induction ws) auto

lemma on_refill_budget:
  assumes "on_refill ec st = (st', cs)" "rate_inv K R st"
  shows "granted cs + unat (rl_tokens st') \<le> unat (rl_tokens st) + R div 10" "rate_inv K R st'"
    "ec \<noteq> WaitDone \<Longrightarrow> granted cs = 0 \<and> rl_tokens st' = rl_tokens st"
proof -
  let ?st = "st\<lparr>rl_tokens := min (rl_tokens st + refill_amount (rl_rate st)) (rl_capacity st)\<rparr>"
  have "(granted cs + unat (rl_tokens st') \<le> unat (rl_tokens st) + R div 10 \<and> rate_inv K R st') \<and>
    (ec \<noteq> WaitDone \<longrightarrow> granted cs = 0 \<and> rl_tokens st' = rl_tokens st)"
  proof (cases "ec = WaitDone \<and> \<not> rl_shutting_down st")
    case True
    obtain st1 ready where c: "collect_ready_waiters_locked ?st = (st1, ready)"
      by fastforce
    obtain t ws where st1: "st1 = ?st\<lparr>rl_tokens := t, rl_waiters := ws\<rparr>"
      using collect_ready_spec(4) [OF c] by blast
    have st': "rl_tokens st' = t" "cs = ready" "rl_rate st' = rl_rate st" "rl_capacity st' = rl_capacity st"
      using assms(1) True c by (auto simp: on_refill_def st1 split: if_splits)
    have sum: "granted ready + unat t
        = unat (min (rl_tokens st + refill_amount (rl_rate st)) (rl_capacity st))"
      using collect_ready_spec(1) [OF c] by (simp add: st1)
    have "unat (rl_tokens st + refill_amount (rl_rate st)) \<le> unat (rl_tokens st) + unat (rl_rate st) div 10"
      by (metis mod_less_eq_dividend unat_refill_amount unat_word_ariths(1))
    moreover have "unat (rl_rate st) div 10 \<le> R div 10"
      using assms(2) by (intro div_le_mono) (simp add: rate_inv_def)
    ultimately have "unat (min (rl_tokens st + refill_amount (rl_rate st)) (rl_capacity st))
        \<le> unat (rl_tokens st) + R div 10"
      by (auto simp: min_def word_le_nat_alt)
    moreover have "unat (min (rl_tokens st + refill_amount (rl_rate st)) (rl_capacity st)) \<le> K"
      using assms(2) by (auto simp: min_def rate_inv_def word_le_nat_alt)
    ultimately show ?thesis
      using True sum assms(2) by (auto simp: st' rate_inv_def)
  next
    case False
    then show ?thesis
      using assms by (cases ec) (auto simp: on_refill_def rate_inv_def split: if_splits)
  qed
  then show "granted cs + unat (rl_tokens st') \<le> unat (rl_tokens st) + R div 10" "rate_inv K R st'"
    "ec \<noteq> WaitDone \<Longrightarrow> granted cs = 0 \<and> rl_tokens st' = rl_tokens st"
    by auto
qed

lemma set_rate_budget:
  assumes "set_rate bps st = (st', cs)" "rate_inv K R st" "bps \<noteq> 0" "unat bps \<le> R"
  shows "granted cs + unat (rl_tokens st') \<le> unat (rl_tokens st) \<and> rate_inv K R st'"
proof (cases "rl_shutting_down st")
  case False
  let ?st = "maybe_start_refill_locked
        (st\<lparr>rl_rate := bps, rl_capacity := bps, rl_tokens := min (rl_tokens st) bps\<rparr>)"
  have c: "collect_ready_waiters_locked ?st = (st', cs)"
    using assms(1,3) False by (simp add: set_rate_def Let_def)
  obtain t ws where st': "st' = ?st\<lparr>rl_tokens := t, rl_waiters := ws\<rparr>"
    using collect_ready_spec(4) [OF c] by blast
  have "granted cs + unat t = unat (min (rl_tokens st) bps)"
    using collect_ready_spec(1) [OF c] by (simp add: st')
  moreover have "unat (min (rl_tokens st) bps) \<le> unat (rl_tokens st)"
    by (simp add: min_def word_le_nat_alt)
  ultimately show ?thesis
    using assms(2-4) by (auto simp: st' rate_inv_def)
qed (use assms in \<open>auto simp: set_rate_def\<close>)

lemma event_budget:
  assumes "limiter_event e st = (st', cs)" "rate_inv K R st" "positive_rates R [e]"
  shows "granted cs + unat (rl_tokens st') \<le> unat (rl_tokens st) + refills [e] * (R div 10) \<and>
    rate_inv K R st'"
proof (cases e)
  case (Await a h)
  then show ?thesis
    using assms(1,2)
    by (auto simp: await_tokens_def rate_inv_def Let_def unat_minus_le word_le_nat_alt split: if_splits)
next
  case (SetRate bps)
  then show ?thesis
    using assms set_rate_budget [of bps st st' cs K R] by (simp add: positive_rates_def)
next
  case Stop
  then show ?thesis
    using assms(1,2) by (auto simp: stop_limiter_def rate_inv_def split: if_splits)
next
  case Expire
  then show ?thesis
    using assms(1,2) by (auto simp: rate_inv_def split: if_splits)
next
  case Fail
  then show ?thesis
    using assms(1,2) on_refill_budget(2,3) [of WaitFailed "st\<lparr>rl_armed := False\<rparr>" st' cs K R]
    by (auto simp: rate_inv_def split: if_splits)
next
  case Refill
  then show ?thesis
    using assms(1,2) on_refill_budget(1,2) [of WaitDone "st\<lparr>rl_expired := rl_expired st - 1\<rparr>" st' cs K R]
    by (auto simp: rate_inv_def split: if_splits)
next
  case Abort
  then show ?thesis
    using assms(1,2) on_refill_budget(2,3) [of WaitAborted "st\<lparr>rl_aborted := rl_aborted st - 1\<rparr>" st' cs K R]
    by (auto simp: rate_inv_def split: if_splits)
next
  case Reschedule
  then show ?thesis
    using assms(1,2) by (auto simp: rate_inv_def split: if_splits)
qed

lemma refills_Cons: "refills (e # es) = refills [e] + refills es"
  by (cases e) auto

lemma run_budget:
  assumes "limiter_run es st = (st', cs)" "rate_inv K R st" "positive_rates R es"
  shows "granted cs + unat (rl_tokens st') \<le> unat (rl_tokens st) + refills es * (R div 10) \<and>
    rate_inv K R st'"
  using assms
proof (induction es arbitrary: st cs)
  case (Cons e es)
  obtain st1 d1 d2 where e: "limiter_event e st = (st1, d1)"
    and r: "limiter_run es st1 = (st', d2)" and cs: "cs = d1 @ d2"
    using Cons.prems(1) by (rule limiter_run_ConsE)
  have "positive_rates R [e]" "positive_rates R es"
    using Cons.prems(3) by (auto simp: positive_rates_def)
  note 1 = event_budget [OF e Cons.prems(2) this(1)]
  note 2 = Cons.IH [OF r _ \<open>positive_rates R es\<close>]
  have "refills (e # es) * (R div 10) = refills [e] * (R div 10) + refills es * (R div 10)"
    by (metis add_mult_distrib refills_Cons)
  then show ?case
    using 1 2 by (simp add: cs)
qed simp

subsection \<open>Lemmas: the queue drains\<close>

text \<open>A limiter of a fixed rate that is only awaited and refilled: its refills form one chain, the
  queue holds only amounts the bucket can hold, and the first waiter is the one that cannot be
  served.\<close>

definition calm :: "u64 \<Rightarrow> 'h limiter \<Rightarrow> bool" where
  "calm rate st \<longleftrightarrow> \<not> rl_shutting_down st \<and> rl_rate st = rate \<and> rl_capacity st = rate \<and>
     rl_tokens st \<le> rate \<and> (\<forall>(a, h) \<in> set (rl_waiters st). a \<le> rate) \<and>
     (rl_waiters st \<noteq> [] \<longrightarrow> rl_tokens st < fst (hd (rl_waiters st)) \<and> rl_refill_active st) \<and>
     of_bool (rl_armed st) + rl_expired st + rl_reschedules st = (of_bool (rl_refill_active st) :: nat)"

fun calm_event :: "u64 \<Rightarrow> 'h event \<Rightarrow> bool" where
  "calm_event rate (Await a h) \<longleftrightarrow> a \<le> rate"
| "calm_event rate e \<longleftrightarrow> e \<in> {Expire, Refill, Reschedule}"

definition all_ok :: "'h completion list \<Rightarrow> bool" where
  "all_ok cs \<longleftrightarrow> (\<forall>(a, h, ok) \<in> set cs. ok)"

lemma all_ok_simps [simp]:
  "all_ok []" "all_ok ((a, h, ok) # cs) \<longleftrightarrow> ok \<and> all_ok cs" "all_ok (cs @ ds) \<longleftrightarrow> all_ok cs \<and> all_ok ds"
  by (simp_all add: all_ok_def ball_Un)

lemma calm_refill:
  assumes "calm rate st" "rl_expired st \<noteq> 0" "rate \<noteq> 0" "limiter_event Refill st = (st', cs)"
  shows "calm rate st'" "all_ok cs" "rl_reschedules st' = 1"
    "collect_waiters (min (rl_tokens st + refill_amount rate) rate) (rl_waiters st)
      = (rl_tokens st', rl_waiters st', cs)"
proof -
  have one: "rl_expired st = 1" "\<not> rl_armed st" "rl_reschedules st = 0" "rl_refill_active st"
    using assms(1,2) by (auto simp: calm_def of_bool_def split: if_splits)
  obtain t ws ready where c:
    "collect_waiters (min (rl_tokens st + refill_amount rate) rate) (rl_waiters st) = (t, ws, ready)"
    by (metis prod_cases3)
  have st': "st' = st\<lparr>rl_expired := 0, rl_tokens := t, rl_waiters := ws, rl_reschedules := 1\<rparr>"
    and cs: "cs = ready"
    using assms(1,3,4) one c
    by (auto simp: calm_def on_refill_def collect_ready_waiters_locked_def word_gt_0)
  note s = collect_waiters_spec [OF c]
  have "unat t \<le> unat (min (rl_tokens st + refill_amount rate) rate)"
    using s(1) by linarith
  then have "t \<le> rate"
    by (metis min.boundedE word_le_nat_alt order_refl)
  moreover have "set ws \<subseteq> set (rl_waiters st)"
    using s(2) by (metis Un_upper2 set_append)
  ultimately show "calm rate st'"
    using assms(1) s(4) one by (auto simp: calm_def st')
  show "all_ok cs"
    using s(3) by (simp add: cs all_ok_def)
  show "rl_reschedules st' = 1"
    "collect_waiters (min (rl_tokens st + refill_amount rate) rate) (rl_waiters st)
      = (rl_tokens st', rl_waiters st', cs)"
    using c by (simp_all add: st' cs)
qed

lemma calm_await:
  assumes "calm rate st" "rate \<noteq> 0" "a \<le> rate" "await_tokens a h st = (st', cs)"
  shows "calm rate st' \<and> all_ok cs"
proof -
  let ?st = "maybe_start_refill_locked st"
  have m: "calm rate ?st" "rl_refill_active ?st"
    using assms(1,2)
    by (auto simp: calm_def maybe_start_refill_locked_def schedule_refill_def cancel_timer_def)
  show ?thesis
  proof (cases "a \<le> rl_tokens st")
    case True
    then have "st' = ?st\<lparr>rl_tokens := rl_tokens st - a\<rparr>" "cs = [(a, h, True)]"
      using assms(1,2,4) by (auto simp: await_tokens_def calm_def Let_def)
    moreover have "rl_tokens st - a \<le> rl_tokens st"
      using True by (simp add: word_le_nat_alt unat_minus_le)
    ultimately show ?thesis
      using m by (auto simp: calm_def)
  next
    case False
    then have "st' = ?st\<lparr>rl_waiters := rl_waiters st @ [(a, h)]\<rparr>" "cs = []"
      using assms(1,2,4) by (auto simp: await_tokens_def calm_def Let_def)
    then show ?thesis
      using m False assms(3) by (auto simp: calm_def hd_append)
  qed
qed

lemma calm_run:
  assumes "limiter_run es st = (st', cs)" "calm rate st" "rate \<noteq> 0" "\<forall>e\<in>set es. calm_event rate e"
  shows "calm rate st' \<and> all_ok cs"
  using assms
proof (induction es arbitrary: st cs)
  case (Cons e es)
  obtain st1 d1 d2 where e: "limiter_event e st = (st1, d1)"
    and r: "limiter_run es st1 = (st', d2)" and cs: "cs = d1 @ d2"
    using Cons.prems(1) by (rule limiter_run_ConsE)
  have ev: "calm_event rate e"
    using Cons.prems(4) by simp
  have "calm rate st1 \<and> all_ok d1"
  proof (cases e)
    case (Await a h)
    then show ?thesis
      using e ev Cons.prems(2,3) calm_await by (metis calm_event.simps(1) limiter_event.simps(1))
  next
    case Expire
    then show ?thesis
      using e Cons.prems(2) by (auto simp: calm_def split: if_splits)
  next
    case Refill
    then show ?thesis
      using e Cons.prems(2,3) calm_refill(1,2) [of rate st st1 d1] by (cases "rl_expired st = 0") auto
  next
    case Reschedule
    then show ?thesis
      using e Cons.prems(2)
      by (auto simp: calm_def schedule_refill_def cancel_timer_def of_bool_def split: if_splits)
  qed (use ev in auto)
  then show ?case
    using Cons.IH [OF r _ Cons.prems(3)] Cons.prems(4) by (simp add: cs)
qed simp

text \<open>How many refills the queue needs at most: enough for each waiter in turn, less what is already
  there for the first.\<close>

definition rounds_of :: "nat \<Rightarrow> (u64 \<times> 'h) list \<Rightarrow> nat" where
  "rounds_of r ws = sum_list (map (\<lambda>(a, h). unat a div r + 1) ws)"

definition rounds_left :: "nat \<Rightarrow> 'h limiter \<Rightarrow> nat" where
  "rounds_left r st = (if rl_waiters st = [] then 0
     else rounds_of r (rl_waiters st) - unat (rl_tokens st) div r)"

definition refill_round :: "'h event list" where
  "refill_round = [Expire, Refill, Reschedule]"

lemma calm_head:
  "calm rate st \<Longrightarrow> rl_waiters st = (a, h) # ws \<Longrightarrow>
    rl_tokens st < a \<and> a \<le> rate \<and> rl_tokens st \<le> rate"
  by (auto simp: calm_def)

lemma refill_round_calm: "\<forall>e\<in>set refill_round. calm_event rate e"
  by (simp add: refill_round_def)

lemma rounds_of_append: "rounds_of r (xs @ ys) = rounds_of r xs + rounds_of r ys"
  by (simp add: rounds_of_def)

lemma collect_progress:
  assumes c: "collect_waiters (min (t + refill_amount rate) rate) ws = (t', ws', cs)"
    and ws: "ws = (a, h) # tl ws" and t: "t < a" "a \<le> rate" "t \<le> rate"
    and r: "10 \<le> unat rate" "unat rate * 100 < 2 ^ 64" "ws' \<noteq> []"
  shows "rounds_of (unat rate div 10) ws' - unat t' div (unat rate div 10)
    < rounds_of (unat rate div 10) ws - unat t div (unat rate div 10)"
proof -
  let ?r = "unat rate div 10"
  have pos: "0 < ?r"
    using r(1) by simp
  have ws_sum: "rounds_of ?r ws = unat a div ?r + 1 + rounds_of ?r (tl ws)"
    by (subst ws) (simp add: rounds_of_def)
  have le: "unat t div ?r \<le> unat a div ?r"
    using t(1) by (intro div_le_mono) (simp add: word_less_nat_alt)
  note s = collect_waiters_spec [OF c]
  show ?thesis
  proof (cases cs)
    case Nil
    then have ws': "ws' = ws"
      using s(2) by simp
    have "t' < a"
      using s(4) r(3) ws by (metis fst_conv list.sel(1) ws')
    then have "unat t' = unat (t + refill_amount rate)"
      using s(1) Nil t(2) by (auto simp: min_def word_le_nat_alt word_less_nat_alt split: if_splits)
    also have "\<dots> = unat t + ?r"
    proof -
      have "unat t + ?r < 2 ^ 64"
        using t(3) r(2) by (simp add: word_le_nat_alt)
      then show ?thesis
        using unat_add_lem [of t "refill_amount rate"] by (simp add: unat_refill_amount)
    qed
    finally have t': "unat t' = unat t + ?r" .
    then have "unat t' div ?r = unat t div ?r + 1"
      using pos by (metis div_add_self2 less_not_refl)
    moreover have "unat t' div ?r \<le> unat a div ?r"
      using \<open>t' < a\<close> by (intro div_le_mono) (simp add: word_less_nat_alt)
    ultimately show ?thesis
      using ws_sum unfolding ws' by linarith
  next
    case (Cons c cs')
    then have "tl ws = served cs' @ ws'"
      using s(2) ws by (cases c) (metis append_Cons list.sel(3) served_simps(2))
    then have "rounds_of ?r (tl ws) \<ge> rounds_of ?r ws'"
      by (simp add: rounds_of_append)
    then show ?thesis
      using ws_sum le by linarith
  qed
qed

lemma round_progress:
  assumes st: "calm rate st" "rl_armed st" and r: "10 \<le> unat rate" "unat rate * 100 < 2 ^ 64"
    and run: "limiter_run refill_round st = (st', cs)"
  shows "calm rate st'" "rl_armed st'"
    "rounds_left (unat rate div 10) st' \<le> rounds_left (unat rate div 10) st - 1"
proof -
  have rate: "rate \<noteq> 0"
    using r(1) by auto
  let ?st1 = "st\<lparr>rl_armed := False, rl_expired := rl_expired st + 1\<rparr>"
  have c1: "calm rate ?st1"
    using st by (auto simp: calm_def)
  obtain st2 d where f: "limiter_event Refill ?st1 = (st2, d)"
    by (cases "limiter_event Refill ?st1")
  note g = calm_refill [OF c1 _ rate f, simplified]
  have st': "st' = schedule_refill (st2\<lparr>rl_reschedules := 0\<rparr>)"
    using run f g(3) st(2) by (simp add: refill_round_def del: limiter_event.simps(6))
  show "calm rate st'"
    using calm_run [OF run st(1) rate refill_round_calm] by simp
  show "rl_armed st'"
    by (simp add: st')
  show "rounds_left (unat rate div 10) st' \<le> rounds_left (unat rate div 10) st - 1"
  proof (cases "rl_waiters st' = []")
    case False
    then have "rl_waiters st \<noteq> []"
      using collect_waiters_spec(2) [OF g(4)] by (auto simp: st')
    then obtain a h where ws: "rl_waiters st = (a, h) # tl (rl_waiters st)"
      by (cases "rl_waiters st") auto
    moreover have "rl_tokens st < a" "a \<le> rate" "rl_tokens st \<le> rate"
      using calm_head [OF st(1) ws] by auto
    ultimately show ?thesis
      using collect_progress [OF g(4) ws] r False \<open>rl_waiters st \<noteq> []\<close>
      by (simp add: rounds_left_def st') linarith
  qed (simp add: rounds_left_def)
qed

lemma rounds_drain:
  assumes "calm rate st" "rl_armed st" "10 \<le> unat rate" "unat rate * 100 < 2 ^ 64"
    "rounds_left (unat rate div 10) st \<le> n"
  shows "rl_waiters (fst (limiter_run (concat (replicate n refill_round)) st)) = []"
  using assms
proof (induction n arbitrary: st)
  case 0
  then have "rl_waiters st = []"
  proof (rule_tac ccontr)
    assume ne: "rl_waiters st \<noteq> []"
    then obtain a h where ws: "rl_waiters st = (a, h) # tl (rl_waiters st)"
      by (cases "rl_waiters st") auto
    then have "rl_tokens st < a"
      using calm_head [OF 0(1)] by blast
    then have "unat (rl_tokens st) div (unat rate div 10) \<le> unat a div (unat rate div 10)"
      by (intro div_le_mono) (simp add: word_less_nat_alt)
    moreover have "rounds_of (unat rate div 10) (rl_waiters st)
        = unat a div (unat rate div 10) + 1 + rounds_of (unat rate div 10) (tl (rl_waiters st))"
      by (subst ws) (simp add: rounds_of_def)
    ultimately show False
      using 0(5) ne by (simp add: rounds_left_def)
  qed
  then show ?case by simp
next
  case (Suc n)
  obtain st1 d where run: "limiter_run refill_round st = (st1, d)"
    by (cases "limiter_run refill_round st")
  note p = round_progress [OF Suc.prems(1-4) run]
  have "rounds_left (unat rate div 10) st1 \<le> n"
    using p(3) Suc.prems(5) by linarith
  from Suc.IH [OF p(1,2) Suc.prems(3,4) this] show ?case
    using run by (simp add: limiter_run_append case_prod_beta)
qed

lemma calm_new: "calm rate (new_limiter rate 1)"
  by (simp add: calm_def new_limiter_def)

lemma awaited_append: "awaited (es @ fs) = awaited es @ awaited fs"
proof (induction es)
  case (Cons e es)
  then show ?case by (cases e) auto
qed simp

lemma awaited_rounds: "awaited (concat (replicate n refill_round)) = []"
  by (induction n) (simp_all add: refill_round_def)

text \<open>The events that finish a chain of refills that is already under way.\<close>

lemma chain_finishes:
  assumes "calm rate st" "rate \<noteq> 0" "limiter_run [Refill, Reschedule] st = (st1, d)" "rl_waiters st1 \<noteq> []"
  shows "rl_armed st1"
proof -
  have c: "calm rate st1"
    using calm_run [OF assms(3,1,2)] by simp
  obtain st2 d2 where f: "limiter_event Refill st = (st2, d2)"
    by (cases "limiter_event Refill st")
  have c2: "calm rate st2"
    using calm_run [of "[Refill]" st st2 d2 rate] f assms(1,2) by (simp del: limiter_event.simps)
  have st1: "st1 = fst (limiter_event Reschedule st2)"
    using assms(3) f by (simp del: limiter_event.simps(6))
  have "rl_expired st2 = 0"
  proof (cases "rl_expired st = 0")
    case True
    then show ?thesis
      using f by simp
  next
    case False
    from calm_refill(1,3) [OF assms(1) False assms(2) f] show ?thesis
      by (auto simp: calm_def of_bool_def split: if_splits)
  qed
  moreover have "rl_waiters st2 \<noteq> []"
    using assms(4) by (auto simp: st1 split: if_splits)
  ultimately have "rl_armed st2 \<or> rl_reschedules st2 \<noteq> 0"
    using c2 by (auto simp: calm_def of_bool_def split: if_splits)
  then show ?thesis
    by (auto simp: st1)
qed

lemma serves_all:
  assumes rate: "10 \<le> unat rate" "unat rate * 100 < 2 ^ 64"
    and es: "\<forall>e\<in>set es. calm_event rate e"
  shows "\<exists>n. let (st, cs) = limiter_run (es @ [Refill, Reschedule] @ concat (replicate n refill_round))
      (new_limiter rate 1)
    in rl_waiters st = [] \<and> mset (served cs) = mset (awaited es) \<and> all_ok cs"
proof -
  have r0: "rate \<noteq> 0"
    using rate(1) by auto
  obtain st cs where run: "limiter_run es (new_limiter rate 1) = (st, cs)"
    by fastforce
  obtain st1 d where run1: "limiter_run [Refill, Reschedule] st = (st1, d)"
    by (cases "limiter_run [Refill, Reschedule] st")
  have c: "calm rate st"
    using calm_run [OF run calm_new r0 es] by simp
  have c1: "calm rate st1"
    using calm_run [OF run1 c r0] by simp
  define n where "n = rounds_left (unat rate div 10) st1"
  let ?all = "es @ [Refill, Reschedule] @ concat (replicate n refill_round)"
  obtain st2 cs2 where run2: "limiter_run ?all (new_limiter rate 1) = (st2, cs2)"
    by (cases "limiter_run ?all (new_limiter rate 1)")
  have fst2: "st2 = fst (limiter_run (concat (replicate n refill_round)) st1)"
    using run2 by (simp add: limiter_run_append run run1 case_prod_beta
        del: limiter_run.simps append.simps)
  have "rl_waiters st2 = []"
  proof (cases "rl_waiters st1 = []")
    case True
    then show ?thesis
      by (simp add: fst2 n_def rounds_left_def)
  next
    case False
    show ?thesis
      using rounds_drain [OF c1 chain_finishes [OF c r0 run1 False] rate, of n] by (simp add: fst2 n_def)
  qed
  moreover have "mset (served cs2) = mset (awaited es)"
    using run_handlers [OF run2] calculation
    by (simp add: awaited_append awaited_rounds new_limiter_def)
  moreover have "all_ok cs2"
  proof -
    have "\<forall>e\<in>set ?all. calm_event rate e"
      using es refill_round_calm [of rate] by (auto simp: set_replicate_conv_if split: if_splits)
    from calm_run [OF run2 calm_new r0 this] show ?thesis
      by simp
  qed
  ultimately show ?thesis
    by (intro exI [of _ n]) (simp add: run2 del: append.simps)
qed

subsection \<open>Properties\<close>

text \<open>C16: Whatever calls, refills, cancelled waits and changes of the rate came before, the bytes let
  through in any stretch of a run are at most the largest capacity in use plus a tenth of the largest rate for
  every refill in the stretch, as long as the rate is never set to zero (no limit).  The capacity is the rate
  times the factor the limiter was built with (one second's worth by default), and the rate after a change.\<close>

theorem rate_limited:
  assumes "rate \<noteq> 0" "unat rate \<le> R" "R \<le> K" "unat (rate * capacity_factor) \<le> K" "positive_rates R (earlier @ window)"
  shows "granted (snd (limiter_run window (fst (limiter_run earlier (new_limiter rate capacity_factor)))))
    \<le> K + refills window * (R div 10)"
proof -
  obtain st cs where run: "limiter_run earlier (new_limiter rate capacity_factor) = (st, cs)"
    by fastforce
  obtain st' cs' where run': "limiter_run window st = (st', cs')"
    by fastforce
  have "rate_inv K R (new_limiter rate capacity_factor :: 'a limiter)"
    using assms(1-4) by (simp add: rate_inv_def new_limiter_def)
  moreover have "positive_rates R earlier" "positive_rates R window"
    using assms(5) by (auto simp: positive_rates_def)
  ultimately have "rate_inv K R st"
    using run_budget [OF run] by blast
  then show ?thesis
    using run_budget [OF run' _ \<open>positive_rates R window\<close>] run run' by (fastforce simp: rate_inv_def)
qed

theorem rate_limited_witness:
  "granted (snd (limiter_run [Await 600 ''b'', Expire, Refill, SetRate 900, Await 100 ''c'']
      (fst (limiter_run [Await 700 ''a'', Expire, Refill, Reschedule] (new_limiter 1000 1)))))
    \<le> 1000 + 1 * (1000 div 10)"
  using rate_limited [of 1000 1000 1000 1 "[Await 700 ''a'', Expire, Refill, Reschedule]"
      "[Await 600 ''b'', Expire, Refill, SetRate 900, Await 100 ''c'']"]
  by (simp add: positive_rates_def del: limiter_run.simps)

text \<open>C17: While the rate is fixed, the limiter is not stopped and no wait of its timer is cancelled or fails, requests
  that fit the capacity of one second are never lost or served twice: however they and the steps of the
  refill chain have interleaved, enough further refills serve all of them, each exactly once and without an
  error. The rate is at least ten bytes per second and within the range in which the refill is computed
  exactly.\<close>

theorem limiter_serves_all:
  assumes "10 \<le> unat rate" "unat rate * 100 < 2 ^ 64" "\<forall>e\<in>set es. calm_event rate e"
  shows "\<exists>n. let (st, cs) = limiter_run (es @ [Refill, Reschedule] @ concat (replicate n refill_round))
      (new_limiter rate 1)
    in rl_waiters st = [] \<and> mset (served cs) = mset (awaited es) \<and> all_ok cs"
  using serves_all [OF assms] .

theorem limiter_serves_all_witness:
  "\<exists>n. let (st, cs) = limiter_run ([Await 700 ''a'', Await 900 ''b'', Expire, Await 200 ''c''] @
        [Refill, Reschedule] @ concat (replicate n refill_round)) (new_limiter 1000 1)
    in rl_waiters st = [] \<and> mset (served cs) = {#(700, ''a''), (900, ''b''), (200, ''c'')#} \<and> all_ok cs"
  using limiter_serves_all [of 1000 "[Await 700 ''a'', Await 900 ''b'', Expire, Await 200 ''c'']"]
  by (simp del: limiter_run.simps append.simps)

subsection \<open>Where the limiter stalls\<close>

text \<open>A request above the capacity is never served at a fixed rate, and everything queued behind it
  waits as well.\<close>

definition blocked :: "u64 \<times> 'h \<Rightarrow> 'h limiter \<Rightarrow> bool" where
  "blocked w st \<longleftrightarrow> rl_waiters st \<noteq> [] \<and> hd (rl_waiters st) = w \<and> rl_capacity st < fst w \<and>
     rl_tokens st \<le> rl_capacity st"

lemma blocked_collect:
  assumes "blocked w st"
  shows "collect_ready_waiters_locked st = (st, [])"
  using assms
  by (cases w; cases "rl_waiters st") (auto simp: blocked_def collect_ready_waiters_locked_def)

lemma blocked_refill: "blocked w st \<Longrightarrow> blocked w (fst (on_refill ec st))"
  using blocked_collect [of w "st\<lparr>rl_tokens := min (rl_tokens st + refill_amount (rl_rate st)) (rl_capacity st)\<rparr>"]
  by (auto simp: on_refill_def blocked_def)

lemma blocked_event:
  assumes "blocked w st" "\<forall>r. e \<noteq> SetRate r" "e \<noteq> Stop"
  shows "blocked w (fst (limiter_event e st))"
proof (cases e)
  case (Await a h)
  have "rl_tokens st - a \<le> rl_tokens st" if "a \<le> rl_tokens st"
    using that by (simp add: word_le_nat_alt unat_minus_le)
  then show ?thesis
    using assms(1) Await by (auto simp: await_tokens_def blocked_def Let_def)
next
  case Fail
  then show ?thesis
    using assms(1) blocked_refill [of w "st\<lparr>rl_armed := False\<rparr>"] by (simp add: blocked_def)
next
  case Refill
  then show ?thesis
    using assms(1) blocked_refill [of w "st\<lparr>rl_expired := rl_expired st - 1\<rparr>"] by (simp add: blocked_def)
next
  case Abort
  then show ?thesis
    using assms(1) blocked_refill [of w "st\<lparr>rl_aborted := rl_aborted st - 1\<rparr>"] by (simp add: blocked_def)
qed (use assms in \<open>auto simp: blocked_def\<close>)

lemma oversize_waits_forever:
  assumes "blocked w st" "\<forall>e\<in>set es. (\<forall>r. e \<noteq> SetRate r) \<and> e \<noteq> Stop"
  shows "blocked w (fst (limiter_run es st))"
  using assms
proof (induction es arbitrary: st)
  case (Cons e es)
  then have "blocked w (fst (limiter_event e st))"
    by (intro blocked_event) auto
  then show ?case
    using Cons by (simp add: case_prod_beta)
qed simp

text \<open>Below ten bytes per second a refill adds nothing.\<close>

lemma slow_rate_never_refills: "unat rate < 10 \<Longrightarrow> refill_amount rate = 0"
  by (simp add: refill_amount_def)

text \<open>Lifting the limit and setting it again before the cancelled wait has reported leaves the flag
  cleared although a wait is armed: every later call cancels that wait and starts a new one.\<close>

lemma restart_loses_flag:
  "let st = fst (limiter_run [Await 1 ''a'', SetRate 0, SetRate 1000, Abort] (new_limiter 1000 1))
   in rl_armed st \<and> \<not> rl_refill_active st \<and>
      (let st' = fst (limiter_run [Await 1 ''b'', Abort] st)
       in rl_armed st' \<and> \<not> rl_refill_active st' \<and> rl_expired st' = 0)"
  by (simp add: new_limiter_def await_tokens_def set_rate_def maybe_start_refill_locked_def
      schedule_refill_def cancel_timer_def collect_ready_waiters_locked_def on_refill_def Let_def)

end
