(* ===== verification/Tracker.thy ===== *)
theory Tracker
  imports Bencode
begin

text \<open>
  The tracker server of \<^verbatim>\<open>Tracker.hpp\<close>: the registry of peers per info hash, the HTTP announce handler
  with its query parser, the UDP connect and announce handler, the removal of stale peers, the
  state file, and the router of \<^verbatim>\<open>HttpServer.hpp\<close> in front of the handler.

  Parameters stand for what the code takes from outside: the clocks, the random connection ids and
  the text of an exception. Time is in nanoseconds. The lemmas show that the registry keeps its shape, that an announced
  peer is handed to every later announcer of the same torrent until it stops or goes stale, whatever
  else arrives, and that the registry survives a restart.
\<close>

subsection \<open>State\<close>

record PeerEntry =
  pe_left :: int
  pe_last_announce :: int

record UdpClientInfo =
  uc_connection_id :: u64
  uc_expiry :: int

record tracker =
  tr_peers :: "(byte list \<times> (string \<times> PeerEntry) list) list"
  tr_interval :: int
  tr_udp_clients :: "(endpoint \<times> UdpClientInfo) list"
  tr_announce_count :: u64

definition new_tracker :: tracker where
  "new_tracker = \<lparr> tr_peers = [], tr_interval = 1800, tr_udp_clients = [], tr_announce_count = 0 \<rparr>"

text \<open>The exceptions of the HTTP handler: \<^verbatim>\<open>std::map::at\<close>, \<^verbatim>\<open>std::stoi\<close> and \<^verbatim>\<open>std::stoll\<close>, and an address
  that is not version 4.\<close>

datatype tracker_error = KeyMissing | NoNumber | NumberOutOfRange | BadAddress

text \<open>The peers of a torrent (\<^verbatim>\<open>operator[]\<close> makes an empty map).\<close>

definition torrent_peers :: "byte list \<Rightarrow> tracker \<Rightarrow> (string \<times> PeerEntry) list" where
  "torrent_peers h tr = (case map_of (tr_peers tr) h of None \<Rightarrow> [] | Some m \<Rightarrow> m)"

definition count_seeders_leechers :: "byte list \<Rightarrow> tracker \<Rightarrow> nat \<times> nat" where
  "count_seeders_leechers h tr =
    (length (filter (\<lambda>(a, e). pe_left e = 0) (torrent_peers h tr)),
     length (filter (\<lambda>(a, e). pe_left e \<noteq> 0) (torrent_peers h tr)))"

subsection \<open>Reading numbers and queries\<close>

text \<open>\<^verbatim>\<open>std::stoi\<close>, \<^verbatim>\<open>std::stoll\<close> and \<^verbatim>\<open>std::stoul\<close> skip white space, take a sign and the longest run of
  digits and ignore the rest.\<close>

definition sto_integer :: "int \<Rightarrow> int \<Rightarrow> string \<Rightarrow> tracker_error + int" where
  "sto_integer lo hi s =
    (let s = dropWhile is_space s;
         neg = (s \<noteq> [] \<and> hd s = CHR ''-'');
         signed = (s \<noteq> [] \<and> (hd s = CHR ''-'' \<or> hd s = CHR ''+''));
         (ds, rest) = span_digits 10 (if signed then tl s else s);
         v = (if neg then - int (digits_value 10 ds) else int (digits_value 10 ds))
     in if ds = [] then Inl NoNumber
        else if v < lo \<or> hi < v then Inl NumberOutOfRange
        else Inr v)"

text \<open>The two characters after a percent sign, read by a hexadecimal \<^verbatim>\<open>istringstream\<close> into an \<^verbatim>\<open>int\<close> (zero
  when there is no number) and cast to \<^verbatim>\<open>char\<close>.\<close>

definition hex_stream_value :: "string \<Rightarrow> int" where
  "hex_stream_value s =
    (let s = dropWhile is_space s;
         neg = (s \<noteq> [] \<and> hd s = CHR ''-'');
         signed = (s \<noteq> [] \<and> (hd s = CHR ''-'' \<or> hd s = CHR ''+''));
         (ds, rest) = span_digits 16 (if signed then tl s else s)
     in if neg then - int (digits_value 16 ds) else int (digits_value 16 ds))"

definition char_of_int :: "int \<Rightarrow> char" where
  "char_of_int i = char_of (nat (i mod 256))"

fun url_decode :: "string \<Rightarrow> string" where
  "url_decode [] = []"
| "url_decode (c # s) =
    (if c = CHR ''%'' \<and> 2 \<le> length s
     then char_of_int (hex_stream_value (take 2 s)) # url_decode (drop 2 s)
     else if c = CHR ''+'' then CHR '' '' # url_decode s
     else c # url_decode s)"

text \<open>\<^verbatim>\<open>std::getline\<close> with a separator: the fields in between; nothing follows a final separator.\<close>

function split_fields :: "char \<Rightarrow> string \<Rightarrow> string list" where
  "split_fields sep s =
    (if s = [] then []
     else case split_at sep s of
       None \<Rightarrow> [s]
     | Some (a, rest) \<Rightarrow> a # split_fields sep rest)"
  by pat_completeness auto
termination split_fields
  by (relation "measure (\<lambda>(sep, s). length s)") (auto dest: split_at_length)

declare split_fields.simps [simp del]

definition add_param :: "(string \<times> string) list \<Rightarrow> string \<Rightarrow> (string \<times> string) list" where
  "add_param params pair_str =
    (case split_at CHR ''='' pair_str of
       None \<Rightarrow> params
     | Some (key, val) \<Rightarrow> if key = [] then params else map_assign key val params)"

definition parse_query_params :: "string \<Rightarrow> (string \<times> string) list" where
  "parse_query_params query = foldl add_param [] (split_fields CHR ''&'' query)"

subsection \<open>HTTP announces\<close>

definition compact_peer :: "byte list \<Rightarrow> u16 \<Rightarrow> string" where
  "compact_peer ip port = string_of_bytes (ip @ put16 port)"

text \<open>The part of the handler that reads the request: the info hash, the compact address of the peer,
  the bytes left and the event.\<close>

record announce =
  an_info_hash :: "byte list"
  an_peer :: string
  an_left :: int
  an_event :: string

definition param_at :: "string \<Rightarrow> (string \<times> string) list \<Rightarrow> tracker_error + string" where
  "param_at key params = sum_some KeyMissing (map_of params key)"

definition read_announce :: "string \<Rightarrow> ip_address \<Rightarrow> tracker_error + announce" where
  "read_announce target remote =
    (let query_str = (case split_at CHR ''?'' target of None \<Rightarrow> [] | Some (path, query) \<Rightarrow> query);
         params = parse_query_params query_str
     in sum_bind (param_at ''info_hash'' params) (\<lambda>raw.
        sum_bind (sum_bind (param_at ''port'' params) (sto_integer (- (2 ^ 31)) (2 ^ 31 - 1))) (\<lambda>port.
        sum_bind (case map_of params ''left'' of
                    None \<Rightarrow> Inr 0
                  | Some s \<Rightarrow> sto_integer int64_min int64_max s) (\<lambda>left.
        let event = (case map_of params ''event'' of None \<Rightarrow> [] | Some s \<Rightarrow> s)
        in case remote of
             V6 _ \<Rightarrow> Inl BadAddress
           | V4 ip \<Rightarrow> Inr \<lparr> an_info_hash = bytes_of_string (url_decode raw),
                           an_peer = compact_peer ip (word_of_int port),
                           an_left = left, an_event = event \<rparr>))))"

definition register_peer :: "int \<Rightarrow> byte list \<Rightarrow> string \<Rightarrow> int \<Rightarrow> tracker \<Rightarrow> tracker" where
  "register_peer now h peer left tr =
    tr\<lparr>tr_peers := map_assign h
        (map_assign peer \<lparr> pe_left = left, pe_last_announce = now \<rparr> (torrent_peers h tr)) (tr_peers tr)\<rparr>"

definition remove_peer :: "byte list \<Rightarrow> string \<Rightarrow> tracker \<Rightarrow> tracker" where
  "remove_peer h peer tr =
    (case map_of (tr_peers tr) h of
       None \<Rightarrow> tr
     | Some m \<Rightarrow>
         (let m = map_erase peer m
          in tr\<lparr>tr_peers := (if m = [] then map_erase h (tr_peers tr)
                             else map_assign h m (tr_peers tr))\<rparr>))"

text \<open>The addresses of the other peers of the torrent, one after the other.\<close>

definition other_peers :: "byte list \<Rightarrow> string \<Rightarrow> tracker \<Rightarrow> string list" where
  "other_peers h peer tr = filter (\<lambda>a. a \<noteq> peer) (map fst (torrent_peers h tr))"

definition announce_body :: "int \<Rightarrow> nat \<times> nat \<Rightarrow> string \<Rightarrow> string" where
  "announce_body interval counts peers =
    (let d = map_assign ''interval'' (Integer interval) [];
         d = map_assign ''complete'' (Integer (int (fst counts))) d;
         d = map_assign ''incomplete'' (Integer (int (snd counts))) d;
         d = map_assign ''peers'' (String peers) d
     in encode (Dict d))"

record http_response =
  hr_status :: nat
  hr_body :: string

text \<open>The announce handler: the answer and the registry after it. \<open>what\<close> is the text of an exception.\<close>

definition handle_announce ::
    "(tracker_error \<Rightarrow> string) \<Rightarrow> int \<Rightarrow> string \<Rightarrow> ip_address \<Rightarrow> tracker \<Rightarrow> http_response \<times> tracker" where
  "handle_announce what now target remote tr =
    (case read_announce target remote of
       Inl e \<Rightarrow>
         (\<lparr> hr_status = 400,
            hr_body = encode (Dict (map_assign ''failure reason'' (String (what e)) [])) \<rparr>, tr)
     | Inr an \<Rightarrow>
         (let tr = tr\<lparr>tr_announce_count := tr_announce_count tr + 1\<rparr>
          in if an_event an = ''stopped''
             then (\<lparr> hr_status = 200, hr_body = announce_body (tr_interval tr) (0, 0) [] \<rparr>,
                   remove_peer (an_info_hash an) (an_peer an) tr)
             else
               (let tr = register_peer now (an_info_hash an) (an_peer an) (an_left an) tr
                in (\<lparr> hr_status = 200,
                      hr_body = announce_body (tr_interval tr) (count_seeders_leechers (an_info_hash an) tr)
                        (concat (other_peers (an_info_hash an) (an_peer an) tr)) \<rparr>, tr))))"

text \<open>\<^verbatim>\<open>HttpRouter::handle_request\<close> with the two routes of \<^verbatim>\<open>listen_http\<close>.\<close>

definition route_request ::
    "(tracker_error \<Rightarrow> string) \<Rightarrow> int \<Rightarrow> string \<Rightarrow> ip_address \<Rightarrow> tracker \<Rightarrow> http_response \<times> tracker" where
  "route_request what now target remote tr =
    (let path = (case split_at CHR ''?'' target of None \<Rightarrow> target | Some (path, query) \<Rightarrow> path)
     in if path = ''/announce'' \<or> path = ''/'' then handle_announce what now target remote tr
        else (\<lparr> hr_status = 404, hr_body = ''The resource '' @ CHR 0x27 # target @ CHR 0x27 # '' was not found.'' \<rparr>, tr))"

subsection \<open>UDP requests\<close>

definition octets :: "nat \<Rightarrow> nat \<Rightarrow> byte list \<Rightarrow> byte list" where
  "octets off n bs = take n (drop off bs)"

definition udp_minutes :: "int \<Rightarrow> int" where "udp_minutes m = m * 60 * 10 ^ 9"

text \<open>A connect request: remember a fresh connection id for the sender and answer with it.\<close>

definition udp_connect :: "int \<Rightarrow> u64 \<Rightarrow> endpoint \<Rightarrow> byte list \<Rightarrow> tracker \<Rightarrow> byte list \<times> tracker" where
  "udp_connect now_steady new_connection_id remote request tr =
    (put32 0 @ octets 12 4 request @ put64 new_connection_id,
     tr\<lparr>tr_udp_clients := map_assign remote
        \<lparr> uc_connection_id = new_connection_id, uc_expiry = now_steady + udp_minutes 2 \<rparr> (tr_udp_clients tr)\<rparr>)"

definition udp_connected :: "int \<Rightarrow> endpoint \<Rightarrow> u64 \<Rightarrow> tracker \<Rightarrow> bool" where
  "udp_connected now_steady remote conn_id tr =
    (case map_of (tr_udp_clients tr) remote of
       None \<Rightarrow> False
     | Some info \<Rightarrow> uc_connection_id info = conn_id \<and> now_steady \<le> uc_expiry info)"

definition udp_announce_answer :: "byte list \<Rightarrow> byte list \<Rightarrow> string \<Rightarrow> tracker \<Rightarrow> byte list" where
  "udp_announce_answer transaction h peer tr =
    (let (complete, incomplete) = count_seeders_leechers h tr
     in put32 1 @ transaction @ put32 (word_of_int (tr_interval tr)) @ put32 (of_nat incomplete) @
        put32 (of_nat complete) @ concat (map bytes_of_string (other_peers h peer tr)))"

text \<open>\<^verbatim>\<open>handle_udp_request\<close>. The request is a view of the receive buffer of the listen loop, which may have
  received the next datagram by the time the coroutine continues on the strand: \<open>later\<close> is what the
  view holds then, and the transaction id of the answer is read from it.\<close>

definition handle_udp_request ::
    "int \<Rightarrow> int \<Rightarrow> u64 \<Rightarrow> endpoint \<Rightarrow> byte list \<Rightarrow> byte list \<Rightarrow> tracker \<Rightarrow> byte list option \<times> tracker" where
  "handle_udp_request now now_steady random remote request later tr =
    (if length request < 16 then (None, tr)
     else if get32 (octets 8 4 request) = 0
     then (let (answer, tr) = udp_connect now_steady random remote request tr in (Some answer, tr))
     else if get32 (octets 8 4 request) = 1
     then if length request < 98 then (None, tr)
       else if \<not> udp_connected now_steady remote (get64 (octets 0 8 request)) tr then (None, tr)
       else case fst remote of
         V6 _ \<Rightarrow> (None, tr)
       | V4 ip \<Rightarrow>
           (let h = octets 16 20 request;
                left = sint (get64 (octets 64 8 request));
                peer = compact_peer ip (get16 (octets 96 2 request));
                tr = tr\<lparr>tr_announce_count := tr_announce_count tr + 1\<rparr>;
                tr = register_peer now h peer left tr
            in (Some (udp_announce_answer (octets 12 4 later) h peer tr), tr))
     else (None, tr))"

subsection \<open>Clean-up and the state file\<close>

text \<open>One round of \<^verbatim>\<open>cleanup_loop\<close>.\<close>

definition fresh_entries :: "int \<Rightarrow> (string \<times> PeerEntry) list \<Rightarrow> (string \<times> PeerEntry) list" where
  "fresh_entries threshold m = filter (\<lambda>(a, e). \<not> pe_last_announce e < threshold) m"

definition cleanup :: "int \<Rightarrow> tracker \<Rightarrow> tracker" where
  "cleanup now tr =
    (let threshold = now - tr_interval tr * 2 * 10 ^ 9
     in tr\<lparr>tr_peers := filter (\<lambda>(h, m). m \<noteq> [])
          (map (\<lambda>(h, m). (h, fresh_entries threshold m)) (tr_peers tr))\<rparr>)"

text \<open>\<^verbatim>\<open>to_time_t\<close> truncates to whole seconds.\<close>

definition to_time_t :: "int \<Rightarrow> int" where
  "to_time_t t = (if t < 0 then - ((- t) div 10 ^ 9) else t div 10 ^ 9)"

definition saved_peer :: "string \<times> PeerEntry \<Rightarrow> Value" where
  "saved_peer = (\<lambda>(addr, entry).
    (let pd = map_assign ''compact'' (String addr) [];
         pd = map_assign ''left'' (Integer (pe_left entry)) pd;
         pd = map_assign ''last_announce'' (Integer (to_time_t (pe_last_announce entry))) pd
     in Dict pd))"

definition save_state :: "tracker \<Rightarrow> string" where
  "save_state tr =
    (let peers_dict = foldl (\<lambda>d (h, m). map_assign (string_of_bytes h) (List (map saved_peer m)) d)
           [] (tr_peers tr);
         root = map_assign ''peers'' (Dict peers_dict) []
     in encode (Dict root))"

text \<open>\<^verbatim>\<open>load_state\<close>; any exception on the way leaves an empty registry. \<open>file\<close> is the content of the state
  file, \<open>None\<close> when it is missing or cannot be opened.\<close>

definition load_peer :: "Value \<Rightarrow> (string \<times> PeerEntry) option" where
  "load_peer pv =
    Option.bind (as_Dict pv) (\<lambda>pd.
    Option.bind (Option.bind (map_of pd ''compact'') as_String) (\<lambda>addr.
    Option.bind (Option.bind (map_of pd ''left'') as_Integer) (\<lambda>left_val.
    Option.bind (Option.bind (map_of pd ''last_announce'') as_Integer) (\<lambda>ts.
      Some (addr, \<lparr> pe_left = left_val, pe_last_announce = ts * 10 ^ 9 \<rparr>)))))"

fun load_peers :: "Value list \<Rightarrow> (string \<times> PeerEntry) list \<Rightarrow> (string \<times> PeerEntry) list option" where
  "load_peers [] m = Some m"
| "load_peers (pv # pvs) m =
    (case load_peer pv of None \<Rightarrow> None | Some (addr, entry) \<Rightarrow> load_peers pvs (map_assign addr entry m))"

fun load_torrents :: "(string \<times> Value) list \<Rightarrow> tracker \<Rightarrow> tracker option" where
  "load_torrents [] tr = Some tr"
| "load_torrents ((hash_key, v) # rest) tr =
    (let h = bytes_of_string hash_key
     in case as_List v of
          None \<Rightarrow> None
        | Some l \<Rightarrow>
            (case load_peers l (torrent_peers h tr) of
               None \<Rightarrow> None
             | Some m \<Rightarrow> load_torrents rest (tr\<lparr>tr_peers := map_assign h m (tr_peers tr)\<rparr>)))"

definition load_state :: "string option \<Rightarrow> tracker \<Rightarrow> tracker" where
  "load_state content tr =
    (case content of
       None \<Rightarrow> tr
     | Some data \<Rightarrow>
         if data = [] then tr
         else case (case decode data of Inl _ \<Rightarrow> None | Inr v \<Rightarrow>
                Option.bind (as_Dict v) (\<lambda>root.
                Option.bind (Option.bind (map_of root ''peers'') as_Dict) (\<lambda>d. load_torrents d tr))) of
           None \<Rightarrow> tr\<lparr>tr_peers := []\<rparr>
         | Some tr' \<Rightarrow> tr')"

subsection \<open>Runs\<close>

text \<open>What happens to a running tracker: HTTP requests, datagrams (with what the receive buffer holds
  when the handler continues), clean-up rounds, each at a time.\<close>

datatype tracker_event =
    HttpRequest string ip_address
  | Datagram int u64 endpoint "byte list" "byte list"
  | Cleanup

fun on_tracker_event :: "(tracker_error \<Rightarrow> string) \<Rightarrow> int \<times> tracker_event \<Rightarrow> tracker \<Rightarrow> tracker" where
  "on_tracker_event what (now, HttpRequest target remote) tr = snd (route_request what now target remote tr)"
| "on_tracker_event what (now, Datagram now_steady random remote request later) tr =
     snd (handle_udp_request now now_steady random remote request later tr)"
| "on_tracker_event what (now, Cleanup) tr = cleanup now tr"

definition tracker_run :: "(tracker_error \<Rightarrow> string) \<Rightarrow> (int \<times> tracker_event) list \<Rightarrow> tracker \<Rightarrow> tracker" where
  "tracker_run what evs tr = fold (on_tracker_event what) evs tr"

subsection \<open>Lemmas: the registry\<close>

definition address_ok :: "ip_address \<Rightarrow> bool" where
  "address_ok a = (case a of V4 b \<Rightarrow> length b = 4 | V6 b \<Rightarrow> length b = 16)"

definition peer_map_ok :: "(string \<times> PeerEntry) list \<Rightarrow> bool" where
  "peer_map_ok m \<longleftrightarrow> sorted_keys m \<and> (\<forall>e\<in>set m. length (fst e) = 6)"

text \<open>The shape of the registry: ordered maps, no torrent without a peer, six bytes per address.\<close>

definition tracker_inv :: "tracker \<Rightarrow> bool" where
  "tracker_inv tr \<longleftrightarrow> sorted_keys (tr_peers tr) \<and> (\<forall>t\<in>set (tr_peers tr). snd t \<noteq> [] \<and> peer_map_ok (snd t))"

lemma torrent_peers_register:
  "torrent_peers h' (register_peer now h peer left tr) =
    (if h' = h then map_assign peer \<lparr> pe_left = left, pe_last_announce = now \<rparr> (torrent_peers h tr)
     else torrent_peers h' tr)"
  by (simp add: torrent_peers_def register_peer_def map_simps)

lemma map_of_remove:
  "map_of (torrent_peers h' (remove_peer h peer tr)) a =
    (if h' = h \<and> a = peer then None else map_of (torrent_peers h' tr) a)"
proof (cases "map_of (tr_peers tr) h")
  case None
  then show ?thesis
    by (auto simp: remove_peer_def torrent_peers_def)
next
  case (Some m)
  have "map_of (map_erase peer m) a = (if a = peer then None else map_of m a)"
    by (simp add: map_simps)
  then have "map_erase peer m = [] \<Longrightarrow> a \<noteq> peer \<Longrightarrow> map_of m a = None"
    by simp
  then show ?thesis
    using Some by (auto simp: remove_peer_def torrent_peers_def map_simps Let_def split: if_splits)
qed

lemma torrent_peers_ok: "tracker_inv tr \<Longrightarrow> peer_map_ok (torrent_peers h tr)"
  by (force simp: tracker_inv_def torrent_peers_def peer_map_ok_def dest!: map_of_SomeD split: option.splits)

lemma torrent_peers_count [simp]: "torrent_peers h (tr\<lparr>tr_announce_count := n\<rparr>) = torrent_peers h tr"
  "torrent_peers h (tr\<lparr>tr_udp_clients := c\<rparr>) = torrent_peers h tr"
  by (simp_all add: torrent_peers_def)

lemma tracker_inv_count [simp]: "tracker_inv (tr\<lparr>tr_announce_count := n\<rparr>) = tracker_inv tr"
  "tracker_inv (tr\<lparr>tr_udp_clients := c\<rparr>) = tracker_inv tr"
  by (simp_all add: tracker_inv_def)

lemma length_compact_peer [simp]: "length ip = 4 \<Longrightarrow> length (compact_peer ip port) = 6"
  by (simp add: compact_peer_def)

lemma map_assign_not_Nil [simp]: "map_assign k v m \<noteq> []"
  by (cases m) (auto split: if_splits)

lemma sorted_keys_filter: "sorted_keys m \<Longrightarrow> sorted_keys (filter P m)"
  by (induction m) auto

lemma sorted_keys_values: "sorted_keys (map (\<lambda>(k, v). (k, f v)) m) \<longleftrightarrow> sorted_keys m"
  by (simp add: sorted_keys_def comp_def case_prod_beta)

lemma peer_map_ok_filter: "peer_map_ok m \<Longrightarrow> peer_map_ok (filter P m)"
  by (simp add: peer_map_ok_def sorted_keys_filter)

lemma peer_map_ok_assign: "peer_map_ok m \<Longrightarrow> length peer = 6 \<Longrightarrow> peer_map_ok (map_assign peer e m)"
  using set_map_assign [of peer e m] by (auto simp: peer_map_ok_def)

lemma register_inv:
  assumes "tracker_inv tr" "length peer = 6"
  shows "tracker_inv (register_peer now h peer left tr)"
proof -
  let ?m = "map_assign peer \<lparr> pe_left = left, pe_last_announce = now \<rparr> (torrent_peers h tr)"
  have "peer_map_ok ?m"
    using assms by (intro peer_map_ok_assign torrent_peers_ok)
  moreover have "\<forall>t\<in>set (map_assign h ?m (tr_peers tr)). t = (h, ?m) \<or> t \<in> set (tr_peers tr)"
    using set_map_assign [of h ?m "tr_peers tr"] by blast
  ultimately show ?thesis
    using assms(1) by (auto simp: tracker_inv_def register_peer_def)
qed

lemma remove_inv:
  assumes "tracker_inv tr"
  shows "tracker_inv (remove_peer h peer tr)"
proof (cases "map_of (tr_peers tr) h")
  case (Some m)
  then have "peer_map_ok (map_erase peer m)"
    using torrent_peers_ok [OF assms, of h] by (simp add: torrent_peers_def map_erase_def peer_map_ok_filter)
  moreover have "\<forall>t\<in>set (map_assign h (map_erase peer m) (tr_peers tr)).
      t = (h, map_erase peer m) \<or> t \<in> set (tr_peers tr)"
    using set_map_assign [of h "map_erase peer m" "tr_peers tr"] by blast
  moreover have "\<forall>t\<in>set (map_erase h (tr_peers tr)). t \<in> set (tr_peers tr)"
    by (simp add: map_erase_def)
  ultimately show ?thesis
    using assms Some by (auto simp: tracker_inv_def remove_peer_def Let_def)
qed (simp add: remove_peer_def assms)

lemma cleanup_inv: "tracker_inv tr \<Longrightarrow> tracker_inv (cleanup now tr)"
  by (auto simp: tracker_inv_def cleanup_def Let_def fresh_entries_def sorted_keys_values
      intro!: sorted_keys_filter peer_map_ok_filter)

lemma read_announce_peer:
  "read_announce target remote = Inr an \<Longrightarrow> address_ok remote \<Longrightarrow> length (an_peer an) = 6"
  by (auto simp: read_announce_def sum_bind_def address_ok_def Let_def split: sum.splits ip_address.splits)

lemma handle_announce_inv:
  "tracker_inv tr \<Longrightarrow> address_ok remote \<Longrightarrow> tracker_inv (snd (handle_announce what now target remote tr))"
  by (auto simp: handle_announce_def Let_def read_announce_peer intro!: register_inv remove_inv split: sum.splits)

lemma handle_udp_inv:
  "tracker_inv tr \<Longrightarrow> address_ok (fst remote) \<Longrightarrow>
    tracker_inv (snd (handle_udp_request now now_steady random remote request later tr))"
  by (auto simp: handle_udp_request_def udp_connect_def address_ok_def Let_def intro!: register_inv split: ip_address.splits)

fun event_ok :: "tracker_event \<Rightarrow> bool" where
  "event_ok (HttpRequest target remote) = address_ok remote"
| "event_ok (Datagram now_steady random remote request later) = address_ok (fst remote)"
| "event_ok Cleanup = True"

lemma tracker_event_inv:
  "tracker_inv tr \<Longrightarrow> event_ok (snd ev) \<Longrightarrow> tracker_inv (on_tracker_event what ev tr)"
  by (cases "(what, ev, tr)" rule: on_tracker_event.cases)
    (auto simp: route_request_def Let_def handle_announce_inv handle_udp_inv cleanup_inv)

lemma tracker_inv_new: "tracker_inv new_tracker"
  by (simp add: new_tracker_def tracker_inv_def)

definition tracker_steps :: "(tracker_error \<Rightarrow> string) \<Rightarrow> tracker \<Rightarrow> tracker \<Rightarrow> bool" where
  "tracker_steps what tr tr' \<longleftrightarrow> (\<exists>ev. event_ok (snd ev) \<and> tr' = on_tracker_event what ev tr)"

interpretation tracker_system: invariant_system "\<lambda>tr. tr = new_tracker" "tracker_steps what" tracker_inv
  for what
  by unfold_locales (auto simp: tracker_inv_new tracker_steps_def intro: tracker_event_inv)

subsection \<open>Lemmas: a peer stays listed\<close>

definition listed :: "int \<Rightarrow> byte list \<Rightarrow> string \<Rightarrow> tracker \<Rightarrow> bool" where
  "listed t0 h peer tr \<longleftrightarrow> (\<exists>e. map_of (torrent_peers h tr) peer = Some e \<and> t0 \<le> pe_last_announce e)"

text \<open>The request by which a peer leaves a torrent.\<close>

fun stops :: "byte list \<Rightarrow> string \<Rightarrow> tracker_event \<Rightarrow> bool" where
  "stops h peer (HttpRequest target remote) =
    (case read_announce target remote of
       Inl _ \<Rightarrow> False
     | Inr an \<Rightarrow> an_event an = ''stopped'' \<and> an_info_hash an = h \<and> an_peer an = peer)"
| "stops h peer _ = False"

lemma listed_register:
  "listed t0 h peer tr \<or> (h' = h \<and> peer' = peer) \<Longrightarrow> t0 \<le> now \<Longrightarrow>
    listed t0 h peer (register_peer now h' peer' left tr)"
  by (auto simp: listed_def torrent_peers_register map_simps)

lemma listed_count [simp]: "listed t0 h peer (tr\<lparr>tr_announce_count := n\<rparr>) = listed t0 h peer tr"
  "listed t0 h peer (tr\<lparr>tr_udp_clients := c\<rparr>) = listed t0 h peer tr"
  by (simp_all add: listed_def)

lemma listed_remove:
  "listed t0 h peer tr \<Longrightarrow> h' = h \<longrightarrow> peer' \<noteq> peer \<Longrightarrow> listed t0 h peer (remove_peer h' peer' tr)"
  by (auto simp: listed_def map_of_remove)

lemma listed_handle_announce:
  assumes "listed t0 h peer tr" "t0 \<le> now" "\<not> stops h peer (HttpRequest target remote)"
  shows "listed t0 h peer (snd (handle_announce what now target remote tr))"
  using assms
  by (auto simp: handle_announce_def Let_def listed_register listed_remove split: sum.splits)

lemma listed_handle_udp:
  assumes "listed t0 h peer tr" "t0 \<le> now"
  shows "listed t0 h peer (snd (handle_udp_request now now_steady random remote request later tr))"
  using assms by (auto simp: handle_udp_request_def udp_connect_def Let_def listed_register split: ip_address.splits)

lemma map_of_filter_Some: "distinct (map fst m) \<Longrightarrow> map_of m k = Some v \<Longrightarrow> P (k, v) \<Longrightarrow> map_of (filter P m) k = Some v"
  by (induction m) (auto simp: rev_image_eqI)

lemma listed_cleanup:
  assumes "listed t0 h peer tr" "tracker_inv tr" "now \<le> t0 + tr_interval tr * 2 * 10 ^ 9"
  shows "listed t0 h peer (cleanup now tr)"
proof -
  define th where "th = now - tr_interval tr * 2 * 10 ^ 9"
  obtain m e where m: "map_of (tr_peers tr) h = Some m" and e: "map_of m peer = Some e" "t0 \<le> pe_last_announce e"
    using assms(1) by (auto simp: listed_def torrent_peers_def split: option.splits)
  have "peer_map_ok m"
    using torrent_peers_ok [OF assms(2), of h] m by (simp add: torrent_peers_def)
  then have d: "distinct (map fst m)"
    by (auto simp: peer_map_ok_def intro: sorted_keys_distinct)
  have fresh: "map_of (fresh_entries th m) peer = Some e"
    unfolding fresh_entries_def using assms(3) e by (intro map_of_filter_Some d) (auto simp: th_def)
  have "map_of (map (\<lambda>(h, m). (h, fresh_entries th m)) (tr_peers tr)) h = Some (fresh_entries th m)"
    using m by (induction "tr_peers tr" arbitrary: tr) (auto split: if_splits simp: map_of_map)
  moreover have "distinct (map fst (map (\<lambda>(h, m). (h, fresh_entries th m)) (tr_peers tr)))"
    using assms(2) by (auto simp: tracker_inv_def comp_def case_prod_beta intro: sorted_keys_distinct)
  moreover have "fresh_entries th m \<noteq> []"
    using fresh by auto
  ultimately have "map_of (tr_peers (cleanup now tr)) h = Some (fresh_entries th m)"
    by (simp add: cleanup_def Let_def th_def map_of_filter_Some)
  then show ?thesis
    using fresh e(2) by (simp add: listed_def torrent_peers_def)
qed

lemma interval_kept: "tr_interval (on_tracker_event what ev tr) = tr_interval tr"
  by (cases "(what, ev, tr)" rule: on_tracker_event.cases)
    (auto simp: route_request_def handle_announce_def handle_udp_request_def udp_connect_def register_peer_def
      remove_peer_def cleanup_def Let_def split: sum.splits option.splits ip_address.splits)

lemma register_interval [simp]: "tr_interval (register_peer now h peer left tr) = tr_interval tr"
  by (simp add: register_peer_def)

lemma run_interval: "tr_interval (tracker_run what evs tr) = tr_interval tr"
  unfolding tracker_run_def by (induction evs arbitrary: tr) (simp_all add: interval_kept)

lemma listed_run:
  assumes "listed t0 h peer tr" "tracker_inv tr"
    "\<forall>(t, ev) \<in> set evs. event_ok ev \<and> t0 \<le> t \<and> t \<le> t0 + tr_interval tr * 2 * 10 ^ 9 \<and> \<not> stops h peer ev"
  shows "listed t0 h peer (tracker_run what evs tr) \<and> tracker_inv (tracker_run what evs tr)"
  using assms
proof (induction evs arbitrary: tr)
  case (Cons te evs)
  obtain t ev where te: "te = (t, ev)"
    by (cases te)
  then have ev: "event_ok ev" "t0 \<le> t" "t \<le> t0 + tr_interval tr * 2 * 10 ^ 9" "\<not> stops h peer ev"
    using Cons.prems(3) by auto
  have "listed t0 h peer (on_tracker_event what te tr)"
    using ev Cons.prems(1,2) te
    by (cases ev) (auto simp: route_request_def Let_def listed_handle_announce listed_handle_udp listed_cleanup)
  moreover have "tracker_inv (on_tracker_event what te tr)"
    using ev(1) Cons.prems(2) te by (simp add: tracker_event_inv)
  ultimately show ?case
    using Cons.IH [of "on_tracker_event what te tr"] Cons.prems(3)
    by (simp add: tracker_run_def interval_kept)
qed (simp add: tracker_run_def)

lemma announce_answer:
  assumes "read_announce target remote = Inr an" "an_event an \<noteq> ''stopped''"
  shows "handle_announce what now target remote tr =
    (let tr' = register_peer now (an_info_hash an) (an_peer an) (an_left an)
           (tr\<lparr>tr_announce_count := tr_announce_count tr + 1\<rparr>)
     in (\<lparr> hr_status = 200,
           hr_body = announce_body (tr_interval tr) (count_seeders_leechers (an_info_hash an) tr')
             (concat (other_peers (an_info_hash an) (an_peer an) tr')) \<rparr>, tr'))"
  using assms by (simp add: handle_announce_def Let_def register_peer_def)

lemma length_filter_split:
  "length (filter (\<lambda>(a, e). P e) m) + length (filter (\<lambda>(a, e). \<not> P e) m) = length m"
  by (induction m) auto

lemma counts_all: "(case count_seeders_leechers h tr of (c, i) \<Rightarrow> c + i) = length (torrent_peers h tr)"
  by (simp add: count_seeders_leechers_def length_filter_split)

lemma peers_distinct: "tracker_inv tr \<Longrightarrow> distinct (map fst (torrent_peers h tr))"
  using torrent_peers_ok [of tr h] sorted_keys_distinct unfolding peer_map_ok_def by blast

lemma others_distinct: "tracker_inv tr \<Longrightarrow> distinct (other_peers h peer tr)"
  by (simp add: other_peers_def peers_distinct)

lemma listed_key: "listed t0 h peer tr \<Longrightarrow> peer \<in> set (map fst (torrent_peers h tr))"
  by (auto simp: listed_def dest!: map_of_SomeD intro: rev_image_eqI)

lemma others_listed: "listed t0 h a tr \<Longrightarrow> a \<noteq> peer \<Longrightarrow> a \<in> set (other_peers h peer tr)"
  using listed_key by (auto simp: other_peers_def)

lemma others_count:
  assumes "tracker_inv tr" "listed t0 h peer tr"
  shows "length (other_peers h peer tr) + 1 = length (torrent_peers h tr)"
proof -
  let ?ks = "map fst (torrent_peers h tr)"
  have "set (other_peers h peer tr) = set ?ks - {peer}"
    by (auto simp: other_peers_def)
  then have "length (other_peers h peer tr) = card (set ?ks - {peer})"
    using distinct_card [OF others_distinct [OF assms(1), of h peer]] by simp
  moreover have "card (set ?ks) = length ?ks"
    using distinct_card [OF peers_distinct [OF assms(1), of h]] .
  ultimately show ?thesis
    using listed_key [OF assms(2)] card_Suc_Diff1 [of "set ?ks" peer] by simp
qed

subsection \<open>Lemmas: the state file\<close>

text \<open>What a restart keeps of an entry: the time in whole seconds.\<close>

definition stored_entry :: "PeerEntry \<Rightarrow> PeerEntry" where
  "stored_entry e = e\<lparr>pe_last_announce := to_time_t (pe_last_announce e) * 10 ^ 9\<rparr>"

definition stored_peers :: "tracker \<Rightarrow> (byte list \<times> (string \<times> PeerEntry) list) list" where
  "stored_peers tr = map (\<lambda>(h, m). (h, map (\<lambda>(a, e). (a, stored_entry e)) m)) (tr_peers tr)"

definition in_int64 :: "int \<Rightarrow> bool" where
  "in_int64 i \<longleftrightarrow> int64_min \<le> i \<and> i \<le> int64_max"

definition storable :: "tracker \<Rightarrow> bool" where
  "storable tr \<longleftrightarrow> (\<forall>t\<in>set (tr_peers tr). in_int64 (int (length (fst t))) \<and>
     (\<forall>p\<in>set (snd t). in_int64 (pe_left (snd p)) \<and> in_int64 (to_time_t (pe_last_announce (snd p)))))"

lemma saved_peer_simp:
  "saved_peer (a, e) = Dict [(''compact'', String a),
     (''last_announce'', Integer (to_time_t (pe_last_announce e))), (''left'', Integer (pe_left e))]"
  by (simp add: saved_peer_def less_char_def)

lemma load_saved_peer: "load_peer (saved_peer (a, e)) = Some (a, stored_entry e)"
  by (simp add: saved_peer_simp load_peer_def stored_entry_def)

lemma sorted_keys_append:
  "sorted_keys (m @ n) \<longleftrightarrow> sorted_keys m \<and> sorted_keys n \<and> (\<forall>x\<in>fst ` set m. \<forall>y\<in>fst ` set n. x < y)"
  by (auto simp: sorted_keys_def sorted_wrt_append)

lemma load_saved_peers:
  "sorted_keys (m0 @ map (\<lambda>(a, e). (a, stored_entry e)) m) \<Longrightarrow>
    load_peers (map saved_peer m) m0 = Some (m0 @ map (\<lambda>(a, e). (a, stored_entry e)) m)"
proof (induction m arbitrary: m0)
  case (Cons p m)
  obtain a e where p: "p = (a, e)"
    by (cases p)
  have "map_assign a (stored_entry e) m0 = m0 @ [(a, stored_entry e)]"
    using Cons.prems by (intro map_assign_last) (auto simp: p sorted_keys_append)
  then show ?case
    using Cons.IH [of "m0 @ [(a, stored_entry e)]"] Cons.prems by (simp add: p load_saved_peer)
qed simp

lemma char_of_byte_less: "char_of_byte b < char_of_byte c \<longleftrightarrow> b < c"
proof -
  have "unat b < 256" "unat c < 256"
    using unat_bound [of b] unat_bound [of c] by simp_all
  then show ?thesis
    by (simp add: char_of_byte_def less_char_def word_less_nat_alt)
qed

lemma char_of_byte_eq: "char_of_byte b = char_of_byte c \<longleftrightarrow> b = c"
  by (metis byte_of_char_of_byte)

lemma string_of_bytes_Cons: "string_of_bytes (b # s) = char_of_byte b # string_of_bytes s"
  by (simp add: string_of_bytes_def)

lemma string_of_bytes_less: "string_of_bytes s < string_of_bytes t \<longleftrightarrow> s < t"
proof (induction s arbitrary: t)
  case Nil
  then show ?case by (cases t) (auto simp: string_of_bytes_def)
next
  case (Cons b s)
  then show ?case
    by (cases t) (simp_all add: string_of_bytes_Cons char_of_byte_less char_of_byte_eq, simp add: string_of_bytes_def)
qed

definition saved_torrent :: "byte list \<times> (string \<times> PeerEntry) list \<Rightarrow> string \<times> Value" where
  "saved_torrent t = (string_of_bytes (fst t), List (map saved_peer (snd t)))"

lemma sorted_saved: "sorted_keys (map saved_torrent ts) \<longleftrightarrow> sorted_keys ts"
  by (simp add: sorted_keys_def saved_torrent_def sorted_wrt_map string_of_bytes_less)

lemma saved_dict:
  "sorted_keys (d @ map saved_torrent ts) \<Longrightarrow>
    foldl (\<lambda>d (h, m). map_assign (string_of_bytes h) (List (map saved_peer m)) d) d ts = d @ map saved_torrent ts"
proof (induction ts arbitrary: d)
  case (Cons t ts)
  obtain h m where t: "t = (h, m)"
    by (cases t)
  have "map_assign (string_of_bytes h) (List (map saved_peer m)) d = d @ [saved_torrent t]"
    using Cons.prems by (subst map_assign_last) (auto simp: t sorted_keys_append saved_torrent_def)
  then show ?case
    using Cons.IH [of "d @ [saved_torrent t]"] Cons.prems by (simp add: t)
qed simp

lemma save_state_simp:
  "sorted_keys (tr_peers tr) \<Longrightarrow> save_state tr = encode (Dict [(''peers'', Dict (map saved_torrent (tr_peers tr)))])"
  using saved_dict [of "[]" "tr_peers tr"] by (simp add: save_state_def sorted_saved)

definition restored_torrent :: "byte list \<times> (string \<times> PeerEntry) list \<Rightarrow> byte list \<times> (string \<times> PeerEntry) list" where
  "restored_torrent t = (fst t, map (\<lambda>(a, e). (a, stored_entry e)) (snd t))"

lemma load_saved_torrents:
  "sorted_keys (tr_peers tr @ map restored_torrent ts) \<Longrightarrow> \<forall>t\<in>set ts. sorted_keys (snd t) \<Longrightarrow>
    load_torrents (map saved_torrent ts) tr = Some (tr\<lparr>tr_peers := tr_peers tr @ map restored_torrent ts\<rparr>)"
proof (induction ts arbitrary: tr)
  case (Cons t ts)
  have new: "\<forall>k\<in>fst ` set (tr_peers tr). k < fst t"
    using Cons.prems(1) by (auto simp: sorted_keys_append restored_torrent_def)
  then have none: "torrent_peers (fst t) tr = []"
    by (auto simp: torrent_peers_def dest!: map_of_SomeD split: option.splits)
  have "sorted_keys (map (\<lambda>(a, e). (a, stored_entry e)) (snd t))"
    using Cons.prems(2) by (simp add: sorted_keys_values)
  then have "load_peers (map saved_peer (snd t)) [] = Some (snd (restored_torrent t))"
    using load_saved_peers [of "[]" "snd t"] by (simp add: restored_torrent_def)
  moreover have "map_assign (fst t) (snd (restored_torrent t)) (tr_peers tr) = tr_peers tr @ [restored_torrent t]"
    using map_assign_last [OF new] by (simp add: restored_torrent_def)
  ultimately show ?case
    using Cons.IH [of "tr\<lparr>tr_peers := tr_peers tr @ [restored_torrent t]\<rparr>"] Cons.prems
    by (simp add: saved_torrent_def none)
qed simp

lemma stored_peers_eq: "stored_peers tr = map restored_torrent (tr_peers tr)"
  by (simp add: stored_peers_def restored_torrent_def case_prod_beta)

lemma sorted_restored: "sorted_keys (map restored_torrent ts) \<longleftrightarrow> sorted_keys ts"
  by (simp add: sorted_keys_def restored_torrent_def comp_def)

lemma valid_saved_peer:
  "length a = 6 \<Longrightarrow> in_int64 (pe_left e) \<Longrightarrow> in_int64 (to_time_t (pe_last_announce e)) \<Longrightarrow>
    valid_value (saved_peer (a, e))"
  by (simp add: saved_peer_simp in_int64_def int64_max_def less_char_def)

lemma valid_saved:
  assumes "tracker_inv tr" "storable tr"
  shows "valid_value (Dict (map saved_torrent (tr_peers tr)))"
proof -
  have "valid_value (snd (saved_torrent t))" if "t \<in> set (tr_peers tr)" for t
    using that assms
    by (fastforce simp: saved_torrent_def tracker_inv_def storable_def peer_map_ok_def intro!: valid_saved_peer)
  moreover have "sorted_keys (map saved_torrent (tr_peers tr))"
    using assms(1) by (simp add: sorted_saved tracker_inv_def)
  moreover have "int (length (fst (saved_torrent t))) \<le> int64_max" if "t \<in> set (tr_peers tr)" for t
    using that assms(2) by (auto simp: saved_torrent_def storable_def in_int64_def)
  ultimately show ?thesis
    by (auto simp: case_prod_beta)
qed

subsection \<open>Properties\<close>

text \<open>C13: A peer that announces itself over HTTP is listed in the answer to every later HTTP announce of another
  peer for the same torrent, whatever HTTP requests, datagrams and clean-up rounds come in between, as
  long as no stop arrives for that address, no more than two announce intervals pass and the clock is not
  set back. The answer lists each other peer once and never the one that asks, and its two counters add up
  to all peers.\<close>

theorem announced_peer_listed:
  assumes inv: "tracker_inv tr" "address_ok remote" "address_ok remote2"
    and an: "read_announce target remote = Inr an" "an_event an \<noteq> ''stopped''"
    and evs: "\<forall>(t, ev) \<in> set evs. event_ok ev \<and> now \<le> t \<and> t \<le> now + tr_interval tr * 2 * 10 ^ 9 \<and>
      \<not> stops (an_info_hash an) (an_peer an) ev"
    and an2: "read_announce target2 remote2 = Inr an2" "an_event an2 \<noteq> ''stopped''" "now \<le> now2"
      "an_info_hash an2 = an_info_hash an" "an_peer an2 \<noteq> an_peer an"
  shows "let tr1 = snd (handle_announce what now target remote tr);
             tr2 = tracker_run what evs tr1;
             (res, tr3) = handle_announce what now2 target2 remote2 tr2
         in \<exists>others complete incomplete.
              res = \<lparr> hr_status = 200, hr_body = announce_body (tr_interval tr) (complete, incomplete) (concat others) \<rparr> \<and>
              an_peer an \<in> set others \<and> an_peer an2 \<notin> set others \<and> distinct others \<and>
              complete + incomplete = length others + 1"
proof -
  let ?h = "an_info_hash an"
  define tr1 where "tr1 = snd (handle_announce what now target remote tr)"
  define tr2 where "tr2 = tracker_run what evs tr1"
  define tr3 where "tr3 = snd (handle_announce what now2 target2 remote2 tr2)"
  have tr1: "tracker_inv tr1" "listed now ?h (an_peer an) tr1" "tr_interval tr1 = tr_interval tr"
    using inv handle_announce_inv [of tr remote what now target]
    by (simp_all add: tr1_def announce_answer [OF an] Let_def listed_register)
  have tr2: "listed now ?h (an_peer an) tr2" "tracker_inv tr2"
    using listed_run [OF tr1(2,1)] evs by (simp_all add: tr2_def tr1(3))
  have "tr_interval tr2 = tr_interval tr"
    by (simp add: tr2_def run_interval tr1(3))
  then have ans: "handle_announce what now2 target2 remote2 tr2 = (\<lparr> hr_status = 200,
      hr_body = announce_body (tr_interval tr) (count_seeders_leechers ?h tr3)
        (concat (other_peers ?h (an_peer an2) tr3)) \<rparr>, tr3)"
    by (simp add: tr3_def announce_answer [OF an2(1,2)] an2(4) Let_def)
  have inv3: "tracker_inv tr3"
    using tr2(2) inv(3) by (simp add: tr3_def handle_announce_inv)
  have l3: "listed now ?h (an_peer an) tr3" "listed now ?h (an_peer an2) tr3"
    using tr2(1) an2(3,4) by (simp_all add: tr3_def announce_answer [OF an2(1,2)] Let_def listed_register)
  obtain c i where ci: "count_seeders_leechers ?h tr3 = (c, i)"
    by fastforce
  have "c + i = length (other_peers ?h (an_peer an2) tr3) + 1"
    using counts_all [of ?h tr3] others_count [OF inv3 l3(2)] by (simp add: ci)
  moreover have "an_peer an2 \<notin> set (other_peers ?h (an_peer an2) tr3)"
    by (simp add: other_peers_def)
  ultimately show ?thesis
    using others_listed [OF l3(1) an2(5) [symmetric]] others_distinct [OF inv3, of ?h "an_peer an2"]
    unfolding tr1_def [symmetric] tr2_def [symmetric] Let_def ans ci by blast
qed

definition example_error :: "tracker_error \<Rightarrow> string" where
  "example_error e = ''error''"

theorem announced_peer_listed_witness:
  "let tr1 = snd (handle_announce example_error 0 ''/announce?info_hash=%41b&port=80&left=5'' (V4 [10, 0, 0, 1]) new_tracker);
       tr2 = tracker_run example_error
         [(1, HttpRequest ''/announce?info_hash=%41b&port=90&event=stopped'' (V4 [10, 0, 0, 1])), (2, Cleanup)] tr1;
       (res, tr3) = handle_announce example_error 3 ''/announce?info_hash=%41b&port=81'' (V4 [10, 0, 0, 2]) tr2
   in \<exists>others complete incomplete.
        res = \<lparr> hr_status = 200, hr_body = announce_body 1800 (complete, incomplete) (concat others) \<rparr> \<and>
        compact_peer [10, 0, 0, 1] 80 \<in> set others \<and> compact_peer [10, 0, 0, 2] 81 \<notin> set others \<and>
        distinct others \<and> complete + incomplete = length others + 1"
proof -
  let ?an = "\<lambda>ip port left event. \<lparr> an_info_hash = bytes_of_string ''Ab'', an_peer = compact_peer ip port,
      an_left = left, an_event = event \<rparr>"
  have read:
    "read_announce ''/announce?info_hash=%41b&port=80&left=5'' (V4 [10, 0, 0, 1]) = Inr (?an [10, 0, 0, 1] 80 5 [])"
    "read_announce ''/announce?info_hash=%41b&port=81'' (V4 [10, 0, 0, 2]) = Inr (?an [10, 0, 0, 2] 81 0 [])"
    "read_announce ''/announce?info_hash=%41b&port=90&event=stopped'' (V4 [10, 0, 0, 1])
      = Inr (?an [10, 0, 0, 1] 90 0 ''stopped'')"
    by code_simp+
  have neq: "compact_peer [10, 0, 0, 1] 90 \<noteq> compact_peer [10, 0, 0, 1] 80"
    "compact_peer [10, 0, 0, 2] 81 \<noteq> compact_peer [10, 0, 0, 1] 80"
    by code_simp+
  show ?thesis
    using announced_peer_listed [OF tracker_inv_new _ _ read(1) _ _ read(2), of
      "[(1, HttpRequest ''/announce?info_hash=%41b&port=90&event=stopped'' (V4 [10, 0, 0, 1])), (2, Cleanup)]"
      0 3 example_error] neq
    by (simp add: address_ok_def read(3) new_tracker_def del: list.map)
qed

text \<open>C36: A fresh tracker that loads the state another one has saved has the registry that was saved: the same
  torrents and peers with the bytes they have left, and the times of their announces in whole seconds
  (the numbers are 64-bit integers).\<close>

theorem tracker_state_roundtrip:
  assumes "tracker_inv tr" "storable tr"
  shows "load_state (Some (save_state tr)) new_tracker = new_tracker\<lparr>tr_peers := stored_peers tr\<rparr>"
proof -
  let ?root = "Dict [(''peers'', Dict (map saved_torrent (tr_peers tr)))]"
  have sorted: "sorted_keys (tr_peers tr)" "\<forall>t\<in>set (tr_peers tr). sorted_keys (snd t)"
    using assms(1) by (auto simp: tracker_inv_def peer_map_ok_def)
  have "valid_value ?root"
    using valid_saved [OF assms] by (simp add: int64_max_def)
  then have "decode (save_state tr) = Inr ?root"
    unfolding save_state_simp [OF sorted(1)] by (rule decode_of_encode)
  moreover have "load_torrents (map saved_torrent (tr_peers tr)) new_tracker
      = Some (new_tracker\<lparr>tr_peers := map restored_torrent (tr_peers tr)\<rparr>)"
    using load_saved_torrents [of new_tracker "tr_peers tr"] sorted by (simp add: new_tracker_def sorted_restored)
  moreover have "save_state tr \<noteq> []"
    by (simp add: save_state_simp [OF sorted(1)])
  ultimately show ?thesis
    by (simp add: load_state_def stored_peers_eq)
qed

theorem tracker_state_roundtrip_witness:
  "let tr = register_peer 5000000001 [1, 2] ''abcdef'' 7 new_tracker
   in load_state (Some (save_state tr)) new_tracker =
      new_tracker\<lparr>tr_peers := [([1, 2], [(''abcdef'', \<lparr> pe_left = 7, pe_last_announce = 5000000000 \<rparr>)])]\<rparr>"
  using tracker_state_roundtrip [of "register_peer 5000000001 [1, 2] ''abcdef'' 7 new_tracker"]
    register_inv [OF tracker_inv_new, of "''abcdef''" 5000000001 "[1, 2]" 7]
  by (simp add: storable_def register_peer_def new_tracker_def torrent_peers_def in_int64_def int64_max_def
      int64_min_def to_time_t_def stored_peers_def stored_entry_def)

end
