(* ===== verification/TrackerClient.thy ===== *)
theory TrackerClient
  imports Tracker
begin

text \<open>
  The announce clients of \<^verbatim>\<open>TrackerClient.hpp\<close>: the query of the HTTP client, its redirects and the
  parser of the answer, the choice of the client for a URL, and the UDP client with its connect and
  announce retries.

  The network is a parameter with a state of its own: a function that sends a request and returns
  what comes of it. The parser of URLs (\<^verbatim>\<open>boost::urls\<close>) and the text of an address
  (\<^verbatim>\<open>asio\<close>) are parameters as well. The last part connects the clients with the tracker of
  \<^verbatim>\<open>Tracker.hpp\<close>: what an HTTP client sends is what the handler reads, and a UDP client gets its answer over
  a network that loses and injects datagrams.
\<close>

subsection \<open>Announce parameters and results\<close>

record AnnounceRequestParams =
  ap_info_hash :: "byte list"
  ap_peer_id :: "byte list"
  ap_event :: string
  ap_port :: u16
  ap_uploaded :: u64
  ap_downloaded :: u64
  ap_left :: u64

record TrackerAnnounceResult =
  ar_interval :: int
  ar_peers :: "string list"

datatype client_error =
    BadBody bencode_error | NotADictionary
  | RedirectWithoutLocation | TooManyRedirects | BadStatus nat string | NetworkFailed
  | ResolveFailed | NoConnectionId | NoAnswer
  | InvalidUrl | NoPort | UnsupportedScheme string

text \<open>\<^verbatim>\<open>static_cast<int>\<close> of a wider integer.\<close>

definition int_cast :: "int \<Rightarrow> int" where
  "int_cast i = sint (word_of_int i :: 32 word)"

subsection \<open>The HTTP announce\<close>

definition unreserved :: "char \<Rightarrow> bool" where
  "unreserved c \<longleftrightarrow> is_digit c \<or> (CHR ''a'' \<le> c \<and> c \<le> CHR ''z'') \<or> (CHR ''A'' \<le> c \<and> c \<le> CHR ''Z'') \<or>
     c \<in> {CHR ''-'', CHR ''_'', CHR ''.'', CHR ''~''}"

definition url_escape :: "byte \<Rightarrow> string" where
  "url_escape b =
    (let c = char_of_byte b
     in if unreserved c then [c]
        else [CHR ''%'', digit_char (unat b div 16), digit_char (unat b mod 16)])"

definition url_encode :: "byte list \<Rightarrow> string" where
  "url_encode bs = concat (map url_escape bs)"

definition announce_query :: "AnnounceRequestParams \<Rightarrow> string" where
  "announce_query p =
    ''info_hash='' @ url_encode (ap_info_hash p) @ ''&peer_id='' @ url_encode (ap_peer_id p) @
    ''&port='' @ show_nat (unat (ap_port p)) @ ''&uploaded='' @ show_nat (unat (ap_uploaded p)) @
    ''&downloaded='' @ show_nat (unat (ap_downloaded p)) @ ''&left='' @ show_nat (unat (ap_left p)) @
    ''&compact=1'' @ (if ap_event p = [] then [] else ''&event='' @ ap_event p)"

definition peer_text :: "(ip_address \<Rightarrow> string) \<Rightarrow> byte list \<Rightarrow> u16 \<Rightarrow> string" where
  "peer_text addr_str ip port = addr_str (V4 ip) @ CHR '':'' # show_nat (unat port)"

text \<open>The compact form: six bytes per peer, a remainder is dropped.\<close>

definition compact_peers :: "(ip_address \<Rightarrow> string) \<Rightarrow> byte list \<Rightarrow> string list" where
  "compact_peers addr_str bs =
    map (\<lambda>c. peer_text addr_str (take 4 c) (get16 (drop 4 c)))
      (filter (\<lambda>c. length c = 6) (chunks 6 bs))"

text \<open>The list form: entries without both fields and version 6 addresses are skipped.\<close>

definition listed_peer :: "Value \<Rightarrow> string list" where
  "listed_peer entry =
    (case as_Dict entry of
       None \<Rightarrow> []
     | Some d \<Rightarrow>
         (case (Option.bind (map_of d ''ip'') as_String, Option.bind (map_of d ''port'') as_Integer) of
            (Some ip, Some port) \<Rightarrow>
              if CHR '':'' \<in> set ip then []
              else [ip @ CHR '':'' # show_nat (unat (word_of_int port :: u16))]
          | _ \<Rightarrow> []))"

definition parse_tracker_response_body ::
    "(ip_address \<Rightarrow> string) \<Rightarrow> string \<Rightarrow> client_error + TrackerAnnounceResult" where
  "parse_tracker_response_body addr_str body =
    (case decode_prefix body of
       Inl e \<Rightarrow> Inl (BadBody e)
     | Inr (v, consumed) \<Rightarrow>
         (case as_Dict v of
            None \<Rightarrow> Inl NotADictionary
          | Some dict \<Rightarrow>
              (let interval = (case Option.bind (map_of dict ''interval'') as_Integer of
                                 None \<Rightarrow> 1800 | Some i \<Rightarrow> int_cast i);
                   peers = (case map_of dict ''peers'' of
                              Some (String s) \<Rightarrow> compact_peers addr_str (bytes_of_string s)
                            | Some (List l) \<Rightarrow> concat (map listed_peer l)
                            | _ \<Rightarrow> [])
               in Inr \<lparr> ar_interval = interval, ar_peers = peers \<rparr>)))"

definition parse_tracker_failure_reason :: "string \<Rightarrow> string" where
  "parse_tracker_failure_reason body =
    (case decode_prefix body of
       Inl _ \<Rightarrow> []
     | Inr (v, consumed) \<Rightarrow>
         (case Option.bind (as_Dict v) (\<lambda>d. Option.bind (map_of d ''failure reason'') as_String) of
            None \<Rightarrow> [] | Some s \<Rightarrow> s))"

text \<open>What \<^verbatim>\<open>boost::urls::parse_uri\<close> gives of a URL. Path and query are the encoded ones.\<close>

record url_view =
  uv_scheme :: string
  uv_has_authority :: bool
  uv_host :: string
  uv_port :: "string option"
  uv_path :: string
  uv_query :: "string option"

record http_reply =
  hp_status :: nat
  hp_location :: string
  hp_body :: string

text \<open>The network of the HTTP clients: a request with its host header and target (\<^verbatim>\<open>None\<close> when writing or
  reading fails), a new connection to a host and port (with the TLS handshake for \<^verbatim>\<open>https\<close>), and
  whether the final shutdown of the socket goes through.\<close>

record 'n http_net =
  hn_request :: "string \<Rightarrow> string \<Rightarrow> 'n \<Rightarrow> http_reply option \<times> 'n"
  hn_connect :: "string \<Rightarrow> string \<Rightarrow> 'n \<Rightarrow> bool \<times> 'n"
  hn_shutdown :: "'n \<Rightarrow> bool \<times> 'n"
  hn_parse_uri :: "string \<Rightarrow> url_view option"
  hn_addr_str :: "ip_address \<Rightarrow> string"
  hn_tls :: bool

definition redirect_status :: "nat \<Rightarrow> bool" where
  "redirect_status s \<longleftrightarrow> s \<in> {301, 302, 307, 308}"

text \<open>The host header and the target of a redirect.\<close>

definition redirect_url :: "'n http_net \<Rightarrow> string \<Rightarrow> url_view option" where
  "redirect_url net loc =
    (case hn_parse_uri net loc of None \<Rightarrow> None | Some uv \<Rightarrow> if uv_has_authority uv then Some uv else None)"

definition redirect_target :: "'n http_net \<Rightarrow> string \<Rightarrow> string \<Rightarrow> string \<times> string" where
  "redirect_target net current_host loc =
    (case redirect_url net loc of
       None \<Rightarrow> (current_host, loc)
     | Some uv \<Rightarrow>
         (let target = uv_path uv @ (case uv_query uv of None \<Rightarrow> [] | Some q \<Rightarrow> CHR ''?'' # q)
          in (uv_host uv @ (case uv_port uv of None \<Rightarrow> [] | Some port \<Rightarrow> CHR '':'' # port),
              if target = [] then ''/'' else target)))"

definition redirect_connect :: "'n http_net \<Rightarrow> string \<Rightarrow> 'n \<Rightarrow> bool \<times> 'n" where
  "redirect_connect net loc s =
    (case redirect_url net loc of
       None \<Rightarrow> (True, s)
     | Some uv \<Rightarrow>
         hn_connect net (uv_host uv)
           (case uv_port uv of Some port \<Rightarrow> port | None \<Rightarrow> if hn_tls net then ''443'' else ''80'') s)"

text \<open>The loop of \<^verbatim>\<open>http_announce_impl\<close>, with the requests that are still allowed.\<close>

fun http_rounds :: "'n http_net \<Rightarrow> nat \<Rightarrow> string \<Rightarrow> string \<Rightarrow> 'n \<Rightarrow>
    (client_error + TrackerAnnounceResult) \<times> 'n" where
  "http_rounds net 0 current_host full_target s = (Inl TooManyRedirects, s)"
| "http_rounds net (Suc k) current_host full_target s =
    (case hn_request net current_host full_target s of
       (None, s) \<Rightarrow> (Inl NetworkFailed, s)
     | (Some res, s) \<Rightarrow>
         if hp_status res = 200
         then (parse_tracker_response_body (hn_addr_str net) (hp_body res), s)
         else if redirect_status (hp_status res)
         then if hp_location res = [] then (Inl RedirectWithoutLocation, s)
              else
                (let (redirect_host, target) = redirect_target net current_host (hp_location res)
                 in if redirect_host \<noteq> current_host
                    then (case redirect_connect net (hp_location res) s of
                            (False, s) \<Rightarrow> (Inl NetworkFailed, s)
                          | (True, s) \<Rightarrow> http_rounds net k redirect_host target s)
                    else http_rounds net k redirect_host target s)
         else (Inl (BadStatus (hp_status res) (parse_tracker_failure_reason (hp_body res))), s))"

definition http_announce_impl :: "'n http_net \<Rightarrow> string \<Rightarrow> string \<Rightarrow> AnnounceRequestParams \<Rightarrow> 'n \<Rightarrow>
    (client_error + TrackerAnnounceResult) \<times> 'n" where
  "http_announce_impl net host target p s = http_rounds net 6 host (target @ ''?'' @ announce_query p) s"

text \<open>\<^verbatim>\<open>HttpTrackerClient::announce\<close> and \<^verbatim>\<open>HttpsTrackerClient::announce\<close>: only the first insists on a clean
  shutdown. The proxy of \<^verbatim>\<open>announce_proxy_for\<close> is always absent.\<close>

definition http_announce :: "'n http_net \<Rightarrow> string \<Rightarrow> nat \<Rightarrow> string \<Rightarrow> AnnounceRequestParams \<Rightarrow> 'n \<Rightarrow>
    (client_error + TrackerAnnounceResult) \<times> 'n" where
  "http_announce net host port target p s =
    (case hn_connect net host (show_nat port) s of
       (False, s) \<Rightarrow> (Inl NetworkFailed, s)
     | (True, s) \<Rightarrow>
         (case http_announce_impl net host target p s of
            (Inl e, s) \<Rightarrow> (Inl e, s)
          | (Inr result, s) \<Rightarrow>
              (let (clean, s) = hn_shutdown net s
               in if clean \<or> hn_tls net then (Inr result, s) else (Inl NetworkFailed, s))))"

subsection \<open>The client for a URL\<close>

datatype tracker_client =
    UdpTracker string nat
  | HttpTracker string nat string
  | HttpsTracker string nat string

text \<open>\<open>port_number\<close> is zero for a port that is no number in range.\<close>

definition create_tracker_client ::
    "(string \<Rightarrow> url_view option) \<Rightarrow> (string \<Rightarrow> u16) \<Rightarrow> string \<Rightarrow> client_error + tracker_client" where
  "create_tracker_client parse_uri port_number url =
    (case parse_uri url of
       None \<Rightarrow> Inl InvalidUrl
     | Some uv \<Rightarrow>
         (let target = (if uv_path uv = [] then ''/'' else uv_path uv) @
                (case uv_query uv of None \<Rightarrow> [] | Some q \<Rightarrow> if q = [] then [] else CHR ''?'' # q);
              port = (case uv_port uv of
                        Some p \<Rightarrow> unat (port_number p)
                      | None \<Rightarrow> if uv_scheme uv = ''http'' then 80
                                else if uv_scheme uv = ''https'' then 443 else 0)
          in if port = 0 then Inl NoPort
             else if uv_scheme uv = ''udp'' then Inr (UdpTracker (uv_host uv) port)
             else if uv_scheme uv = ''http'' then Inr (HttpTracker (uv_host uv) port target)
             else if uv_scheme uv = ''https'' then Inr (HttpsTracker (uv_host uv) port target)
             else Inl (UnsupportedScheme (uv_scheme uv))))"

subsection \<open>The UDP client\<close>

text \<open>What comes of a datagram that is sent and waited on: a datagram, the end of the waiting time, the abort
  timer of \<^verbatim>\<open>cancel\<close>, or an exception.\<close>

datatype udp_outcome = Reply "byte list" | TimedOut | AbortFired | SocketError


record udp_client =
  ud_open :: bool
  ud_cancelled :: bool
  ud_resolved :: bool
  ud_connection_id_expiry :: int
  ud_next_transaction_id :: u32
  ud_connection_id :: u64


definition cancel_udp_client :: "udp_client \<Rightarrow> udp_client" where
  "cancel_udp_client c = c\<lparr>ud_cancelled := True\<rparr>"


definition connect_request :: "u32 \<Rightarrow> byte list" where
  "connect_request transaction_id = put64 0x41727101980 @ put32 0 @ put32 transaction_id"

definition announce_event :: "string \<Rightarrow> u32" where
  "announce_event e =
    (if e = ''started'' then 2 else if e = ''completed'' then 1 else if e = ''stopped'' then 3 else 0)"

text \<open>The packed \<^verbatim>\<open>UdpAnnounceRequest\<close>; the info hash and the peer id have twenty bytes.\<close>

definition announce_request :: "u64 \<Rightarrow> u32 \<Rightarrow> AnnounceRequestParams \<Rightarrow> byte list" where
  "announce_request connection_id transaction_id p =
    put64 connection_id @ put32 1 @ put32 transaction_id @ ap_info_hash p @ ap_peer_id p @
    put64 (ap_downloaded p) @ put64 (ap_left p) @ put64 (ap_uploaded p) @
    put32 (announce_event (ap_event p)) @ put32 0 @ put32 0 @ put32 (- 1) @ put16 (ap_port p)"







subsection \<open>A network between the client and the tracker\<close>

text \<open>Each datagram the client sends meets the next fault of a script: it or its answer is lost (and the
  client waits in vain; an answer that the tracker's system refuses to send counts as lost), a stray datagram
  arrives first, or it is delivered and the answer is sent and delivered. Nobody else writes to the
  tracker meanwhile.\<close>

datatype fault = Deliver | LoseRequest | LoseAnswer | Stray "byte list"

record swarm_net =
  sn_tracker :: tracker
  sn_now :: int
  sn_random :: "u64 list"
  sn_script :: "fault list"

definition deliver_datagram :: "endpoint \<Rightarrow> byte list \<Rightarrow> swarm_net \<Rightarrow> byte list option \<times> swarm_net" where
  "deliver_datagram remote request s =
    (let (answer, tr) = handle_udp_request (sn_now s) (sn_now s) (hd (sn_random s @ [0])) remote request request
           (sn_tracker s)
     in (answer, s\<lparr>sn_tracker := tr, sn_random := tl (sn_random s)\<rparr>))"




subsection \<open>Lemmas: the query\<close>

lemma unreserved_not_special:
  "unreserved c \<Longrightarrow> c \<notin> {CHR ''%'', CHR ''+'', CHR ''&'', CHR ''='', CHR ''?''}"
  by (auto simp: unreserved_def is_digit_iff less_eq_char_def)

lemma digit_char_not_special:
  "d < 16 \<Longrightarrow> digit_char d \<notin> {CHR ''%'', CHR ''+'', CHR ''-'', CHR ''&'', CHR ''='', CHR ''?''} \<and> \<not> is_space (digit_char d)"
  using of_char_digit_char [of d] by (auto simp: is_space_def split: if_splits)

lemma hex_stream_digits:
  assumes "a < 16" "b < 16"
  shows "hex_stream_value [digit_char a, digit_char b] = int (16 * a + b)"
  using digit_char_not_special [OF assms(1)] assms span_digits_append [of "[a, b]" 16 "[]"]
  by (auto simp: hex_stream_value_def digits_value_def)

lemma url_decode_encode: "url_decode (url_encode bs) = string_of_bytes bs"
proof (induction bs)
  case (Cons b bs)
  have b: "unat b < 256"
    using unat_bound [of b] by simp
  have split: "url_encode (b # bs) =
      (if unreserved (char_of_byte b) then [char_of_byte b]
       else [CHR ''%'', digit_char (unat b div 16), digit_char (unat b mod 16)]) @ url_encode bs"
    by (simp add: url_encode_def url_escape_def)
  show ?case
  proof (cases "unreserved (char_of_byte b)")
    case True
    then show ?thesis
      using Cons unreserved_not_special [OF True] by (simp add: split string_of_bytes_Cons)
  next
    case False
    have "char_of_int (hex_stream_value [digit_char (unat b div 16), digit_char (unat b mod 16)]) = char_of_byte b"
      using b uint_lt2p [of b] hex_stream_digits [of "unat b div 16" "unat b mod 16"]
      by (simp add: char_of_int_def char_of_byte_def)
    then show ?thesis
      using False Cons by (simp add: split string_of_bytes_Cons numeral_2_eq_2)
  qed
qed (simp_all add: url_encode_def string_of_bytes_def)

lemma url_escape_chars: "CHR ''&'' \<notin> set (url_escape b)"
proof -
  have "unat b div 16 < 16"
    using unat_bound [of b] by simp
  then show ?thesis
    using unreserved_not_special [of "CHR ''&''"] digit_char_not_special [of "unat b div 16"]
      digit_char_not_special [of "unat b mod 16"]
    by (auto simp: url_escape_def Let_def)
qed

lemma amp_not_encoded [simp]: "CHR ''&'' \<notin> set (url_encode bs)"
  by (simp add: url_encode_def url_escape_chars)

lemma amp_not_number [simp]: "CHR ''&'' \<notin> set (show_nat n)"
  using show_nat_chars [of "CHR ''&''" n] by (auto simp: is_digit_iff)

lemma split_fields_amp:
  "CHR ''&'' \<notin> set a \<Longrightarrow> split_fields CHR ''&'' (a @ CHR ''&'' # rest) = a # split_fields CHR ''&'' rest"
  by (subst split_fields.simps) simp

lemma split_fields_last: "CHR ''&'' \<notin> set a \<Longrightarrow> split_fields CHR ''&'' a = (if a = [] then [] else [a])"
  by (subst split_fields.simps) (auto simp: split_at_None [symmetric] split: option.splits)

lemma sto_integer_show:
  assumes "lo \<le> int n" "int n \<le> hi"
  shows "sto_integer lo hi (show_nat n) = Inr (int n)"
proof -
  obtain ds where ds: "show_nat n = map digit_char ds" "\<forall>d\<in>set ds. d < 10" "digits_value 10 ds = n" "ds \<noteq> []"
    using show_nat_digits by blast
  then obtain d ds' where d: "ds = d # ds'" "d < 10"
    by (cases ds) auto
  have "dropWhile is_space (show_nat n) = show_nat n" "hd (show_nat n) \<noteq> CHR ''-''" "hd (show_nat n) \<noteq> CHR ''+''"
    using digit_char_not_special [of d] d by (simp_all add: ds(1))
  moreover have "span_digits 10 (show_nat n) = (ds, [])"
    using span_digits_append [of ds 10 "[]"] ds(1,2) by simp
  ultimately show ?thesis
    using assms ds(3,4) by (simp add: sto_integer_def Let_def)
qed

text \<open>What the tracker reads from the query the client writes.\<close>

definition query_params :: "AnnounceRequestParams \<Rightarrow> (string \<times> string) list" where
  "query_params p = foldl (\<lambda>d (k, v). map_assign k v d) []
     ([(''info_hash'', url_encode (ap_info_hash p)), (''peer_id'', url_encode (ap_peer_id p)),
       (''port'', show_nat (unat (ap_port p))), (''uploaded'', show_nat (unat (ap_uploaded p))),
       (''downloaded'', show_nat (unat (ap_downloaded p))), (''left'', show_nat (unat (ap_left p))),
       (''compact'', ''1'')] @ (if ap_event p = [] then [] else [(''event'', ap_event p)]))"

lemma split_query:
  assumes "CHR ''&'' \<notin> set (ap_event p)"
  shows "split_fields CHR ''&'' (announce_query p) =
    [''info_hash='' @ url_encode (ap_info_hash p), ''peer_id='' @ url_encode (ap_peer_id p),
     ''port='' @ show_nat (unat (ap_port p)), ''uploaded='' @ show_nat (unat (ap_uploaded p)),
     ''downloaded='' @ show_nat (unat (ap_downloaded p)), ''left='' @ show_nat (unat (ap_left p)),
     ''compact=1''] @ (if ap_event p = [] then [] else [''event='' @ ap_event p])"
  using assms split_fields_amp [of "''info_hash='' @ url_encode (ap_info_hash p)"]
    split_fields_amp [of "''peer_id='' @ url_encode (ap_peer_id p)"]
    split_fields_amp [of "''port='' @ show_nat (unat (ap_port p))"]
    split_fields_amp [of "''uploaded='' @ show_nat (unat (ap_uploaded p))"]
    split_fields_amp [of "''downloaded='' @ show_nat (unat (ap_downloaded p))"]
    split_fields_amp [of "''left='' @ show_nat (unat (ap_left p))"]
    split_fields_amp [of "''compact=1''"] split_fields_last [of "''compact=1''"]
    split_fields_last [of "''event='' @ ap_event p"]
  by (simp add: announce_query_def)

lemma parse_query_announce:
  "CHR ''&'' \<notin> set (ap_event p) \<Longrightarrow> parse_query_params (announce_query p) = query_params p"
  by (simp add: parse_query_params_def split_query query_params_def add_param_def)

lemma query_params_of:
  "map_of (query_params p) ''info_hash'' = Some (url_encode (ap_info_hash p))"
  "map_of (query_params p) ''port'' = Some (show_nat (unat (ap_port p)))"
  "map_of (query_params p) ''left'' = Some (show_nat (unat (ap_left p)))"
  "map_of (query_params p) ''event'' = (if ap_event p = [] then None else Some (ap_event p))"
  by (simp_all add: query_params_def map_simps del: map_assign.simps)

lemma read_announce_query:
  assumes "CHR ''?'' \<notin> set target" "CHR ''&'' \<notin> set (ap_event p)" "unat (ap_left p) < 2 ^ 63"
  shows "read_announce (target @ ''?'' @ announce_query p) (V4 ip) =
    Inr \<lparr> an_info_hash = ap_info_hash p, an_peer = compact_peer ip (ap_port p),
          an_left = uint (ap_left p), an_event = ap_event p \<rparr>"
proof -
  have port: "n < 65536 \<Longrightarrow> sto_integer (- (2 ^ 31)) (2 ^ 31 - 1) (show_nat n) = Inr (int n)" for n
    by (intro sto_integer_show) simp_all
  have left: "n < 2 ^ 63 \<Longrightarrow> sto_integer int64_min int64_max (show_nat n) = Inr (int n)" for n
    by (intro sto_integer_show) (simp_all add: int64_min_def int64_max_def)
  have "sto_integer (- (2 ^ 31)) (2 ^ 31 - 1) (show_nat (unat (ap_port p))) = Inr (int (unat (ap_port p)))"
    using unat_bound [of "ap_port p"] by (intro port) simp
  moreover have "sto_integer int64_min int64_max (show_nat (unat (ap_left p))) = Inr (int (unat (ap_left p)))"
    using assms(3) by (rule left)
  ultimately show ?thesis
    using assms(1,2)
    by (simp add: read_announce_def parse_query_announce param_at_def sum_some_def sum_bind_def query_params_of
        url_decode_encode Let_def)
qed

subsection \<open>Lemmas: the answer\<close>

lemma announce_body_simp:
  "announce_body interval (c, i) peers = encode (Dict [(''complete'', Integer (int c)),
     (''incomplete'', Integer (int i)), (''interval'', Integer interval), (''peers'', String peers)])"
  by (simp add: announce_body_def less_char_def)

text \<open>How the client shows a compact address.\<close>

definition show_peer :: "(ip_address \<Rightarrow> string) \<Rightarrow> string \<Rightarrow> string" where
  "show_peer addr_str a = peer_text addr_str (take 4 (bytes_of_string a)) (get16 (drop 4 (bytes_of_string a)))"

lemma show_compact_peer: "length ip = 4 \<Longrightarrow> show_peer addr_str (compact_peer ip port) = peer_text addr_str ip port"
  by (simp add: show_peer_def compact_peer_def)

lemma bytes_of_concat: "bytes_of_string (concat as) = concat (map bytes_of_string as)"
  by (induction as) (simp_all add: bytes_of_string_def)

lemma compact_peers_concat:
  assumes "\<forall>a\<in>set as. length a = 6"
  shows "compact_peers addr_str (bytes_of_string (concat as)) = map (show_peer addr_str) as"
proof -
  have "chunks 6 (bytes_of_string (concat as)) = map bytes_of_string as"
    using assms unfolding bytes_of_concat by (intro chunks_concat) auto
  then show ?thesis
    using assms by (simp add: compact_peers_def show_peer_def filter_True)
qed

lemma parse_announce_body:
  assumes "\<forall>a\<in>set as. length a = 6" "length (concat as) < 2 ^ 63" "in_int64 interval" "c < 2 ^ 63" "i < 2 ^ 63"
  shows "parse_tracker_response_body addr_str (announce_body interval (c, i) (concat as)) =
    Inr \<lparr> ar_interval = int_cast interval, ar_peers = map (show_peer addr_str) as \<rparr>"
proof -
  let ?v = "Dict [(''complete'', Integer (int c)), (''incomplete'', Integer (int i)),
      (''interval'', Integer interval), (''peers'', String (concat as))]"
  have "valid_value ?v"
    using assms(2-5) by (simp add: in_int64_def int64_max_def int64_min_def less_char_def)
  then have "decode_value (encode ?v) = Inr (?v, [])"
    using decode_value_encode [of ?v "[]"] by simp
  then have "decode_prefix (announce_body interval (c, i) (concat as)) = Inr (?v, length (encode ?v))"
    by (simp add: decode_prefix_def announce_body_simp del: encode.simps)
  then show ?thesis
    by (simp add: parse_tracker_response_body_def compact_peers_concat [OF assms(1)])
qed

subsection \<open>Announcing to the tracker over HTTP\<close>

text \<open>A network that hands every request to the router of the tracker.\<close>

definition http_swarm :: "(tracker_error \<Rightarrow> string) \<Rightarrow> (ip_address \<Rightarrow> string) \<Rightarrow> int \<Rightarrow> ip_address \<Rightarrow> tracker http_net" where
  "http_swarm what addr_str now remote =
    \<lparr> hn_request = (\<lambda>host target tr.
        let (res, tr) = route_request what now target remote tr
        in (Some \<lparr> hp_status = hr_status res, hp_location = [], hp_body = hr_body res \<rparr>, tr)),
      hn_connect = (\<lambda>host port tr. (True, tr)), hn_shutdown = (\<lambda>tr. (True, tr)),
      hn_parse_uri = (\<lambda>_. None), hn_addr_str = addr_str, hn_tls = False \<rparr>"

lemma others_register:
  "other_peers h peer (register_peer now h peer left tr) = other_peers h peer tr"
proof -
  have "filter (\<lambda>a. a \<noteq> peer) (map fst (map_assign peer e m)) = filter (\<lambda>a. a \<noteq> peer) (map fst m)"
    for e :: PeerEntry and m
    by (induction m) auto
  then show ?thesis
    by (simp add: other_peers_def torrent_peers_register)
qed

lemma length_concat_six: "\<forall>a\<in>set as. length a = 6 \<Longrightarrow> length (concat as) = 6 * length as"
  by (induction as) auto

lemma int_cast_small: "- (2 ^ 31) \<le> i \<Longrightarrow> i < 2 ^ 31 \<Longrightarrow> int_cast i = i"
  by (simp add: int_cast_def signed_of_int signed_take_bit_int_eq_self)

lemma others_length: "tracker_inv tr \<Longrightarrow> a \<in> set (other_peers h peer tr) \<Longrightarrow> length a = 6"
  using torrent_peers_ok [of tr h] by (auto simp: other_peers_def peer_map_ok_def)

lemma count_bound:
  "count_seeders_leechers h tr = (c, i) \<Longrightarrow> c \<le> length (torrent_peers h tr) \<and> i \<le> length (torrent_peers h tr)"
  using counts_all [of h tr] by simp

lemma length_others: "length (other_peers h peer tr) \<le> length (torrent_peers h tr)"
  by (simp add: other_peers_def)

text \<open>C15: An announce of the HTTP client to this tracker comes through when the connection works: with the path
  of the tracker's URL being that of its route, the handler reads from the query exactly the info hash, port,
  bytes left and event the client was given, registers the peer, and the client gets the interval and the
  addresses of all other peers of the torrent. The event is not a stop and has no ampersand, fewer than
  \<open>2\<^sup>6\<^sup>3\<close> bytes are left, the interval fits an \<^verbatim>\<open>int\<close> and the torrent has fewer than \<open>2\<^sup>3\<^sup>2\<close> peers.\<close>

theorem http_announce_answered:
  assumes "tracker_inv tr" "length ip = 4" "target = ''/announce''"
    and "CHR ''&'' \<notin> set (ap_event p)" "ap_event p \<noteq> ''stopped''" "unat (ap_left p) < 2 ^ 63"
    and "- (2 ^ 31) \<le> tr_interval tr" "tr_interval tr < 2 ^ 31" "length (torrent_peers (ap_info_hash p) tr) < 2 ^ 32"
  shows "http_announce (http_swarm what addr_str now (V4 ip)) host port target p tr =
    (Inr \<lparr> ar_interval = tr_interval tr,
           ar_peers = map (show_peer addr_str) (other_peers (ap_info_hash p) (compact_peer ip (ap_port p)) tr) \<rparr>,
     register_peer now (ap_info_hash p) (compact_peer ip (ap_port p)) (uint (ap_left p))
       (tr\<lparr>tr_announce_count := tr_announce_count tr + 1\<rparr>))"
proof -
  let ?h = "ap_info_hash p" and ?peer = "compact_peer ip (ap_port p)"
  define tr' where "tr' = register_peer now ?h ?peer (uint (ap_left p))
       (tr\<lparr>tr_announce_count := tr_announce_count tr + 1\<rparr>)"
  obtain c i where ci: "count_seeders_leechers ?h tr' = (c, i)"
    by fastforce
  have others: "other_peers ?h ?peer tr' = other_peers ?h ?peer tr"
    by (simp add: tr'_def others_register) (simp add: other_peers_def)
  have "length (torrent_peers ?h tr') \<le> length (torrent_peers ?h tr) + 1"
    by (simp add: tr'_def torrent_peers_register length_map_assign_le)
  then have bounds: "c < 2 ^ 63" "i < 2 ^ 63"
    using assms(9) count_bound [OF ci] by simp_all
  have six: "\<forall>a\<in>set (other_peers ?h ?peer tr). length a = 6"
    using others_length [OF assms(1)] by blast
  then have "length (concat (other_peers ?h ?peer tr)) < 2 ^ 63"
    using assms(9) length_others [of ?h ?peer tr] by (simp add: length_concat_six)
  then have body: "parse_tracker_response_body addr_str
      (announce_body (tr_interval tr) (c, i) (concat (other_peers ?h ?peer tr))) =
      Inr \<lparr> ar_interval = tr_interval tr, ar_peers = map (show_peer addr_str) (other_peers ?h ?peer tr) \<rparr>"
    using parse_announce_body [OF six _ _ bounds, of "tr_interval tr" addr_str] assms(7,8)
    by (simp add: int_cast_small in_int64_def int64_min_def int64_max_def)
  have "read_announce (target @ ''?'' @ announce_query p) (V4 ip) =
      Inr \<lparr> an_info_hash = ?h, an_peer = ?peer, an_left = uint (ap_left p), an_event = ap_event p \<rparr>"
    using assms(3,4,6) by (intro read_announce_query) simp_all
  from announce_answer [OF this, of what now tr] assms(3,5)
  have "route_request what now (target @ ''?'' @ announce_query p) (V4 ip) tr =
      (\<lparr> hr_status = 200, hr_body = announce_body (tr_interval tr) (c, i) (concat (other_peers ?h ?peer tr)) \<rparr>, tr')"
    by (simp add: route_request_def Let_def ci others flip: tr'_def)
  then show ?thesis
    by (simp add: http_announce_def http_announce_impl_def http_swarm_def numeral_eq_Suc body flip: tr'_def)
qed

theorem http_announce_answered_witness:
  "http_announce (http_swarm example_error (\<lambda>_. ''10.0.0.1'') 9 (V4 [10, 0, 0, 2])) ''tracker'' 80 ''/announce''
      \<lparr> ap_info_hash = [65, 7], ap_peer_id = [], ap_event = ''started'', ap_port = 81, ap_uploaded = 0,
        ap_downloaded = 0, ap_left = 5 \<rparr>
      (register_peer 0 [65, 7] (compact_peer [10, 0, 0, 1] 80) 0 new_tracker) =
    (Inr \<lparr> ar_interval = 1800, ar_peers = [''10.0.0.1:80''] \<rparr>,
     register_peer 9 [65, 7] (compact_peer [10, 0, 0, 2] 81) 5
       ((register_peer 0 [65, 7] (compact_peer [10, 0, 0, 1] 80) 0 new_tracker)\<lparr>tr_announce_count := 1\<rparr>))"
proof -
  let ?tr = "register_peer 0 [65, 7] (compact_peer [10, 0, 0, 1] 80) 0 new_tracker"
  let ?p = "\<lparr> ap_info_hash = [65, 7], ap_peer_id = [], ap_event = ''started'', ap_port = 81, ap_uploaded = 0,
      ap_downloaded = 0, ap_left = 5 \<rparr>"
  have peers: "torrent_peers [65, 7] ?tr = [(compact_peer [10, 0, 0, 1] 80, \<lparr> pe_left = 0, pe_last_announce = 0 \<rparr>)]"
    by (simp add: torrent_peers_register) (simp add: torrent_peers_def new_tracker_def)
  have ne: "compact_peer [10, 0, 0, 1] 80 \<noteq> compact_peer [10, 0, 0, 2] 81"
    by code_simp
  have "show_nat 80 = ''80''"
    by code_simp
  moreover have "tracker_inv ?tr"
    by (intro register_inv tracker_inv_new) simp
  moreover have "tr_announce_count ?tr = 0" "tr_interval ?tr = 1800"
    by (simp_all add: register_peer_def new_tracker_def)
  ultimately show ?thesis
    using http_announce_answered [of ?tr "[10, 0, 0, 2]" "''/announce''" ?p example_error
        "\<lambda>_. ''10.0.0.1''" 9 "''tracker''" 80] ne
    by (simp add: peers other_peers_def show_compact_peer peer_text_def)
qed

subsection \<open>Lemmas: the retries of the UDP client\<close>

lemma length_announce_request:
  "length (ap_info_hash p) = 20 \<Longrightarrow> length (ap_peer_id p) = 20 \<Longrightarrow> length (announce_request cid tid p) = 98"
  by (simp add: announce_request_def)

lemma connect_request_fields:
  "length (connect_request tid) = 16" "get32 (octets 8 4 (connect_request tid)) = 0"
  "octets 12 4 (connect_request tid) = put32 tid"
  by (simp_all add: connect_request_def octets_def)

lemma announce_request_fields:
  assumes "length (ap_info_hash p) = 20" "length (ap_peer_id p) = 20"
  shows "get64 (octets 0 8 (announce_request cid tid p)) = cid"
    "get32 (octets 8 4 (announce_request cid tid p)) = 1"
    "octets 12 4 (announce_request cid tid p) = put32 tid"
    "octets 16 20 (announce_request cid tid p) = ap_info_hash p"
    "get64 (octets 64 8 (announce_request cid tid p)) = ap_left p"
    "get16 (octets 96 2 (announce_request cid tid p)) = ap_port p"
  using assms by (simp_all add: announce_request_def octets_def)










definition connected_at :: "endpoint \<Rightarrow> u64 \<Rightarrow> int \<Rightarrow> tracker \<Rightarrow> bool" where
  "connected_at remote cid t tr \<longleftrightarrow>
    map_of (tr_udp_clients tr) remote = Some \<lparr> uc_connection_id = cid, uc_expiry = t + udp_minutes 2 \<rparr>"


text \<open>What it keeps while the client announces: its entry among the connected clients, the interval, the
  other peers of the torrent and the shape of the registry.\<close>

definition same_others :: "byte list \<Rightarrow> string \<Rightarrow> tracker \<Rightarrow> tracker \<Rightarrow> bool" where
  "same_others h peer tr tr' \<longleftrightarrow> tr_udp_clients tr' = tr_udp_clients tr \<and> tr_interval tr' = tr_interval tr \<and>
     other_peers h peer tr' = other_peers h peer tr \<and> (tracker_inv tr \<longrightarrow> tracker_inv tr')"


lemma same_others_trans: "same_others h peer a b \<Longrightarrow> same_others h peer b c \<Longrightarrow> same_others h peer a c"
  by (simp add: same_others_def)

lemma other_peers_count [simp]: "other_peers h peer (tr\<lparr>tr_announce_count := n\<rparr>) = other_peers h peer tr"
  by (simp add: other_peers_def)




lemma answer_fields:
  assumes "ans = udp_announce_answer (put32 tid) h peer tr"
  shows "20 \<le> length ans" "octets 0 4 ans = put32 1" "octets 4 4 ans = put32 tid"
    "octets 8 4 ans = put32 (word_of_int (tr_interval tr))"
    "drop 20 ans = concat (map bytes_of_string (other_peers h peer tr))"
  by (simp_all add: assms udp_announce_answer_def octets_def split: prod.splits)












subsection \<open>Where announces go wrong\<close>

text \<open>The fifth attempt to announce comes 225 seconds after the connect, when the tracker has dropped the
  connection id: its request is ignored.\<close>

lemma fifth_attempt_ignored:
  assumes "length (ap_info_hash p) = 20" "length (ap_peer_id p) = 20"
    and "connected_at remote cid t (sn_tracker s)" "sn_now s = t + 15 * (2 ^ 4 - 1) * 10 ^ 9"
  shows "fst (deliver_datagram remote (announce_request cid tid p) s) = None"
  using assms
  by (simp add: deliver_datagram_def handle_udp_request_def length_announce_request announce_request_fields
      udp_connected_def connected_at_def udp_minutes_def)

text \<open>The transaction id of an answer is read after the buffer may hold the next datagram.\<close>

lemma overwritten_buffer_changes_transaction:
  assumes "length (ap_info_hash p) = 20" "length (ap_peer_id p) = 20"
    and "udp_connected now_steady (V4 ip, port) cid tr" "tid' \<noteq> tid"
  shows "\<exists>answer tr'. handle_udp_request now now_steady random (V4 ip, port) (announce_request cid tid p)
      (connect_request tid') tr = (Some answer, tr') \<and> get32 (octets 4 4 answer) \<noteq> tid"
  using assms
  by (auto simp: handle_udp_request_def length_announce_request announce_request_fields connect_request_fields
      answer_fields Let_def)

end
