(* ===== verification/TorrentFile.thy ===== *)
theory TorrentFile
  imports Bencode Wire
begin

text \<open>
  Torrent metadata (\<^verbatim>\<open>src/src/TorrentFile.hpp\<close>): reading the \<^verbatim>\<open>info\<close> dictionary, loading a \<^verbatim>\<open>.torrent\<close> file or
  the metadata of a magnet link, and creating a torrent from files.

  SHA-1 is a parameter.  A path is its string, with the \<^verbatim>\<open>operator/=\<close> of \<^verbatim>\<open>std::filesystem\<close> (POSIX).  The
  integers of the metadata are \<^verbatim>\<open>int64_t\<close> and converted to \<^verbatim>\<open>uint64_t\<close> and \<^verbatim>\<open>uint32_t\<close> as the code does.
  Dereferencing the null result of \<^verbatim>\<open>std::get_if\<close>, which no handler catches, is the error \<open>NullVariant\<close>.

  Lemmas: the streaming hash loop computes the hashes of the consecutive pieces of all files together,
  and a created torrent file loads with exactly the files, sizes and hashes it was created from.
\<close>

subsection \<open>Definitions: metadata\<close>

record FileInfo =
  fi_path :: string
  fi_size :: nat
  fi_download :: bool

record TorrentInfo =
  ti_name :: string
  ti_total_size :: nat
  ti_piece_size :: nat
  ti_pieces :: "byte list"
  ti_files :: "FileInfo list"

record MetaInfo =
  mi_info :: TorrentInfo
  mi_info_hash :: "byte list"
  mi_info_bencoded :: string

definition empty_torrent_info :: TorrentInfo where
  "empty_torrent_info = \<lparr> ti_name = '''', ti_total_size = 0, ti_piece_size = 0, ti_pieces = [], ti_files = [] \<rparr>"

definition empty_meta_info :: MetaInfo where
  "empty_meta_info = \<lparr> mi_info = empty_torrent_info, mi_info_hash = [], mi_info_bencoded = '''' \<rparr>"

datatype meta_error =
    BadDecode | NotDictionary | WrongVariant | OutOfRange | BadPiecesLength | NoTrackers | InvalidAnnounce
  | InvalidInfo | NullVariant

definition path_append :: "string \<Rightarrow> string \<Rightarrow> string" where
  "path_append a b =
    (if b \<noteq> [] \<and> hd b = CHR ''/'' then b
     else if a \<noteq> [] \<and> last a \<noteq> CHR ''/'' then a @ CHR ''/'' # b
     else a @ b)"

definition field :: "(string \<times> Value) list \<Rightarrow> string \<Rightarrow> meta_error + Value" where
  "field d k = sum_some OutOfRange (map_of d k)"

definition string_field :: "(string \<times> Value) list \<Rightarrow> string \<Rightarrow> meta_error + string" where
  "string_field d k = sum_bind (field d k) (\<lambda>v. sum_some WrongVariant (as_String v))"

definition integer_field :: "(string \<times> Value) list \<Rightarrow> string \<Rightarrow> meta_error + int" where
  "integer_field d k = sum_bind (field d k) (\<lambda>v. sum_some WrongVariant (as_Integer v))"

subsection \<open>Definitions: reading the info dictionary\<close>

fun path_of_parts :: "string \<Rightarrow> Value list \<Rightarrow> meta_error + string" where
  "path_of_parts file_path [] = Inr file_path"
| "path_of_parts file_path (part_val # parts) =
    (case as_String part_val of None \<Rightarrow> Inl WrongVariant
     | Some part \<Rightarrow> path_of_parts (path_append file_path part) parts)"

definition read_file_entry :: "Value \<Rightarrow> meta_error + FileInfo" where
  "read_file_entry file_val =
    sum_bind (sum_some NullVariant (as_Dict file_val)) (\<lambda>file_dict.
    sum_bind (integer_field file_dict ''length'') (\<lambda>length.
    sum_bind (field file_dict ''path'') (\<lambda>path_val.
    sum_bind (sum_some NullVariant (as_List path_val)) (\<lambda>path_list.
    sum_bind (path_of_parts '''' path_list) (\<lambda>file_path.
    Inr \<lparr> fi_path = file_path, fi_size = u64_of_int length, fi_download = True \<rparr>)))))"

fun read_file_list :: "Value list \<Rightarrow> (TorrentInfo, meta_error, unit) sx" where
  "read_file_list [] = sx_return ()"
| "read_file_list (file_val # file_vals) =
    sx_bind (sx_lift (read_file_entry file_val)) (\<lambda>f.
    sx_bind (sx_modify (\<lambda>info. info\<lparr> ti_files := ti_files info @ [f],
      ti_total_size := to_u64 (ti_total_size info + fi_size f) \<rparr>)) (\<lambda>_.
    read_file_list file_vals))"

definition populate_torrent_info_from_dict :: "(string \<times> Value) list \<Rightarrow> (TorrentInfo, meta_error, unit) sx" where
  "populate_torrent_info_from_dict info_dict =
    sx_bind (sx_modify (\<lambda>_. empty_torrent_info)) (\<lambda>_.
    sx_bind (sx_lift (string_field info_dict ''name'')) (\<lambda>name.
    sx_bind (sx_modify (\<lambda>info. info\<lparr> ti_name := name \<rparr>)) (\<lambda>_.
    sx_bind (sx_lift (integer_field info_dict ''piece length'')) (\<lambda>piece_length.
    sx_bind (sx_modify (\<lambda>info. info\<lparr> ti_piece_size := u32_of_int piece_length \<rparr>)) (\<lambda>_.
    sx_bind (sx_lift (string_field info_dict ''pieces'')) (\<lambda>pieces_str.
    sx_bind (sx_modify (\<lambda>info. info\<lparr> ti_pieces := bytes_of_string pieces_str \<rparr>)) (\<lambda>_.
    if length pieces_str mod 20 \<noteq> 0 then sx_throw BadPiecesLength
    else if map_of info_dict ''length'' \<noteq> None then
      sx_bind (sx_lift (integer_field info_dict ''length'')) (\<lambda>length.
      sx_modify (\<lambda>info. info\<lparr> ti_total_size := u64_of_int length,
        ti_files := [\<lparr> fi_path = ti_name info, fi_size = u64_of_int length, fi_download = True \<rparr>] \<rparr>))
    else
      sx_bind (sx_lift (field info_dict ''files'')) (\<lambda>files_val.
      sx_bind (sx_some NullVariant (as_List files_val)) (\<lambda>file_list.
      read_file_list file_list)))))))))"

text \<open>The two load functions.  \<open>on_info\<close> runs a computation on the \<^verbatim>\<open>info_\<close> member; the handler of the
  \<^verbatim>\<open>try\<close> block turns every exception into \<^verbatim>\<open>false\<close>.\<close>

definition on_info :: "(TorrentInfo, meta_error, 'a) sx \<Rightarrow> (MetaInfo, meta_error, 'a) sx" where
  "on_info m mi = (case m (mi_info mi) of (r, info) \<Rightarrow> (r, mi\<lparr> mi_info := info \<rparr>))"

definition on_meta :: "(MetaInfo, meta_error, 'a) sx \<Rightarrow> (MetaInfo \<times> 'b, meta_error, 'a) sx" where
  "on_meta m st = (case st of (mi, x) \<Rightarrow> (case m mi of (r, mi) \<Rightarrow> (r, (mi, x))))"

definition or_false :: "('s, meta_error, bool) sx \<Rightarrow> ('s, meta_error, bool) sx" where
  "or_false m = sx_catch m (\<lambda>e. if e = NullVariant then sx_throw e else sx_return False)"

definition load_from_info_bytes :: "(byte list \<Rightarrow> byte list) \<Rightarrow> string \<Rightarrow> (MetaInfo, meta_error, bool) sx" where
  "load_from_info_bytes sha1 info_bencoded =
    or_false (case decode info_bencoded of
        Inl _ \<Rightarrow> sx_throw BadDecode
      | Inr info_val \<Rightarrow>
          sx_bind (sx_some NotDictionary (as_Dict info_val)) (\<lambda>info_dict.
          sx_bind (sx_modify (\<lambda>mi. mi\<lparr> mi_info_bencoded := info_bencoded,
            mi_info_hash := sha1 (bytes_of_string info_bencoded) \<rparr>)) (\<lambda>_.
          sx_bind (on_info (populate_torrent_info_from_dict info_dict)) (\<lambda>_.
          sx_return True))))"

fun read_urls :: "Value list \<Rightarrow> meta_error + string list" where
  "read_urls [] = Inr []"
| "read_urls (url_val # vals) =
    sum_bind (sum_some WrongVariant (as_String url_val)) (\<lambda>url. sum_bind (read_urls vals) (\<lambda>urls. Inr (url # urls)))"

fun read_tiers :: "Value list \<Rightarrow> meta_error + string list list" where
  "read_tiers [] = Inr []"
| "read_tiers (tier_val # vals) =
    sum_bind (sum_some WrongVariant (as_List tier_val)) (\<lambda>tier_list.
    sum_bind (read_urls tier_list) (\<lambda>current_tier.
    sum_bind (read_tiers vals) (\<lambda>tiers.
    Inr (if current_tier = [] then tiers else current_tier # tiers))))"

definition read_trackers :: "(string \<times> Value) list \<Rightarrow> meta_error + string list list" where
  "read_trackers metainfo_dict =
    sum_bind (case map_of metainfo_dict ''announce-list'' of
                None \<Rightarrow> Inr []
              | Some v \<Rightarrow> sum_bind (sum_some WrongVariant (as_List v)) read_tiers) (\<lambda>tiers.
    sum_bind (if tiers = [] then
                (case map_of metainfo_dict ''announce'' of
                   None \<Rightarrow> Inr []
                 | Some v \<Rightarrow> sum_bind (sum_some InvalidAnnounce (as_String v)) (\<lambda>announce. Inr [[announce]]))
              else Inr tiers) (\<lambda>tiers.
    if tiers = [] then Inl NoTrackers else Inr tiers))"

text \<open>The tracker tiers are an output parameter; what is in it after an exception is not read.\<close>

definition load_from_file ::
  "(byte list \<Rightarrow> byte list) \<Rightarrow> string option \<Rightarrow> (MetaInfo \<times> string list list, meta_error, bool) sx" where
  "load_from_file sha1 file =
    (case file of
       None \<Rightarrow> sx_return False
     | Some data \<Rightarrow> or_false (case decode data of
           Inl _ \<Rightarrow> sx_throw BadDecode
         | Inr metainfo_val \<Rightarrow>
             sx_bind (sx_some NotDictionary (as_Dict metainfo_val)) (\<lambda>metainfo_dict.
             sx_bind (sx_modify (\<lambda>(mi, _). (mi, []))) (\<lambda>_.
             sx_bind (sx_lift (read_trackers metainfo_dict)) (\<lambda>out_tracker_tiers.
             sx_bind (sx_modify (\<lambda>(mi, _). (mi, out_tracker_tiers))) (\<lambda>_.
             sx_bind (sx_lift (field metainfo_dict ''info'')) (\<lambda>info_val.
             sx_bind (sx_some InvalidInfo (as_Dict info_val)) (\<lambda>info_dict.
             sx_bind (sx_modify (\<lambda>(mi, tiers). (mi\<lparr> mi_info_bencoded := encode (Dict info_dict),
               mi_info_hash := sha1 (bytes_of_string (encode (Dict info_dict))) \<rparr>, tiers))) (\<lambda>_.
             sx_bind (on_meta (on_info (populate_torrent_info_from_dict info_dict))) (\<lambda>_.
             sx_return True))))))))))"

subsection \<open>Definitions: creating a torrent\<close>

text \<open>A source tree: regular files with their contents, directories, and entries of other kinds.\<close>

datatype fs_entry = RegularFile "byte list" | Directory "(string \<times> fs_entry) list" | OtherEntry

function gather_files :: "string \<Rightarrow> fs_entry \<Rightarrow> (FileInfo \<times> byte list) list" where
  "gather_files relative_path (RegularFile bytes) =
    [(\<lparr> fi_path = relative_path, fi_size = length bytes, fi_download = True \<rparr>, bytes)]"
| "gather_files relative_path (Directory entries) =
    concat (map (\<lambda>(name, entry). gather_files (path_append relative_path name) entry) (sort_key fst entries))"
| "gather_files relative_path OtherEntry = []"
  by pat_completeness auto
termination gather_files
proof (relation "measure (\<lambda>(_, e). size e)", goal_cases)
  case (2 relative_path entries z name entry)
  then have "(name, entry) \<in> set entries"
    by simp
  then have "size entry < size (Directory entries)"
    by (induction entries) auto
  then show ?case
    by simp
qed simp

text \<open>The components of a relative path, as iterating over a \<^verbatim>\<open>std::filesystem::path\<close> gives them.\<close>

function path_parts :: "string \<Rightarrow> string list" where
  "path_parts s =
    (case split_at (CHR ''/'') s of
       None \<Rightarrow> if s = [] then [] else [s]
     | Some (a, b) \<Rightarrow> if a = [] then path_parts b else a # path_parts b)"
  by pat_completeness auto
termination path_parts
  by (relation "measure length") (auto dest: split_at_length)

declare path_parts.simps [simp del]

text \<open>The loop that reads one file into the piece buffer.  A read that meets the end of the file ends it.
  With a piece size of zero the loop would not end; \<open>create_from_file\<close> does not call it then.\<close>

function hash_file :: "(byte list \<Rightarrow> byte list) \<Rightarrow> nat \<Rightarrow> byte list \<Rightarrow> byte list \<times> byte list \<Rightarrow> byte list \<times> byte list" where
  "hash_file sha1 piece_size file (piece_buffer, all_piece_hashes) =
    (let want = piece_size - length piece_buffer;
         piece_buffer = piece_buffer @ take want file;
         st = (if length piece_buffer = piece_size then ([], all_piece_hashes @ sha1 piece_buffer)
               else (piece_buffer, all_piece_hashes))
     in if want = 0 \<or> length file < want then st
        else hash_file sha1 piece_size (drop want file) st)"
  by pat_completeness auto
termination hash_file
  by (relation "measure (\<lambda>(_, _, file, _). length file)") auto

declare hash_file.simps [simp del]

definition hash_files :: "(byte list \<Rightarrow> byte list) \<Rightarrow> nat \<Rightarrow> byte list list \<Rightarrow> byte list" where
  "hash_files sha1 piece_size files =
    (case fold (hash_file sha1 piece_size) files ([], []) of (piece_buffer, all_piece_hashes) \<Rightarrow>
      if piece_buffer \<noteq> [] then all_piece_hashes @ sha1 piece_buffer else all_piece_hashes)"

definition file_list_entry :: "FileInfo \<Rightarrow> Value" where
  "file_list_entry f =
    Dict [(''length'', Integer (int (fi_size f))), (''path'', List (map String (path_parts (fi_path f))))]"

definition create_info_dict :: "(byte list \<Rightarrow> byte list) \<Rightarrow> string \<Rightarrow> fs_entry \<Rightarrow> nat \<Rightarrow> (string \<times> Value) list" where
  "create_info_dict sha1 name source piece_size =
    (let files = gather_files '''' source;
         info_dict = (case source of
             Directory _ \<Rightarrow> map_assign ''files'' (List (map (file_list_entry \<circ> fst) files)) []
           | _ \<Rightarrow> map_assign ''length'' (Integer (int (sum_list (map (length \<circ> snd) files)))) []);
         info_dict = map_assign ''name'' (String name) info_dict;
         info_dict = map_assign ''piece length'' (Integer (int piece_size)) info_dict
     in map_assign ''pieces'' (String (string_of_bytes (hash_files sha1 piece_size (map snd files)))) info_dict)"

text \<open>The contents of the torrent file, or nothing when the source is missing, is no file or directory,
  when no tracker is given, or when the hash loop does not end.\<close>

definition create_from_file ::
  "(byte list \<Rightarrow> byte list) \<Rightarrow> string \<Rightarrow> fs_entry option \<Rightarrow> string list \<Rightarrow> nat \<Rightarrow> string option" where
  "create_from_file sha1 name source tracker_urls piece_size =
    (case source of
       None \<Rightarrow> None
     | Some source \<Rightarrow>
         if source = OtherEntry \<or> tracker_urls = [] \<or> piece_size = 0 then None
         else let info_dict = create_info_dict sha1 name source piece_size;
                  metainfo_dict = map_assign ''announce'' (String (hd tracker_urls)) [];
                  metainfo_dict = map_assign ''announce-list'' (List (map (\<lambda>url. List [String url]) tracker_urls)) metainfo_dict;
                  metainfo_dict = map_assign ''info'' (Dict info_dict) metainfo_dict
              in Some (encode (Dict metainfo_dict)))"

subsection \<open>Hashing the files as one stream\<close>

definition piece_hashes :: "(byte list \<Rightarrow> byte list) \<Rightarrow> nat \<Rightarrow> byte list \<Rightarrow> byte list" where
  "piece_hashes sha1 piece_size content = concat (map sha1 (chunks piece_size content))"

lemma piece_hashes_append:
  "0 < ps \<Longrightarrow> length x = ps \<Longrightarrow> piece_hashes sha1 ps (x @ xs) = sha1 x @ piece_hashes sha1 ps xs"
  by (simp add: piece_hashes_def chunks_append)

lemma hash_file_stream:
  assumes "length buf < ps" "hash_file sha1 ps bytes (buf, hashes) = (buf', hashes')"
  shows "length buf' < ps \<and> (\<forall>more. hashes' @ piece_hashes sha1 ps (buf' @ more) = hashes @ piece_hashes sha1 ps (buf @ bytes @ more))"
  using assms
proof (induction sha1 ps bytes "(buf, hashes)" arbitrary: buf hashes rule: hash_file.induct)
  case (1 sha1 ps bytes buf hashes)
  let ?want = "ps - length buf"
  show ?case
  proof (cases "length bytes < ?want")
    case True
    then show ?thesis
      using "1.prems" by (auto simp: hash_file.simps [of sha1 ps bytes] Let_def split: if_splits)
  next
    case False
    have full: "length (buf @ take ?want bytes) = ps" "?want \<noteq> 0" "0 < ps"
      using False "1.prems"(1) by auto
    have "hash_file sha1 ps (drop ?want bytes) ([], hashes @ sha1 (buf @ take ?want bytes)) = (buf', hashes')"
      using "1.prems"(2) False full by (simp add: hash_file.simps [of sha1 ps bytes] Let_def)
    then have "length buf' < ps \<and> (\<forall>more. hashes' @ piece_hashes sha1 ps (buf' @ more) =
        (hashes @ sha1 (buf @ take ?want bytes)) @ piece_hashes sha1 ps ([] @ drop ?want bytes @ more))"
      using "1.hyps" [OF refl refl, of "[]" "hashes @ sha1 (buf @ take ?want bytes)"] False full by simp
    moreover have "piece_hashes sha1 ps (buf @ bytes @ more) =
        sha1 (buf @ take ?want bytes) @ piece_hashes sha1 ps (drop ?want bytes @ more)" for more
      using piece_hashes_append [OF full(3,1), of sha1 "drop ?want bytes @ more"]
      by (metis append_assoc append_take_drop_id)
    ultimately show ?thesis
      by simp
  qed
qed

lemma hash_fold_stream:
  assumes "length buf < ps" "fold (hash_file sha1 ps) files (buf, hashes) = (buf', hashes')"
  shows "length buf' < ps \<and> hashes' @ piece_hashes sha1 ps buf' = hashes @ piece_hashes sha1 ps (buf @ concat files)"
  using assms
proof (induction files arbitrary: buf hashes)
  case (Cons f files)
  obtain b h where s: "hash_file sha1 ps f (buf, hashes) = (b, h)"
    by (metis surj_pair)
  note * = hash_file_stream [OF Cons.prems(1) s]
  then show ?case
    using Cons.IH [of b h] Cons.prems(2) s by simp
qed simp

lemma hash_files_eq:
  assumes "0 < ps"
  shows "hash_files sha1 ps files = piece_hashes sha1 ps (concat files)"
proof -
  obtain b h where s: "fold (hash_file sha1 ps) files ([], []) = (b, h)"
    by (metis surj_pair)
  have *: "length b < ps \<and> h @ piece_hashes sha1 ps b = piece_hashes sha1 ps (concat files)"
    using hash_fold_stream [OF _ s] assms by simp
  have "piece_hashes sha1 ps b = (if b = [] then [] else sha1 b)"
    using * assms by (simp add: piece_hashes_def chunks.simps [of ps b])
  then show ?thesis
    using * s by (auto simp: hash_files_def)
qed

lemma length_concat_same: "\<forall>x\<in>set xs. length x = k \<Longrightarrow> length (concat xs) = k * length xs"
  by (induction xs) auto

lemma length_chunks_le: "length (chunks n xs) \<le> length xs"
proof (induction n xs rule: chunks.induct)
  case (1 n xs)
  then show ?case
    by (cases "n = 0 \<or> xs = []"; cases "length xs") (auto simp: chunks.simps [of n xs])
qed

lemma length_piece_hashes:
  assumes "\<forall>x. length (sha1 x) = 20"
  shows "length (piece_hashes sha1 ps content) mod 20 = 0" "length (piece_hashes sha1 ps content) \<le> 20 * length content"
proof -
  have "length (piece_hashes sha1 ps content) = 20 * length (chunks ps content)"
    using length_concat_same [of "map sha1 (chunks ps content)" 20] assms by (simp add: piece_hashes_def)
  then show "length (piece_hashes sha1 ps content) mod 20 = 0" "length (piece_hashes sha1 ps content) \<le> 20 * length content"
    using length_chunks_le [of ps content] by simp_all
qed

subsection \<open>Paths\<close>

definition valid_name :: "string \<Rightarrow> bool" where
  "valid_name s \<longleftrightarrow> s \<noteq> [] \<and> CHR ''/'' \<notin> set s"

definition join_names :: "string list \<Rightarrow> string" where
  "join_names names = foldl path_append '''' names"

lemma path_append_name:
  "valid_name b \<Longrightarrow> path_append a b = (if a \<noteq> [] \<and> last a \<noteq> CHR ''/'' then a @ CHR ''/'' # b else a @ b)"
  by (cases b) (auto simp: path_append_def valid_name_def)

lemma join_names_last:
  "\<forall>n\<in>set names. valid_name n \<Longrightarrow> join_names names = [] \<longleftrightarrow> names = []"
  "\<forall>n\<in>set names. valid_name n \<Longrightarrow> names \<noteq> [] \<Longrightarrow> last (join_names names) \<noteq> CHR ''/''"
proof (induction names rule: rev_induct)
  case (snoc n names)
  {
    assume "\<forall>x\<in>set (names @ [n]). valid_name x"
    then have n: "valid_name n" "n \<noteq> []" "last n \<noteq> CHR ''/''"
      using last_in_set [of n] by (force simp: valid_name_def)+
    have eq: "join_names (names @ [n]) = path_append (join_names names) n"
      by (simp add: join_names_def)
    have "join_names (names @ [n]) \<noteq> []" "last (join_names (names @ [n])) \<noteq> CHR ''/''"
      using n by (simp_all add: eq path_append_name)
  }
  note * = this
  case 1
  then show ?case
    using *(1) by simp
  case 2
  then show ?case
    using *(2) by simp
qed (simp_all add: join_names_def)

lemma path_parts_name: "valid_name n \<Longrightarrow> path_parts n = [n]"
  by (auto simp: path_parts.simps [of n] valid_name_def split_at_None [symmetric])

lemma path_parts_snoc:
  assumes "valid_name n" "p \<noteq> []" "path_parts p = names"
  shows "path_parts (p @ CHR ''/'' # n) = names @ [n]"
  using assms(2,3)
proof (induction p arbitrary: names rule: path_parts.induct)
  case (1 s)
  show ?case
  proof (cases "split_at (CHR ''/'') s")
    case None
    then have "CHR ''/'' \<notin> set s"
      by (simp add: split_at_None)
    then show ?thesis
      using "1.prems" None assms(1) by (simp add: path_parts.simps [of s] path_parts.simps [of "s @ _"] path_parts_name)
  next
    case (Some ab)
    obtain a b where ab: "ab = (a, b)" "s = a @ CHR ''/'' # b" "CHR ''/'' \<notin> set a"
      using Some by (cases ab) (auto dest: split_at_SomeD)
    have "split_at (CHR ''/'') (s @ CHR ''/'' # n) = Some (a, b @ CHR ''/'' # n)"
      using ab by simp
    moreover have "path_parts (b @ CHR ''/'' # n) = path_parts b @ [n]"
    proof (cases "b = []")
      case True
      then show ?thesis
        using assms(1) by (simp add: path_parts.simps [of "CHR ''/'' # n"] path_parts.simps [of "[]"] path_parts_name)
    next
      case False
      then show ?thesis
        using "1.IH" [OF Some] ab by (cases "a = []") auto
    qed
    ultimately have "path_parts (s @ CHR ''/'' # n) = path_parts s @ [n]"
      unfolding path_parts.simps [of s] path_parts.simps [of "s @ CHR ''/'' # n"] using Some ab(1) by simp
    then show ?thesis
      using "1.prems" by simp
  qed
qed

lemma path_parts_join: "\<forall>n\<in>set names. valid_name n \<Longrightarrow> path_parts (join_names names) = names"
proof (induction names rule: rev_induct)
  case Nil
  then show ?case
    by (simp add: join_names_def path_parts.simps)
next
  case (snoc n names)
  then have n: "valid_name n" and ns: "\<forall>n\<in>set names. valid_name n" "path_parts (join_names names) = names"
    by auto
  have eq: "join_names (names @ [n]) = path_append (join_names names) n" "join_names [n] = n"
    using n by (simp_all add: join_names_def path_append_name)
  show ?case
    using join_names_last [OF ns(1)] path_parts_snoc [OF n _ ns(2)] n
    by (cases "names = []") (simp_all add: eq path_append_name path_parts_name)
qed

lemma path_of_parts_join: "path_of_parts p (map String names) = Inr (foldl path_append p names)"
  by (induction names arbitrary: p) simp_all

subsection \<open>A created torrent loads\<close>

text \<open>What the source tree must satisfy: names as a file system has them, and sizes within range.\<close>

fun valid_tree :: "fs_entry \<Rightarrow> bool" where
  "valid_tree (Directory entries) \<longleftrightarrow>
    (\<forall>(name, entry)\<in>set entries. valid_name name \<and> length name \<le> 255 \<and> valid_tree entry)"
| "valid_tree _ \<longleftrightarrow> True"

lemma gather_files_paths:
  assumes "valid_tree e" "\<forall>n\<in>set names. valid_name n \<and> length n \<le> 255" "(f, c) \<in> set (gather_files (join_names names) e)"
  shows "fi_size f = length c \<and> fi_download f \<and>
    (\<exists>ns. fi_path f = join_names ns \<and> (\<forall>n\<in>set ns. valid_name n \<and> length n \<le> 255))"
  using assms
proof (induction "join_names names" e arbitrary: names f c rule: gather_files.induct)
  case (2 entries)
  then obtain name entry where e: "(name, entry) \<in> set entries"
    "(f, c) \<in> set (gather_files (path_append (join_names names) name) entry)"
    by auto
  have "path_append (join_names names) name = join_names (names @ [name])"
    by (simp add: join_names_def)
  then show ?case
    using "2.hyps" [of "(name, entry)" name entry "names @ [name]" f c] "2.prems" e by fastforce
qed auto

definition created_info :: "(byte list \<Rightarrow> byte list) \<Rightarrow> string \<Rightarrow> fs_entry \<Rightarrow> nat \<Rightarrow> TorrentInfo" where
  "created_info sha1 name source piece_size =
    (let files = gather_files '''' source in
     \<lparr> ti_name = name, ti_total_size = sum_list (map (length \<circ> snd) files), ti_piece_size = piece_size,
       ti_pieces = piece_hashes sha1 piece_size (concat (map snd files)),
       ti_files = (case source of
           Directory _ \<Rightarrow> map fst files
         | _ \<Rightarrow> map (\<lambda>(f, _). f\<lparr> fi_path := name \<rparr>) files) \<rparr>)"

lemma read_file_entry_eq:
  assumes "\<forall>n\<in>set ns. valid_name n" "fi_path f = join_names ns" "fi_download f" "fi_size f < 2 ^ 63"
  shows "read_file_entry (file_list_entry f) = Inr f"
proof -
  have "path_of_parts '''' (map String (path_parts (fi_path f))) = Inr (fi_path f)"
    using assms(1,2) by (simp add: path_parts_join path_of_parts_join) (simp add: join_names_def)
  then show ?thesis
    using assms(3,4)
    by (simp add: read_file_entry_def file_list_entry_def integer_field_def field_def sum_bind_def sum_some_def u64_of_int_def)
qed

lemma read_file_list_eq:
  assumes "\<forall>f\<in>set fs. read_file_entry (file_list_entry f) = Inr f"
    and "ti_total_size info + sum_list (map fi_size fs) < 2 ^ 63"
  shows "read_file_list (map file_list_entry fs) info =
    (Inr (), info\<lparr> ti_files := ti_files info @ fs, ti_total_size := ti_total_size info + sum_list (map fi_size fs) \<rparr>)"
  using assms by (induction fs arbitrary: info) (simp_all add: sx_defs)

lemma int_fits: "n \<le> 9223372036854775807 \<Longrightarrow> int64_min \<le> int n \<and> int n \<le> int64_max"
  by (simp add: int64_min_def int64_max_def)

lemma sum_list_mem_le: "x \<in> set xs \<Longrightarrow> (x :: nat) \<le> sum_list xs"
  by (induction xs) auto

definition valid_source :: "(byte list \<Rightarrow> byte list) \<Rightarrow> string \<Rightarrow> fs_entry \<Rightarrow> string list \<Rightarrow> nat \<Rightarrow> bool" where
  "valid_source sha1 name source tracker_urls piece_size \<longleftrightarrow>
    (\<forall>x. length (sha1 x) = 20) \<and> source \<noteq> OtherEntry \<and> valid_tree source \<and> length name \<le> 255 \<and>
    20 * sum_list (map (length \<circ> snd) (gather_files '''' source)) < 2 ^ 63 \<and>
    tracker_urls \<noteq> [] \<and> (\<forall>url\<in>set tracker_urls. length url < 2 ^ 63) \<and> 0 < piece_size \<and> piece_size < 2 ^ 32"

lemma created_files:
  assumes "valid_source sha1 name source urls ps"
  shows "\<forall>f\<in>fst ` set (gather_files '''' source).
      read_file_entry (file_list_entry f) = Inr f \<and> valid_value (file_list_entry f)"
    and "map fi_size (map fst (gather_files '''' source)) = map (length \<circ> snd) (gather_files '''' source)"
proof -
  let ?files = "gather_files '''' source"
  have tree: "valid_tree source" and total: "sum_list (map (length \<circ> snd) ?files) < 2 ^ 63"
    using assms by (simp_all add: valid_source_def)
  have "join_names [] = ''''"
    by (simp add: join_names_def)
  then have paths: "fi_size f = length c \<and> fi_download f \<and>
      (\<exists>ns. fi_path f = join_names ns \<and> (\<forall>n\<in>set ns. valid_name n \<and> length n \<le> 255))" if "(f, c) \<in> set ?files" for f c
    using gather_files_paths [OF tree, of "[]" f c] that by simp
  then show "map fi_size (map fst ?files) = map (length \<circ> snd) ?files"
    by auto
  show "\<forall>f\<in>fst ` set ?files. read_file_entry (file_list_entry f) = Inr f \<and> valid_value (file_list_entry f)"
  proof
    fix f assume "f \<in> fst ` set ?files"
    then obtain c where fc: "(f, c) \<in> set ?files"
      by auto
    obtain ns where ns: "fi_path f = join_names ns" "\<forall>n\<in>set ns. valid_name n \<and> length n \<le> 255"
      "fi_size f = length c" "fi_download f"
      using paths [OF fc] by blast
    have "length c \<le> sum_list (map (length \<circ> snd) ?files)"
      using fc by (intro sum_list_mem_le) force
    then have size: "fi_size f < 2 ^ 63"
      using total ns(3) by simp
    have "\<forall>n\<in>set ns. fits n"
      using ns(2) by (auto intro!: fits_small)
    then have "valid_value (file_list_entry f)"
      using ns(1,2) size int_fits [of "fi_size f"]
      by (simp add: file_list_entry_def path_parts_join less_char_def int64_max_def)
    moreover have "read_file_entry (file_list_entry f) = Inr f"
      using ns size by (intro read_file_entry_eq) auto
    ultimately show "read_file_entry (file_list_entry f) = Inr f \<and> valid_value (file_list_entry f)"
      by simp
  qed
qed

lemma created_dict:
  assumes "valid_source sha1 name source urls ps"
  shows "populate_torrent_info_from_dict (create_info_dict sha1 name source ps) info =
      (Inr (), created_info sha1 name source ps)"
    and "valid_value (Dict (create_info_dict sha1 name source ps))"
proof -
  let ?files = "gather_files '''' source"
  let ?hashes = "piece_hashes sha1 ps (concat (map snd ?files))"
  have ps: "0 < ps" "ps < 2 ^ 32" and sha: "\<forall>x. length (sha1 x) = 20"
    and total: "20 * sum_list (map (length \<circ> snd) ?files) < 2 ^ 63" and name: "fits name"
    using assms by (auto simp: valid_source_def intro!: fits_small)
  have "length (concat (map snd ?files)) = sum_list (map (length \<circ> snd) ?files)"
    by (simp add: length_concat)
  then have hashes: "length ?hashes mod 20 = 0" "length ?hashes < 2 ^ 63"
    using length_piece_hashes [OF sha, of ps "concat (map snd ?files)"] total by simp_all
  have sum: "sum_list (map fi_size (map fst ?files)) < 2 ^ 63"
    unfolding created_files(2) [OF assms] using total by simp
  have dict: "create_info_dict sha1 name source ps =
     (case source of
        Directory _ \<Rightarrow> [(''files'', List (map (file_list_entry \<circ> fst) ?files)), (''name'', String name),
          (''piece length'', Integer (int ps)), (''pieces'', String (string_of_bytes ?hashes))]
      | _ \<Rightarrow> [(''length'', Integer (int (sum_list (map (length \<circ> snd) ?files)))), (''name'', String name),
          (''piece length'', Integer (int ps)), (''pieces'', String (string_of_bytes ?hashes))])"
    by (simp add: create_info_dict_def Let_def less_char_def hash_files_eq [OF ps(1)] split: fs_entry.split)
  show "populate_torrent_info_from_dict (create_info_dict sha1 name source ps) info = (Inr (), created_info sha1 name source ps)"
  proof (cases source)
    case (RegularFile bytes)
    show ?thesis
      using hashes total ps unfolding dict unfolding RegularFile
      by (simp add: populate_torrent_info_from_dict_def string_field_def integer_field_def field_def sum_bind_def
          sum_some_def sx_defs created_info_def empty_torrent_info_def u32_of_int_def u64_of_int_def)
  next
    case (Directory entries)
    have "read_file_list (map file_list_entry (map fst ?files)) i =
      (Inr (), i\<lparr> ti_files := ti_files i @ map fst ?files, ti_total_size := ti_total_size i + sum_list (map (length \<circ> snd) ?files) \<rparr>)"
      if "ti_total_size i = 0" for i
      unfolding created_files(2) [OF assms, symmetric]
      using created_files(1) [OF assms] sum that by (intro read_file_list_eq) auto
    then show ?thesis
      using hashes ps unfolding dict unfolding Directory
      by (simp add: populate_torrent_info_from_dict_def string_field_def integer_field_def field_def sum_bind_def
          sum_some_def sx_defs sx_some_def created_info_def empty_torrent_info_def u32_of_int_def comp_def Let_def
          del: gather_files.simps)
  next
    case OtherEntry
    then show ?thesis
      using assms by (simp add: valid_source_def)
  qed
  show "valid_value (Dict (create_info_dict sha1 name source ps))"
    using hashes(2) total name ps created_files(1) [OF assms]
      int_fits [of ps] int_fits [of "sum_list (map (length \<circ> snd) ?files)"]
    unfolding dict by (cases source) (auto simp: less_char_def int64_max_def)
qed

lemma read_tiers_urls: "read_tiers (map (\<lambda>url. List [String url]) urls) = Inr (map (\<lambda>url. [url]) urls)"
  by (induction urls) (simp_all add: sum_bind_def sum_some_def)

text \<open>C29: a created torrent loads as what it was created from.  For every source file or directory,
  \<^verbatim>\<open>load_from_file\<close> accepts the file \<^verbatim>\<open>create_from_file\<close> writes, and finds the name, the piece size, the
  files in order with their paths and sizes, one tier per tracker, the SHA-1 hash of every consecutive
  piece of all contents together (which the creation computed by streaming file by file), and an info
  hash that is the hash of the stored info dictionary.\<close>

theorem created_torrent_loads:
  assumes "valid_source sha1 name source tracker_urls piece_size"
  shows "\<exists>data mi. create_from_file sha1 name (Some source) tracker_urls piece_size = Some data \<and>
    load_from_file sha1 (Some data) (empty_meta_info, []) = (Inr True, (mi, map (\<lambda>url. [url]) tracker_urls)) \<and>
    mi_info mi = created_info sha1 name source piece_size \<and> mi_info_hash mi = sha1 (bytes_of_string (mi_info_bencoded mi)) \<and>
    decode (mi_info_bencoded mi) = Inr (Dict (create_info_dict sha1 name source piece_size))"
proof -
  let ?info = "create_info_dict sha1 name source piece_size"
  let ?meta = "[(''announce'', String (hd tracker_urls)), (''announce-list'', List (map (\<lambda>url. List [String url]) tracker_urls)),
    (''info'', Dict ?info)]"
  note info = created_dict [OF assms]
  have src: "source \<noteq> OtherEntry" "tracker_urls \<noteq> []" "0 < piece_size" "\<forall>url\<in>set tracker_urls. fits url"
    using assms by (auto simp: valid_source_def int64_max_def)
  then have "fits (hd tracker_urls)"
    by simp
  then have "valid_value (Dict ?meta)"
    using src(4) info(2) by (simp add: less_char_def)
  then have dec: "decode (encode (Dict ?meta)) = Inr (Dict ?meta)" "decode (encode (Dict ?info)) = Inr (Dict ?info)"
    using info(2) by (simp_all add: decode_of_encode del: encode.simps)
  have trackers: "read_trackers ?meta = Inr (map (\<lambda>url. [url]) tracker_urls)"
    using src(2) by (simp add: read_trackers_def read_tiers_urls sum_bind_def sum_some_def)
  have "create_from_file sha1 name (Some source) tracker_urls piece_size = Some (encode (Dict ?meta))"
    using src by (simp add: create_from_file_def Let_def less_char_def del: encode.simps)
  moreover have "load_from_file sha1 (Some (encode (Dict ?meta))) (empty_meta_info, []) =
    (Inr True, (empty_meta_info\<lparr> mi_info_bencoded := encode (Dict ?info), mi_info_hash := sha1 (bytes_of_string (encode (Dict ?info))),
      mi_info := created_info sha1 name source piece_size \<rparr>, map (\<lambda>url. [url]) tracker_urls))"
    using dec(1) trackers info(1)
    by (simp add: load_from_file_def or_false_def sx_defs sx_some_def on_meta_def on_info_def field_def sum_some_def
        del: encode.simps)
  ultimately show ?thesis
    using dec(2) by auto
qed

theorem created_torrent_loads_witness:
  "let source = Directory [(''b'', RegularFile [1, 2, 3]), (''a'', Directory [(''c'', RegularFile [4])])];
       sha1 = (\<lambda>x. replicate 20 (of_nat (length x))); urls = [''http://t/announce'']
   in valid_source sha1 ''t'' source urls 2 \<and>
     (\<exists>data mi. create_from_file sha1 ''t'' (Some source) urls 2 = Some data \<and>
       load_from_file sha1 (Some data) (empty_meta_info, []) = (Inr True, (mi, [urls])) \<and>
       map fi_path (ti_files (mi_info mi)) = [''a/c'', ''b''] \<and> ti_total_size (mi_info mi) = 4)"
proof -
  let ?source = "Directory [(''b'', RegularFile [1, 2, 3]), (''a'', Directory [(''c'', RegularFile [4])])]"
  let ?sha1 = "\<lambda>x. replicate 20 (of_nat (length x))" and ?urls = "[''http://t/announce'']"
  have files: "gather_files '''' ?source =
    [(\<lparr> fi_path = ''a/c'', fi_size = 1, fi_download = True \<rparr>, [4]), (\<lparr> fi_path = ''b'', fi_size = 3, fi_download = True \<rparr>, [1, 2, 3])]"
    by (simp add: less_char_def less_eq_char_def path_append_def)
  then have "valid_source ?sha1 ''t'' ?source ?urls 2"
    by (simp add: valid_source_def valid_name_def)
  then show ?thesis
    using created_torrent_loads [of ?sha1 "''t''" ?source ?urls 2] files by (fastforce simp: created_info_def Let_def)
qed

end
