(* ===== verification/SessionState.thy ===== *)
theory SessionState
  imports TorrentFile
begin

unbundle bit_operations_syntax

text \<open>
  The state of one torrent session (\<^verbatim>\<open>src/src/SessionState.hpp\<close>): metadata, the status of every piece and the
  counters, and the bit fields that exchange piece sets with peers (\<^verbatim>\<open>has_piece\<close> and \<^verbatim>\<open>set_has_piece\<close> of
  \<^verbatim>\<open>src/src/PeerConnection.hpp\<close>).  The lock around each access makes it atomic.  Indexing beyond the status
  vector, which the code only asserts against, leaves the model's state unchanged.

  Lemmas: metadata is accepted only under the expected info hash, and a peer that stores our bit field
  reads exactly the pieces we have.
\<close>

subsection \<open>Definitions\<close>

datatype PieceStatus = Needed | InProgress | Have | Skipped

record SessionState =
  ss_meta :: MetaInfo
  ss_piece_status :: "PieceStatus list"
  ss_tracker_tiers :: "string list list"
  ss_save_path :: string
  ss_bytes_downloaded :: nat
  ss_bytes_uploaded :: nat
  ss_completed_pieces :: nat
  ss_download_complete :: bool
  ss_endgame :: bool
  ss_num_pieces :: nat

datatype session_error = CouldNotLoad | BadHashSize | MetadataRejected | HashMismatch | Crashed

abbreviation torrent_info :: "SessionState \<Rightarrow> TorrentInfo" where
  "torrent_info ss \<equiv> mi_info (ss_meta ss)"

definition new_session :: "MetaInfo \<Rightarrow> string list list \<Rightarrow> string \<Rightarrow> SessionState" where
  "new_session meta tiers save_path =
    \<lparr> ss_meta = meta, ss_piece_status = [], ss_tracker_tiers = tiers, ss_save_path = save_path,
      ss_bytes_downloaded = 0, ss_bytes_uploaded = 0, ss_completed_pieces = 0, ss_download_complete = False,
      ss_endgame = False, ss_num_pieces = 0 \<rparr>"

definition set_pieces :: "nat \<Rightarrow> SessionState \<Rightarrow> SessionState" where
  "set_pieces n ss = ss\<lparr> ss_num_pieces := n, ss_piece_status := replicate n Needed \<rparr>"

definition session_from_file :: "(byte list \<Rightarrow> byte list) \<Rightarrow> string option \<Rightarrow> string \<Rightarrow> session_error + SessionState" where
  "session_from_file sha1 file save_path =
    (case load_from_file sha1 file (empty_meta_info, []) of
       (Inl _, _) \<Rightarrow> Inl Crashed
     | (Inr False, _) \<Rightarrow> Inl CouldNotLoad
     | (Inr True, (meta, tiers)) \<Rightarrow>
         if length (mi_info_hash meta) \<noteq> HASH_SIZE then Inl BadHashSize
         else Inr (set_pieces (length (ti_pieces (mi_info meta)) div 20) (new_session meta tiers save_path)))"

definition session_from_magnet :: "byte list \<Rightarrow> string list list \<Rightarrow> string \<Rightarrow> SessionState" where
  "session_from_magnet info_hash tiers save_path =
    new_session (empty_meta_info\<lparr> mi_info_hash := info_hash \<rparr>) tiers save_path"

definition has_metadata :: "SessionState \<Rightarrow> bool" where
  "has_metadata ss \<longleftrightarrow> 0 < ss_num_pieces ss \<and> mi_info_bencoded (ss_meta ss) \<noteq> []"

definition load_metadata :: "(byte list \<Rightarrow> byte list) \<Rightarrow> string \<Rightarrow> (SessionState, session_error, unit) sx" where
  "load_metadata sha1 info_bencoded ss =
    (let expected_hash = mi_info_hash (ss_meta ss) in
     case load_from_info_bytes sha1 info_bencoded (ss_meta ss) of
       (Inl _, meta) \<Rightarrow> (Inl Crashed, ss\<lparr> ss_meta := meta \<rparr>)
     | (Inr False, meta) \<Rightarrow> (Inl MetadataRejected, ss\<lparr> ss_meta := meta \<rparr>)
     | (Inr True, meta) \<Rightarrow>
         let ss = ss\<lparr> ss_meta := meta \<rparr>
         in if expected_hash \<noteq> [] \<and> expected_hash \<noteq> mi_info_hash meta then (Inl HashMismatch, ss)
            else (Inr (), set_pieces (length (ti_pieces (mi_info meta)) div 20) ss))"

definition piece_status :: "SessionState \<Rightarrow> nat \<Rightarrow> PieceStatus" where
  "piece_status ss i = ss_piece_status ss ! i"

definition set_piece_status :: "nat \<Rightarrow> PieceStatus \<Rightarrow> SessionState \<Rightarrow> SessionState" where
  "set_piece_status i status ss = ss\<lparr> ss_piece_status := (ss_piece_status ss)[i := status] \<rparr>"

definition add_total_bytes_downloaded :: "nat \<Rightarrow> SessionState \<Rightarrow> SessionState" where
  "add_total_bytes_downloaded v ss = ss\<lparr> ss_bytes_downloaded := to_u64 (ss_bytes_downloaded ss + v) \<rparr>"

definition add_total_bytes_uploaded :: "nat \<Rightarrow> SessionState \<Rightarrow> SessionState" where
  "add_total_bytes_uploaded v ss = ss\<lparr> ss_bytes_uploaded := to_u64 (ss_bytes_uploaded ss + v) \<rparr>"

definition add_completed_pieces :: "nat \<Rightarrow> SessionState \<Rightarrow> SessionState" where
  "add_completed_pieces v ss = ss\<lparr> ss_completed_pieces := to_u64 (ss_completed_pieces ss + v) \<rparr>"

text \<open>\<^verbatim>\<open>resize\<close> keeps the statuses that are there and fills up with \<open>Needed\<close>.\<close>

definition init_pieces :: "nat \<Rightarrow> SessionState \<Rightarrow> SessionState" where
  "init_pieces n ss = ss\<lparr> ss_num_pieces := n,
    ss_piece_status := take n (ss_piece_status ss) @ replicate (n - length (ss_piece_status ss)) Needed \<rparr>"

definition set_bit8 :: "byte list \<Rightarrow> nat \<Rightarrow> byte list" where
  "set_bit8 bits i = bits[i div 8 := bits ! (i div 8) OR push_bit (7 - i mod 8) 1]"

definition get_have_bitfield_str :: "SessionState \<Rightarrow> byte list" where
  "get_have_bitfield_str ss =
    fold (\<lambda>i bits. set_bit8 bits i) (filter (\<lambda>i. piece_status ss i = Have) [0..<ss_num_pieces ss])
      (replicate ((ss_num_pieces ss + 7) div 8) 0)"

definition has_piece :: "byte list \<Rightarrow> nat \<Rightarrow> bool" where
  "has_piece bitfield i \<longleftrightarrow>
    (if bitfield = [] \<or> length bitfield \<le> i div 8 then False else bit (bitfield ! (i div 8)) (7 - i mod 8))"

definition set_has_piece :: "nat \<Rightarrow> byte list \<Rightarrow> byte list" where
  "set_has_piece i bitfield = (if bitfield = [] \<or> length bitfield \<le> i div 8 then bitfield else set_bit8 bitfield i)"

definition is_multi_file :: "SessionState \<Rightarrow> bool" where
  "is_multi_file ss \<longleftrightarrow> 1 < length (ti_files (torrent_info ss))"

text \<open>\<^verbatim>\<open>files.at(file_idx)\<close> throws out of range; every caller passes a valid index.\<close>

definition update_file_stat :: "nat \<Rightarrow> bool \<Rightarrow> SessionState \<Rightarrow> SessionState" where
  "update_file_stat i val ss =
    (let info = torrent_info ss; files = (ti_files info)[i := (ti_files info ! i)\<lparr> fi_download := val \<rparr>]
     in ss\<lparr> ss_meta := (ss_meta ss)\<lparr> mi_info := info\<lparr> ti_files := files \<rparr> \<rparr> \<rparr>)"

definition status_count :: "(PieceStatus \<Rightarrow> bool) \<Rightarrow> SessionState \<Rightarrow> nat" where
  "status_count f ss = length (filter f (ss_piece_status ss))"

definition needed_pieces :: "SessionState \<Rightarrow> nat" where
  "needed_pieces ss = length (filter (\<lambda>s. s = Needed) (ss_piece_status ss))"

subsection \<open>Bit fields\<close>

lemma length_set_bit8 [simp]: "length (set_bit8 bits i) = length bits"
  by (simp add: set_bit8_def)

lemma length_set_bits [simp]: "length (fold (\<lambda>i bits. set_bit8 bits i) is bits) = length bits"
  by (induction "is" arbitrary: bits) simp_all

lemma bit_position: "i div 8 = j div 8 \<Longrightarrow> 7 - i mod 8 = 7 - j mod 8 \<Longrightarrow> i = (j :: nat)"
proof -
  assume "i div 8 = j div 8" "7 - i mod 8 = 7 - j mod 8"
  moreover have "i mod 8 < 8" "j mod 8 < 8"
    by simp_all
  ultimately have "i mod 8 = j mod 8"
    by linarith
  then show ?thesis
    using \<open>i div 8 = j div 8\<close> by (metis div_mult_mod_eq)
qed

lemma bit_push_one: "n < 8 \<Longrightarrow> bit ((2 :: byte) ^ n) k \<longleftrightarrow> k = n"
  by (auto simp: bit_exp_iff)

lemma has_piece_set_bit8:
  "i div 8 < length bits \<Longrightarrow> has_piece (set_bit8 bits i) j \<longleftrightarrow> j = i \<or> has_piece bits j"
proof -
  assume i: "i div 8 < length bits"
  show ?thesis
  proof (cases "i = j")
    case True
    then show ?thesis
      using i by (auto simp: has_piece_def set_bit8_def bit_or_iff bit_push_one)
  next
    case False
    then have "i div 8 \<noteq> j div 8 \<or> 7 - j mod 8 \<noteq> 7 - i mod 8"
      using bit_position [of j i] by metis
    then show ?thesis
      using i False by (cases "i div 8 = j div 8") (auto simp: has_piece_def set_bit8_def bit_or_iff bit_push_one)
  qed
qed

lemma has_piece_fold:
  "\<forall>i\<in>set is. i div 8 < length bits \<Longrightarrow>
    has_piece (fold (\<lambda>i bits. set_bit8 bits i) is bits) j \<longleftrightarrow> j \<in> set is \<or> has_piece bits j"
  by (induction "is" arbitrary: bits) (auto simp: has_piece_set_bit8)

lemma has_piece_zero [simp]: "\<not> has_piece (replicate n 0) i"
  by (simp add: has_piece_def)

lemma has_piece_set: "has_piece (set_has_piece i bits) j \<longleftrightarrow> has_piece bits j \<or> j = i \<and> i div 8 < length bits"
  using has_piece_set_bit8 [of i bits j] by (auto simp: set_has_piece_def)

text \<open>C39: the bit field we send says exactly which pieces we have.  It has one bit per piece, rounded up to
  bytes; a peer that stores it finds a piece in it if and only if its status is \<open>Have\<close>, and the spare
  bits at the end are clear.  A later \<^verbatim>\<open>have\<close> message adds its piece and changes nothing else.\<close>

theorem bitfield_exact:
  "length (get_have_bitfield_str ss) = (ss_num_pieces ss + 7) div 8 \<and>
    has_piece (get_have_bitfield_str ss) i = (i < ss_num_pieces ss \<and> piece_status ss i = Have) \<and>
    has_piece (set_has_piece k (get_have_bitfield_str ss)) i =
      (i < ss_num_pieces ss \<and> piece_status ss i = Have \<or> i = k \<and> k div 8 < (ss_num_pieces ss + 7) div 8)"
proof -
  have "\<forall>i\<in>set (filter (\<lambda>i. piece_status ss i = Have) [0..<ss_num_pieces ss]).
      i div 8 < length (replicate ((ss_num_pieces ss + 7) div 8) (0 :: byte))"
    by auto
  from has_piece_fold [OF this]
  have "has_piece (get_have_bitfield_str ss) i = (i < ss_num_pieces ss \<and> piece_status ss i = Have)" for i
    by (auto simp: get_have_bitfield_str_def)
  then show ?thesis
    by (auto simp: has_piece_set get_have_bitfield_str_def)
qed

subsection \<open>Metadata of a magnet link\<close>

text \<open>C28: metadata is taken only under the hash the magnet link names.  When \<^verbatim>\<open>load_metadata\<close> succeeds on a
  session that was created with an info hash, the SHA-1 of the bytes is that hash, the session keeps
  exactly those bytes, and every one of its pieces is needed.  When it fails the number of pieces and
  their statuses are as before.\<close>

theorem load_metadata_checked:
  assumes "mi_info_hash (ss_meta ss) \<noteq> []" "load_metadata sha1 bytes ss = (r, ss')"
  shows "(r = Inr () \<longrightarrow> sha1 (bytes_of_string bytes) = mi_info_hash (ss_meta ss) \<and>
      mi_info_hash (ss_meta ss') = mi_info_hash (ss_meta ss) \<and> mi_info_bencoded (ss_meta ss') = bytes \<and>
      ss_num_pieces ss' = length (ti_pieces (torrent_info ss')) div 20 \<and>
      ss_piece_status ss' = replicate (ss_num_pieces ss') Needed) \<and>
    (r \<noteq> Inr () \<longrightarrow> ss_num_pieces ss' = ss_num_pieces ss \<and> ss_piece_status ss' = ss_piece_status ss)"
proof -
  obtain b meta where l: "load_from_info_bytes sha1 bytes (ss_meta ss) = (b, meta)"
    by (metis surj_pair)
  have "mi_info_bencoded meta = bytes \<and> mi_info_hash meta = sha1 (bytes_of_string bytes)" if "b = Inr True"
    using l that
    by (auto simp: load_from_info_bytes_def or_false_def sx_defs sx_some_def on_info_def
        split: sum.splits option.splits prod.splits if_splits)
  then show ?thesis
    using assms l by (auto simp: load_metadata_def Let_def set_pieces_def split: sum.splits bool.splits if_splits)
qed

theorem load_metadata_checked_witness:
  "let info = encode (Dict [(''length'', Integer 3), (''name'', String ''n''), (''piece length'', Integer 2),
         (''pieces'', String (replicate 40 CHR ''h''))]);
       ss = session_from_magnet (replicate 20 7) [] ''/tmp''; sha1 = (\<lambda>_. replicate 20 7)
   in mi_info_hash (ss_meta ss) \<noteq> [] \<and> fst (load_metadata sha1 info ss) = Inr () \<and>
     ss_piece_status (snd (load_metadata sha1 info ss)) = replicate 2 Needed"
proof -
  let ?d = "[(''length'', Integer 3), (''name'', String ''n''), (''piece length'', Integer 2),
    (''pieces'', String (replicate 40 CHR ''h''))]"
  let ?ss = "session_from_magnet (replicate 20 7) [] ''/tmp''" and ?sha1 = "\<lambda>_. replicate 20 7"
  have "valid_value (Dict ?d)"
    by (simp add: less_char_def int64_min_def)
  then have dec: "decode (encode (Dict ?d)) = Inr (Dict ?d)"
    by (rule decode_of_encode)
  have "length (bytes_of_string (replicate 40 CHR ''h'')) = 40"
    by simp
  then have run: "fst (load_metadata ?sha1 (encode (Dict ?d)) ?ss) = Inr ()"
    "length (ti_pieces (torrent_info (snd (load_metadata ?sha1 (encode (Dict ?d)) ?ss)))) = 40"
    by (simp_all add: load_metadata_def load_from_info_bytes_def dec or_false_def sx_defs sx_some_def on_info_def
        populate_torrent_info_from_dict_def string_field_def integer_field_def field_def sum_bind_def sum_some_def
        session_from_magnet_def new_session_def empty_meta_info_def Let_def set_pieces_def del: encode.simps)
  have hash: "mi_info_hash (ss_meta ?ss) \<noteq> []"
    by (simp add: session_from_magnet_def new_session_def empty_meta_info_def)
  obtain r ss' where l: "load_metadata ?sha1 (encode (Dict ?d)) ?ss = (r, ss')"
    by (metis surj_pair)
  show ?thesis
    using load_metadata_checked [OF hash l] run hash unfolding Let_def l by simp
qed

end
