(* ===== verification/PieceMaps.thy ===== *)
theory PieceMaps
  imports SessionState
begin

text \<open>
  How the bytes of a torrent are laid out in files: paths and the maps between pieces and files
  (\<^verbatim>\<open>get_full_path_for_file\<close>, \<^verbatim>\<open>get_resume_file_path\<close> and \<^verbatim>\<open>build_maps\<close> of \<^verbatim>\<open>src/src/FileManager.cpp\<close>).

  Offsets and sizes are natural numbers with the conversions to \<^verbatim>\<open>uint32_t\<close> and \<^verbatim>\<open>uint64_t\<close> written out.

  Lemmas: the overlaps of a piece list its bytes in order, each with the file and offset where it is
  stored.
\<close>

subsection \<open>Definitions: paths\<close>

record PieceFileOverlap =
  po_file_index :: nat
  po_offset_in_file :: nat
  po_offset_in_piece :: nat
  po_length :: nat

definition get_full_path_for_file :: "SessionState \<Rightarrow> FileInfo \<Rightarrow> string" where
  "get_full_path_for_file ss file_info =
    (let info = torrent_info ss in
     if 1 < length (ti_files info) then path_append (path_append (ss_save_path ss) (ti_name info)) (fi_path file_info)
     else path_append (ss_save_path ss) (ti_name info))"

definition get_resume_file_path :: "SessionState \<Rightarrow> string" where
  "get_resume_file_path ss =
    (let info = torrent_info ss;
         file = ''.'' @ bytes_to_hex (mi_info_hash (ss_meta ss)) @ ''.resume''
     in if 1 < length (ti_files info) then path_append (path_append (ss_save_path ss) (ti_name info)) file
        else path_append (ss_save_path ss) file)"

subsection \<open>Definitions: the maps between pieces and files\<close>

definition actual_piece_size :: "nat \<Rightarrow> nat \<Rightarrow> nat \<Rightarrow> nat \<Rightarrow> nat" where
  "actual_piece_size num_pieces piece_size total_size p =
    (if p = num_pieces - 1 then
       if total_size = 0 then 0 else let remainder = total_size mod piece_size in if remainder = 0 then piece_size else remainder
     else piece_size)"

definition piece_overlap :: "nat \<Rightarrow> nat \<Rightarrow> nat \<Rightarrow> nat \<Rightarrow> nat \<Rightarrow> nat \<Rightarrow> nat \<Rightarrow> PieceFileOverlap option" where
  "piece_overlap num_pieces piece_size total_size file_idx file_start file_end p =
    (let piece_start = to_u64 (p * piece_size);
         piece_end = to_u64 (piece_start + actual_piece_size num_pieces piece_size total_size p);
         overlap_start = max file_start piece_start;
         overlap_end = min file_end piece_end
     in if overlap_end > overlap_start then
          Some \<lparr> po_file_index = file_idx, po_offset_in_file = overlap_start - file_start,
                 po_offset_in_piece = to_u32 (overlap_start - piece_start), po_length = to_u32 (overlap_end - overlap_start) \<rparr>
        else None)"

definition file_piece_range :: "nat \<Rightarrow> nat \<Rightarrow> nat \<Rightarrow> nat \<Rightarrow> nat list" where
  "file_piece_range num_pieces piece_size file_start sz =
    (let start_piece = to_u32 (file_start div piece_size);
         end_piece = to_u32 (if sz = 0 then start_piece else (to_u64 (file_start + sz) - 1) div piece_size);
         end_piece = (if num_pieces \<le> end_piece then to_u32 (num_pieces - 1) else end_piece)
     in [start_piece..<Suc end_piece])"

definition add_file_maps :: "nat \<Rightarrow> nat \<Rightarrow> nat \<Rightarrow> nat \<times> FileInfo \<Rightarrow>
    nat \<times> PieceFileOverlap list list \<times> nat list list \<Rightarrow> nat \<times> PieceFileOverlap list list \<times> nat list list" where
  "add_file_maps num_pieces piece_size total_size x st =
    (case (x, st) of ((file_idx, file), (file_start, piece_to_files, file_to_pieces)) \<Rightarrow>
      let file_end = to_u64 (file_start + fi_size file);
          pieces = file_piece_range num_pieces piece_size file_start (fi_size file);
          overlap = piece_overlap num_pieces piece_size total_size file_idx file_start file_end
      in (file_end,
          fold (\<lambda>p m. case overlap p of None \<Rightarrow> m | Some ov \<Rightarrow> m[p := m ! p @ [ov]]) pieces piece_to_files,
          file_to_pieces @ [filter (\<lambda>p. overlap p \<noteq> None) pieces]))"

text \<open>With files but no pieces the loop over pieces has no end, and a piece size of zero divides by zero.\<close>

definition build_maps :: "SessionState \<Rightarrow> (PieceFileOverlap list list \<times> nat list list) option" where
  "build_maps ss =
    (let info = torrent_info ss; n = ss_num_pieces ss in
     if ti_files info \<noteq> [] \<and> (ti_piece_size info = 0 \<or> n = 0) then None
     else Some (snd (fold (add_file_maps n (ti_piece_size info) (ti_total_size info))
            (enumerate 0 (ti_files info)) (0, replicate n [], []))))"

subsection \<open>Well-formed torrents\<close>

definition wf_torrent :: "SessionState \<Rightarrow> bool" where
  "wf_torrent ss \<longleftrightarrow>
    (let info = torrent_info ss; ps = ti_piece_size info; files = ti_files info; ts = ti_total_size info in
     0 < ps \<and> ps < 2 ^ 32 \<and> ts = sum_list (map fi_size files) \<and> 0 < ts \<and> ts < 2 ^ 63 \<and>
     ss_num_pieces ss = (ts + ps - 1) div ps \<and> ss_num_pieces ss < 2 ^ 32 \<and>
     (\<forall>f\<in>set files. fi_download f) \<and> distinct (map (get_full_path_for_file ss) files))"

abbreviation psize :: "SessionState \<Rightarrow> nat" where "psize ss \<equiv> ti_piece_size (torrent_info ss)"
abbreviation tsize :: "SessionState \<Rightarrow> nat" where "tsize ss \<equiv> ti_total_size (torrent_info ss)"
abbreviation tfiles :: "SessionState \<Rightarrow> FileInfo list" where "tfiles ss \<equiv> ti_files (torrent_info ss)"

text \<open>The length of a piece: all are full except possibly the last.\<close>

definition plen :: "SessionState \<Rightarrow> nat \<Rightarrow> nat" where
  "plen ss p = min (psize ss) (tsize ss - p * psize ss)"

lemma wf_basic:
  assumes "wf_torrent ss"
  shows "0 < psize ss" "psize ss < 2 ^ 32" "tsize ss = sum_list (map fi_size (tfiles ss))" "0 < tsize ss"
    "tsize ss < 2 ^ 63" "ss_num_pieces ss = (tsize ss + psize ss - 1) div psize ss"
    "ss_num_pieces ss < 2 ^ 32" "\<forall>f\<in>set (tfiles ss). fi_download f"
    "distinct (map (get_full_path_for_file ss) (tfiles ss))"
  using assms unfolding wf_torrent_def Let_def by blast+

lemma wf_pieces:
  assumes "wf_torrent ss"
  shows "p < ss_num_pieces ss \<longleftrightarrow> p * psize ss < tsize ss" "0 < ss_num_pieces ss"
proof -
  let ?ps = "psize ss" and ?ts = "tsize ss"
  note wf = wf_basic [OF assms]
  have "p < (?ts + ?ps - 1) div ?ps \<longleftrightarrow> Suc p * ?ps \<le> ?ts + ?ps - 1" for p
    using wf(1) by (simp add: less_eq_div_iff_mult_less_eq Suc_le_eq [symmetric])
  then have *: "p < ss_num_pieces ss \<longleftrightarrow> p * ?ps < ?ts" for p
    using wf(1,4,6) by (simp add: less_diff_conv) linarith
  then show "p < ss_num_pieces ss \<longleftrightarrow> p * ?ps < ?ts"
    by blast
  show "0 < ss_num_pieces ss"
    using * [of 0] wf(4) by simp
qed

lemma plen_bounds:
  assumes "wf_torrent ss" "p < ss_num_pieces ss"
  shows "0 < plen ss p" "plen ss p \<le> psize ss" "p * psize ss + plen ss p \<le> tsize ss"
  using wf_pieces(1) [OF assms(1), of p] wf_basic [OF assms(1)] assms(2) by (auto simp: plen_def)

lemma actual_piece_size_eq:
  assumes "wf_torrent ss" "p < ss_num_pieces ss"
  shows "actual_piece_size (ss_num_pieces ss) (psize ss) (tsize ss) p = plen ss p"
proof -
  let ?ps = "psize ss" and ?ts = "tsize ss"
  note wf = wf_basic [OF assms(1)] and less = wf_pieces(1) [OF assms(1)]
  show ?thesis
  proof (cases "p = ss_num_pieces ss - 1")
    case True
    then have "\<not> Suc p < ss_num_pieces ss"
      by simp
    then have "?ts \<le> Suc p * ?ps" "p * ?ps < ?ts"
      using less [of "Suc p"] less [of p] assms(2) by auto
    then obtain r where r: "?ts = p * ?ps + r" "0 < r" "r \<le> ?ps"
      by (metis add.commute add_diff_inverse_nat le_diff_conv less_imp_le_nat mult_Suc not_le zero_less_diff)
    then have "?ts mod ?ps = (if r = ?ps then 0 else r)"
      by simp
    then show ?thesis
      using True r by (simp add: actual_piece_size_def plen_def Let_def)
  next
    case False
    then have "Suc p * ?ps < ?ts"
      using less [of "Suc p"] assms(2) by auto
    then show ?thesis
      using False by (simp add: actual_piece_size_def plen_def)
  qed
qed

subsection \<open>The overlaps of a piece\<close>

fun layout_from :: "nat \<Rightarrow> FileInfo list \<Rightarrow> (nat \<times> nat) list" where
  "layout_from i [] = []"
| "layout_from i (f # fs) = map (\<lambda>k. (i, k)) [0..<fi_size f] @ layout_from (Suc i) fs"

text \<open>The place of every byte of the torrent: the index of its file and the offset in it.\<close>

definition file_layout :: "SessionState \<Rightarrow> (nat \<times> nat) list" where
  "file_layout ss = layout_from 0 (tfiles ss)"

lemma length_layout: "length (layout_from i fs) = sum_list (map fi_size fs)"
  by (induction fs arbitrary: i) simp_all

text \<open>The bytes an overlap stands for: position in the piece, file and offset.\<close>

definition expand :: "PieceFileOverlap \<Rightarrow> (nat \<times> nat \<times> nat) list" where
  "expand ov = map (\<lambda>k. (po_offset_in_piece ov + k, po_file_index ov, po_offset_in_file ov + k)) [0..<po_length ov]"

fun overlaps_from :: "SessionState \<Rightarrow> nat \<Rightarrow> nat \<Rightarrow> FileInfo list \<Rightarrow> nat \<Rightarrow> PieceFileOverlap list" where
  "overlaps_from ss i s [] p = []"
| "overlaps_from ss i s (f # fs) p =
    (case piece_overlap (ss_num_pieces ss) (psize ss) (tsize ss) i s (s + fi_size f) p of None \<Rightarrow> [] | Some ov \<Rightarrow> [ov]) @
    overlaps_from ss (Suc i) (s + fi_size f) fs p"

lemma piece_overlap_eq:
  assumes "wf_torrent ss" "p < ss_num_pieces ss" "e \<le> tsize ss"
  shows "piece_overlap (ss_num_pieces ss) (psize ss) (tsize ss) i s e p =
    (let A = p * psize ss; os = max s A; oe = min e (A + plen ss p)
     in if os < oe then Some \<lparr> po_file_index = i, po_offset_in_file = os - s, po_offset_in_piece = os - A, po_length = oe - os \<rparr>
        else None)"
proof -
  let ?A = "p * psize ss"
  define os oe where "os = max s ?A" and "oe = min e (?A + plen ss p)"
  have pl: "plen ss p < 4294967296" "?A + plen ss p < 18446744073709551616"
    using plen_bounds(2,3) [OF assms(1,2)] wf_basic(2,5) [OF assms(1)] by simp_all
  have A: "to_u64 ?A = ?A" "to_u64 (?A + plen ss p) = ?A + plen ss p"
    using pl(2) by simp_all
  have "?A \<le> os" "oe \<le> ?A + plen ss p"
    by (simp_all add: os_def oe_def)
  then have "to_u32 (os - ?A) = os - ?A" "to_u32 (oe - os) = oe - os" if "os < oe"
    using pl(1) that by (intro to_u32_small, linarith)+
  then show ?thesis
    unfolding piece_overlap_def Let_def actual_piece_size_eq [OF assms(1,2)] A os_def [symmetric] oe_def [symmetric]
    by simp
qed

lemma filter_upt: "filter (\<lambda>g. A \<le> g \<and> g < B) [s..<e] = [max s A..<min e B]"
proof (induction e)
  case (Suc e)
  then show ?case
    by (auto simp: max_def min_def not_le less_Suc_eq)
qed simp

lemma expand_overlap:
  assumes "wf_torrent ss" "p < ss_num_pieces ss" "s + z \<le> tsize ss"
  shows "concat (map expand (case piece_overlap (ss_num_pieces ss) (psize ss) (tsize ss) i s (s + z) p of
      None \<Rightarrow> [] | Some ov \<Rightarrow> [ov])) =
    map (\<lambda>(g, l). (g - p * psize ss, l)) (filter (\<lambda>(g, l). p * psize ss \<le> g \<and> g < p * psize ss + plen ss p)
      (enumerate s (map (\<lambda>k. (i, k)) [0..<z])))"
proof -
  let ?A = "p * psize ss" and ?B = "p * psize ss + plen ss p"
  have "enumerate s (map (\<lambda>k. (i, k)) [0..<z]) = map (\<lambda>g. (g, i, g - s)) [s..<s + z]"
    by (rule nth_equalityI) (simp_all add: nth_enumerate_eq)
  then have "map (\<lambda>(g, l). (g - ?A, l)) (filter (\<lambda>(g, l). ?A \<le> g \<and> g < ?B) (enumerate s (map (\<lambda>k. (i, k)) [0..<z]))) =
    map (\<lambda>g. (g - ?A, i, g - s)) [max s ?A..<min (s + z) ?B]"
    by (simp add: filter_map comp_def filter_upt)
  moreover have "map (\<lambda>g. (g - ?A, i, g - s)) [os..<oe] =
      expand \<lparr> po_file_index = i, po_offset_in_file = os - s, po_offset_in_piece = os - ?A, po_length = oe - os \<rparr>"
    if "s \<le> os" "?A \<le> os" for os oe
    using that by (intro nth_equalityI) (simp_all add: expand_def)
  ultimately show ?thesis
    by (auto simp: piece_overlap_eq [OF assms] Let_def expand_def)
qed

lemma expand_overlaps:
  assumes "wf_torrent ss" "p < ss_num_pieces ss" "s + sum_list (map fi_size fs) \<le> tsize ss"
  shows "concat (map expand (overlaps_from ss i s fs p)) =
    map (\<lambda>(g, l). (g - p * psize ss, l)) (filter (\<lambda>(g, l). p * psize ss \<le> g \<and> g < p * psize ss + plen ss p)
      (enumerate s (layout_from i fs)))"
  using assms(3)
proof (induction fs arbitrary: i s)
  case (Cons f fs)
  then show ?case
    using expand_overlap [OF assms(1,2), of s "fi_size f" i]
    by (simp add: enumerate_append_eq add.assoc split: option.splits)
qed simp

lemma filter_enumerate:
  assumes "A \<le> B" "B \<le> length xs"
  shows "filter (\<lambda>(g, l). A \<le> g \<and> g < B) (enumerate 0 xs) = map (\<lambda>g. (g, xs ! g)) [A..<B]"
proof -
  have "enumerate 0 xs = map (\<lambda>g. (g, xs ! g)) [0..<length xs]"
    by (rule nth_equalityI) (simp_all add: nth_enumerate_eq)
  then show ?thesis
    using assms by (simp add: filter_map comp_def filter_upt)
qed

lemma overlaps_exact:
  assumes "wf_torrent ss" "p < ss_num_pieces ss"
  shows "concat (map expand (overlaps_from ss 0 0 (tfiles ss) p)) =
    map (\<lambda>k. (k, file_layout ss ! (p * psize ss + k))) [0..<plen ss p]"
proof -
  let ?A = "p * psize ss"
  have "concat (map expand (overlaps_from ss 0 0 (tfiles ss) p)) =
      map (\<lambda>(g, l). (g - ?A, l)) (filter (\<lambda>(g, l). ?A \<le> g \<and> g < ?A + plen ss p) (enumerate 0 (file_layout ss)))"
    using expand_overlaps [OF assms, of 0 "tfiles ss" 0] wf_basic(3) [OF assms(1)] by (simp add: file_layout_def)
  also have "\<dots> = map (\<lambda>g. (g - ?A, file_layout ss ! g)) [?A..<?A + plen ss p]"
    using plen_bounds(3) [OF assms] wf_basic(3) [OF assms(1)]
    by (simp add: filter_enumerate file_layout_def length_layout)
  also have "\<dots> = map (\<lambda>k. (k, file_layout ss ! (?A + k))) [0..<plen ss p]"
    by (rule nth_equalityI) simp_all
  finally show ?thesis .
qed

subsection \<open>Building the maps\<close>

lemma fold_overlaps:
  assumes "distinct pieces" "\<forall>p\<in>set pieces. p < length m"
  shows "length (fold (\<lambda>p m. case ov p of None \<Rightarrow> m | Some x \<Rightarrow> m[p := m ! p @ [x]]) pieces m) = length m \<and>
    (\<forall>p<length m. fold (\<lambda>p m. case ov p of None \<Rightarrow> m | Some x \<Rightarrow> m[p := m ! p @ [x]]) pieces m ! p =
      m ! p @ (if p \<in> set pieces then case ov p of None \<Rightarrow> [] | Some x \<Rightarrow> [x] else []))"
  using assms
proof (induction pieces arbitrary: m)
  case (Cons q pieces)
  let ?m = "case ov q of None \<Rightarrow> m | Some x \<Rightarrow> m[q := m ! q @ [x]]"
  have len: "length ?m = length m"
    by (simp split: option.split)
  then have "\<forall>p\<in>set pieces. p < length ?m" "distinct pieces"
    using Cons.prems by simp_all
  then show ?case
    using Cons.IH [of ?m] Cons.prems len by (auto simp: nth_list_update split: option.splits)
qed simp

lemma mult_div_bounds:
  assumes "0 < (ps :: nat)"
  shows "s < p * ps + ps \<longleftrightarrow> s div ps \<le> p" "p * ps < e \<longleftrightarrow> 0 < e \<and> p \<le> (e - 1) div ps"
proof -
  have "s div ps \<le> p \<longleftrightarrow> s div ps < Suc p"
    by auto
  also have "\<dots> \<longleftrightarrow> s < Suc p * ps"
    using assms by (simp add: div_less_iff_less_mult)
  finally show "s < p * ps + ps \<longleftrightarrow> s div ps \<le> p"
    by (simp add: add.commute)
  have "p \<le> (e - 1) div ps \<longleftrightarrow> p * ps \<le> e - 1"
    using assms by (simp add: less_eq_div_iff_mult_less_eq)
  then show "p * ps < e \<longleftrightarrow> 0 < e \<and> p \<le> (e - 1) div ps"
    by (cases e) auto
qed

lemma file_piece_range:
  assumes "wf_torrent ss" "s + z \<le> tsize ss"
  shows "distinct (file_piece_range (ss_num_pieces ss) (psize ss) s z)"
    "set (file_piece_range (ss_num_pieces ss) (psize ss) s z) \<subseteq> {..<ss_num_pieces ss}"
    "p < ss_num_pieces ss \<Longrightarrow> piece_overlap (ss_num_pieces ss) (psize ss) (tsize ss) i s (s + z) p \<noteq> None \<Longrightarrow>
      p \<in> set (file_piece_range (ss_num_pieces ss) (psize ss) s z)"
proof -
  let ?ps = "psize ss" and ?n = "ss_num_pieces ss"
  note wf = wf_basic [OF assms(1)] and less = wf_pieces [OF assms(1)] and md = mult_div_bounds [OF wf(1)]
  have "s div ?ps \<le> ?n"
  proof (rule ccontr)
    assume "\<not> s div ?ps \<le> ?n"
    then have "\<not> s < ?n * ?ps + ?ps"
      using md(1) [of s ?n] by blast
    then have "?n * ?ps < s"
      using wf(1) by linarith
    then show False
      using less(1) [of ?n] assms(2) by auto
  qed
  then have start: "to_u32 (s div ?ps) = s div ?ps" "s div ?ps \<le> ?n"
    using wf(7) by simp_all
  have last: "(s + z - 1) div ?ps < ?n" if "0 < z"
  proof -
    have "(s + z - 1) div ?ps * ?ps \<le> s + z - 1"
      by simp
    then have "(s + z - 1) div ?ps * ?ps < tsize ss"
      using assms(2) that by linarith
    then show ?thesis
      using less(1) by blast
  qed
  have range: "file_piece_range ?n ?ps s z =
    (if z = 0 then [s div ?ps..<Suc (min (s div ?ps) (?n - 1))] else [s div ?ps..<Suc ((s + z - 1) div ?ps)])"
    using last start wf(5,7) less(2) assms(2) by (auto simp: file_piece_range_def Let_def min_def)
  show "distinct (file_piece_range ?n ?ps s z)" "set (file_piece_range ?n ?ps s z) \<subseteq> {..<?n}"
    using last less(2) by (auto simp: range)
  show "p \<in> set (file_piece_range ?n ?ps s z)"
    if "p < ?n" "piece_overlap ?n ?ps (tsize ss) i s (s + z) p \<noteq> None"
  proof -
    have "max s (p * ?ps) < min (s + z) (p * ?ps + plen ss p)"
      using that(2) by (auto simp: piece_overlap_eq [OF assms(1) that(1) assms(2)] Let_def split: if_splits)
    then have "0 < z" "s < p * ?ps + ?ps" "p * ?ps < s + z"
      using plen_bounds(2) [OF assms(1) that(1)] by auto
    then show ?thesis
      using md by (auto simp: range)
  qed
qed

lemma add_file_maps_eq:
  assumes "wf_torrent ss" "s + fi_size f \<le> tsize ss" "length m = ss_num_pieces ss"
  obtains m' fp
  where "add_file_maps (ss_num_pieces ss) (psize ss) (tsize ss) (i, f) (s, m, fps) = (s + fi_size f, m', fps @ [fp])"
    "length m' = ss_num_pieces ss"
    "\<forall>p < ss_num_pieces ss. m' ! p = m ! p @ (case piece_overlap (ss_num_pieces ss) (psize ss) (tsize ss) i s (s + fi_size f) p of
      None \<Rightarrow> [] | Some ov \<Rightarrow> [ov])"
    "\<forall>p. p \<in> set fp \<longleftrightarrow> p < ss_num_pieces ss \<and> piece_overlap (ss_num_pieces ss) (psize ss) (tsize ss) i s (s + fi_size f) p \<noteq> None"
proof -
  let ?n = "ss_num_pieces ss" and ?pieces = "file_piece_range (ss_num_pieces ss) (psize ss) s (fi_size f)"
  let ?ov = "piece_overlap ?n (psize ss) (tsize ss) i s (s + fi_size f)"
  note range = file_piece_range [OF assms(1,2)]
  have e: "to_u64 (s + fi_size f) = s + fi_size f"
    using assms(2) wf_basic(5) [OF assms(1)] by simp
  have "length (fold (\<lambda>p m. case ?ov p of None \<Rightarrow> m | Some x \<Rightarrow> m[p := m ! p @ [x]]) ?pieces m) = length m \<and>
    (\<forall>p<length m. fold (\<lambda>p m. case ?ov p of None \<Rightarrow> m | Some x \<Rightarrow> m[p := m ! p @ [x]]) ?pieces m ! p =
      m ! p @ (if p \<in> set ?pieces then case ?ov p of None \<Rightarrow> [] | Some x \<Rightarrow> [x] else []))"
    using range(1,2) assms(3) by (intro fold_overlaps) auto
  moreover have "(if p \<in> set ?pieces then case ?ov p of None \<Rightarrow> [] | Some x \<Rightarrow> [x] else []) =
      (case ?ov p of None \<Rightarrow> [] | Some x \<Rightarrow> [x])" if "p < ?n" for p
    using range(3) [OF that] by (auto split: option.split)
  moreover have "p \<in> set (filter (\<lambda>p. ?ov p \<noteq> None) ?pieces) \<longleftrightarrow> p < ?n \<and> ?ov p \<noteq> None" for p
    using range(2,3) by auto
  ultimately show ?thesis
    using that [of "fold (\<lambda>p m. case ?ov p of None \<Rightarrow> m | Some x \<Rightarrow> m[p := m ! p @ [x]]) ?pieces m"
        "filter (\<lambda>p. ?ov p \<noteq> None) ?pieces"] assms(3)
    by (simp add: add_file_maps_def Let_def e)
qed

lemma fold_add_file_maps:
  assumes "wf_torrent ss" "s + sum_list (map fi_size fs) \<le> tsize ss" "length m = ss_num_pieces ss"
  shows "case fold (add_file_maps (ss_num_pieces ss) (psize ss) (tsize ss)) (enumerate i fs) (s, m, fps) of (_, m', _) \<Rightarrow>
    length m' = ss_num_pieces ss \<and> (\<forall>p < ss_num_pieces ss. m' ! p = m ! p @ overlaps_from ss i s fs p)"
  using assms(2,3)
proof (induction fs arbitrary: i s m fps)
  case (Cons f fs)
  have "s + fi_size f \<le> tsize ss"
    using Cons.prems(1) by simp
  from add_file_maps_eq [OF assms(1) this Cons.prems(2), of i fps]
  obtain m1 fp
    where m1: "add_file_maps (ss_num_pieces ss) (psize ss) (tsize ss) (i, f) (s, m, fps) = (s + fi_size f, m1, fps @ [fp])"
    "length m1 = ss_num_pieces ss"
    "\<forall>p < ss_num_pieces ss. m1 ! p = m ! p @ (case piece_overlap (ss_num_pieces ss) (psize ss) (tsize ss) i s (s + fi_size f) p of
      None \<Rightarrow> [] | Some ov \<Rightarrow> [ov])"
    by metis
  show ?case
    using Cons.IH [of "s + fi_size f" m1 "Suc i" "fps @ [fp]"] Cons.prems(1) m1 by (auto split: prod.splits)
qed simp

lemma build_maps_eq:
  assumes "wf_torrent ss"
  obtains m fps where "build_maps ss = Some (m, fps)" "length m = ss_num_pieces ss"
    "\<forall>p < ss_num_pieces ss. m ! p = overlaps_from ss 0 0 (tfiles ss) p"
proof -
  have "length (replicate (ss_num_pieces ss) []) = ss_num_pieces ss"
    by simp
  from fold_add_file_maps [OF assms _ this, of 0 "tfiles ss" 0 "[]"]
  show ?thesis
    using that wf_basic(1,3) [OF assms] wf_pieces(2) [OF assms]
    by (auto simp: build_maps_def Let_def split: prod.splits)
qed

text \<open>C24: the maps between pieces and files are exact.  For every torrent with consistent sizes the maps are
  built, and the overlaps of each piece list every byte of the piece once and in order, each with the
  file and the offset where the concatenation of all files has it; files and pieces may begin and end
  anywhere, and files may be empty.\<close>

theorem piece_maps_exact:
  assumes "wf_torrent ss"
  shows "\<exists>piece_to_files file_to_pieces. build_maps ss = Some (piece_to_files, file_to_pieces) \<and>
    length piece_to_files = ss_num_pieces ss \<and>
    (\<forall>p < ss_num_pieces ss. concat (map expand (piece_to_files ! p)) =
      map (\<lambda>k. (k, file_layout ss ! (p * psize ss + k))) [0..<plen ss p])"
  by (rule build_maps_eq [OF assms]) (use overlaps_exact [OF assms] in auto)

subsection \<open>An example\<close>

text \<open>Eight bytes in two files of three and five bytes, cut into two pieces of four.\<close>

definition demo_session :: SessionState where
  "demo_session = set_pieces 2 (new_session (empty_meta_info\<lparr> mi_info :=
     \<lparr> ti_name = ''t'', ti_total_size = 8, ti_piece_size = 4, ti_pieces = replicate 20 1 @ replicate 20 2,
       ti_files = [\<lparr> fi_path = ''a'', fi_size = 3, fi_download = True \<rparr>,
                   \<lparr> fi_path = ''b'', fi_size = 5, fi_download = True \<rparr>] \<rparr> \<rparr>) [] ''/d'')"

lemma demo_session_simps [simp]:
  "ti_name (torrent_info demo_session) = ''t''" "tsize demo_session = 8" "psize demo_session = 4"
  "ti_pieces (torrent_info demo_session) = replicate 20 1 @ replicate 20 2"
  "tfiles demo_session = [\<lparr> fi_path = ''a'', fi_size = 3, fi_download = True \<rparr>, \<lparr> fi_path = ''b'', fi_size = 5, fi_download = True \<rparr>]"
  "ss_num_pieces demo_session = 2" "ss_save_path demo_session = ''/d''" "ss_piece_status demo_session = [Needed, Needed]"
  by (simp_all add: demo_session_def set_pieces_def new_session_def empty_meta_info_def numeral_2_eq_2)

lemma demo_paths [simp]:
  "get_full_path_for_file demo_session \<lparr> fi_path = ''a'', fi_size = m, fi_download = x \<rparr> = ''/d/t/a''"
  "get_full_path_for_file demo_session \<lparr> fi_path = ''b'', fi_size = n, fi_download = y \<rparr> = ''/d/t/b''"
  by (simp_all add: get_full_path_for_file_def path_append_def)

lemma demo_session_wf [simp]: "wf_torrent demo_session"
  by (simp add: wf_torrent_def Let_def)

theorem piece_maps_exact_witness:
  "\<exists>piece_to_files file_to_pieces. build_maps demo_session = Some (piece_to_files, file_to_pieces) \<and>
    length piece_to_files = 2 \<and>
    (\<forall>p < 2. concat (map expand (piece_to_files ! p)) =
      map (\<lambda>k. (k, file_layout demo_session ! (p * 4 + k))) [0..<plen demo_session p])"
  using piece_maps_exact [OF demo_session_wf] by simp

end
