(* ===== verification/FileLayout.thy ===== *)
theory FileLayout
  imports PieceMaps
begin

text \<open>
  Reading and writing a block across file boundaries (\<^verbatim>\<open>src/src/FileManager.cpp\<close>).

  A disk maps paths to file contents; a file operation that throws returns \<open>None\<close>.

  Lemmas: writing a block changes exactly the bytes of that block in the concatenated contents of the
  files, and reading returns exactly the bytes asked for.
\<close>

subsection \<open>Definitions: files\<close>

type_synonym disk = "string \<rightharpoonup> byte list"

datatype file_error = ReadError | ShortRead

text \<open>Writing opens the file for update: it must exist, and a write beyond its end fills the gap with zeros.\<close>

definition write_file :: "disk \<Rightarrow> string \<Rightarrow> nat \<Rightarrow> byte list \<Rightarrow> disk option" where
  "write_file d path offset data =
    (case d path of
       None \<Rightarrow> None
     | Some c \<Rightarrow> Some (d(path \<mapsto> take offset (c @ replicate (offset - length c) 0) @ data @ drop (offset + length data) c)))"

text \<open>The write on the pool completes with a \<^verbatim>\<open>std::error_code\<close>.  \<^verbatim>\<open>use_awaitable\<close> of Boost.Asio throws for a
  \<^verbatim>\<open>boost::system::error_code\<close> or an exception pointer and hands every other argument back as the result,
  which the caller drops: a cancelled or failed write leaves the disk as it is and never throws.\<close>

definition async_write_to_file :: "bool \<Rightarrow> disk \<Rightarrow> string \<Rightarrow> nat \<Rightarrow> byte list \<Rightarrow> disk option" where
  "async_write_to_file cancelled d path offset data =
    Some (if cancelled then d else case write_file d path offset data of None \<Rightarrow> d | Some d \<Rightarrow> d)"

text \<open>A size of zero stands for the whole file; seeking to an offset beyond \<^verbatim>\<open>streamoff\<close> fails.\<close>

definition async_read_from_file :: "bool \<Rightarrow> disk \<Rightarrow> string \<Rightarrow> nat \<Rightarrow> nat \<Rightarrow> byte list option" where
  "async_read_from_file cancelled d path offset sz =
    (if cancelled then None
     else case d path of
       None \<Rightarrow> None
     | Some c \<Rightarrow>
         if length c < to_u64 (offset + sz) then None
         else let sz = (if sz = 0 then to_u32 (length c) else sz)
              in if 2 ^ 63 \<le> offset then None
                 else let buffer = take sz (drop offset c)
                      in if length buffer \<noteq> sz then None else Some buffer)"

subsection \<open>Definitions: reading and writing a block\<close>

fun write_overlaps :: "(disk \<Rightarrow> string \<Rightarrow> nat \<Rightarrow> byte list \<Rightarrow> disk option) \<Rightarrow> SessionState \<Rightarrow> nat \<Rightarrow> byte list \<Rightarrow>
    PieceFileOverlap list \<Rightarrow> disk \<Rightarrow> disk" where
  "write_overlaps write ss offset data [] d = d"
| "write_overlaps write ss offset data (overlap # overlaps) d =
    (if length (ti_files (torrent_info ss)) \<le> po_file_index overlap then d
     else let file_info = ti_files (torrent_info ss) ! po_file_index overlap in
       if \<not> fi_download file_info then write_overlaps write ss offset data overlaps d
       else let block_end = to_u32 (offset + length data);
                overlap_start = po_offset_in_piece overlap;
                overlap_end = to_u32 (overlap_start + po_length overlap);
                intersect_start = max offset overlap_start;
                intersect_end = min block_end overlap_end
            in if intersect_end > intersect_start then
                 (case write d (get_full_path_for_file ss file_info)
                     (to_u64 (po_offset_in_file overlap + (intersect_start - overlap_start)))
                     (take (intersect_end - intersect_start) (drop (intersect_start - offset) data)) of
                    None \<Rightarrow> d
                  | Some d \<Rightarrow> write_overlaps write ss offset data overlaps d)
               else write_overlaps write ss offset data overlaps d)"

text \<open>\<^verbatim>\<open>get_piece_to_files_map\<close>: an index out of range ends the program there; the model has no overlaps for it.\<close>

definition piece_overlaps :: "PieceFileOverlap list list \<Rightarrow> nat \<Rightarrow> PieceFileOverlap list" where
  "piece_overlaps m p = (if p < length m then m ! p else [])"

definition sync_write_block ::
  "SessionState \<Rightarrow> PieceFileOverlap list list \<Rightarrow> nat \<times> nat \<Rightarrow> byte list \<Rightarrow> disk \<Rightarrow> disk" where
  "sync_write_block ss piece_to_files key data d =
    (case key of (piece_index, offset) \<Rightarrow>
      if data = [] then d else write_overlaps write_file ss offset data (piece_overlaps piece_to_files piece_index) d)"

fun read_files :: "bool \<Rightarrow> disk \<Rightarrow> SessionState \<Rightarrow> nat \<Rightarrow> nat \<Rightarrow> FileInfo list \<Rightarrow> nat \<Rightarrow> byte list \<Rightarrow> file_error + byte list" where
  "read_files cancelled d ss global_offset length' [] current_file_offset block =
    (if length block = length' then Inr block else Inl ShortRead)"
| "read_files cancelled d ss global_offset length' (file_info # files) current_file_offset block =
    (if \<not> fi_download file_info then
       read_files cancelled d ss global_offset length' files (to_u64 (current_file_offset + fi_size file_info)) block
     else
       let file_start = current_file_offset;
           file_end = to_u64 (current_file_offset + fi_size file_info);
           read_start = to_u64 (global_offset + length block);
           read_pos = sub_u64 read_start file_start;
           n = (if read_start < file_end then to_u32 (min (sub_u32 length' (length block)) (sub_u64 (fi_size file_info) read_pos))
                else 0)
       in case (if n = 0 then Some []
                else async_read_from_file cancelled d (get_full_path_for_file ss file_info) read_pos n) of
            None \<Rightarrow> Inl ReadError
          | Some part \<Rightarrow>
              let block = block @ part
              in if length block = length' then Inr block
                 else read_files cancelled d ss global_offset length' files file_end block)"

definition read_from_disk :: "bool \<Rightarrow> disk \<Rightarrow> SessionState \<Rightarrow> nat \<Rightarrow> nat \<Rightarrow> nat \<Rightarrow> file_error + byte list" where
  "read_from_disk cancelled d ss piece_index begin_offset len =
    read_files cancelled d ss (to_u64 (piece_index * ti_piece_size (torrent_info ss) + begin_offset)) len
      (ti_files (torrent_info ss)) 0 []"

subsection \<open>The contents of the files\<close>

definition disk_ok :: "SessionState \<Rightarrow> disk \<Rightarrow> bool" where
  "disk_ok ss d \<longleftrightarrow> (\<forall>f\<in>set (tfiles ss). \<exists>c. d (get_full_path_for_file ss f) = Some c \<and> length c = fi_size f)"

definition contents :: "SessionState \<Rightarrow> disk \<Rightarrow> FileInfo list \<Rightarrow> byte list" where
  "contents ss d fs = concat (map (\<lambda>f. the (d (get_full_path_for_file ss f))) fs)"

text \<open>The bytes of the torrent as they are on disk.\<close>

definition stored :: "SessionState \<Rightarrow> disk \<Rightarrow> byte list" where
  "stored ss d = contents ss d (tfiles ss)"

text \<open>The bytes from position \<open>s\<close> on after \<open>data\<close> was written at position \<open>g\<close>.\<close>

definition patch :: "nat \<Rightarrow> byte list \<Rightarrow> nat \<Rightarrow> byte list \<Rightarrow> byte list" where
  "patch g data s xs =
    map (\<lambda>k. if g \<le> s + k \<and> s + k < g + length data then data ! (s + k - g) else xs ! k) [0..<length xs]"

lemma length_patch [simp]: "length (patch g data s xs) = length xs"
  by (simp add: patch_def)

lemma nth_patch [simp]:
  "k < length xs \<Longrightarrow> patch g data s xs ! k = (if g \<le> s + k \<and> s + k < g + length data then data ! (s + k - g) else xs ! k)"
  by (simp add: patch_def)

lemma patch_append: "patch g data s (xs @ ys) = patch g data s xs @ patch g data (s + length xs) ys"
  by (rule nth_equalityI) (auto simp: nth_append)

lemma patch_outside: "(\<And>k. k < length xs \<Longrightarrow> \<not> (g \<le> s + k \<and> s + k < g + length data)) \<Longrightarrow> patch g data s xs = xs"
  by (rule nth_equalityI) auto

lemma splice_patch:
  assumes "o' + length part \<le> length c" "\<And>k. k < length part \<Longrightarrow> part ! k = data ! (s + o' + k - g)"
    and "\<And>k. k < length c \<Longrightarrow> g \<le> s + k \<and> s + k < g + length data \<longleftrightarrow> o' \<le> k \<and> k < o' + length part"
  shows "take o' c @ part @ drop (o' + length part) c = patch g data s c"
proof (rule nth_equalityI)
  show "length (take o' c @ part @ drop (o' + length part) c) = length (patch g data s c)"
    using assms(1) by simp
  fix k assume "k < length (take o' c @ part @ drop (o' + length part) c)"
  then have k: "k < length c"
    using assms(1) by simp
  consider "k < o'" | "o' \<le> k" "k < o' + length part" | "o' + length part \<le> k"
    by linarith
  then show "(take o' c @ part @ drop (o' + length part) c) ! k = patch g data s c ! k"
    using k assms(1) assms(2) [of "k - o'"] assms(3) [OF k] by cases (auto simp: nth_append)
qed

lemma write_file_patch:
  assumes "d path = Some c" "o' + length part \<le> length c" "\<And>k. k < length part \<Longrightarrow> part ! k = data ! (s + o' + k - g)"
    and "\<And>k. k < length c \<Longrightarrow> g \<le> s + k \<and> s + k < g + length data \<longleftrightarrow> o' \<le> k \<and> k < o' + length part"
  shows "write_file d path o' part = Some (d(path \<mapsto> patch g data s c))"
  using assms(1,2) splice_patch [OF assms(2-4)] by (simp add: write_file_def)

lemma contents_cong: "(\<And>f. f \<in> set fs \<Longrightarrow> d (get_full_path_for_file ss f) = d' (get_full_path_for_file ss f)) \<Longrightarrow>
    contents ss d fs = contents ss d' fs"
  by (auto simp: contents_def intro!: arg_cong [where f = concat])

lemma length_contents:
  "\<forall>f\<in>set fs. \<exists>c. d (get_full_path_for_file ss f) = Some c \<and> length c = fi_size f \<Longrightarrow>
    length (contents ss d fs) = sum_list (map fi_size fs)"
  by (induction fs) (auto simp: contents_def)

lemma length_stored: "wf_torrent ss \<Longrightarrow> disk_ok ss d \<Longrightarrow> length (stored ss d) = tsize ss"
  using length_contents [of "tfiles ss" d ss] wf_basic(3) [of ss] by (simp add: stored_def disk_ok_def)

subsection \<open>Writing a block\<close>

lemma write_file_overlap:
  assumes "wf_torrent ss" "p < ss_num_pieces ss" "offset + length data \<le> plen ss p"
    and "i < length (tfiles ss)" "tfiles ss ! i = f" "s + fi_size f \<le> tsize ss"
    and "d (get_full_path_for_file ss f) = Some c" "length c = fi_size f"
  shows "write_overlaps write_file ss offset data
      ((case piece_overlap (ss_num_pieces ss) (psize ss) (tsize ss) i s (s + fi_size f) p of None \<Rightarrow> [] | Some ov \<Rightarrow> [ov]) @ ovs) d =
    write_overlaps write_file ss offset data ovs (d(get_full_path_for_file ss f \<mapsto> patch (p * psize ss + offset) data s c))"
proof -
  let ?A = "p * psize ss" and ?path = "get_full_path_for_file ss f"
  define os oe where "os = max s ?A" and "oe = min (s + fi_size f) (?A + plen ss p)"
  define is' ie where "is' = max offset (os - ?A)" and "ie = min (offset + length data) (oe - ?A)"
  note wf = wf_basic [OF assms(1)] and pl = plen_bounds [OF assms(1,2)]
  have ov: "piece_overlap (ss_num_pieces ss) (psize ss) (tsize ss) i s (s + fi_size f) p =
    (if os < oe then Some \<lparr> po_file_index = i, po_offset_in_file = os - s, po_offset_in_piece = os - ?A, po_length = oe - os \<rparr> else None)"
    by (simp add: piece_overlap_eq [OF assms(1,2,6)] Let_def os_def oe_def)
  have os: "s \<le> os" "?A \<le> os" "oe \<le> s + fi_size f" "oe \<le> ?A + plen ss p"
    "\<And>g. s \<le> g \<Longrightarrow> ?A \<le> g \<Longrightarrow> os \<le> g" "\<And>g. g < s + fi_size f \<Longrightarrow> g < ?A + plen ss p \<Longrightarrow> g < oe"
    by (simp_all add: os_def oe_def)
  have is': "offset \<le> is'" "os - ?A \<le> is'" "ie \<le> offset + length data" "ie \<le> oe - ?A"
    "\<And>g. offset \<le> g \<Longrightarrow> os - ?A \<le> g \<Longrightarrow> is' \<le> g" "\<And>g. g < offset + length data \<Longrightarrow> g < oe - ?A \<Longrightarrow> g < ie"
    by (simp_all add: is'_def ie_def)
  have same: "d(?path \<mapsto> c) = d"
    using assms(7) by auto
  have f: "fi_download f"
    using wf(8) assms(4,5) nth_mem by blast
  have inside: "?A + offset \<le> s + k \<and> s + k < ?A + offset + length data \<longleftrightarrow> os < oe \<and> ?A + is' \<le> s + k \<and> s + k < ?A + ie"
    if "k < length c" for k
  proof
    assume "?A + offset \<le> s + k \<and> s + k < ?A + offset + length data"
    moreover from this have "os \<le> s + k" "s + k < oe"
      using os(5,6) [of "s + k"] that assms(3,8) by linarith+
    ultimately show "os < oe \<and> ?A + is' \<le> s + k \<and> s + k < ?A + ie"
      using is'(5,6) [of "s + k - ?A"] os(2) by linarith
  next
    assume "os < oe \<and> ?A + is' \<le> s + k \<and> s + k < ?A + ie"
    then show "?A + offset \<le> s + k \<and> s + k < ?A + offset + length data"
      using is'(1,3) by linarith
  qed
  have step: "write_overlaps write_file ss offset data
      (\<lparr> po_file_index = i, po_offset_in_file = os - s, po_offset_in_piece = os - ?A, po_length = oe - os \<rparr> # ovs) d =
    (if is' < ie then
       case write_file d ?path (to_u64 (os - s + (is' - (os - ?A)))) (take (ie - is') (drop (is' - offset) data)) of
         None \<Rightarrow> d | Some d \<Rightarrow> write_overlaps write_file ss offset data ovs d
     else write_overlaps write_file ss offset data ovs d)" if "os < oe"
  proof -
    have u32: "to_u32 (offset + length data) = offset + length data" "to_u32 (os - ?A + (oe - os)) = oe - ?A"
      using pl(2) wf(2) assms(3) that os by (auto intro!: to_u32_small)
    have ni: "\<not> length (tfiles ss) \<le> i"
      using assms(4) by simp
    show ?thesis
      unfolding write_overlaps.simps(2) Let_def PieceFileOverlap.select_convs u32 is'_def [symmetric] ie_def [symmetric] assms(5)
      by (simp only: ni f if_True if_False not_True_eq_False)
  qed
  show ?thesis
  proof (cases "os < oe \<and> is' < ie")
    case False
    then have "\<not> (?A + offset \<le> s + k \<and> s + k < ?A + offset + length data)" if "k < length c" for k
      using inside [OF that] by linarith
    then have "patch (?A + offset) data s c = c"
      by (rule patch_outside)
    then show ?thesis
      using False same step unfolding ov by (cases "os < oe") simp_all
  next
    case True
    let ?o = "os - s + (is' - (os - ?A))" and ?part = "take (ie - is') (drop (is' - offset) data)"
    have len: "length ?part = ie - is'"
      using is' True by simp
    have o: "s + ?o = ?A + is'"
      using is'(2) os(1,2) by linarith
    have o2: "?o + (ie - is') \<le> length c"
      using o is' os True assms(8) by linarith
    have "to_u64 ?o = ?o"
      using o2 wf(5) assms(6,8) by (intro to_u64_small) simp
    moreover have "write_file d ?path ?o ?part = Some (d(?path \<mapsto> patch (?A + offset) data s c))"
    proof (rule write_file_patch)
      show "?o + length ?part \<le> length c"
        using o2 len by simp
      show "?part ! k = data ! (s + ?o + k - (?A + offset))" if "k < length ?part" for k
      proof -
        have "s + ?o + k - (?A + offset) = is' - offset + k"
          using o is'(1) by linarith
        moreover have "is' - offset \<le> length data" "k < ie - is'"
          using that by auto
        moreover from this have "?part ! k = data ! (is' - offset + k)"
          by simp
        ultimately show ?thesis
          by simp
      qed
      show "?A + offset \<le> s + k \<and> s + k < ?A + offset + length data \<longleftrightarrow> ?o \<le> k \<and> k < ?o + length ?part" if "k < length c" for k
        unfolding inside [OF that] len using o True by linarith
    qed (fact assms(7))
    ultimately show ?thesis
      using True step unfolding ov by (simp only: if_True simp_thms option.case append_Cons append_Nil)
  qed
qed

lemma write_overlaps_async:
  assumes "\<forall>f\<in>set (tfiles ss). d (get_full_path_for_file ss f) \<noteq> None"
  shows "write_overlaps (async_write_to_file False) ss offset data ovs d = write_overlaps write_file ss offset data ovs d"
  using assms
proof (induction ovs arbitrary: d)
  case (Cons ov ovs)
  have "async_write_to_file False d (get_full_path_for_file ss f) o' xs = write_file d (get_full_path_for_file ss f) o' xs"
    if "f \<in> set (tfiles ss)" for f o' xs
    using Cons.prems that by (auto simp: async_write_to_file_def write_file_def)
  moreover have "\<forall>f\<in>set (tfiles ss). d' (get_full_path_for_file ss f) \<noteq> None" if "write_file d path o' xs = Some d'" for d' path o' xs
    using Cons.prems that by (auto simp: write_file_def split: option.splits)
  ultimately show ?case
    using Cons.IH Cons.prems by (simp add: Let_def not_le split: option.split)
qed simp

lemma write_overlaps_present: "d path \<noteq> None \<Longrightarrow> write_overlaps write_file ss offset data ovs d path \<noteq> None"
proof (induction ovs arbitrary: d)
  case (Cons ov ovs)
  have "d' path \<noteq> None" if "write_file d path' o' xs = Some d'" for d' path' o' xs
    using Cons.prems that by (auto simp: write_file_def split: option.splits)
  then show ?case
    using Cons.IH Cons.prems by (auto simp: Let_def split: option.split)
qed simp

lemma sync_write_present: "d path \<noteq> None \<Longrightarrow> sync_write_block ss m key data d path \<noteq> None"
  using write_overlaps_present by (simp add: sync_write_block_def split_beta)

lemma write_overlaps_patch:
  assumes "wf_torrent ss" "p < ss_num_pieces ss" "offset + length data \<le> plen ss p"
    and "drop i (tfiles ss) = fs" "s + sum_list (map fi_size fs) \<le> tsize ss"
    and "\<forall>f\<in>set fs. \<exists>c. d (get_full_path_for_file ss f) = Some c \<and> length c = fi_size f"
    and "distinct (map (get_full_path_for_file ss) fs)"
  shows "\<exists>d'. write_overlaps write_file ss offset data (overlaps_from ss i s fs p) d = d' \<and>
    contents ss d' fs = patch (p * psize ss + offset) data s (contents ss d fs) \<and>
    (\<forall>f\<in>set fs. \<exists>c. d' (get_full_path_for_file ss f) = Some c \<and> length c = fi_size f) \<and>
    (\<forall>path. path \<notin> get_full_path_for_file ss ` set fs \<longrightarrow> d' path = d path)"
  using assms(4-)
proof (induction fs arbitrary: i s d)
  case Nil
  then show ?case
    by (simp add: contents_def patch_def)
next
  case (Cons f fs)
  let ?path = "get_full_path_for_file ss" and ?A = "p * psize ss"
  have i: "i < length (tfiles ss)" "tfiles ss ! i = f" "drop (Suc i) (tfiles ss) = fs"
    using Cons.prems(1) by (metis drop_all linorder_not_less list.distinct(1), metis hd_drop_conv_nth drop_all
        linorder_not_less list.distinct(1) list.sel(1), metis drop_Suc list.sel(3) tl_drop)
  obtain c where c: "d (?path f) = Some c" "length c = fi_size f"
    using Cons.prems(3) by auto
  define d1 where "d1 = d(?path f \<mapsto> patch (?A + offset) data s c)"
  have fresh: "?path f \<notin> ?path ` set fs"
    using Cons.prems(4) by auto
  have old: "d1 (?path g) = d (?path g)" if "g \<in> set fs" for g
    using fresh that by (metis d1_def fun_upd_other image_eqI)
  have "\<forall>g\<in>set fs. \<exists>c. d1 (?path g) = Some c \<and> length c = fi_size g"
    using Cons.prems(3) old by simp
  then obtain d' where d': "write_overlaps write_file ss offset data (overlaps_from ss (Suc i) (s + fi_size f) fs p) d1 = d'"
    "contents ss d' fs = patch (?A + offset) data (s + fi_size f) (contents ss d1 fs)"
    "\<forall>g\<in>set fs. \<exists>c. d' (?path g) = Some c \<and> length c = fi_size g"
    "\<forall>path. path \<notin> ?path ` set fs \<longrightarrow> d' path = d1 path"
    using Cons.IH [OF i(3), of "s + fi_size f" d1] Cons.prems(2,4) by auto
  have f': "d' (?path f) = Some (patch (?A + offset) data s c)"
    using d'(4) fresh by (simp add: d1_def)
  have "write_overlaps write_file ss offset data (overlaps_from ss i s (f # fs) p) d = d'"
    using write_file_overlap [OF assms(1-3) i(1,2), of s d c] c Cons.prems(2) d'(1) by (simp add: d1_def)
  moreover have "contents ss d' (f # fs) = patch (?A + offset) data s (contents ss d (f # fs))"
    using d'(2) f' c contents_cong [of fs d1 ss d] old by (simp add: contents_def patch_append)
  moreover have "\<forall>path. path \<notin> ?path ` set (f # fs) \<longrightarrow> d' path = d path"
    using d'(4) by (simp add: d1_def)
  ultimately show ?case
    using d'(3) f' c by auto
qed

lemma write_block_stored:
  assumes "wf_torrent ss" "disk_ok ss d" "build_maps ss = Some (m, fps)" "p < ss_num_pieces ss"
    and "offset + length data \<le> plen ss p"
  shows "disk_ok ss (write_overlaps write_file ss offset data (piece_overlaps m p) d) \<and>
    stored ss (write_overlaps write_file ss offset data (piece_overlaps m p) d) =
      patch (p * psize ss + offset) data 0 (stored ss d)"
proof -
  have "m ! p = overlaps_from ss 0 0 (tfiles ss) p" "length m = ss_num_pieces ss"
    using build_maps_eq [OF assms(1)] assms(3,4) by (metis old.prod.inject option.inject)+
  then have "piece_overlaps m p = overlaps_from ss 0 0 (tfiles ss) p"
    using assms(4) by (simp add: piece_overlaps_def)
  then show ?thesis
    using write_overlaps_patch [OF assms(1,4,5), of 0 "tfiles ss" 0 d] assms(2) wf_basic(3,9) [OF assms(1)]
    by (auto simp: disk_ok_def stored_def)
qed

subsection \<open>Reading a block\<close>

lemma async_read_ok:
  "d path = Some c \<Longrightarrow> 0 < n \<Longrightarrow> pos + n \<le> length c \<Longrightarrow> length c < 2 ^ 63 \<Longrightarrow>
    async_read_from_file False d path pos n = Some (take n (drop pos c))"
  by (simp add: async_read_from_file_def Let_def)

lemma read_files_contents:
  assumes "global + len \<le> s + sum_list (map fi_size fs)" "s + sum_list (map fi_size fs) < 2 ^ 63" "len < 2 ^ 32"
    and "s \<le> global + length block" "length block \<le> len"
    and "\<forall>f\<in>set fs. fi_download f \<and> (\<exists>c. d (get_full_path_for_file ss f) = Some c \<and> length c = fi_size f)"
  shows "read_files False d ss global len fs s block =
    Inr (block @ take (len - length block) (drop (global + length block - s) (contents ss d fs)))"
  using assms
proof (induction fs arbitrary: s block)
  case Nil
  then show ?case
    by simp
next
  case (Cons f fs)
  obtain c where c: "d (get_full_path_for_file ss f) = Some c" "length c = fi_size f" and f: "fi_download f"
    using Cons.prems(6) by auto
  have cont: "contents ss d (f # fs) = c @ contents ss d fs"
    using c by (simp add: contents_def)
  have no_wrap: "to_u64 (s + fi_size f) = s + fi_size f" "to_u64 (global + length block) = global + length block"
    using Cons.prems(1,2,5) by simp_all
  let ?rs = "global + length block" and ?z = "fi_size f"
  let ?pos = "?rs - s"
  show ?case
  proof (cases "?rs < s + ?z \<and> length block < len")
    case True
    define n where "n = min (len - length block) (?z - ?pos)"
    have subs: "sub_u64 ?rs s = ?pos" "sub_u32 len (length block) = len - length block" "sub_u64 ?z ?pos = ?z - ?pos"
      "to_u32 (min (len - length block) (?z - ?pos)) = n"
      using Cons.prems(1-5) True by (simp, simp, intro sub_u64_le, linarith, simp_all add: n_def)
    have n: "0 < n" "?pos + n \<le> length c" "n \<le> len - length block"
      using True Cons.prems(4) c(2) by (auto simp: n_def)
    have read: "async_read_from_file False d (get_full_path_for_file ss f) ?pos n = Some (take n (drop ?pos c))"
      using c n Cons.prems(2) by (intro async_read_ok) simp_all
    have len: "length (take n (drop ?pos c)) = n"
      using n(2) by simp
    have step: "read_files False d ss global len (f # fs) s block =
      (let block = block @ take n (drop ?pos c)
       in if length block = len then Inr block else read_files False d ss global len fs (s + ?z) block)"
      using True f no_wrap subs n(1) read by (simp add: Let_def)
    show ?thesis
    proof (cases "n = len - length block")
      case full: True
      have "take n (drop ?pos (c @ contents ss d fs)) = take n (drop ?pos c)"
        using n(2) by simp
      moreover have "length block + n = len"
        using full True by simp
      ultimately show ?thesis
        using len unfolding step cont full [symmetric] by (simp add: Let_def)
    next
      case part: False
      then have n_eq: "n = ?z - ?pos"
        by (simp add: n_def)
      have lb: "length (block @ take n (drop ?pos c)) \<le> len" "s + ?z \<le> global + length (block @ take n (drop ?pos c))"
        unfolding length_append len using n_eq n(3) True Cons.prems(4) by linarith+
      have "read_files False d ss global len fs (s + ?z) (block @ take n (drop ?pos c)) =
          Inr ((block @ take n (drop ?pos c)) @
            take (len - length (block @ take n (drop ?pos c))) (drop (global + length (block @ take n (drop ?pos c)) - (s + ?z)) (contents ss d fs)))"
        using Cons.prems(1-3,6) lb by (intro Cons.IH) auto
      moreover have "global + length (block @ take n (drop ?pos c)) - (s + ?z) = 0"
        using len n_eq True Cons.prems(4) by simp
      moreover have "take (len - length block) (drop ?pos (c @ contents ss d fs)) =
          take n (drop ?pos c) @ take (len - length (block @ take n (drop ?pos c))) (contents ss d fs)"
        using n_eq c(2) True Cons.prems(4) len n(3) by simp
      moreover have "length (block @ take n (drop ?pos c)) \<noteq> len"
        unfolding length_append len using part n(3) True by linarith
      ultimately show ?thesis
        unfolding step cont Let_def by (simp only: if_False append_assoc drop_0)
    qed
  next
    case False
    show ?thesis
    proof (cases "length block = len")
      case True
      then show ?thesis
        using f no_wrap by (simp add: Let_def sub_u32_def to_u32_def)
    next
      case lt: False
      then have past: "s + ?z \<le> ?rs"
        using False Cons.prems(5) by simp
      then have "read_files False d ss global len fs (s + ?z) block =
          Inr (block @ take (len - length block) (drop (?rs - (s + ?z)) (contents ss d fs)))"
        using Cons.prems by (intro Cons.IH) auto
      then show ?thesis
        using past lt f no_wrap cont c(2) by (simp add: Let_def)
    qed
  qed
qed

lemma read_from_disk_stored:
  assumes "wf_torrent ss" "disk_ok ss d" "p < ss_num_pieces ss" "b + len \<le> plen ss p"
  shows "read_from_disk False d ss p b len = Inr (take len (drop (p * psize ss + b) (stored ss d)))"
proof -
  note wf = wf_basic [OF assms(1)] and pl = plen_bounds [OF assms(1,3)]
  have "p * psize ss + b + len \<le> tsize ss"
    using pl(3) assms(4) by linarith
  then show ?thesis
    using read_files_contents [of "p * psize ss + b" len 0 "tfiles ss" "[]" d ss] wf(2,3,5,8) pl(2) assms(2,4)
    by (simp add: read_from_disk_def stored_def disk_ok_def)
qed

end
