(* ===== verification/PieceManager.thy ===== *)
theory PieceManager
  imports FileLayout "HOL-Library.AList"
begin

text \<open>
  The piece manager (\<^verbatim>\<open>src/src/PieceManager.cpp\<close>, \<^verbatim>\<open>PieceManager.hpp\<close>, and \<^verbatim>\<open>InProgressPiece\<close> of
  \<^verbatim>\<open>src/src/Utils.hpp\<close>): which piece is downloaded next, which peer is asked for which block, and when
  a block is asked for again.

  The session state is shared with the other components and passed as a separate argument.  A coroutine
  runs from one wait of its loop to the next as one step; \<open>pm_requests\<close> collects the calls of
  \<^verbatim>\<open>send_request\<close> it spawns and \<open>pm_resumes\<close> the resume tasks.  What the code asks of the session's peers
  (\<^verbatim>\<open>get_available_peers_\<close>, \<^verbatim>\<open>peer_activity_check_\<close>, \<^verbatim>\<open>get_unchoked_count_\<close>), the clock and the random
  numbers form the environment.  The sets of the rarity map are sorted lists; their iteration order is
  shuffled away by the code.  Time points are nanoseconds, 0 is \<^verbatim>\<open>TimePoint{}\<close>.

  Lemmas: a request starts the rarest piece that can be started; blocks are asked for within bounds,
  never from a peer that rejected them or already has them, and never stay with a silent peer.
\<close>

subsection \<open>Definitions: pieces in progress\<close>

type_synonym PeerId = id20

definition second :: int where "second = 1000000000"

record InProgressPiece =
  ip_data :: "byte list"
  ip_received :: "bool list"
  ip_received_count :: nat
  ip_total_blocks :: nat
  ip_resume_active :: bool
  ip_last_progress :: int
  ip_primary :: "PeerId option"
  ip_outstanding :: "PeerId list list"
  ip_request_times :: "int list"
  ip_rejected_by :: "(PeerId \<times> int) list list"

definition new_in_progress :: "nat \<Rightarrow> InProgressPiece" where
  "new_in_progress piece_size =
    (let total_blocks = to_u32 ((piece_size + BLOCK_SIZE - 1) div BLOCK_SIZE)
     in \<lparr> ip_data = replicate piece_size 0, ip_received = replicate total_blocks False, ip_received_count = 0,
          ip_total_blocks = total_blocks, ip_resume_active = False, ip_last_progress = 0, ip_primary = None,
          ip_outstanding = replicate total_blocks [], ip_request_times = replicate total_blocks 0,
          ip_rejected_by = replicate total_blocks [] \<rparr>)"

definition kRejectedBlockTTL :: int where "kRejectedBlockTTL = 60 * second"
definition kRejectedBlockTTLTail :: int where "kRejectedBlockTTLTail = 20 * second"
definition BLOCK_REQUEST_TIMEOUT :: int where "BLOCK_REQUEST_TIMEOUT = 4 * second"
definition kPeerActivityWindow :: int where "kPeerActivityWindow = 30 * second"
definition kHardRequestCap :: int where "kHardRequestCap = 60 * second"
definition kPrimaryEvidenceWindow :: int where "kPrimaryEvidenceWindow = 5 * 60 * second"
definition kFreshUnchokeWindow :: int where "kFreshUnchokeWindow = 45 * second"
definition kStuckPieceWindow :: int where "kStuckPieceWindow = 10 * second"
definition kEndgameStallTime :: int where "kEndgameStallTime = 60 * second"
definition kPiecesPerPeer :: nat where "kPiecesPerPeer = 4"
definition kMaxInFlightPieces :: nat where "kMaxInFlightPieces = 256"
definition kMaxPiecesPerPrimary :: nat where "kMaxPiecesPerPrimary = 4"
definition kMaxSpawnsPerWake :: nat where "kMaxSpawnsPerWake = 32"
definition kEndgameMinCompletionsPerWindow :: nat where "kEndgameMinCompletionsPerWindow = 256"
definition kEndgamePieceThreshold :: nat where "kEndgamePieceThreshold = 32"
definition kEndgameFanout :: nat where "kEndgameFanout = 6"
definition kTailBlocksPerPeer :: nat where "kTailBlocksPerPeer = 24"
definition kInitialPickerThreshold :: nat where "kInitialPickerThreshold = 4"
definition IN_PROGRESS_RARITY_GROUP_ID :: nat where "IN_PROGRESS_RARITY_GROUP_ID = 4294967295"

text \<open>What the piece manager sees of a connection.\<close>

record PeerView =
  pv_id :: PeerId
  pv_last_unchoke :: int
  pv_choking :: bool

text \<open>\<open>pe_explore\<close> and \<open>pe_pick\<close> are the random draws for a block; \<open>pe_shuffle\<close> is \<^verbatim>\<open>std::shuffle\<close>.\<close>

record pm_env =
  pe_now :: int
  pe_available :: "nat \<Rightarrow> PeerView list"
  pe_activity :: "(PeerId \<Rightarrow> int option) option"
  pe_unchoked :: "nat option"
  pe_explore :: "nat \<Rightarrow> nat \<Rightarrow> nat"
  pe_pick :: "nat \<Rightarrow> nat \<Rightarrow> nat \<Rightarrow> nat"
  pe_shuffle :: "nat list \<Rightarrow> nat list"

record PieceManager =
  pm_pieces :: "(nat \<times> InProgressPiece) list"
  pm_availability :: "nat list"
  pm_rarity :: "(nat \<times> nat list) list"
  pm_rotor :: nat
  pm_shutting_down :: bool
  pm_requests :: "(PeerId \<times> nat \<times> nat \<times> nat) list"
  pm_resumes :: "nat list"

definition new_piece_manager :: "SessionState \<Rightarrow> PieceManager" where
  "new_piece_manager ss =
    \<lparr> pm_pieces = [], pm_availability = replicate (ss_num_pieces ss) 0, pm_rarity = [], pm_rotor = 0, pm_shutting_down = False,
      pm_requests = [], pm_resumes = [] \<rparr>"

definition in_progress_piece :: "PieceManager \<Rightarrow> nat \<Rightarrow> InProgressPiece option" where
  "in_progress_piece pm p = map_of (pm_pieces pm) p"

definition update_piece :: "nat \<Rightarrow> (InProgressPiece \<Rightarrow> InProgressPiece) \<Rightarrow> PieceManager \<Rightarrow> PieceManager" where
  "update_piece p f pm =
    (case in_progress_piece pm p of None \<Rightarrow> pm | Some ip \<Rightarrow> pm\<lparr> pm_pieces := map_assign p (f ip) (pm_pieces pm) \<rparr>)"

definition emplace_in_progress_pieces :: "nat \<Rightarrow> InProgressPiece \<Rightarrow> PieceManager \<Rightarrow> PieceManager" where
  "emplace_in_progress_pieces p ip pm = pm\<lparr> pm_pieces := map_emplace p ip (pm_pieces pm) \<rparr>"

definition remove_in_progress_piece :: "nat \<Rightarrow> PieceManager \<Rightarrow> PieceManager" where
  "remove_in_progress_piece p pm = pm\<lparr> pm_pieces := map_erase p (pm_pieces pm) \<rparr>"

definition remove_all_in_progress_pieces :: "PieceManager \<Rightarrow> PieceManager" where
  "remove_all_in_progress_pieces pm = pm\<lparr> pm_pieces := [] \<rparr>"

definition pm_signal_shutdown :: "PieceManager \<Rightarrow> PieceManager" where
  "pm_signal_shutdown pm = pm\<lparr> pm_shutting_down := True, pm_rarity := [], pm_availability := [], pm_pieces := [] \<rparr>"

definition get_in_progress_for_resume :: "PieceManager \<Rightarrow> (string \<times> string) list" where
  "get_in_progress_for_resume pm =
    fold (\<lambda>(piece_index, ip) result. map_assign (show_nat piece_index)
        (string_of_bytes (fold (\<lambda>i bits. if ip_received ip ! i then set_bit8 bits i else bits) [0..<ip_total_blocks ip]
          (replicate ((ip_total_blocks ip + 7) div 8) 0))) result)
      (pm_pieces pm) []"

subsection \<open>Definitions: availability and rarity\<close>

definition piece_availability :: "PieceManager \<Rightarrow> nat \<Rightarrow> nat" where
  "piece_availability pm p = (if p < length (pm_availability pm) then pm_availability pm ! p else 0)"

definition add_piece_availability :: "nat \<Rightarrow> int \<Rightarrow> PieceManager \<Rightarrow> PieceManager" where
  "add_piece_availability p val pm =
    (if length (pm_availability pm) \<le> p then pm
     else pm\<lparr> pm_availability := (pm_availability pm)[p := u64_of_int (int (pm_availability pm ! p) + val)] \<rparr>)"

definition rarity_group :: "PieceManager \<Rightarrow> nat \<Rightarrow> nat list" where
  "rarity_group pm r = (case map_of (pm_rarity pm) r of None \<Rightarrow> [] | Some ps \<Rightarrow> ps)"

definition remove_piece_rarity :: "nat \<Rightarrow> nat \<Rightarrow> PieceManager \<Rightarrow> PieceManager" where
  "remove_piece_rarity p r pm =
    (case map_of (pm_rarity pm) r of
       None \<Rightarrow> pm
     | Some ps \<Rightarrow>
         let ps = removeAll p ps
         in pm\<lparr> pm_rarity := (if ps = [] then map_erase r (pm_rarity pm) else map_assign r ps (pm_rarity pm)) \<rparr>)"

definition insert_piece_rarity :: "nat \<Rightarrow> nat \<Rightarrow> PieceManager \<Rightarrow> PieceManager" where
  "insert_piece_rarity p r pm = pm\<lparr> pm_rarity := map_assign r (insort_insert p (rarity_group pm r)) (pm_rarity pm) \<rparr>"

definition update_piece_rarity :: "nat \<Rightarrow> nat \<Rightarrow> nat \<Rightarrow> PieceManager \<Rightarrow> PieceManager" where
  "update_piece_rarity p old_rarity new_rarity pm = insert_piece_rarity p new_rarity (remove_piece_rarity p old_rarity pm)"

definition build_piece_rarity :: "SessionState \<Rightarrow> PieceManager \<Rightarrow> PieceManager" where
  "build_piece_rarity ss pm =
    (let n = ss_num_pieces ss;
         pm = pm\<lparr> pm_availability := pm_availability pm @ replicate (n - length (pm_availability pm)) 0, pm_rarity := [] \<rparr>
     in fold (\<lambda>i pm. case piece_status ss i of
            Have \<Rightarrow> insert_piece_rarity i 0 pm
          | Needed \<Rightarrow> insert_piece_rarity i (to_u32 (pm_availability pm ! i)) pm
          | InProgress \<Rightarrow> insert_piece_rarity i IN_PROGRESS_RARITY_GROUP_ID pm
          | Skipped \<Rightarrow> pm) [0..<n] pm)"

definition return_piece_to_queue :: "nat \<Rightarrow> SessionState \<times> PieceManager \<Rightarrow> SessionState \<times> PieceManager" where
  "return_piece_to_queue p s =
    (case s of (ss, pm) \<Rightarrow>
      let pm = remove_in_progress_piece p pm;
          ss = set_piece_status p Needed ss
      in (ss, update_piece_rarity p IN_PROGRESS_RARITY_GROUP_ID (to_u32 (piece_availability pm p)) pm))"

subsection \<open>Definitions: choosing a peer for a block\<close>

definition block_offset :: "nat \<Rightarrow> nat" where
  "block_offset block_idx = to_u32 (block_idx * BLOCK_SIZE)"

definition block_length :: "InProgressPiece \<Rightarrow> nat \<Rightarrow> nat" where
  "block_length ip block_idx =
    (if block_idx = ip_total_blocks ip - 1 then to_u32 (length (ip_data ip) - block_offset block_idx) else BLOCK_SIZE)"

definition register_outstanding :: "PeerId \<Rightarrow> nat \<Rightarrow> InProgressPiece \<Rightarrow> InProgressPiece" where
  "register_outstanding peer block_idx ip =
    (if block_idx < length (ip_outstanding ip) \<and> peer \<notin> set (ip_outstanding ip ! block_idx)
     then ip\<lparr> ip_outstanding := (ip_outstanding ip)[block_idx := ip_outstanding ip ! block_idx @ [peer]] \<rparr> else ip)"

definition spawn_request :: "PeerId \<Rightarrow> nat \<Rightarrow> nat \<Rightarrow> nat \<Rightarrow> PieceManager \<Rightarrow> PieceManager" where
  "spawn_request peer p offset len pm = pm\<lparr> pm_requests := pm_requests pm @ [(peer, p, offset, len)] \<rparr>"

text \<open>The request for one block with its eager registration as outstanding.\<close>

definition request_block :: "PeerId \<Rightarrow> nat \<Rightarrow> nat \<Rightarrow> PieceManager \<Rightarrow> PieceManager" where
  "request_block peer p block_idx pm =
    (case in_progress_piece pm p of
       None \<Rightarrow> pm
     | Some ip \<Rightarrow>
         spawn_request peer p (block_offset block_idx) (block_length ip block_idx)
           (update_piece p (register_outstanding peer block_idx) pm))"

definition ensure_resume_piece_download :: "nat \<Rightarrow> PieceManager \<Rightarrow> PieceManager" where
  "ensure_resume_piece_download p pm =
    (case in_progress_piece pm p of
       None \<Rightarrow> pm
     | Some ip \<Rightarrow>
         if pm_shutting_down pm \<or> ip_resume_active ip then pm
         else (update_piece p (\<lambda>ip. ip\<lparr> ip_resume_active := True \<rparr>) pm)\<lparr> pm_resumes := pm_resumes pm @ [p] \<rparr>)"

definition resume_all_in_progress :: "PieceManager \<Rightarrow> PieceManager" where
  "resume_all_in_progress pm = fold ensure_resume_piece_download (map fst (pm_pieces pm)) pm"

definition pruned_rejected_peers :: "int \<Rightarrow> SessionState \<Rightarrow> nat \<Rightarrow> nat \<Rightarrow> PieceManager \<Rightarrow> PeerId list \<times> PieceManager" where
  "pruned_rejected_peers now ss p block_idx pm =
    (case in_progress_piece pm p of
       None \<Rightarrow> ([], pm)
     | Some ip \<Rightarrow>
         if length (ip_rejected_by ip) \<le> block_idx then ([], pm)
         else let ttl = (if needed_pieces ss = 0 then kRejectedBlockTTLTail else kRejectedBlockTTL);
                  rejected = filter (\<lambda>(pid, when). \<not> ttl < now - when) (ip_rejected_by ip ! block_idx)
              in (map fst rejected, update_piece p (\<lambda>ip. ip\<lparr> ip_rejected_by := (ip_rejected_by ip)[block_idx := rejected] \<rparr>) pm))"

definition refresh_rejection :: "PeerId \<Rightarrow> int \<Rightarrow> (PeerId \<times> int) list \<Rightarrow> (PeerId \<times> int) list" where
  "refresh_rejection peer now rejected =
    (if peer \<in> fst ` set rejected then AList.update peer now rejected else rejected @ [(peer, now)])"

definition record_block_rejection :: "int \<Rightarrow> nat \<Rightarrow> nat \<Rightarrow> PeerId \<Rightarrow> PieceManager \<Rightarrow> PieceManager" where
  "record_block_rejection now p block_idx peer =
    update_piece p (\<lambda>ip. if length (ip_rejected_by ip) \<le> block_idx then ip
      else ip\<lparr> ip_rejected_by := (ip_rejected_by ip)[block_idx := refresh_rejection peer now (ip_rejected_by ip ! block_idx)] \<rparr>)"

definition is_proven :: "pm_env \<Rightarrow> PeerId \<Rightarrow> bool" where
  "is_proven env peer =
    (case pe_activity env of
       None \<Rightarrow> False
     | Some check \<Rightarrow> (case check peer of None \<Rightarrow> False | Some seen \<Rightarrow> pe_now env - seen < kPrimaryEvidenceWindow))"

definition is_fresh :: "pm_env \<Rightarrow> PeerView \<Rightarrow> bool" where
  "is_fresh env peer \<longleftrightarrow> pv_last_unchoke peer \<noteq> 0 \<and> pe_now env - pv_last_unchoke peer < kFreshUnchokeWindow"

text \<open>The choice among the candidates: proven peers, then fresh ones, then any; one draw in eight explores the
  fresh ones first.\<close>

definition choose_peer :: "pm_env \<Rightarrow> nat \<Rightarrow> nat \<Rightarrow> PeerView list \<Rightarrow> PeerView option" where
  "choose_peer env p block_idx candidates =
    (let proven = filter (\<lambda>peer. is_proven env (pv_id peer)) candidates;
         fresh = filter (\<lambda>peer. \<not> is_proven env (pv_id peer) \<and> is_fresh env peer) candidates;
         pick_from = (if fresh \<noteq> [] \<and> pe_explore env p block_idx = 0 then fresh
           else if proven \<noteq> [] then proven else if fresh \<noteq> [] then fresh else candidates)
     in if candidates = [] then None else Some (pick_from ! pe_pick env p block_idx (length pick_from)))"

definition pick_block_peer :: "pm_env \<Rightarrow> SessionState \<Rightarrow> nat \<Rightarrow> nat \<Rightarrow> PeerId option \<Rightarrow> bool \<Rightarrow> PieceManager \<Rightarrow>
    PeerView option \<times> PieceManager" where
  "pick_block_peer env ss p block_idx exclude_peer exclude_outstanding pm =
    (case in_progress_piece pm p of
       None \<Rightarrow> (None, pm)
     | Some ip \<Rightarrow>
         if ip_total_blocks ip \<le> block_idx then (None, pm)
         else let (rejected, pm) = pruned_rejected_peers (pe_now env) ss p block_idx pm;
                  outstanding = (if exclude_outstanding \<and> block_idx < length (ip_outstanding ip) then ip_outstanding ip ! block_idx else []);
                  candidates = filter (\<lambda>peer. exclude_peer \<noteq> Some (pv_id peer) \<and> pv_id peer \<notin> set rejected \<and>
                    pv_id peer \<notin> set outstanding) (pe_available env p)
              in (choose_peer env p block_idx candidates, pm))"

definition pick_block_peer_preferring_primary :: "pm_env \<Rightarrow> SessionState \<Rightarrow> nat \<Rightarrow> nat \<Rightarrow> bool \<Rightarrow> PieceManager \<Rightarrow>
    PeerView option \<times> PieceManager" where
  "pick_block_peer_preferring_primary env ss p block_idx exclude_outstanding pm =
    (case in_progress_piece pm p of
       None \<Rightarrow> (None, pm)
     | Some ip \<Rightarrow>
         if ip_total_blocks ip \<le> block_idx then (None, pm)
         else let (rejected, pm) = pruned_rejected_peers (pe_now env) ss p block_idx pm;
                  outstanding = (if exclude_outstanding \<and> block_idx < length (ip_outstanding ip) then ip_outstanding ip ! block_idx else []);
                  demote = (case ip_primary ip of None \<Rightarrow> False | Some primary \<Rightarrow> pe_activity env \<noteq> None \<and> \<not> is_proven env primary);
                  pm = (if demote then update_piece p (\<lambda>ip. ip\<lparr> ip_primary := None \<rparr>) pm else pm);
                  candidates = filter (\<lambda>peer. pv_id peer \<notin> set rejected \<and> pv_id peer \<notin> set outstanding) (pe_available env p)
              in (case (if demote then None else find (\<lambda>peer. ip_primary ip = Some (pv_id peer)) candidates) of
                    Some peer \<Rightarrow> (Some peer, pm)
                  | None \<Rightarrow> (choose_peer env p block_idx candidates, pm)))"

subsection \<open>Definitions: starting a piece\<close>

definition download_size :: "SessionState \<Rightarrow> nat \<Rightarrow> nat" where
  "download_size ss p =
    (let ts = ti_total_size (torrent_info ss); ps = ti_piece_size (torrent_info ss)
     in if p = ss_num_pieces ss - 1 then if ts mod ps \<noteq> 0 then ts mod ps else ps else ps)"

definition primary_pool :: "pm_env \<Rightarrow> PeerView list \<Rightarrow> PeerView list" where
  "primary_pool env available_peers =
    (case pe_activity env of
       None \<Rightarrow> []
     | Some _ \<Rightarrow> filter (\<lambda>peer. is_proven env (pv_id peer) \<or> is_fresh env peer) available_peers)"

definition choose_primary :: "pm_env \<Rightarrow> PeerId option \<Rightarrow> PeerView list \<Rightarrow> PieceManager \<Rightarrow> PeerView \<times> PieceManager" where
  "choose_primary env preferred available_peers pm =
    (case find (\<lambda>peer. preferred = Some (pv_id peer)) available_peers of
       Some peer \<Rightarrow> (peer, pm)
     | None \<Rightarrow>
         let pool = (if primary_pool env available_peers = [] then available_peers else primary_pool env available_peers)
         in (pool ! (pm_rotor pm mod length pool), pm\<lparr> pm_rotor := to_u64 (pm_rotor pm + 1) \<rparr>))"

definition try_piece_download :: "pm_env \<Rightarrow> PeerId option \<Rightarrow> nat \<Rightarrow> SessionState \<times> PieceManager \<Rightarrow>
    bool \<times> SessionState \<times> PieceManager" where
  "try_piece_download env preferred p s =
    (case s of (ss, pm) \<Rightarrow>
      if piece_status ss p \<noteq> Needed then (False, ss, pm)
      else if pe_available env p = [] then (False, ss, pm)
      else let piece_size = download_size ss p;
               ss = set_piece_status p InProgress ss;
               pm = update_piece_rarity p (to_u32 (piece_availability pm p)) IN_PROGRESS_RARITY_GROUP_ID pm;
               pm = emplace_in_progress_pieces p (new_in_progress piece_size) pm;
               num_blocks = ip_total_blocks (the (in_progress_piece pm p));
               (primary, pm) = choose_primary env preferred (pe_available env p) pm;
               pm = update_piece p (\<lambda>ip. ip\<lparr> ip_primary := Some (pv_id primary), ip_last_progress := pe_now env \<rparr>) pm;
               pm = fold (request_block (pv_id primary) p) [0..<num_blocks] pm
           in (True, ss, pm))"

fun try_pieces :: "pm_env \<Rightarrow> PeerId option \<Rightarrow> nat list \<Rightarrow> SessionState \<times> PieceManager \<Rightarrow> bool \<times> SessionState \<times> PieceManager" where
  "try_pieces env preferred [] s = (False, s)"
| "try_pieces env preferred (p # ps) s =
    (case try_piece_download env preferred p s of
       (True, s) \<Rightarrow> (True, s)
     | (False, s) \<Rightarrow> try_pieces env preferred ps s)"

text \<open>The candidates of the rarest-first scan: group after group, each shuffled, without the group of rarity 0.\<close>

definition by_rarity :: "pm_env \<Rightarrow> PieceManager \<Rightarrow> nat list" where
  "by_rarity env pm = concat (map (\<lambda>(rarity, ps). if rarity = 0 then [] else pe_shuffle env ps) (pm_rarity pm))"

definition needed_indices :: "SessionState \<Rightarrow> nat list" where
  "needed_indices ss = filter (\<lambda>i. piece_status ss i = Needed) [0..<ss_num_pieces ss]"

definition request_one_piece :: "pm_env \<Rightarrow> SessionState \<times> PieceManager \<Rightarrow> bool \<times> SessionState \<times> PieceManager" where
  "request_one_piece env s =
    (case s of (ss, pm) \<Rightarrow>
      if ss_download_complete ss then (False, s)
      else let early = (if ss_completed_pieces ss + length (pm_pieces pm) < kInitialPickerThreshold
                        then try_pieces env None (pe_shuffle env (needed_indices ss)) s else (False, s))
           in if fst early then early
              else let rarest = try_pieces env None (by_rarity env (snd (snd early))) (snd early)
                   in if fst rarest then rarest
                      else try_pieces env None (pe_shuffle env (needed_indices (fst (snd rarest)))) (snd rarest))"

definition try_seed_to_primary :: "pm_env \<Rightarrow> PeerId \<Rightarrow> SessionState \<times> PieceManager \<Rightarrow> bool \<times> SessionState \<times> PieceManager" where
  "try_seed_to_primary env primary s =
    (if needed_pieces (fst s) = 0 then (False, s) else try_pieces env (Some primary) (by_rarity env (snd s)) s)"

subsection \<open>Definitions: resuming, timeouts and the end game\<close>

definition missing_blocks :: "InProgressPiece \<Rightarrow> nat list" where
  "missing_blocks ip = filter (\<lambda>b. \<not> ip_received ip ! b \<and> ip_outstanding ip ! b = []) [0..<ip_total_blocks ip]"

definition resume_block :: "pm_env \<Rightarrow> SessionState \<Rightarrow> nat \<Rightarrow> nat \<Rightarrow> bool \<times> PieceManager \<Rightarrow> bool \<times> PieceManager" where
  "resume_block env ss p block_idx st =
    (case st of (spawned_any, pm) \<Rightarrow>
      case in_progress_piece pm p of
        None \<Rightarrow> st
      | Some ip \<Rightarrow>
          if ss_endgame ss then
            let (rejected, pm) = pruned_rejected_peers (pe_now env) ss p block_idx pm;
                targets = take kEndgameFanout (filter (\<lambda>peer. \<not> pv_choking peer \<and> pv_id peer \<notin> set rejected) (pe_available env p))
            in (spawned_any \<or> targets \<noteq> [],
                fold (\<lambda>peer. spawn_request (pv_id peer) p (block_offset block_idx) (block_length ip block_idx)) targets pm)
          else (case pick_block_peer_preferring_primary env ss p block_idx True pm of
              (None, pm) \<Rightarrow> (spawned_any, pm)
            | (Some peer, pm) \<Rightarrow> (True, request_block (pv_id peer) p block_idx pm)))"

datatype resume_outcome = ResumeDone | ResumeWait

text \<open>One turn of the loop of a resume task; after \<open>ResumeWait\<close> it waits two seconds and turns again.\<close>

definition resume_piece_download :: "pm_env \<Rightarrow> SessionState \<Rightarrow> nat \<Rightarrow> PieceManager \<Rightarrow> resume_outcome \<times> PieceManager" where
  "resume_piece_download env ss p pm =
    (if pm_shutting_down pm then (ResumeDone, pm)
     else case in_progress_piece pm p of
       None \<Rightarrow> (ResumeDone, pm)
     | Some ip \<Rightarrow>
         if missing_blocks ip = [] then (ResumeDone, pm)
         else let (spawned_any, pm) = fold (resume_block env ss p) (missing_blocks ip) (False, pm)
              in (if spawned_any then ResumeDone else ResumeWait, pm))"

definition end_resume_task :: "nat \<Rightarrow> PieceManager \<Rightarrow> PieceManager" where
  "end_resume_task p = update_piece p (\<lambda>ip. ip\<lparr> ip_resume_active := False \<rparr>)"

definition still_active :: "pm_env \<Rightarrow> bool \<Rightarrow> PeerId list \<Rightarrow> bool" where
  "still_active env tail outstanding_ids =
    (case pe_activity env of
       None \<Rightarrow> False
     | Some check \<Rightarrow> list_ex (\<lambda>pid. case check pid of None \<Rightarrow> False
         | Some seen \<Rightarrow> pe_now env - seen < (if tail then kPrimaryEvidenceWindow else kPeerActivityWindow)) outstanding_ids)"

definition block_timed_out :: "pm_env \<Rightarrow> bool \<Rightarrow> InProgressPiece \<Rightarrow> nat \<Rightarrow> bool" where
  "block_timed_out env tail ip block_idx =
    (let request_time = ip_request_times ip ! block_idx;
         outstanding_ids = (if block_idx < length (ip_outstanding ip) then ip_outstanding ip ! block_idx else [])
     in \<not> ip_received ip ! block_idx \<and> request_time \<noteq> 0 \<and> BLOCK_REQUEST_TIMEOUT < pe_now env - request_time \<and>
        (\<not> still_active env tail outstanding_ids \<or> kHardRequestCap < pe_now env - request_time))"

text \<open>\<open>on_timeout\<close> is \<^verbatim>\<open>block_timeout_callback_\<close>.\<close>

definition check_block :: "pm_env \<Rightarrow> (nat \<Rightarrow> nat \<Rightarrow> PieceManager \<Rightarrow> PieceManager) option \<Rightarrow> SessionState \<Rightarrow> nat \<times> nat \<Rightarrow> PieceManager \<Rightarrow> PieceManager" where
  "check_block env on_timeout ss x pm =
    (case x of (p, block_idx) \<Rightarrow>
      case in_progress_piece pm p of
        None \<Rightarrow> pm
      | Some ip \<Rightarrow>
          if \<not> block_timed_out env (needed_pieces ss = 0) ip block_idx then pm
          else let outstanding_ids = (if block_idx < length (ip_outstanding ip) then ip_outstanding ip ! block_idx else []);
                   pm = (case on_timeout of None \<Rightarrow> pm | Some f \<Rightarrow> f p block_idx pm);
                   exclude = (case outstanding_ids of [] \<Rightarrow> None | pid # _ \<Rightarrow> Some pid)
               in (case pick_block_peer env ss p block_idx exclude True pm of
                     (Some peer, pm) \<Rightarrow> request_block (pv_id peer) p block_idx pm
                   | (None, pm) \<Rightarrow> ensure_resume_piece_download p pm))"

definition check_block_timeouts :: "pm_env \<Rightarrow> (nat \<Rightarrow> nat \<Rightarrow> PieceManager \<Rightarrow> PieceManager) option \<Rightarrow> SessionState \<Rightarrow> PieceManager \<Rightarrow> PieceManager" where
  "check_block_timeouts env on_timeout ss pm =
    (if ss_download_complete ss then pm
     else fold (check_block env on_timeout ss) (concat (map (\<lambda>(p, ip). map (Pair p) [0..<ip_total_blocks ip]) (pm_pieces pm))) pm)"

definition check_and_enter_endgame :: "bool \<Rightarrow> SessionState \<times> PieceManager \<Rightarrow> bool \<times> SessionState" where
  "check_and_enter_endgame stalled s =
    (case s of (ss, pm) \<Rightarrow>
      if ss_endgame ss then (False, ss)
      else let needed_count = status_count (\<lambda>st. st = Needed \<or> st = InProgress) ss;
               endgame_threshold = min (ss_num_pieces ss div 10) kEndgamePieceThreshold;
               no_progress = (stalled \<and> kEndgamePieceThreshold \<le> ss_completed_pieces ss \<and>
                 needed_count < kEndgamePieceThreshold * 2 \<and> 0 < length (pm_pieces pm))
           in if (0 < needed_count \<and> needed_count < endgame_threshold) \<or> no_progress
              then (True, ss\<lparr> ss_endgame := True \<rparr>) else (False, ss))"

definition broadcast_length :: "SessionState \<Rightarrow> nat \<Rightarrow> nat \<Rightarrow> nat" where
  "broadcast_length ss p block_idx =
    (let info = torrent_info ss; offset = block_offset block_idx;
         current_piece_size = (if p = length (ti_pieces info) div 20 - 1 then sub_u64 (ti_total_size info) (to_u64 (p * ti_piece_size info))
           else ti_piece_size info)
     in if current_piece_size < offset + BLOCK_SIZE then to_u32 (sub_u64 current_piece_size offset) else BLOCK_SIZE)"

definition broadcast_outstanding_requests :: "pm_env \<Rightarrow> SessionState \<Rightarrow> PieceManager \<Rightarrow> PieceManager" where
  "broadcast_outstanding_requests env ss pm =
    (if ss_download_complete ss then pm
     else fold (\<lambda>(p, ip) pm. fold (\<lambda>block_idx pm.
            if ip_received ip ! block_idx then pm
            else fold (\<lambda>peer. spawn_request (pv_id peer) p (block_offset block_idx) (broadcast_length ss p block_idx)) (pe_available env p) pm)
          [0..<ip_total_blocks ip] pm) (pm_pieces pm) pm)"

subsection \<open>Definitions: the tail scheduler\<close>

definition is_stuck :: "int \<Rightarrow> InProgressPiece \<Rightarrow> bool" where
  "is_stuck now ip \<longleftrightarrow> ip_last_progress ip \<noteq> 0 \<and> kStuckPieceWindow < now - ip_last_progress ip"

definition outstanding_count :: "PieceManager \<Rightarrow> PeerId \<Rightarrow> nat" where
  "outstanding_count pm peer =
    length (filter (\<lambda>pid. pid = peer) (concat (map (\<lambda>(p, ip). concat (ip_outstanding ip)) (pm_pieces pm))))"

definition tail_eligible :: "int \<Rightarrow> PeerId \<Rightarrow> InProgressPiece \<Rightarrow> nat \<Rightarrow> bool" where
  "tail_eligible now peer ip b \<longleftrightarrow> \<not> ip_received ip ! b \<and> b < length (ip_outstanding ip) \<and> peer \<notin> set (ip_outstanding ip ! b) \<and>
    \<not> (b < length (ip_rejected_by ip) \<and> list_ex (\<lambda>(pid, when). pid = peer \<and> now - when < kRejectedBlockTTLTail) (ip_rejected_by ip ! b))"

definition best_block :: "int \<Rightarrow> PeerId \<Rightarrow> InProgressPiece \<Rightarrow> nat option" where
  "best_block now peer ip =
    fold (\<lambda>b best. if \<not> tail_eligible now peer ip b then best
        else case best of None \<Rightarrow> Some b
          | Some b' \<Rightarrow> if length (ip_outstanding ip ! b) < length (ip_outstanding ip ! b') then Some b else best)
      [0..<ip_total_blocks ip] None"

definition tail_request :: "int \<Rightarrow> nat \<Rightarrow> PeerView \<Rightarrow> (PeerId \<Rightarrow> nat) \<times> PieceManager \<Rightarrow> (PeerId \<Rightarrow> nat) \<times> PieceManager" where
  "tail_request now p peer st =
    (case st of (per_peer, pm) \<Rightarrow>
      if kTailBlocksPerPeer \<le> per_peer (pv_id peer) then st
      else case in_progress_piece pm p of
        None \<Rightarrow> st
      | Some ip \<Rightarrow> (case best_block now (pv_id peer) ip of
          None \<Rightarrow> st
        | Some b \<Rightarrow> (per_peer(pv_id peer := Suc (per_peer (pv_id peer))), request_block (pv_id peer) p b pm)))"

definition tail_piece :: "pm_env \<Rightarrow> nat \<Rightarrow> (PeerId \<Rightarrow> nat) \<times> PieceManager \<Rightarrow> (PeerId \<Rightarrow> nat) \<times> PieceManager" where
  "tail_piece env p st =
    (if in_progress_piece (snd st) p = None then st
     else fold (tail_request (pe_now env) p) (sort_key (\<lambda>peer. fst st (pv_id peer)) (pe_available env p)) st)"

definition tail_scheduler_pass :: "pm_env \<Rightarrow> PieceManager \<Rightarrow> PieceManager" where
  "tail_scheduler_pass env pm =
    (let stuck = map fst (filter (\<lambda>(p, ip). is_stuck (pe_now env) ip) (pm_pieces pm))
     in if stuck = [] then pm else snd (fold (tail_piece env) stuck (outstanding_count pm, pm)))"

subsection \<open>Definitions: the downloader\<close>

datatype spawn = SeedTo PeerId | RequestOne

definition held_by :: "PieceManager \<Rightarrow> (PeerId \<times> nat) list" where
  "held_by pm = fold (\<lambda>(p, ip) held. case ip_primary ip of None \<Rightarrow> held
      | Some peer \<Rightarrow> map_assign peer (Suc (case map_of held peer of None \<Rightarrow> 0 | Some k \<Rightarrow> k)) held) (pm_pieces pm) []"

definition budget_refill :: "pm_env \<Rightarrow> PieceManager \<Rightarrow> spawn list \<times> PieceManager" where
  "budget_refill env pm =
    (let entries = held_by pm
     in if entries = [] then ([], pm)
        else let start_idx = pm_rotor pm mod length entries;
                 wanted = filter (\<lambda>(peer, k). k < kMaxPiecesPerPrimary \<and> is_proven env peer) (rotate start_idx entries)
             in (map (SeedTo \<circ> fst) (take kMaxSpawnsPerWake wanted), pm\<lparr> pm_rotor := to_u64 (pm_rotor pm + 1) \<rparr>))"

definition max_in_progress :: "pm_env \<Rightarrow> nat" where
  "max_in_progress env =
    (let unchoked = (case pe_unchoked env of None \<Rightarrow> 1 | Some k \<Rightarrow> k); unchoked = max 1 unchoked
     in min kMaxInFlightPieces (max 8 (unchoked * kPiecesPerPeer)))"

record stall_window =
  sw_start :: int
  sw_completed :: nat

definition stall_check :: "int \<Rightarrow> SessionState \<Rightarrow> stall_window \<Rightarrow> bool \<times> stall_window" where
  "stall_check now ss w =
    (if kEndgameStallTime \<le> now - sw_start w
     then (sub_u64 (ss_completed_pieces ss) (sw_completed w) < kEndgameMinCompletionsPerWindow,
           \<lparr> sw_start = now, sw_completed = ss_completed_pieces ss \<rparr>)
     else (False, w))"

text \<open>One turn of the downloader: the coroutines it spawns, whether the end game began, and the new state.\<close>

definition downloader_wake :: "pm_env \<Rightarrow> stall_window \<Rightarrow> SessionState \<times> PieceManager \<Rightarrow>
    spawn list \<times> bool \<times> stall_window \<times> SessionState \<times> PieceManager" where
  "downloader_wake env w s =
    (case s of (ss, pm) \<Rightarrow>
      if ss_download_complete ss \<or> pm_shutting_down pm then ([], False, w, ss, pm)
      else let (seeds, pm) = budget_refill env pm;
               current = length (pm_pieces pm);
               slots = (if current < max_in_progress env then min (max_in_progress env - current) (needed_pieces ss) else 0);
               slots = min slots (kMaxSpawnsPerWake - length seeds);
               pm = (if needed_pieces ss = 0 \<and> \<not> ss_endgame ss then tail_scheduler_pass env pm else pm);
               (stalled, w) = stall_check (pe_now env) ss w;
               (entered, ss) = check_and_enter_endgame stalled (ss, pm)
           in (seeds @ replicate slots RequestOne, entered, w, ss, pm))"

definition endgame_watchdog :: "int \<Rightarrow> stall_window \<Rightarrow> SessionState \<times> PieceManager \<Rightarrow> bool \<times> stall_window \<times> SessionState" where
  "endgame_watchdog now w s =
    (case s of (ss, pm) \<Rightarrow>
      if ss_download_complete ss \<or> pm_shutting_down pm then (False, w, ss)
      else let (stalled, w) = stall_check now ss w; (entered, ss) = check_and_enter_endgame stalled (ss, pm)
           in (entered, w, ss))"

subsection \<open>Lookups\<close>

lemma in_progress_update [simp]:
  "in_progress_piece (update_piece p f pm) q = (if q = p then map_option f (in_progress_piece pm p) else in_progress_piece pm q)"
  by (simp add: update_piece_def in_progress_piece_def map_simps split: option.split)

lemma in_progress_emplace [simp]:
  "sorted_keys (pm_pieces pm) \<Longrightarrow> in_progress_piece (emplace_in_progress_pieces p ip pm) q =
    (if q = p then Some (case in_progress_piece pm p of None \<Rightarrow> ip | Some ip' \<Rightarrow> ip') else in_progress_piece pm q)"
  by (auto simp: emplace_in_progress_pieces_def in_progress_piece_def map_simps split: option.split)

lemma in_progress_rarity [simp]:
  "in_progress_piece (update_piece_rarity p a b pm) q = in_progress_piece pm q"
  by (simp add: update_piece_rarity_def remove_piece_rarity_def insert_piece_rarity_def in_progress_piece_def Let_def split: option.split)

lemma pieces_rarity [simp]: "pm_pieces (update_piece_rarity p a b pm) = pm_pieces pm"
  by (simp add: update_piece_rarity_def remove_piece_rarity_def insert_piece_rarity_def Let_def split: option.split)

lemma in_progress_spawn [simp]: "in_progress_piece (spawn_request a p o' n pm) q = in_progress_piece pm q"
  by (simp add: spawn_request_def in_progress_piece_def)

lemma in_progress_rotor [simp]: "in_progress_piece (pm\<lparr> pm_rotor := k \<rparr>) q = in_progress_piece pm q"
  by (simp add: in_progress_piece_def)

lemma requests_simps [simp]:
  "pm_requests (update_piece p f pm) = pm_requests pm"
  "pm_requests (update_piece_rarity p a b pm) = pm_requests pm"
  "pm_requests (emplace_in_progress_pieces p ip pm) = pm_requests pm"
  "pm_requests (spawn_request x p o' n pm) = pm_requests pm @ [(x, p, o', n)]"
  by (simp_all add: update_piece_def update_piece_rarity_def insert_piece_rarity_def remove_piece_rarity_def
      emplace_in_progress_pieces_def spawn_request_def Let_def split: option.split)

lemma register_outstanding_simps [simp]:
  "ip_total_blocks (register_outstanding a b ip) = ip_total_blocks ip" "ip_data (register_outstanding a b ip) = ip_data ip"
  "ip_received (register_outstanding a b ip) = ip_received ip" "length (ip_outstanding (register_outstanding a b ip)) = length (ip_outstanding ip)"
  "block_length (register_outstanding a b ip) = block_length ip"
  by (auto simp: register_outstanding_def block_length_def fun_eq_iff)

subsection \<open>Starting a piece\<close>

text \<open>The requests of a whole piece to one peer.\<close>

lemma request_blocks:
  assumes "in_progress_piece pm p = Some ip"
  shows "\<exists>ip'. in_progress_piece (fold (request_block peer p) bs pm) p = Some ip' \<and> ip_total_blocks ip' = ip_total_blocks ip \<and>
    ip_data ip' = ip_data ip \<and>
    pm_requests (fold (request_block peer p) bs pm) = pm_requests pm @ map (\<lambda>b. (peer, p, block_offset b, block_length ip b)) bs"
  using assms
proof (induction bs arbitrary: pm ip)
  case (Cons b bs)
  have "in_progress_piece (request_block peer p b pm) p = Some (register_outstanding peer b ip)"
    "pm_requests (request_block peer p b pm) = pm_requests pm @ [(peer, p, block_offset b, block_length ip b)]"
    using Cons.prems by (simp_all add: request_block_def)
  then show ?case
    using Cons.IH [of "request_block peer p b pm" "register_outstanding peer b ip"] by simp
qed simp

definition startable :: "pm_env \<Rightarrow> SessionState \<Rightarrow> nat \<Rightarrow> bool" where
  "startable env ss p \<longleftrightarrow> piece_status ss p = Needed \<and> pe_available env p \<noteq> []"

lemma try_piece_refused: "\<not> startable env ss p \<Longrightarrow> try_piece_download env pref p (ss, pm) = (False, ss, pm)"
  by (simp add: try_piece_download_def startable_def)

text \<open>The blocks of a piece tile it.\<close>

lemma blocks_tile:
  assumes "0 < n" "n < 2 ^ 32"
  defines "ip \<equiv> new_in_progress n"
  shows "ip_total_blocks ip = (n + BLOCK_SIZE - 1) div BLOCK_SIZE" "ip_data ip = replicate n 0" "0 < ip_total_blocks ip"
    "b < ip_total_blocks ip \<Longrightarrow> block_offset b = b * BLOCK_SIZE \<and> block_length ip b = min BLOCK_SIZE (n - b * BLOCK_SIZE) \<and>
      b * BLOCK_SIZE < n"
proof -
  have "(n + BLOCK_SIZE - 1) div BLOCK_SIZE < 2 ^ 32"
    using assms(2) by (simp add: BLOCK_SIZE_def less_mult_imp_div_less)
  then show tot: "ip_total_blocks ip = (n + BLOCK_SIZE - 1) div BLOCK_SIZE"
    by (simp add: ip_def new_in_progress_def Let_def)
  show data: "ip_data ip = replicate n 0"
    by (simp add: ip_def new_in_progress_def Let_def)
  show "0 < ip_total_blocks ip"
    using assms(1) by (simp add: tot BLOCK_SIZE_def div_greater_zero_iff)
  assume "b < ip_total_blocks ip"
  then have b: "b * BLOCK_SIZE < n" "b = ip_total_blocks ip - 1 \<longleftrightarrow> n \<le> Suc b * BLOCK_SIZE"
    by (auto simp: tot BLOCK_SIZE_def)
  then show "block_offset b = b * BLOCK_SIZE \<and> block_length ip b = min BLOCK_SIZE (n - b * BLOCK_SIZE) \<and> b * BLOCK_SIZE < n"
    using assms(2) by (auto simp: block_offset_def block_length_def data BLOCK_SIZE_def)
qed

definition piece_requests :: "PeerId \<Rightarrow> nat \<Rightarrow> nat \<Rightarrow> (PeerId \<times> nat \<times> nat \<times> nat) list" where
  "piece_requests peer p n = map (\<lambda>b. (peer, p, b * BLOCK_SIZE, min BLOCK_SIZE (n - b * BLOCK_SIZE))) [0..<(n + BLOCK_SIZE - 1) div BLOCK_SIZE]"

lemma download_size_eq:
  assumes "wf_torrent ss" "p < ss_num_pieces ss"
  shows "download_size ss p = plen ss p"
  using actual_piece_size_eq [OF assms] wf_basic(4) [OF assms(1)] by (auto simp: download_size_def actual_piece_size_def Let_def)

lemma choose_primary_available:
  assumes "available_peers \<noteq> []" "choose_primary env pref available_peers pm = (peer, pm')"
  shows "peer \<in> set available_peers" "pm_requests pm' = pm_requests pm" "in_progress_piece pm' = in_progress_piece pm"
proof -
  define pool where "pool = (if primary_pool env available_peers = [] then available_peers else primary_pool env available_peers)"
  have pool: "pool \<noteq> []" "set pool \<subseteq> set available_peers"
    using assms(1) by (auto simp: pool_def primary_pool_def split: option.splits)
  have cp: "choose_primary env pref available_peers pm = (case find (\<lambda>peer. pref = Some (pv_id peer)) available_peers of
      Some peer \<Rightarrow> (peer, pm) | None \<Rightarrow> (pool ! (pm_rotor pm mod length pool), pm\<lparr> pm_rotor := to_u64 (pm_rotor pm + 1) \<rparr>))"
    unfolding choose_primary_def pool_def [symmetric] Let_def ..
  have "pool ! (pm_rotor pm mod length pool) \<in> set pool"
    using pool(1) by simp
  then show "peer \<in> set available_peers"
    using assms(2) pool(2) unfolding cp by (auto simp: find_Some_iff split: option.splits)
  show "pm_requests pm' = pm_requests pm" "in_progress_piece pm' = in_progress_piece pm"
    using assms(2) unfolding cp by (auto split: option.splits)
qed

lemma try_piece_started:
  assumes "startable env ss p" "in_progress_piece pm p = None" "wf_torrent ss" "p < ss_num_pieces ss" "sorted_keys (pm_pieces pm)"
  shows "\<exists>pm' peer. try_piece_download env pref p (ss, pm) = (True, set_piece_status p InProgress ss, pm') \<and>
    peer \<in> pv_id ` set (pe_available env p) \<and> pm_requests pm' = pm_requests pm @ piece_requests peer p (plen ss p)"
proof -
  let ?ip = "new_in_progress (plen ss p)"
  define pm1 where "pm1 = emplace_in_progress_pieces p ?ip
    (update_piece_rarity p (to_u32 (piece_availability pm p)) IN_PROGRESS_RARITY_GROUP_ID pm)"
  have pm1: "in_progress_piece pm1 p = Some ?ip" "pm_requests pm1 = pm_requests pm"
    using assms(2,5) by (simp_all add: pm1_def)
  obtain primary pm2 where cp: "choose_primary env pref (pe_available env p) pm1 = (primary, pm2)"
    by fastforce
  have av: "pe_available env p \<noteq> []" "piece_status ss p = Needed"
    using assms(1) by (simp_all add: startable_def)
  note cpa = choose_primary_available [OF av(1) cp]
  define pm3 where "pm3 = update_piece p (\<lambda>ip. ip\<lparr> ip_primary := Some (pv_id primary), ip_last_progress := pe_now env \<rparr>) pm2"
  define ip3 where "ip3 = ?ip\<lparr> ip_primary := Some (pv_id primary), ip_last_progress := pe_now env \<rparr>"
  have pm3: "in_progress_piece pm3 p = Some ip3" "pm_requests pm3 = pm_requests pm"
    using cpa pm1 by (simp_all add: pm3_def ip3_def)
  define pm4 where "pm4 = fold (request_block (pv_id primary) p) [0..<ip_total_blocks ?ip] pm3"
  have step: "try_piece_download env pref p (ss, pm) = (True, set_piece_status p InProgress ss, pm4)"
    using av download_size_eq [OF assms(3,4)] pm1(1) cp
    by (simp add: try_piece_download_def pm1_def [symmetric] pm3_def [symmetric] pm4_def [symmetric] Let_def)
  have n: "0 < plen ss p" "plen ss p < 2 ^ 32"
    using plen_bounds(1,2) [OF assms(3,4)] wf_basic(2) [OF assms(3)] by simp_all
  note tile = blocks_tile [OF n]
  have "block_length ip3 = block_length ?ip"
    by (simp add: fun_eq_iff block_length_def ip3_def)
  then have "pm_requests pm4 = pm_requests pm @ map (\<lambda>b. (pv_id primary, p, block_offset b, block_length ?ip b)) [0..<ip_total_blocks ?ip]"
    using request_blocks [OF pm3(1), of "pv_id primary"] pm3(2) by (auto simp: pm4_def)
  also have "map (\<lambda>b. (pv_id primary, p, block_offset b, block_length ?ip b)) [0..<ip_total_blocks ?ip] = piece_requests (pv_id primary) p (plen ss p)"
    unfolding piece_requests_def tile(1) [symmetric] using tile(4) by (intro map_cong) auto
  finally show ?thesis
    using step cpa(1) by blast
qed

subsection \<open>Rarest first\<close>

lemma find_append: "find P (xs @ ys) = (case find P xs of None \<Rightarrow> find P ys | Some x \<Rightarrow> Some x)"
  by (induction xs) simp_all

lemma find_SomeD: "find P xs = Some x \<Longrightarrow> P x \<and> x \<in> set xs"
  by (auto simp: find_Some_iff)

lemma try_piece_tried: "startable env ss p \<Longrightarrow> fst (try_piece_download env pref p (ss, pm))"
  by (simp add: try_piece_download_def startable_def split_beta Let_def)

lemma try_pieces_find:
  "try_pieces env pref ps (ss, pm) =
    (case find (startable env ss) ps of None \<Rightarrow> (False, ss, pm) | Some p \<Rightarrow> try_piece_download env pref p (ss, pm))"
proof (induction ps)
  case (Cons p ps)
  show ?case
  proof (cases "startable env ss p")
    case True
    then have "fst (try_piece_download env pref p (ss, pm))"
      by (rule try_piece_tried)
    then show ?thesis
      using True by (cases "try_piece_download env pref p (ss, pm)") simp
  next
    case False
    then show ?thesis
      using Cons try_piece_refused by simp
  qed
qed simp

text \<open>The rarity map: a needed piece is in the group of its availability, and the groups of positive rarity hold
  only pieces of that availability.\<close>

definition rarity_index :: "SessionState \<Rightarrow> PieceManager \<Rightarrow> bool" where
  "rarity_index ss pm \<longleftrightarrow> sorted_keys (pm_rarity pm) \<and>
    (\<forall>p < ss_num_pieces ss. piece_availability pm p < IN_PROGRESS_RARITY_GROUP_ID \<and>
      (piece_status ss p = Needed \<longrightarrow> p \<in> set (rarity_group pm (piece_availability pm p)))) \<and>
    (\<forall>r p. p \<in> set (rarity_group pm r) \<longrightarrow> p < ss_num_pieces ss \<and>
      (r \<noteq> 0 \<longrightarrow> r \<noteq> IN_PROGRESS_RARITY_GROUP_ID \<longrightarrow> piece_availability pm p = r))"

text \<open>What every handler keeps of the two maps (the session theories show it as part of their
  invariant): they are ordered, and the groups hold indices of pieces.  The groups need not be exact.\<close>

definition index_ok :: "SessionState \<Rightarrow> PieceManager \<Rightarrow> bool" where
  "index_ok ss pm \<longleftrightarrow> sorted_keys (pm_pieces pm) \<and> sorted_keys (pm_rarity pm) \<and>
    (\<forall>r ps p. (r, ps) \<in> set (pm_rarity pm) \<longrightarrow> p \<in> set ps \<longrightarrow> p < ss_num_pieces ss)"

lemma find_sorted_groups:
  assumes "sorted_keys m" "find P (concat (map (\<lambda>(r, xs). f r xs) m)) = Some p"
  shows "\<exists>r xs. map_of m r = Some xs \<and> p \<in> set (f r xs) \<and> P p \<and>
    (\<forall>r' xs' q. map_of m r' = Some xs' \<longrightarrow> q \<in> set (f r' xs') \<longrightarrow> P q \<longrightarrow> r \<le> r')"
  using assms
proof (induction m)
  case (Cons e m)
  obtain r xs where e: "e = (r, xs)"
    by (cases e)
  show ?case
  proof (cases "\<exists>q\<in>set (f r xs). P q")
    case True
    have "r \<le> r'" if "map_of (e # m) r' = Some xs'" for r' xs'
      using that Cons.prems(1) by (auto simp: e split: if_splits dest!: map_of_SomeD)
    moreover have "find P (f r xs) \<noteq> None"
      using True by (auto simp: find_None_iff)
    then have "find P (f r xs) = Some p"
      using Cons.prems(2) by (auto simp: e find_append split: option.splits)
    then have "p \<in> set (f r xs)" "P p"
      by (auto simp: find_Some_iff)
    ultimately show ?thesis
      by (intro exI [of _ r] exI [of _ xs]) (auto simp: e)
  next
    case False
    then have "find P (f r xs) = None"
      by (simp add: find_None_iff)
    then have "find P (concat (map (\<lambda>(r, xs). f r xs) m)) = Some p"
      using Cons.prems(2) by (simp add: e find_append)
    then obtain r1 xs1 where r1: "map_of m r1 = Some xs1" "p \<in> set (f r1 xs1)" "P p"
      "\<forall>r' xs' q. map_of m r' = Some xs' \<longrightarrow> q \<in> set (f r' xs') \<longrightarrow> P q \<longrightarrow> r1 \<le> r'"
      using Cons.IH Cons.prems(1) by (auto simp: e)
    moreover have "r < r1"
      using r1(1) Cons.prems(1) by (auto simp: e dest!: map_of_SomeD)
    ultimately show ?thesis
      using False by (intro exI [of _ r1] exI [of _ xs1]) (auto simp: e split: if_splits)
  qed
qed simp

lemma rarest_found:
  assumes "rarity_index ss pm" "\<And>xs. set (pe_shuffle env xs) = set xs"
    and "q < ss_num_pieces ss" "startable env ss q" "0 < piece_availability pm q"
  shows "\<exists>p. find (startable env ss) (by_rarity env pm) = Some p \<and> p < ss_num_pieces ss \<and> startable env ss p \<and>
    (\<forall>q < ss_num_pieces ss. startable env ss q \<longrightarrow> 0 < piece_availability pm q \<longrightarrow> piece_availability pm p \<le> piece_availability pm q)"
proof -
  let ?f = "\<lambda>r xs. if r = 0 then [] else pe_shuffle env xs"
  have ri: "sorted_keys (pm_rarity pm)"
    "\<And>p. p < ss_num_pieces ss \<Longrightarrow> piece_availability pm p < IN_PROGRESS_RARITY_GROUP_ID"
    "\<And>p. p < ss_num_pieces ss \<Longrightarrow> piece_status ss p = Needed \<Longrightarrow> p \<in> set (rarity_group pm (piece_availability pm p))"
    "\<And>r p. p \<in> set (rarity_group pm r) \<Longrightarrow> p < ss_num_pieces ss"
    "\<And>r p. p \<in> set (rarity_group pm r) \<Longrightarrow> r \<noteq> 0 \<Longrightarrow> r \<noteq> IN_PROGRESS_RARITY_GROUP_ID \<Longrightarrow> piece_availability pm p = r"
    using assms(1) unfolding rarity_index_def by blast+
  have group: "\<exists>xs. map_of (pm_rarity pm) (piece_availability pm p) = Some xs \<and> p \<in> set (?f (piece_availability pm p) xs)"
    if "p < ss_num_pieces ss" "startable env ss p" "0 < piece_availability pm p" for p
    using ri(3) [OF that(1)] that(2,3) assms(2)
    by (cases "map_of (pm_rarity pm) (piece_availability pm p)") (auto simp: rarity_group_def startable_def)
  have groups: "by_rarity env pm = concat (map (\<lambda>(r, xs). ?f r xs) (pm_rarity pm))"
    by (simp add: by_rarity_def)
  obtain xs where xs: "map_of (pm_rarity pm) (piece_availability pm q) = Some xs" "q \<in> set (?f (piece_availability pm q) xs)"
    using group [OF assms(3-5)] by blast
  then have "q \<in> set (case (piece_availability pm q, xs) of (r, xs) \<Rightarrow> ?f r xs)"
    by simp
  then have "q \<in> set (by_rarity env pm)"
    unfolding groups set_concat set_map using map_of_SomeD [OF xs(1)] by blast
  then obtain p where p: "find (startable env ss) (by_rarity env pm) = Some p"
    using assms(4) by (metis find_None_iff not_None_eq)
  obtain r xs where r: "map_of (pm_rarity pm) r = Some xs" "p \<in> set (?f r xs)" "startable env ss p"
    "\<forall>r' xs' q. map_of (pm_rarity pm) r' = Some xs' \<longrightarrow> q \<in> set (?f r' xs') \<longrightarrow> startable env ss q \<longrightarrow> r \<le> r'"
    using find_sorted_groups [OF ri(1) p [unfolded groups]] by blast
  have le: "r \<le> piece_availability pm q'" if "q' < ss_num_pieces ss" "startable env ss q'" "0 < piece_availability pm q'" for q'
    using group [OF that] r(4) that(2) by blast
  have pg: "p \<in> set (rarity_group pm r)" "r \<noteq> 0"
    using r(1,2) assms(2) by (auto simp: rarity_group_def split: if_splits)
  have "r \<noteq> IN_PROGRESS_RARITY_GROUP_ID"
    using le [OF assms(3-5)] ri(2) [OF assms(3)] by linarith
  then have "piece_availability pm p = r"
    using ri(5) [OF pg] by blast
  then show ?thesis
    using p r(3) ri(4) [OF pg(1)] le by blast
qed

lemma rarity_group_member:
  assumes "q \<in> set (rarity_group pm r)"
  shows "\<exists>ps. map_of (pm_rarity pm) r = Some ps \<and> q \<in> set ps"
  using assms by (cases "map_of (pm_rarity pm) r") (simp_all add: rarity_group_def)

lemma lowest_group_found:
  assumes "sorted_keys (pm_rarity pm)" "\<And>xs. set (pe_shuffle env xs) = set xs" "find P (by_rarity env pm) = Some p"
    and "q \<in> set (rarity_group pm r)" "r \<noteq> 0" "P q"
  shows "\<exists>r'\<le>r. r' \<noteq> 0 \<and> p \<in> set (rarity_group pm r')"
proof -
  let ?f = "\<lambda>r xs. if r = 0 then [] else pe_shuffle env xs"
  have "find P (concat (map (\<lambda>(r, xs). ?f r xs) (pm_rarity pm))) = Some p"
    using assms(3) by (simp add: by_rarity_def)
  from find_sorted_groups [OF assms(1) this]
  obtain r' xs where r': "map_of (pm_rarity pm) r' = Some xs" "p \<in> set (?f r' xs)"
    "\<forall>r xs q. map_of (pm_rarity pm) r = Some xs \<longrightarrow> q \<in> set (?f r xs) \<longrightarrow> P q \<longrightarrow> r' \<le> r"
    by blast
  obtain ys where "map_of (pm_rarity pm) r = Some ys" "q \<in> set ys"
    using rarity_group_member [OF assms(4)] by blast
  then have "r' \<le> r"
    using r'(3) assms(2,5,6) by force
  moreover have "r' \<noteq> 0" "p \<in> set (rarity_group pm r')"
    using r'(1,2) assms(2) by (auto simp: rarity_group_def split: if_splits)
  ultimately show ?thesis
    by blast
qed

lemma by_rarity_member:
  assumes "p \<in> set (by_rarity env pm)" "\<And>xs. set (pe_shuffle env xs) = set xs"
  obtains r ps where "(r, ps) \<in> set (pm_rarity pm)" "p \<in> set ps" "r \<noteq> 0"
  using assms by (auto simp: by_rarity_def split: if_splits)

lemma try_piece_status:
  "startable env ss p \<Longrightarrow> \<exists>pm'. try_piece_download env pref p (ss, pm) = (True, set_piece_status p InProgress ss, pm')"
  by (auto simp: try_piece_download_def startable_def Let_def split: prod.splits)

text \<open>The scan of one request: the groups in order, then any needed piece.\<close>

definition scan_piece :: "pm_env \<Rightarrow> SessionState \<Rightarrow> PieceManager \<Rightarrow> nat option" where
  "scan_piece env ss pm = (case find (startable env ss) (by_rarity env pm) of
     Some p \<Rightarrow> Some p | None \<Rightarrow> find (startable env ss) (pe_shuffle env (needed_indices ss)))"

lemma request_scans:
  assumes "\<not> ss_download_complete ss" "kInitialPickerThreshold \<le> ss_completed_pieces ss + length (pm_pieces pm)"
  shows "request_one_piece env (ss, pm) =
    (case scan_piece env ss pm of None \<Rightarrow> (False, ss, pm) | Some p \<Rightarrow> try_piece_download env None p (ss, pm))"
proof -
  have "fst (try_pieces env None ps (ss, pm)) = (find (startable env ss) ps \<noteq> None)"
    "find (startable env ss) ps = None \<Longrightarrow> try_pieces env None ps (ss, pm) = (False, ss, pm)" for ps
    using try_piece_tried by (auto simp: try_pieces_find dest: find_SomeD split: option.split)
  then show ?thesis
    using assms by (auto simp: request_one_piece_def scan_piece_def Let_def try_pieces_find split: option.split)
qed

lemma scan_piece_startable:
  assumes "index_ok ss pm" "\<And>xs. set (pe_shuffle env xs) = set xs" "scan_piece env ss pm = Some p"
  shows "startable env ss p" "p < ss_num_pieces ss"
proof -
  show "startable env ss p"
    using assms(3) by (auto simp: scan_piece_def find_Some_iff split: option.splits)
  have "p \<in> set (by_rarity env pm) \<or> p \<in> set (needed_indices ss)"
    using assms(2,3) by (auto simp: scan_piece_def find_Some_iff split: option.splits dest: nth_mem)
  then show "p < ss_num_pieces ss"
    using assms(1) by (auto simp: needed_indices_def index_ok_def elim!: by_rarity_member [OF _ assms(2)])
qed

lemma scan_piece_lowest:
  assumes "index_ok ss pm" "\<And>xs. set (pe_shuffle env xs) = set xs" "scan_piece env ss pm = Some p"
    and "q \<in> set (rarity_group pm r)" "r \<noteq> 0" "startable env ss q"
  shows "\<exists>r'\<le>r. r' \<noteq> 0 \<and> p \<in> set (rarity_group pm r')"
proof -
  obtain ps where "map_of (pm_rarity pm) r = Some ps" "q \<in> set ps"
    using rarity_group_member [OF assms(4)] by blast
  then have "q \<in> set (by_rarity env pm)"
    using assms(2,5) by (auto simp: by_rarity_def dest!: map_of_SomeD intro!: bexI [of _ "(r, ps)"])
  then have "find (startable env ss) (by_rarity env pm) = Some p"
    using assms(3,6) by (auto simp: scan_piece_def find_None_iff split: option.splits)
  moreover have "sorted_keys (pm_rarity pm)"
    using assms(1) by (simp add: index_ok_def)
  ultimately show ?thesis
    using lowest_group_found [where P = "startable env ss"] assms(2,4-6) by blast
qed

lemma scan_piece_none:
  assumes "\<And>xs. set (pe_shuffle env xs) = set xs" "scan_piece env ss pm = None"
  shows "\<not> (\<exists>p < ss_num_pieces ss. startable env ss p)"
  using assms by (auto simp: scan_piece_def find_None_iff needed_indices_def startable_def split: option.splits)

text \<open>C11: pieces are requested by the rarity groups.  Past the first pieces and while the download is not complete,
  a request for one piece starts a piece whenever some needed piece is available from an unchoked
  peer, and changes nothing otherwise.  The piece it starts is listed in the lowest group (other than
  group 0) that lists any such piece; when the groups are exact it is therefore one of the least
  availability.  Exactly that piece becomes in progress, and unless it has an entry from before,
  every byte of it is requested once from one of its peers, in blocks of at most 16 KiB.\<close>

theorem rarest_piece_requested:
  assumes "wf_torrent ss" "index_ok ss pm" "\<not> ss_download_complete ss"
    and "kInitialPickerThreshold \<le> ss_completed_pieces ss + length (pm_pieces pm)" "\<And>xs. set (pe_shuffle env xs) = set xs"
    and "request_one_piece env (ss, pm) = (started, ss', pm')"
  shows "(started \<longleftrightarrow> (\<exists>p < ss_num_pieces ss. startable env ss p)) \<and>
    (\<not> started \<longrightarrow> ss' = ss \<and> pm' = pm) \<and>
    (started \<longrightarrow> (\<exists>p. p < ss_num_pieces ss \<and> startable env ss p \<and> ss' = set_piece_status p InProgress ss \<and>
      (\<forall>r q. r \<noteq> 0 \<longrightarrow> q \<in> set (rarity_group pm r) \<longrightarrow> startable env ss q \<longrightarrow>
        (\<exists>r'\<le>r. r' \<noteq> 0 \<and> p \<in> set (rarity_group pm r'))) \<and>
      (rarity_index ss pm \<longrightarrow> (\<forall>q < ss_num_pieces ss. startable env ss q \<longrightarrow> 0 < piece_availability pm q \<longrightarrow>
        piece_availability pm p \<le> piece_availability pm q)) \<and>
      (in_progress_piece pm p = None \<longrightarrow> (\<exists>peer \<in> pv_id ` set (pe_available env p).
        pm_requests pm' = pm_requests pm @ piece_requests peer p (plen ss p)))))"
proof (cases "scan_piece env ss pm")
  case None
  then show ?thesis
    using request_scans [OF assms(3,4), of env] assms(6) scan_piece_none [OF assms(5) None] by auto
next
  case (Some p)
  note p = scan_piece_startable [OF assms(2,5) Some]
  have run: "try_piece_download env None p (ss, pm) = (started, ss', pm')"
    using request_scans [OF assms(3,4), of env] assms(6) Some by simp
  then have st: "started" "ss' = set_piece_status p InProgress ss"
    using try_piece_status [OF p(1), of None pm] by auto
  have asked: "\<exists>peer \<in> pv_id ` set (pe_available env p). pm_requests pm' = pm_requests pm @ piece_requests peer p (plen ss p)"
    if "in_progress_piece pm p = None"
    using try_piece_started [OF p(1) that assms(1) p(2), of None] assms(2) run by (auto simp: index_ok_def)
  have rarest: "piece_availability pm p \<le> piece_availability pm q"
    if "rarity_index ss pm" "q < ss_num_pieces ss" "startable env ss q" "0 < piece_availability pm q" for q
    using rarest_found [OF that(1) assms(5) that(2-4)] Some that(2-4) by (auto simp: scan_piece_def)
  have lowest: "\<exists>r'\<le>r. r' \<noteq> 0 \<and> p \<in> set (rarity_group pm r')"
    if "r \<noteq> 0" "q \<in> set (rarity_group pm r)" "startable env ss q" for r q
    using scan_piece_lowest [OF assms(2,5) Some that(2,1,3)] .
  have "started \<longleftrightarrow> (\<exists>p < ss_num_pieces ss. startable env ss p)"
    using p st by blast
  then show ?thesis
    using st(1) by (intro conjI impI exI [of _ p] allI p st lowest rarest asked) simp_all
qed

subsection \<open>The tail scheduler\<close>

definition asked_count :: "PeerId \<Rightarrow> InProgressPiece \<Rightarrow> nat" where
  "asked_count x ip = sum_list (map (\<lambda>os. length (filter (\<lambda>pid. pid = x) os)) (ip_outstanding ip))"

lemma outstanding_count_sum: "outstanding_count pm x = sum_list (map (\<lambda>(p, ip). asked_count x ip) (pm_pieces pm))"
  by (simp add: outstanding_count_def asked_count_def filter_concat length_concat comp_def split_def)

lemma sum_map_assign:
  fixes f :: "'b \<Rightarrow> nat"
  shows "sorted_keys m \<Longrightarrow> map_of m k = Some v0 \<Longrightarrow>
    sum_list (map (\<lambda>(k, v). f v) (map_assign k v m)) + f v0 = sum_list (map (\<lambda>(k, v). f v) m) + f v"
proof (induction k v m rule: map_assign.induct)
  case (2 k v k' v' m)
  have "map_of m k = None" if "k < k'"
    using that "2.prems" by (force simp: map_of_eq_None_iff)
  then show ?case
    using 2 by (auto split: if_splits)
qed simp

lemma asked_count_register:
  assumes "b < length (ip_outstanding ip)" "peer \<notin> set (ip_outstanding ip ! b)"
  shows "asked_count x (register_outstanding peer b ip) = asked_count x ip + (if x = peer then 1 else 0)"
proof -
  let ?f = "\<lambda>os. length (filter (\<lambda>pid. pid = x) os)"
  have "?f (ip_outstanding ip ! b) \<le> sum_list (map ?f (ip_outstanding ip))"
    using assms(1) by (intro member_le_sum_list) auto
  then show ?thesis
    using assms by (auto simp: register_outstanding_def asked_count_def map_update sum_list_update)
qed

lemma outstanding_request_block:
  assumes "sorted_keys (pm_pieces pm)" "in_progress_piece pm p = Some ip" "b < length (ip_outstanding ip)" "peer \<notin> set (ip_outstanding ip ! b)"
  shows "outstanding_count (request_block peer p b pm) x = outstanding_count pm x + (if x = peer then 1 else 0)"
    "sorted_keys (pm_pieces (request_block peer p b pm))"
    "pm_requests (request_block peer p b pm) = pm_requests pm @ [(peer, p, block_offset b, block_length ip b)]"
proof -
  have pieces: "pm_pieces (request_block peer p b pm) = map_assign p (register_outstanding peer b ip) (pm_pieces pm)"
    using assms(2) by (simp add: request_block_def update_piece_def spawn_request_def)
  show "outstanding_count (request_block peer p b pm) x = outstanding_count pm x + (if x = peer then 1 else 0)"
    using sum_map_assign [OF assms(1), of p ip "asked_count x" "register_outstanding peer b ip"] assms(2)
      asked_count_register [OF assms(3,4), of x]
    by (simp add: outstanding_count_sum pieces in_progress_piece_def)
  show "sorted_keys (pm_pieces (request_block peer p b pm))"
    using assms(1) pieces by simp
  show "pm_requests (request_block peer p b pm) = pm_requests pm @ [(peer, p, block_offset b, block_length ip b)]"
    using assms(2) by (simp add: request_block_def)
qed

lemma best_block_eligible: "best_block now peer ip = Some b \<Longrightarrow> b < ip_total_blocks ip \<and> tail_eligible now peer ip b"
proof -
  have "fold (\<lambda>b best. if \<not> tail_eligible now peer ip b then best
        else case best of None \<Rightarrow> Some b
          | Some b' \<Rightarrow> if length (ip_outstanding ip ! b) < length (ip_outstanding ip ! b') then Some b else best)
      bs acc = Some b \<Longrightarrow> (b \<in> set bs \<and> tail_eligible now peer ip b) \<or> acc = Some b" for bs acc b
    by (induction bs arbitrary: acc) (force split: if_splits option.splits)+
  from this [of "[0..<ip_total_blocks ip]" None b] show "best_block now peer ip = Some b \<Longrightarrow> ?thesis"
    by (auto simp: best_block_def)
qed

text \<open>What the scheduler keeps of a piece while it asks for blocks of it.\<close>

definition asked_more :: "InProgressPiece \<Rightarrow> InProgressPiece \<Rightarrow> bool" where
  "asked_more ip ip' \<longleftrightarrow> ip_received ip' = ip_received ip \<and> ip_total_blocks ip' = ip_total_blocks ip \<and> ip_data ip' = ip_data ip \<and>
    length (ip_outstanding ip') = length (ip_outstanding ip) \<and> ip_rejected_by ip' = ip_rejected_by ip \<and>
    (\<forall>b < length (ip_outstanding ip). set (ip_outstanding ip ! b) \<subseteq> set (ip_outstanding ip' ! b))"

text \<open>A peer has rejected a block within the time that rejections count.\<close>

definition rejected_lately :: "int \<Rightarrow> PeerId \<Rightarrow> InProgressPiece \<Rightarrow> nat \<Rightarrow> bool" where
  "rejected_lately now peer ip b \<longleftrightarrow> b < length (ip_rejected_by ip) \<and>
    (\<exists>when. (peer, when) \<in> set (ip_rejected_by ip ! b) \<and> now - when < kRejectedBlockTTLTail)"

definition good_tail_request :: "pm_env \<Rightarrow> PieceManager \<Rightarrow> PeerId \<times> nat \<times> nat \<times> nat \<Rightarrow> bool" where
  "good_tail_request env pm q = (case q of (x, p, off, n) \<Rightarrow>
    \<exists>ip b. in_progress_piece pm p = Some ip \<and> b < ip_total_blocks ip \<and> \<not> ip_received ip ! b \<and> off = block_offset b \<and> n = block_length ip b \<and>
      x \<in> pv_id ` set (pe_available env p) \<and> x \<notin> set (ip_outstanding ip ! b) \<and>
      \<not> rejected_lately (pe_now env) x ip b)"

definition tail_state :: "pm_env \<Rightarrow> PieceManager \<Rightarrow> (PeerId \<Rightarrow> nat) \<times> PieceManager \<Rightarrow> bool" where
  "tail_state env pm0 st \<longleftrightarrow>
    (case st of (per_peer, pm) \<Rightarrow> sorted_keys (pm_pieces pm) \<and> per_peer = outstanding_count pm \<and>
      (\<forall>p. rel_option asked_more (in_progress_piece pm0 p) (in_progress_piece pm p)) \<and>
      (\<exists>new. pm_requests pm = pm_requests pm0 @ new \<and> list_all (good_tail_request env pm0) new \<and>
        (\<forall>x. outstanding_count pm x = outstanding_count pm0 x + length (filter (\<lambda>q. fst q = x) new) \<and>
          outstanding_count pm x \<le> max (outstanding_count pm0 x) kTailBlocksPerPeer)))"

lemma tail_request_state:
  assumes "tail_state env pm0 st" "peer \<in> set (pe_available env p)"
  shows "tail_state env pm0 (tail_request (pe_now env) p peer st)"
proof -
  obtain per_peer pm where st: "st = (per_peer, pm)"
    by (cases st)
  obtain new where s: "sorted_keys (pm_pieces pm)" "per_peer = outstanding_count pm"
    "\<And>p. rel_option asked_more (in_progress_piece pm0 p) (in_progress_piece pm p)"
    "pm_requests pm = pm_requests pm0 @ new" "list_all (good_tail_request env pm0) new"
    "\<And>x. outstanding_count pm x = outstanding_count pm0 x + length (filter (\<lambda>q. fst q = x) new)"
    "\<And>x. outstanding_count pm x \<le> max (outstanding_count pm0 x) kTailBlocksPerPeer"
    using assms(1) unfolding tail_state_def st prod.case by blast
  show ?thesis
  proof (cases "kTailBlocksPerPeer \<le> per_peer (pv_id peer) \<or> in_progress_piece pm p = None \<or>
      best_block (pe_now env) (pv_id peer) (the (in_progress_piece pm p)) = None")
    case True
    then have "tail_request (pe_now env) p peer st = st"
      by (auto simp: tail_request_def st split: option.split)
    then show ?thesis
      using assms(1) by simp
  next
    case False
    then obtain ip b where ip: "in_progress_piece pm p = Some ip" "best_block (pe_now env) (pv_id peer) ip = Some b"
      and small: "outstanding_count pm (pv_id peer) < kTailBlocksPerPeer"
      using s(2) by auto
    have b: "b < ip_total_blocks ip" "\<not> ip_received ip ! b" "b < length (ip_outstanding ip)" "pv_id peer \<notin> set (ip_outstanding ip ! b)"
      "\<not> rejected_lately (pe_now env) (pv_id peer) ip b"
      using best_block_eligible [OF ip(2)] by (auto simp: tail_eligible_def rejected_lately_def list_ex_iff)
    let ?pm = "request_block (pv_id peer) p b pm" and ?q = "(pv_id peer, p, block_offset b, block_length ip b)"
    note rb = outstanding_request_block [OF s(1) ip(1) b(3,4)]
    obtain ip0 where ip0: "in_progress_piece pm0 p = Some ip0" "asked_more ip0 ip"
      using s(3) [of p] ip(1) by (auto simp: option_rel_Some2)
    have "block_length ip = block_length ip0"
      using ip0(2) by (simp add: fun_eq_iff block_length_def asked_more_def)
    then have "good_tail_request env pm0 ?q"
      using ip0 b assms(2) by (auto simp: good_tail_request_def asked_more_def rejected_lately_def)
    moreover have "rel_option asked_more (in_progress_piece pm0 p') (in_progress_piece ?pm p')" for p'
    proof (cases "p' = p")
      case True
      have "asked_more ip0 (register_outstanding (pv_id peer) b ip)"
        using ip0(2) by (auto simp: asked_more_def register_outstanding_def nth_list_update)
      then show ?thesis
        using True ip ip0 by (simp add: request_block_def)
    next
      case False
      then show ?thesis
        using s(3) [of p'] ip by (simp add: request_block_def)
    qed
    moreover have "tail_request (pe_now env) p peer st = (per_peer(pv_id peer := Suc (per_peer (pv_id peer))), ?pm)"
      using ip small s(2) by (simp add: tail_request_def st)
    moreover have "per_peer(pv_id peer := Suc (per_peer (pv_id peer))) = outstanding_count ?pm"
      using rb(1) s(2) by auto
    moreover have "outstanding_count ?pm x = outstanding_count pm0 x + length (filter (\<lambda>q. fst q = x) (new @ [?q]))" for x
      using rb(1) [of x] s(6) [of x] by simp
    moreover have "outstanding_count ?pm x \<le> max (outstanding_count pm0 x) kTailBlocksPerPeer" for x
      using rb(1) [of x] s(7) [of x] small by auto
    ultimately show ?thesis
      unfolding tail_state_def using rb(2,3) s(4,5) by (auto intro!: exI [of _ "new @ [?q]"])
  qed
qed

lemma tail_state_snd: "tail_state env pm0 st \<Longrightarrow> tail_state env pm0 (outstanding_count (snd st), snd st)"
  by (cases st) (simp add: tail_state_def)

lemma tail_piece_state:
  assumes "tail_state env pm0 st"
  shows "tail_state env pm0 (tail_piece env p st)"
proof -
  have "tail_state env pm0 (fold (tail_request (pe_now env) p) peers st)" if "set peers \<subseteq> set (pe_available env p)" for peers
    by (rule fold_invariant [where Q = "\<lambda>peer. peer \<in> set (pe_available env p)" and P = "tail_state env pm0"])
      (use that assms tail_request_state in blast)+
  then show ?thesis
    using assms by (simp add: tail_piece_def)
qed

text \<open>C25: the tail scheduler keeps every queue short.  Whatever pieces are stuck and whoever holds them, one pass
  leaves each peer with at most 24 outstanding blocks, or with as many as it had before if that was
  more; every request it adds is counted as outstanding, asks for a block that has not arrived, and goes
  to an unchoked peer that has the piece, is not already asked for that block and has not rejected it
  within the time that rejections count.\<close>

theorem tail_queue_bounded:
  assumes "sorted_keys (pm_pieces pm)"
  shows "\<exists>new. pm_requests (tail_scheduler_pass env pm) = pm_requests pm @ new \<and> list_all (good_tail_request env pm) new \<and>
    (\<forall>x. outstanding_count (tail_scheduler_pass env pm) x = outstanding_count pm x + length (filter (\<lambda>q. fst q = x) new) \<and>
      outstanding_count (tail_scheduler_pass env pm) x \<le> max (outstanding_count pm x) kTailBlocksPerPeer)"
proof -
  have "rel_option asked_more (in_progress_piece pm p) (in_progress_piece pm p)" for p
    by (cases "in_progress_piece pm p") (simp_all add: asked_more_def)
  then have "tail_state env pm (outstanding_count pm, pm)"
    using assms unfolding tail_state_def by simp
  have "tail_state env pm (fold (tail_piece env) ps (outstanding_count pm, pm))" for ps
    by (rule fold_invariant [where Q = "\<lambda>_. True" and P = "tail_state env pm"])
      (simp_all add: tail_piece_state \<open>tail_state env pm (outstanding_count pm, pm)\<close>)
  then have "tail_state env pm (outstanding_count (snd (fold (tail_piece env) ps (outstanding_count pm, pm))),
      snd (fold (tail_piece env) ps (outstanding_count pm, pm)))" for ps
    using tail_state_snd by blast
  then have "tail_state env pm (outstanding_count (tail_scheduler_pass env pm), tail_scheduler_pass env pm)"
    using \<open>tail_state env pm (outstanding_count pm, pm)\<close> unfolding tail_scheduler_pass_def Let_def by presburger
  then show ?thesis
    by (auto simp: tail_state_def)
qed

subsection \<open>An example\<close>

text \<open>Six pieces of four bytes, four of them present; one peer has all pieces, and two peers have the fifth.\<close>

definition demo_swarm :: SessionState where
  "demo_swarm = \<lparr> ss_meta = empty_meta_info\<lparr> mi_info := \<lparr> ti_name = ''t'', ti_total_size = 24, ti_piece_size = 4, ti_pieces = replicate 120 0,
       ti_files = [\<lparr> fi_path = ''t'', fi_size = 24, fi_download = True \<rparr>] \<rparr> \<rparr>,
     ss_piece_status = [Have, Have, Have, Have, Needed, Needed], ss_tracker_tiers = [], ss_save_path = ''/d'', ss_bytes_downloaded = 16,
     ss_bytes_uploaded = 0, ss_completed_pieces = 4, ss_download_complete = False, ss_endgame = False, ss_num_pieces = 6 \<rparr>"

definition demo_env :: pm_env where
  "demo_env = \<lparr> pe_now = 100 * second, pe_available = (\<lambda>p. [\<lparr> pv_id = [1], pv_last_unchoke = 0, pv_choking = False \<rparr>]), pe_activity = None,
     pe_unchoked = None, pe_explore = (\<lambda>p b. 1), pe_pick = (\<lambda>p b n. 0), pe_shuffle = (\<lambda>xs. xs) \<rparr>"

definition demo_pieces :: PieceManager where
  "demo_pieces = build_piece_rarity demo_swarm ((new_piece_manager demo_swarm)\<lparr> pm_availability := [1, 1, 1, 1, 2, 1] \<rparr>)"

lemma demo_swarm_simps [simp]:
  "ss_num_pieces demo_swarm = 6" "ss_piece_status demo_swarm = [Have, Have, Have, Have, Needed, Needed]" "tsize demo_swarm = 24" "psize demo_swarm = 4"
  "ss_completed_pieces demo_swarm = 4" "\<not> ss_download_complete demo_swarm"
  "tfiles demo_swarm = [\<lparr> fi_path = ''t'', fi_size = 24, fi_download = True \<rparr>]"
  by (simp_all add: demo_swarm_def empty_meta_info_def)

lemma demo_pieces_eq: "demo_pieces = \<lparr> pm_pieces = [], pm_availability = [1, 1, 1, 1, 2, 1], pm_rarity = [(0, [0, 1, 2, 3]), (1, [5]), (2, [4])],
    pm_rotor = 0, pm_shutting_down = False, pm_requests = [], pm_resumes = [] \<rparr>"
  by (simp add: demo_pieces_def build_piece_rarity_def new_piece_manager_def insert_piece_rarity_def rarity_group_def piece_status_def
      upt_conv_Cons insort_insert_key_def Let_def)

lemma all_less_6: "(\<forall>p < (6 :: nat). P p) \<longleftrightarrow> P 0 \<and> P 1 \<and> P 2 \<and> P 3 \<and> P 4 \<and> P 5"
  by (simp add: eval_nat_numeral All_less_Suc conj_ac)

lemma demo_index: "rarity_index demo_swarm demo_pieces" "index_ok demo_swarm demo_pieces" "wf_torrent demo_swarm"
proof -
  have "\<forall>p<6. piece_availability demo_pieces p < IN_PROGRESS_RARITY_GROUP_ID \<and>
      (piece_status demo_swarm p = Needed \<longrightarrow> p \<in> set (rarity_group demo_pieces (piece_availability demo_pieces p)))"
    unfolding all_less_6 by (simp add: demo_pieces_eq rarity_group_def piece_availability_def piece_status_def IN_PROGRESS_RARITY_GROUP_ID_def)
  moreover have "p < 6 \<and> (r \<noteq> 0 \<longrightarrow> r \<noteq> IN_PROGRESS_RARITY_GROUP_ID \<longrightarrow> piece_availability demo_pieces p = r)"
    if "p \<in> set (rarity_group demo_pieces r)" for p r
    using that by (auto simp: demo_pieces_eq rarity_group_def piece_availability_def split: if_splits)
  ultimately show "rarity_index demo_swarm demo_pieces"
    by (simp add: rarity_index_def) (simp add: demo_pieces_eq)
  show "index_ok demo_swarm demo_pieces"
    by (auto simp: index_ok_def demo_pieces_eq)
  show "wf_torrent demo_swarm"
    by (simp add: wf_torrent_def Let_def)
qed

theorem rarest_piece_requested_witness:
  "\<exists>ss' pm'. request_one_piece demo_env (demo_swarm, demo_pieces) = (True, ss', pm') \<and>
    ss_piece_status ss' = [Have, Have, Have, Have, Needed, InProgress] \<and> pm_requests pm' = [([1], 5, 0, 4)]"
proof -
  obtain started ss' pm' where run: "request_one_piece demo_env (demo_swarm, demo_pieces) = (started, ss', pm')"
    by (metis prod_cases3)
  have shuffle: "\<And>xs. set (pe_shuffle demo_env xs) = set xs"
    by (simp add: demo_env_def)
  have picker: "kInitialPickerThreshold \<le> ss_completed_pieces demo_swarm + length (pm_pieces demo_pieces)"
    by (simp add: kInitialPickerThreshold_def)
  note main = rarest_piece_requested [OF demo_index(3,2) demo_swarm_simps(6) picker shuffle run]
  have needed: "\<forall>p<6. startable demo_env demo_swarm p \<longrightarrow> p = 4 \<or> p = 5" "startable demo_env demo_swarm 5"
    unfolding all_less_6 by (simp_all add: startable_def demo_env_def piece_status_def)
  have av: "piece_availability demo_pieces 4 = 2" "piece_availability demo_pieces 5 = 1"
    by (simp_all add: piece_availability_def demo_pieces_eq)
  have five: "5 < ss_num_pieces demo_swarm"
    by simp
  have started
    using main needed(2) five by blast
  moreover have none: "in_progress_piece demo_pieces p = None" for p
    by (simp add: demo_pieces_eq in_progress_piece_def)
  moreover obtain p peer where p: "p < 6" "startable demo_env demo_swarm p" "ss' = set_piece_status p InProgress demo_swarm"
    "peer \<in> pv_id ` set (pe_available demo_env p)" "pm_requests pm' = pm_requests demo_pieces @ piece_requests peer p (plen demo_swarm p)"
    "piece_availability demo_pieces p \<le> piece_availability demo_pieces 5"
    using main \<open>started\<close> needed(2) five av(2) demo_index(1) none by (metis demo_swarm_simps(1) zero_less_one)
  moreover have "p = 5" "peer = [1]"
    using p needed(1) av by (auto simp: demo_env_def)
  ultimately show ?thesis
    using run by (simp add: piece_requests_def BLOCK_SIZE_def demo_pieces_eq set_piece_status_def plen_def)
qed

definition demo_tail :: PieceManager where
  "demo_tail = demo_pieces\<lparr> pm_pieces := [(5, (new_in_progress 4)\<lparr> ip_last_progress := second \<rparr>)] \<rparr>"

theorem tail_queue_bounded_witness:
  "pm_requests (tail_scheduler_pass demo_env demo_tail) = [([1], 5, 0, 4)] \<and>
    (\<forall>x. outstanding_count (tail_scheduler_pass demo_env demo_tail) x \<le> 24)"
proof -
  have "outstanding_count demo_tail x = 0" for x
    by (simp add: outstanding_count_def demo_tail_def new_in_progress_def Let_def BLOCK_SIZE_def)
  then have "\<forall>x. outstanding_count (tail_scheduler_pass demo_env demo_tail) x \<le> 24"
    using tail_queue_bounded [of demo_tail demo_env] by (auto simp: demo_tail_def kTailBlocksPerPeer_def)
  moreover have "pm_requests (tail_scheduler_pass demo_env demo_tail) = [([1], 5, 0, 4)]"
    by (simp add: tail_scheduler_pass_def demo_tail_def tail_piece_def tail_request_def demo_env_def demo_pieces_eq in_progress_piece_def
        new_in_progress_def outstanding_count_def is_stuck_def second_def kStuckPieceWindow_def kTailBlocksPerPeer_def best_block_def
        tail_eligible_def request_block_def spawn_request_def update_piece_def register_outstanding_def block_offset_def block_length_def
        BLOCK_SIZE_def Let_def)
  ultimately show ?thesis
    by blast
qed

end
