(* ===== verification/PeerConnection.thy ===== *)
theory PeerConnection
  imports PieceManager "HOL-Library.Multiset"
begin

text \<open>
  A connection to a peer (\<^verbatim>\<open>src/src/PeerConnection.cpp\<close>, \<^verbatim>\<open>PeerConnection.hpp\<close>): its protocol state, the
  messages it writes and reads, and the pipeline of requests.

  \<open>pc_wire\<close> collects the message bodies handed to the socket, in order; \<open>pc_notified\<close> collects the calls
  of the request-sent hook.  A request that the code spawns onto the strand counts as written at once.
  Numbers of the wire format are natural numbers below \<open>2\<^sup>3\<^sup>2\<close>; the byte counters are \<^verbatim>\<open>uint64_t\<close>.

  Lemmas: what one side writes the other side reads; the pipeline never exceeds its limits and keeps the
  order of the requests; a cancelled request after the last delivery blocks the pipeline.
\<close>

subsection \<open>Definitions: state\<close>

type_synonym block_request = "nat \<times> nat \<times> nat"

record PeerConnection =
  pc_peer_id :: PeerId
  pc_peer_addr :: string
  pc_bitfield :: "byte list"
  pc_am_choking :: bool
  pc_peer_is_choking :: bool
  pc_am_interested :: bool
  pc_peer_is_interested :: bool
  pc_bytes_downloaded :: nat
  pc_bytes_uploaded :: nat
  pc_last_data_received :: int
  pc_last_unchoke :: int
  pc_fast_extension :: bool
  pc_extensions :: "(nat \<times> ExtendedMessageType) list"
  pc_metadata_ext_id :: nat
  pc_metadata_size :: int
  pc_metadata_requested :: bool
  pc_inventory_pending :: bool
  pc_has_all_hint :: bool
  pc_pending :: "block_request list"
  pc_outstanding :: nat
  pc_requested :: nat
  pc_received :: nat
  pc_closed :: bool
  pc_wire :: "byte list list"
  pc_notified :: "block_request list"

definition MAX_PIPELINE_BUFFER :: nat where "MAX_PIPELINE_BUFFER = 8 * 1024 * 1024"
definition max_outstanding_requests :: nat where "max_outstanding_requests = 500"

definition new_connection :: "PeerId \<Rightarrow> string \<Rightarrow> PeerConnection" where
  "new_connection peer_id addr =
    \<lparr> pc_peer_id = peer_id, pc_peer_addr = addr, pc_bitfield = [], pc_am_choking = True, pc_peer_is_choking = True,
      pc_am_interested = False, pc_peer_is_interested = False, pc_bytes_downloaded = 0, pc_bytes_uploaded = 0,
      pc_last_data_received = 0, pc_last_unchoke = 0, pc_fast_extension = False, pc_extensions = [], pc_metadata_ext_id = 0,
      pc_metadata_size = 0, pc_metadata_requested = False, pc_inventory_pending = False, pc_has_all_hint = False, pc_pending = [],
      pc_outstanding = 0, pc_requested = 0, pc_received = 0, pc_closed = False,
      pc_wire = [], pc_notified = [] \<rparr>"

definition pc_close :: "PeerConnection \<Rightarrow> PeerConnection" where
  "pc_close pc = pc\<lparr> pc_closed := True \<rparr>"

definition pc_has_piece :: "PeerConnection \<Rightarrow> nat \<Rightarrow> bool" where
  "pc_has_piece pc i = has_piece (pc_bitfield pc) i"

definition pc_set_has_piece :: "nat \<Rightarrow> PeerConnection \<Rightarrow> PeerConnection" where
  "pc_set_has_piece i pc = pc\<lparr> pc_bitfield := set_has_piece i (pc_bitfield pc) \<rparr>"

definition extension_type :: "PeerConnection \<Rightarrow> nat \<Rightarrow> ExtendedMessageType" where
  "extension_type pc index = (case map_of (pc_extensions pc) index of None \<Rightarrow> ExtUNKNOWN | Some t \<Rightarrow> t)"

definition update_extension_type :: "nat \<Rightarrow> ExtendedMessageType \<Rightarrow> PeerConnection \<Rightarrow> PeerConnection" where
  "update_extension_type index t pc = pc\<lparr> pc_extensions := map_assign index t (pc_extensions pc) \<rparr>"

definition supported_pex :: "PeerConnection \<Rightarrow> bool" where
  "supported_pex pc = list_ex (\<lambda>(k, v). v = ut_pex) (pc_extensions pc)"

subsection \<open>Definitions: messages\<close>

definition put_nat :: "nat \<Rightarrow> byte list" where
  "put_nat n = put32 (of_nat n)"

definition send_message :: "byte list \<Rightarrow> PeerConnection \<Rightarrow> PeerConnection" where
  "send_message body pc = pc\<lparr> pc_wire := pc_wire pc @ [body] \<rparr>"

definition simple_body :: "MessageType \<Rightarrow> byte list" where
  "simple_body t = [message_code t]"

definition triple_body :: "MessageType \<Rightarrow> block_request \<Rightarrow> byte list" where
  "triple_body t r = (case r of (i, b, n) \<Rightarrow> message_code t # request_serialize (of_nat i) (of_nat b) (of_nat n))"

definition send_simple_message :: "MessageType \<Rightarrow> PeerConnection \<Rightarrow> PeerConnection" where
  "send_simple_message t = send_message (simple_body t)"

definition send_piece :: "nat \<Rightarrow> nat \<Rightarrow> byte list \<Rightarrow> PeerConnection \<Rightarrow> PeerConnection" where
  "send_piece i b block = send_message (message_code Piece # put_nat i @ put_nat b @ block)"

definition send_bitfield :: "byte list \<Rightarrow> PeerConnection \<Rightarrow> PeerConnection" where
  "send_bitfield bits = send_message (message_code Bitfield # bits)"

definition send_reject :: "nat \<Rightarrow> nat \<Rightarrow> nat \<Rightarrow> PeerConnection \<Rightarrow> PeerConnection" where
  "send_reject i b n = send_message (triple_body Reject (i, b, n))"

definition send_have :: "nat \<Rightarrow> PeerConnection \<Rightarrow> PeerConnection" where
  "send_have i = send_message (message_code MessageType.Have # put_nat i)"

definition send_extended_message :: "nat \<Rightarrow> byte list \<Rightarrow> PeerConnection \<Rightarrow> PeerConnection" where
  "send_extended_message type_id payload = send_message (message_code ExtendedMessage # of_nat type_id # payload)"

definition send_metadata_request :: "nat \<Rightarrow> int \<Rightarrow> PeerConnection \<Rightarrow> PeerConnection" where
  "send_metadata_request ext_id piece =
    send_extended_message ext_id (bytes_of_string (encode (Dict [(''msg_type'', Integer 0), (''piece'', Integer piece)])))"

text \<open>The switch of \<^verbatim>\<open>message_loop\<close>: what a message body means.\<close>

datatype peer_message =
    KeepAlive | MChoke | MUnchoke | MInterested | MNotInterested | MHaveAll | MHaveNone | MBitfield "byte list" | MHave nat
  | MPiece nat nat "byte list" | MExtended "byte list" | MRequest nat nat nat | MReject nat nat nat | MIgnored

definition read_triple :: "byte list \<Rightarrow> block_request option" where
  "read_triple payload =
    (if length payload < 12 then None
     else case request_deserialize payload of Inl _ \<Rightarrow> None
       | Inr r \<Rightarrow> Some (unat (rq_index r), unat (rq_begin r), unat (rq_length r)))"

definition decode_message :: "byte list \<Rightarrow> peer_message" where
  "decode_message msg =
    (case msg of
       [] \<Rightarrow> KeepAlive
     | t # payload \<Rightarrow>
         (case message_type_of t of
            None \<Rightarrow> MIgnored
          | Some Choke \<Rightarrow> MChoke
          | Some Unchoke \<Rightarrow> MUnchoke
          | Some Interested \<Rightarrow> MInterested
          | Some NotInterested \<Rightarrow> MNotInterested
          | Some HaveAll \<Rightarrow> MHaveAll
          | Some HaveNone \<Rightarrow> MHaveNone
          | Some Bitfield \<Rightarrow> MBitfield payload
          | Some MessageType.Have \<Rightarrow> if length payload < 4 then MIgnored else MHave (unat (get32 (take 4 payload)))
          | Some Piece \<Rightarrow>
              if length payload < 8 then MIgnored
              else MPiece (unat (get32 (take 4 payload))) (unat (get32 (take 4 (drop 4 payload)))) (drop 8 payload)
          | Some ExtendedMessage \<Rightarrow> MExtended payload
          | Some Request \<Rightarrow> (case read_triple payload of None \<Rightarrow> MIgnored | Some (i, b, n) \<Rightarrow> MRequest i b n)
          | Some Reject \<Rightarrow> (case read_triple payload of None \<Rightarrow> MIgnored | Some (i, b, n) \<Rightarrow> MReject i b n)
          | Some Cancel \<Rightarrow> MIgnored
          | Some Port \<Rightarrow> MIgnored
          | Some AllowedFast \<Rightarrow> MIgnored))"

subsection \<open>Definitions: the request pipeline\<close>

definition pipeline_full :: "PeerConnection \<Rightarrow> bool" where
  "pipeline_full pc \<longleftrightarrow> max_outstanding_requests \<le> pc_outstanding pc \<or> MAX_PIPELINE_BUFFER \<le> sub_u64 (pc_requested pc) (pc_received pc)"

definition count_request :: "block_request \<Rightarrow> PeerConnection \<Rightarrow> PeerConnection" where
  "count_request r pc = pc\<lparr> pc_requested := to_u64 (pc_requested pc + snd (snd r)), pc_outstanding := Suc (pc_outstanding pc) \<rparr>"

definition write_request :: "block_request \<Rightarrow> PeerConnection \<Rightarrow> PeerConnection" where
  "write_request r pc = (send_message (triple_body Request r) pc)\<lparr> pc_notified := pc_notified pc @ [r] \<rparr>"

definition uncount_request :: "nat \<Rightarrow> PeerConnection \<Rightarrow> PeerConnection" where
  "uncount_request len pc =
    pc\<lparr> pc_requested := (if len \<le> pc_requested pc then pc_requested pc - len else 0), pc_outstanding := pc_outstanding pc - 1 \<rparr>"

text \<open>Each write is spawned on the strand of the connection; the model has them done at once, in that order.\<close>

function flush_pending_requests :: "PeerConnection \<Rightarrow> PeerConnection" where
  "flush_pending_requests pc =
    (if pc_peer_is_choking pc \<or> pc_pending pc = [] \<or> pipeline_full pc then pc
     else flush_pending_requests (count_request (hd (pc_pending pc)) (write_request (hd (pc_pending pc)) (pc\<lparr> pc_pending := tl (pc_pending pc) \<rparr>))))"
  by pat_completeness auto
termination flush_pending_requests
  by (relation "measure (\<lambda>pc. length (pc_pending pc))") (auto simp: count_request_def write_request_def send_message_def)

declare flush_pending_requests.simps [simp del]

datatype send_error = SocketError

text \<open>\<open>ok\<close> tells whether the write succeeds; a failed write gives its slot back.\<close>

definition send_request :: "bool \<Rightarrow> nat \<Rightarrow> nat \<Rightarrow> nat \<Rightarrow> (PeerConnection, send_error, bool) sx" where
  "send_request ok i b n pc =
    (let r = (to_u32 i, b, n) in
     if pipeline_full pc then (Inr False, pc\<lparr> pc_pending := pc_pending pc @ [r] \<rparr>)
     else let pc = count_request r pc
          in if ok then (Inr True, write_request r pc)
             else (Inl SocketError, flush_pending_requests (uncount_request n pc)))"

definition on_request_completed :: "nat \<Rightarrow> PeerConnection \<Rightarrow> PeerConnection" where
  "on_request_completed len pc =
    flush_pending_requests (pc\<lparr>
      pc_received := (if pc_requested pc < to_u64 (pc_received pc + len) then pc_requested pc else to_u64 (pc_received pc + len)),
      pc_outstanding := pc_outstanding pc - 1 \<rparr>)"

definition on_request_rejected :: "nat \<Rightarrow> PeerConnection \<Rightarrow> PeerConnection" where
  "on_request_rejected len pc = flush_pending_requests (uncount_request len pc)"

definition send_cancel :: "nat \<Rightarrow> nat \<Rightarrow> nat \<Rightarrow> PeerConnection \<Rightarrow> PeerConnection" where
  "send_cancel i b n pc =
    (if (i, b, n) \<in> set (pc_pending pc)
     then flush_pending_requests (pc\<lparr> pc_pending := remove1 (i, b, n) (pc_pending pc) \<rparr>)
     else send_message (triple_body Cancel (to_u32 i, b, n)) (flush_pending_requests (uncount_request n pc)))"

definition drop_pending_requests :: "PeerConnection \<Rightarrow> PeerConnection" where
  "drop_pending_requests pc = pc\<lparr> pc_pending := [] \<rparr>"

text \<open>The state changes of \<^verbatim>\<open>message_loop\<close> around the event handlers.\<close>

definition on_choke :: "PeerConnection \<Rightarrow> PeerConnection" where
  "on_choke pc = pc\<lparr> pc_peer_is_choking := True \<rparr>"

definition free_pipeline :: "PeerConnection \<Rightarrow> PeerConnection" where
  "free_pipeline pc = pc\<lparr> pc_pending := [], pc_outstanding := 0, pc_requested := 0, pc_received := 0 \<rparr>"

definition on_unchoke :: "int \<Rightarrow> PeerConnection \<Rightarrow> PeerConnection" where
  "on_unchoke now pc = flush_pending_requests (pc\<lparr> pc_peer_is_choking := False, pc_last_unchoke := now \<rparr>)"

definition on_interest :: "bool \<Rightarrow> PeerConnection \<Rightarrow> PeerConnection" where
  "on_interest v pc = pc\<lparr> pc_peer_is_interested := v \<rparr>"

subsection \<open>Messages\<close>

lemma unat_of_nat32: "n < 4294967296 \<Longrightarrow> unat (of_nat n :: u32) = n"
  by (rule unat_of_nat_small) simp

lemma read_triple_body:
  "i < 4294967296 \<Longrightarrow> b < 4294967296 \<Longrightarrow> n < 4294967296 \<Longrightarrow>
    read_triple (request_serialize (of_nat i) (of_nat b) (of_nat n)) = Some (i, b, n)"
  using request_deserialize_append [of "of_nat i" "of_nat b" "of_nat n" "[]"]
  by (simp add: read_triple_def unat_of_nat32)

text \<open>C33: peers understand each other.  Every message a connection writes, CANCEL apart, is read by the message loop
  of the other side as the message it stands for, with the same piece, offset, length and bytes; a CANCEL is
  recognised and ignored.\<close>

theorem messages_understood:
  assumes "i < 2 ^ 32" "b < 2 ^ 32" "n < 2 ^ 32"
  shows "decode_message (last (pc_wire (send_have i pc))) = MHave i \<and>
    decode_message (last (pc_wire (send_piece i b block pc))) = MPiece i b block \<and>
    decode_message (last (pc_wire (send_reject i b n pc))) = MReject i b n \<and>
    decode_message (last (pc_wire (write_request (i, b, n) pc))) = MRequest i b n \<and>
    decode_message (last (pc_wire (send_bitfield bits pc))) = MBitfield bits \<and>
    decode_message (last (pc_wire (send_extended_message k payload pc))) = MExtended (of_nat k # payload) \<and>
    decode_message (last (pc_wire (send_simple_message Choke pc))) = MChoke \<and>
    decode_message (last (pc_wire (send_simple_message Unchoke pc))) = MUnchoke \<and>
    decode_message (last (pc_wire (send_simple_message Interested pc))) = MInterested \<and>
    decode_message (last (pc_wire (send_simple_message NotInterested pc))) = MNotInterested \<and>
    decode_message (last (pc_wire (send_simple_message HaveAll pc))) = MHaveAll \<and>
    decode_message (last (pc_wire (send_simple_message HaveNone pc))) = MHaveNone \<and>
    decode_message (last (pc_wire (send_message [] pc))) = KeepAlive \<and>
    ((i, b, n) \<notin> set (pc_pending pc) \<longrightarrow> decode_message (last (pc_wire (send_cancel i b n pc))) = MIgnored)"
  using assms read_triple_body [of i b n]
  by (simp add: send_have_def send_piece_def send_reject_def write_request_def send_bitfield_def send_extended_message_def
      send_simple_message_def send_cancel_def send_message_def simple_body_def triple_body_def decode_message_def put_nat_def
      unat_of_nat32 codec_simps del: message_code.simps)

theorem messages_understood_witness:
  "decode_message (last (pc_wire (send_piece 3 16384 [7, 8] (new_connection [1] ''a'')))) = MPiece 3 16384 [7, 8]"
  using messages_understood [of 3 16384 2 "new_connection [1] ''a''" "[7, 8]"] by simp

subsection \<open>The pipeline\<close>

text \<open>Flushing writes a prefix of the queue and stops only when the queue is empty, the pipeline is full or the
  peer chokes.\<close>

lemma flush_prefix:
  "\<exists>k \<le> length (pc_pending pc).
    pc_pending (flush_pending_requests pc) = drop k (pc_pending pc) \<and>
    pc_notified (flush_pending_requests pc) = pc_notified pc @ take k (pc_pending pc) \<and>
    pc_wire (flush_pending_requests pc) = pc_wire pc @ map (triple_body Request) (take k (pc_pending pc)) \<and>
    (pc_outstanding pc \<le> max_outstanding_requests \<longrightarrow> pc_outstanding (flush_pending_requests pc) \<le> max_outstanding_requests)"
proof (induction pc rule: flush_pending_requests.induct)
  case (1 pc)
  show ?case
  proof (cases "pc_peer_is_choking pc \<or> pc_pending pc = [] \<or> pipeline_full pc")
    case True
    then have "flush_pending_requests pc = pc"
      by (simp only: flush_pending_requests.simps [of pc] if_True)
    then show ?thesis
      by (intro exI [of _ 0]) simp
  next
    case False
    let ?r = "hd (pc_pending pc)"
    define pc1 where "pc1 = count_request ?r (write_request ?r (pc\<lparr> pc_pending := tl (pc_pending pc) \<rparr>))"
    have pc1: "pc_pending pc1 = tl (pc_pending pc)" "pc_notified pc1 = pc_notified pc @ [?r]"
      "pc_wire pc1 = pc_wire pc @ [triple_body Request ?r]" "pc_outstanding pc1 = Suc (pc_outstanding pc)"
      by (simp_all add: pc1_def count_request_def write_request_def send_message_def)
    have fl: "flush_pending_requests pc = flush_pending_requests pc1"
      using False by (simp only: flush_pending_requests.simps [of pc] if_False pc1_def)
    obtain k where k: "k \<le> length (pc_pending pc1)" "pc_pending (flush_pending_requests pc1) = drop k (pc_pending pc1)"
      "pc_notified (flush_pending_requests pc1) = pc_notified pc1 @ take k (pc_pending pc1)"
      "pc_wire (flush_pending_requests pc1) = pc_wire pc1 @ map (triple_body Request) (take k (pc_pending pc1))"
      "pc_outstanding pc1 \<le> max_outstanding_requests \<longrightarrow> pc_outstanding (flush_pending_requests pc1) \<le> max_outstanding_requests"
      using "1.IH" [OF False] unfolding pc1_def by blast
    obtain r rs where rs: "pc_pending pc = r # rs"
      using False by (cases "pc_pending pc") auto
    then have r: "?r = r" "pc_pending pc = r # pc_pending pc1"
      by (simp_all add: pc1(1))
    have "pc_outstanding pc1 \<le> max_outstanding_requests"
      using False pc1(4) by (simp add: pipeline_full_def)
    then show ?thesis
      unfolding fl r(2) using k pc1(2,3) r(1) by (intro exI [of _ "Suc k"]) simp
  qed
qed

datatype pipe_op = SendOp bool nat nat nat | CompletedOp nat | RejectedOp nat | CancelOp nat nat nat | ChokeOp | UnchokeOp int

fun pipe_step :: "pipe_op \<Rightarrow> PeerConnection \<Rightarrow> PeerConnection" where
  "pipe_step (SendOp ok i b n) pc = snd (send_request ok i b n pc)"
| "pipe_step (CompletedOp n) pc = on_request_completed n pc"
| "pipe_step (RejectedOp n) pc = on_request_rejected n pc"
| "pipe_step (CancelOp i b n) pc = send_cancel i b n pc"
| "pipe_step ChokeOp pc = free_pipeline (on_choke pc)"
| "pipe_step (UnchokeOp now) pc = on_unchoke now pc"

fun asked :: "pipe_op list \<Rightarrow> block_request multiset" where
  "asked [] = {#}"
| "asked (SendOp ok i b n # ops) = add_mset (to_u32 i, b, n) (asked ops)"
| "asked (_ # ops) = asked ops"

fun gives_up :: "pipe_op \<Rightarrow> bool" where
  "gives_up (SendOp ok i b n) = (\<not> ok)"
| "gives_up (CancelOp i b n) = True"
| "gives_up ChokeOp = True"
| "gives_up _ = False"

abbreviation in_pipe :: "PeerConnection \<Rightarrow> block_request multiset" where
  "in_pipe pc \<equiv> mset (pc_notified pc) + mset (pc_pending pc)"

definition pipe_ok :: "PeerConnection \<Rightarrow> bool" where
  "pipe_ok pc \<longleftrightarrow> pc_outstanding pc \<le> max_outstanding_requests"

lemma flush_pipe: "in_pipe (flush_pending_requests pc) = in_pipe pc" "pipe_ok pc \<Longrightarrow> pipe_ok (flush_pending_requests pc)"
proof -
  obtain k where "pc_pending (flush_pending_requests pc) = drop k (pc_pending pc)"
    "pc_notified (flush_pending_requests pc) = pc_notified pc @ take k (pc_pending pc)"
    "pc_outstanding pc \<le> max_outstanding_requests \<longrightarrow> pc_outstanding (flush_pending_requests pc) \<le> max_outstanding_requests"
    using flush_prefix [of pc] by blast
  then show "in_pipe (flush_pending_requests pc) = in_pipe pc" "pipe_ok pc \<Longrightarrow> pipe_ok (flush_pending_requests pc)"
    by (simp_all add: pipe_ok_def) (metis append_take_drop_id mset_append union_assoc)
qed

lemma pipe_step_ok:
  assumes "pipe_ok pc"
  shows "pipe_ok (pipe_step op pc)" "in_pipe (pipe_step op pc) \<subseteq># in_pipe pc + asked [op]"
    "\<not> gives_up op \<Longrightarrow> in_pipe (pipe_step op pc) = in_pipe pc + asked [op]"
proof -
  have dec: "pipe_ok (pc'\<lparr> pc_outstanding := k \<rparr>) \<longleftrightarrow> k \<le> max_outstanding_requests" for pc' k
    by (simp add: pipe_ok_def)
  have unc: "pipe_ok (uncount_request n pc')" "in_pipe (uncount_request n pc') = in_pipe pc'" if "pc_outstanding pc' \<le> Suc max_outstanding_requests" for n pc'
    using that by (auto simp: uncount_request_def pipe_ok_def)
  have out: "pc_outstanding pc \<le> max_outstanding_requests"
    using assms by (simp add: pipe_ok_def)
  have *: "pipe_ok (pipe_step op pc) \<and> in_pipe (pipe_step op pc) \<subseteq># in_pipe pc + asked [op] \<and>
    (\<not> gives_up op \<longrightarrow> in_pipe (pipe_step op pc) = in_pipe pc + asked [op])"
  proof (cases op)
    case (SendOp ok i b n)
    let ?r = "(to_u32 i, b, n)"
    have cnt: "pc_outstanding (count_request ?r pc) \<le> Suc max_outstanding_requests" "in_pipe (count_request ?r pc) = in_pipe pc"
      using out by (simp_all add: count_request_def)
    have wr: "in_pipe (write_request ?r pc') = add_mset ?r (in_pipe pc')" "pipe_ok (write_request ?r pc') = pipe_ok pc'" for pc'
      by (simp_all add: write_request_def send_message_def pipe_ok_def)
    have "pipe_ok (count_request ?r pc)" if "\<not> pipeline_full pc"
      using that by (simp add: pipe_ok_def count_request_def pipeline_full_def)
    then show ?thesis
      using SendOp out flush_pipe [of "uncount_request n (count_request ?r pc)"] unc [OF cnt(1)] cnt(2) wr
      by (auto simp: send_request_def Let_def pipe_ok_def)
  next
    case (CompletedOp n)
    then show ?thesis
      using out by (simp add: on_request_completed_def flush_pipe dec)
  next
    case (RejectedOp n)
    then show ?thesis
      using out unc [of pc n] by (simp add: on_request_rejected_def flush_pipe)
  next
    case (CancelOp i b n)
    have "in_pipe (send_message m pc') = in_pipe pc'" "pipe_ok (send_message m pc') = pipe_ok pc'" for m pc'
      by (simp_all add: send_message_def pipe_ok_def)
    moreover have "pipe_ok (pc\<lparr> pc_pending := l \<rparr>)" for l
      using out by (simp add: pipe_ok_def)
    moreover have "mset (remove1 (i, b, n) (pc_pending pc)) \<subseteq># mset (pc_pending pc)"
      by simp
    ultimately show ?thesis
      using CancelOp out unc [of pc n] by (auto simp: send_cancel_def flush_pipe)
  next
    case ChokeOp
    then show ?thesis
      by (simp add: free_pipeline_def on_choke_def pipe_ok_def)
  next
    case (UnchokeOp now)
    have "pipe_ok (pc\<lparr> pc_peer_is_choking := False, pc_last_unchoke := now \<rparr>)"
      using out by (simp add: pipe_ok_def)
    then show ?thesis
      using UnchokeOp by (simp add: on_unchoke_def flush_pipe)
  qed
  then show "pipe_ok (pipe_step op pc)" "in_pipe (pipe_step op pc) \<subseteq># in_pipe pc + asked [op]"
    "\<not> gives_up op \<Longrightarrow> in_pipe (pipe_step op pc) = in_pipe pc + asked [op]"
    by blast+
qed

lemma asked_Cons: "asked (op # ops) = asked [op] + asked ops"
  by (cases op) simp_all

lemma pipe_run:
  assumes "pipe_ok pc"
  shows "pipe_ok (fold pipe_step ops pc) \<and> in_pipe (fold pipe_step ops pc) \<subseteq># in_pipe pc + asked ops \<and>
    ((\<forall>op \<in> set ops. \<not> gives_up op) \<longrightarrow> in_pipe (fold pipe_step ops pc) = in_pipe pc + asked ops)"
  using assms
proof (induction ops arbitrary: pc)
  case (Cons op ops)
  note st = pipe_step_ok [OF Cons.prems, of op]
  note ih = Cons.IH [OF st(1)]
  have "in_pipe (fold pipe_step ops (pipe_step op pc)) \<subseteq># in_pipe pc + asked [op] + asked ops"
    using ih st(2) by (meson subset_mset.add_right_mono subset_mset.order_trans)
  moreover have "in_pipe (fold pipe_step ops (pipe_step op pc)) = in_pipe pc + asked [op] + asked ops"
    if "\<forall>op \<in> set (op # ops). \<not> gives_up op"
    using ih st(3) that by simp
  ultimately show ?case
    using ih unfolding asked_Cons [of op ops] fold_simps by (simp only: add.assoc simp_thms) blast
qed simp

text \<open>C6: the request pipeline is safe and loses nothing.  Whatever requests are made, answered, rejected or
  cancelled and however the peer chokes and unchokes, at most 500 requests are outstanding, and a request is written
  or queued at most as often as it was made.  Unless requests are cancelled, dropped by a choke or fail to be
  written, every request made is either written or still queued.\<close>

theorem pipeline_safe:
  assumes "pc_outstanding pc \<le> 500"
  shows "pc_outstanding (fold pipe_step ops pc) \<le> 500 \<and>
    mset (pc_notified (fold pipe_step ops pc)) + mset (pc_pending (fold pipe_step ops pc))
      \<subseteq># mset (pc_notified pc) + mset (pc_pending pc) + asked ops \<and>
    ((\<forall>op \<in> set ops. \<not> gives_up op) \<longrightarrow>
      mset (pc_notified (fold pipe_step ops pc)) + mset (pc_pending (fold pipe_step ops pc))
        = mset (pc_notified pc) + mset (pc_pending pc) + asked ops)"
  using assms pipe_run [of pc ops] by (simp add: pipe_ok_def max_outstanding_requests_def)

theorem pipeline_safe_witness:
  "pc_outstanding (fold pipe_step [UnchokeOp 5, SendOp True 1 0 16384, SendOp True 1 16384 16384, CompletedOp 16384]
      (new_connection [1] ''a'')) \<le> 500 \<and>
    mset (pc_notified (fold pipe_step [UnchokeOp 5, SendOp True 1 0 16384, SendOp True 1 16384 16384, CompletedOp 16384]
        (new_connection [1] ''a''))) +
      mset (pc_pending (fold pipe_step [UnchokeOp 5, SendOp True 1 0 16384, SendOp True 1 16384 16384, CompletedOp 16384]
        (new_connection [1] ''a''))) = {#(1, 0, 16384), (1, 16384, 16384)#}"
  using pipeline_safe [of "new_connection [1] ''a''" "[UnchokeOp 5, SendOp True 1 0 16384, SendOp True 1 16384 16384, CompletedOp 16384]"]
  by (simp add: new_connection_def to_u32_def add_mset_commute)

text \<open>Once more bytes count as received than as requested, the difference wraps around and the pipeline counts as
  full.\<close>

definition stalled :: "PeerConnection \<Rightarrow> bool" where
  "stalled pc \<longleftrightarrow> pc_requested pc < pc_received pc \<and> pc_received pc < 2 ^ 63"

lemma stalled_full: "stalled pc \<Longrightarrow> pipeline_full pc"
proof -
  assume st: "stalled pc"
  have "(int (pc_requested pc) - int (pc_received pc)) mod 18446744073709551616
      = int (pc_requested pc) - int (pc_received pc) + 18446744073709551616"
    using st by (intro int_mod_pos_eq [where q = "-1"]) (auto simp: stalled_def)
  then show ?thesis
    using st by (simp add: pipeline_full_def MAX_PIPELINE_BUFFER_def sub_u64_def stalled_def) linarith
qed

lemma stalled_flush: "stalled pc \<Longrightarrow> flush_pending_requests pc = pc"
  by (simp add: flush_pending_requests.simps [of pc] stalled_full)

fun feeds :: "pipe_op \<Rightarrow> bool" where
  "feeds (CompletedOp n) = True"
| "feeds ChokeOp = True"
| "feeds _ = False"

lemma stalled_step:
  assumes "stalled pc" "\<not> feeds op"
  shows "stalled (pipe_step op pc)" "pc_notified (pipe_step op pc) = pc_notified pc"
proof -
  have unc: "stalled (uncount_request n pc)" for n
    using assms(1) by (auto simp: stalled_def uncount_request_def)
  have upd: "stalled (pc\<lparr> pc_pending := l \<rparr>)" "stalled (pc\<lparr> pc_peer_is_choking := c, pc_last_unchoke := t \<rparr>)"
    "stalled (send_message m pc') = stalled pc'" for l c t m pc'
    using assms(1) by (simp_all add: stalled_def send_message_def)
  have log: "pc_notified (uncount_request n pc') = pc_notified pc'" "pc_notified (send_message m pc') = pc_notified pc'" for n m pc'
    by (simp_all add: uncount_request_def send_message_def)
  have "stalled (pipe_step op pc) \<and> pc_notified (pipe_step op pc) = pc_notified pc"
    using assms(2) stalled_full [OF assms(1)]
    by (cases op) (simp_all add: send_request_def Let_def on_request_rejected_def send_cancel_def on_unchoke_def stalled_flush
        unc upd log)
  then show "stalled (pipe_step op pc)" "pc_notified (pipe_step op pc) = pc_notified pc"
    by simp_all
qed

lemma stalled_run:
  "stalled pc \<Longrightarrow> \<forall>op \<in> set ops. \<not> feeds op \<Longrightarrow> pc_notified (fold pipe_step ops pc) = pc_notified pc"
  by (induction ops arbitrary: pc) (simp_all add: stalled_step)

text \<open>C34: a cancel after everything asked for has arrived blocks the connection.  When as many bytes were received
  as requested and a request that is not in the queue is cancelled, the byte counters cross; from then on no
  request is written, whatever is requested, rejected or cancelled and even when the peer unchokes again, until a
  piece arrives or the peer chokes.\<close>

theorem cancel_stalls_pipeline:
  assumes "pc_requested pc = pc_received pc" "pc_received pc < 2 ^ 63" "0 < n" "n \<le> pc_received pc"
    and "(i, b, n) \<notin> set (pc_pending pc)"
    and "\<forall>op \<in> set ops. \<not> feeds op"
  shows "pc_notified (fold pipe_step ops (send_cancel i b n pc)) = pc_notified pc"
proof -
  have st: "stalled (uncount_request n pc)"
    using assms by (auto simp: stalled_def uncount_request_def)
  then have "send_cancel i b n pc = send_message (triple_body Cancel (to_u32 i, b, n)) (uncount_request n pc)"
    using assms(5) by (simp add: send_cancel_def stalled_flush)
  moreover have "stalled (send_message m (uncount_request n pc))" for m
    using st by (simp add: stalled_def send_message_def)
  ultimately show ?thesis
    using stalled_run [OF _ assms(6), of "send_cancel i b n pc"] by (simp add: send_message_def uncount_request_def)
qed

definition delivered_connection :: PeerConnection where
  "delivered_connection = (new_connection [1] ''a'')\<lparr> pc_peer_is_choking := False, pc_requested := 32768, pc_received := 32768,
    pc_notified := [(1, 0, 16384), (1, 16384, 16384)] \<rparr>"

theorem cancel_stalls_pipeline_witness:
  "pc_notified (fold pipe_step [SendOp True 2 0 16384, UnchokeOp 9, SendOp True 2 16384 16384]
    (send_cancel 1 0 16384 delivered_connection)) = [(1, 0, 16384), (1, 16384, 16384)]"
  using cancel_stalls_pipeline [of delivered_connection 16384 1 0 "[SendOp True 2 0 16384, UnchokeOp 9, SendOp True 2 16384 16384]"]
  by (simp add: delivered_connection_def new_connection_def)

end
