(* ===== verification/PeerManager.thy ===== *)
theory PeerManager
  imports PeerConnection Backoff Krpc
begin

text \<open>
  The peer manager (\<^verbatim>\<open>src/src/PeerManager.cpp\<close>, \<^verbatim>\<open>PeerManager.hpp\<close>): the table of connections and its limits,
  bans, the fail cache, upload slots and the peer exchange messages.

  Connections are shared objects: \<open>mg_store\<close> maps handles to connections and the other fields hold handles, so
  a connection that left the table can still be used by who holds its handle.  The fail cache is global to
  the program and a separate argument.  The clock is a parameter, as are the random draws and the order in
  which \<^verbatim>\<open>std::sort\<close> leaves equal elements.  Iterating an \<^verbatim>\<open>unordered_set\<close> goes through the list.

  Lemmas: in every reachable state the limits hold and no connection comes from a banned address; a pass of
  the choke loop serves the best peers within its slots; a snubbing peer can be unchoked again.
\<close>

subsection \<open>Definitions: state\<close>

record BannedPeer =
  bp_ip :: string
  bp_ban_time :: int
  bp_expiry_time :: int

record PeerMisbehavior =
  corrupt_pieces :: nat
  protocol_violations :: nat
  timeouts :: nat
  connection_failures :: nat

definition no_misbehavior :: PeerMisbehavior where
  "no_misbehavior = \<lparr> corrupt_pieces = 0, protocol_violations = 0, timeouts = 0, connection_failures = 0 \<rparr>"

definition has_exceeded_thresholds :: "PeerMisbehavior \<Rightarrow> bool" where
  "has_exceeded_thresholds m \<longleftrightarrow> 3 \<le> corrupt_pieces m \<or> 5 \<le> protocol_violations m \<or> 10 \<le> timeouts m \<or> 10 \<le> connection_failures m"

type_synonym handle = nat

record PeerManager =
  mg_store :: "(handle \<times> PeerConnection) list"
  mg_active :: "(PeerId \<times> handle) list"
  mg_active_peers :: "endpoint list"
  mg_discovered_peers :: "endpoint list"
  mg_dropped_peers :: "endpoint list"
  mg_choke_counter :: nat
  mg_choke_poke :: bool
  mg_optimistic :: "handle option"
  mg_max_total :: nat
  mg_max_per_ip :: nat
  mg_max_half_open :: nat
  mg_half_open :: nat
  mg_backoff :: "(string \<times> BackoffState) list"
  mg_banned :: "(string \<times> BannedPeer) list"
  mg_misbehavior :: "(string \<times> PeerMisbehavior) list"
  mg_shutting_down :: bool

record FailCache =
  fc_until :: "(string \<times> int) list"
  fc_count :: "(string \<times> int) list"

definition kUnchokeSlots :: nat where "kUnchokeSlots = 12"

definition new_peer_manager :: PeerManager where
  "new_peer_manager =
    \<lparr> mg_store = [], mg_active = [], mg_active_peers = [], mg_discovered_peers = [], mg_dropped_peers = [], mg_choke_counter = 0,
      mg_choke_poke = False, mg_optimistic = None, mg_max_total = 500, mg_max_per_ip = 4, mg_max_half_open = 500, mg_half_open = 0,
      mg_backoff = [], mg_banned = [], mg_misbehavior = [], mg_shutting_down = False \<rparr>"

subsection \<open>Definitions: the table of connections\<close>

definition conn_at :: "PeerManager \<Rightarrow> handle \<Rightarrow> PeerConnection" where
  "conn_at mg h = (case map_of (mg_store mg) h of None \<Rightarrow> new_connection [] [] | Some pc \<Rightarrow> pc)"

definition on_conn :: "handle \<Rightarrow> (PeerConnection \<Rightarrow> PeerConnection) \<Rightarrow> PeerManager \<Rightarrow> PeerManager" where
  "on_conn h f mg = mg\<lparr> mg_store := map_assign h (f (conn_at mg h)) (mg_store mg) \<rparr>"

definition extract_ip_from_addr :: "string \<Rightarrow> string" where
  "extract_ip_from_addr addr = (if CHR '':'' \<in> set addr then rev (tl (dropWhile (\<lambda>c. c \<noteq> CHR '':'') (rev addr))) else addr)"

definition conn_ip :: "PeerManager \<Rightarrow> handle \<Rightarrow> string" where
  "conn_ip mg h = extract_ip_from_addr (pc_peer_addr (conn_at mg h))"

definition get_connection :: "PeerManager \<Rightarrow> PeerId \<Rightarrow> handle option" where
  "get_connection mg pid = map_of (mg_active mg) pid"

definition get_all_connections :: "PeerManager \<Rightarrow> handle list" where
  "get_all_connections mg = map snd (mg_active mg)"

definition remove_connection :: "PeerId \<Rightarrow> handle option \<Rightarrow> PeerManager \<Rightarrow> PeerManager" where
  "remove_connection pid conn mg =
    (if conn \<noteq> None \<and> map_of (mg_active mg) pid \<noteq> conn then mg else mg\<lparr> mg_active := map_erase pid (mg_active mg) \<rparr>)"

definition remove_all_connections :: "PeerManager \<Rightarrow> PeerManager" where
  "remove_all_connections mg = mg\<lparr> mg_active := [] \<rparr>"

definition close_peer :: "PeerId \<Rightarrow> PeerManager \<Rightarrow> PeerManager" where
  "close_peer pid mg = (case map_of (mg_active mg) pid of None \<Rightarrow> mg | Some h \<Rightarrow> on_conn h pc_close mg)"

definition close_all :: "PeerManager \<Rightarrow> PeerManager" where
  "close_all mg = fold (\<lambda>h. on_conn h pc_close) (get_all_connections mg) mg"

definition contains_peer :: "PeerManager \<Rightarrow> PeerId \<Rightarrow> bool" where
  "contains_peer mg pid \<longleftrightarrow> map_of (mg_active mg) pid \<noteq> None"

definition contains_peer_addr :: "PeerManager \<Rightarrow> string \<Rightarrow> bool" where
  "contains_peer_addr mg addr = list_ex (\<lambda>h. pc_peer_addr (conn_at mg h) = addr) (get_all_connections mg)"

definition contains_peer_ip :: "PeerManager \<Rightarrow> string \<Rightarrow> bool" where
  "contains_peer_ip mg ip = list_ex (\<lambda>h. conn_ip mg h = ip) (get_all_connections mg)"

definition connection_count :: "PeerManager \<Rightarrow> nat" where
  "connection_count mg = length (mg_active mg)"

definition release_half_open :: "PeerManager \<Rightarrow> PeerManager" where
  "release_half_open mg = mg\<lparr> mg_half_open := mg_half_open mg - 1 \<rparr>"

definition add_active_peer :: "endpoint \<Rightarrow> PeerManager \<Rightarrow> PeerManager" where
  "add_active_peer ep mg = mg\<lparr> mg_active_peers := List.insert ep (mg_active_peers mg) \<rparr>"

definition add_discovered_peer :: "endpoint \<Rightarrow> PeerManager \<Rightarrow> PeerManager" where
  "add_discovered_peer ep mg = mg\<lparr> mg_discovered_peers := List.insert ep (mg_discovered_peers mg) \<rparr>"

definition remove_active_peer :: "endpoint \<Rightarrow> PeerManager \<Rightarrow> PeerManager" where
  "remove_active_peer ep mg = mg\<lparr> mg_active_peers := removeAll ep (mg_active_peers mg) \<rparr>"

definition remove_discovered_peer :: "endpoint \<Rightarrow> PeerManager \<Rightarrow> PeerManager" where
  "remove_discovered_peer ep mg = mg\<lparr> mg_discovered_peers := removeAll ep (mg_discovered_peers mg) \<rparr>"

definition add_dropped_peer :: "endpoint \<Rightarrow> PeerManager \<Rightarrow> PeerManager" where
  "add_dropped_peer ep mg = mg\<lparr> mg_dropped_peers := mg_dropped_peers mg @ [ep] \<rparr>"

definition get_unchoked_peers :: "PeerManager \<Rightarrow> PeerId list" where
  "get_unchoked_peers mg = map fst (filter (\<lambda>(pid, h). \<not> pc_am_choking (conn_at mg h)) (mg_active mg))"

definition unchoked_by_peer_count :: "PeerManager \<Rightarrow> nat" where
  "unchoked_by_peer_count mg = length (filter (\<lambda>h. \<not> pc_peer_is_choking (conn_at mg h)) (get_all_connections mg))"

definition available_peers :: "PeerManager \<Rightarrow> nat \<Rightarrow> handle list" where
  "available_peers mg p =
    filter (\<lambda>h. \<not> pc_peer_is_choking (conn_at mg h) \<and> pc_has_piece (conn_at mg h) p) (get_all_connections mg)"

definition send_have_message_to_all :: "nat \<Rightarrow> PeerManager \<Rightarrow> PeerManager" where
  "send_have_message_to_all p mg = fold (\<lambda>h. on_conn h (send_have p)) (get_all_connections mg) mg"

definition mg_cancel :: "PeerManager \<Rightarrow> PeerManager" where
  "mg_cancel mg = mg\<lparr> mg_shutting_down := True \<rparr>"

definition poke_choke_loop :: "PeerManager \<Rightarrow> PeerManager" where
  "poke_choke_loop mg = mg\<lparr> mg_choke_poke := True \<rparr>"

subsection \<open>Definitions: bans\<close>

definition hour :: int where "hour = 3600 * nanos"

text \<open>Asking removes a ban that has expired.\<close>

definition is_banned :: "int \<Rightarrow> string \<Rightarrow> PeerManager \<Rightarrow> bool \<times> PeerManager" where
  "is_banned now ip mg =
    (case map_of (mg_banned mg) ip of
       None \<Rightarrow> (False, mg)
     | Some bp \<Rightarrow> if bp_expiry_time bp \<le> now then (False, mg\<lparr> mg_banned := map_erase ip (mg_banned mg) \<rparr>) else (True, mg))"

definition ban_peer_by_ip :: "int \<Rightarrow> string \<Rightarrow> PeerManager \<Rightarrow> PeerManager" where
  "ban_peer_by_ip now ip mg =
    (let mg = mg\<lparr> mg_banned := map_assign ip \<lparr> bp_ip = ip, bp_ban_time = now, bp_expiry_time = now + hour \<rparr> (mg_banned mg),
                  mg_misbehavior := map_erase ip (mg_misbehavior mg) \<rparr>;
         to_remove = filter (\<lambda>(pid, h). conn_ip mg h = ip) (mg_active mg);
         mg = fold (\<lambda>(pid, h). on_conn h pc_close) to_remove mg
     in fold (\<lambda>(pid, h) mg. mg\<lparr> mg_active := map_erase pid (mg_active mg) \<rparr>) to_remove mg)"

definition misbehavior_of :: "string \<Rightarrow> PeerManager \<Rightarrow> PeerMisbehavior" where
  "misbehavior_of ip mg = (case map_of (mg_misbehavior mg) ip of None \<Rightarrow> no_misbehavior | Some m \<Rightarrow> m)"

text \<open>The common body of the reports: count, compare with the thresholds, ban.\<close>

definition report_misbehavior :: "int \<Rightarrow> (PeerMisbehavior \<Rightarrow> PeerMisbehavior) \<Rightarrow> string \<Rightarrow> PeerManager \<Rightarrow> PeerManager" where
  "report_misbehavior now f addr mg =
    (let ip = extract_ip_from_addr addr;
         m = f (misbehavior_of ip mg);
         mg = mg\<lparr> mg_misbehavior := map_assign ip m (mg_misbehavior mg) \<rparr>
     in if has_exceeded_thresholds m then ban_peer_by_ip now ip mg else mg)"

definition report_corrupt_piece :: "int \<Rightarrow> string \<Rightarrow> PeerManager \<Rightarrow> PeerManager" where
  "report_corrupt_piece now = report_misbehavior now (\<lambda>m. m\<lparr> corrupt_pieces := to_u32 (corrupt_pieces m + 1) \<rparr>)"

definition report_protocol_violation :: "int \<Rightarrow> string \<Rightarrow> PeerManager \<Rightarrow> PeerManager" where
  "report_protocol_violation now = report_misbehavior now (\<lambda>m. m\<lparr> protocol_violations := to_u32 (protocol_violations m + 1) \<rparr>)"

definition report_timeout :: "int \<Rightarrow> string \<Rightarrow> PeerManager \<Rightarrow> PeerManager" where
  "report_timeout now = report_misbehavior now (\<lambda>m. m\<lparr> timeouts := to_u32 (timeouts m + 1) \<rparr>)"

text \<open>One round of \<^verbatim>\<open>ban_cleanup_loop\<close>.\<close>

definition ban_cleanup :: "int \<Rightarrow> PeerManager \<Rightarrow> PeerManager" where
  "ban_cleanup now mg = mg\<lparr> mg_banned := filter (\<lambda>(ip, bp). \<not> bp_expiry_time bp \<le> now) (mg_banned mg) \<rparr>"

subsection \<open>Definitions: new connections\<close>

text \<open>The connection with the smallest rate, the first in key order among equals; a rate of \<open>2\<^sup>6\<^sup>4 - 1\<close> never counts.\<close>

definition conn_rate :: "PeerConnection \<Rightarrow> nat" where
  "conn_rate pc = to_u64 (pc_bytes_downloaded pc + pc_bytes_uploaded pc)"

definition find_worst_peer_locked :: "PeerManager \<Rightarrow> handle option" where
  "find_worst_peer_locked mg =
    snd (fold (\<lambda>h (min_rate, worst). if conn_rate (conn_at mg h) < min_rate then (conn_rate (conn_at mg h), Some h) else (min_rate, worst))
      (get_all_connections mg) (2 ^ 64 - 1, None))"

definition close_conn :: "handle \<Rightarrow> PeerManager \<Rightarrow> PeerManager" where
  "close_conn h = on_conn h pc_close"

text \<open>Room for one more connection: when the table is full, the worst peer is dropped.\<close>

definition make_room :: "PeerManager \<Rightarrow> PeerManager option" where
  "make_room mg =
    (if mg_max_total mg \<le> length (mg_active mg)
     then (case find_worst_peer_locked mg of
             Some worst \<Rightarrow> Some ((close_conn worst mg)\<lparr> mg_active := map_erase (pc_peer_id (conn_at mg worst)) (mg_active mg) \<rparr>)
           | None \<Rightarrow> None)
     else Some mg)"

definition add_connection :: "int \<Rightarrow> PeerId \<Rightarrow> handle \<Rightarrow> PeerManager \<Rightarrow> bool \<times> PeerManager" where
  "add_connection now pid conn mg =
    (let ip = conn_ip mg conn; (banned, mg) = is_banned now ip mg
     in if banned then (False, close_conn conn mg)
        else if mg_shutting_down mg then (False, close_conn conn mg)
        else let mg = release_half_open mg
             in if mg_max_per_ip mg \<le> length (filter (\<lambda>h. conn_ip mg h = ip) (get_all_connections mg)) then (False, close_conn conn mg)
                else (case make_room mg of
                        None \<Rightarrow> (False, close_conn conn mg)
                      | Some mg \<Rightarrow> let mg = close_peer pid mg in (True, mg\<lparr> mg_active := map_assign pid conn (mg_active mg) \<rparr>)))"

definition report_connection_success :: "int \<Rightarrow> string \<Rightarrow> FailCache \<times> PeerManager \<Rightarrow> FailCache \<times> PeerManager" where
  "report_connection_success now addr s =
    (case s of (fc, mg) \<Rightarrow>
      (fc\<lparr> fc_until := map_erase addr (fc_until fc), fc_count := map_erase addr (fc_count fc) \<rparr>,
       mg\<lparr> mg_backoff := map_assign addr (on_success now (case map_of (mg_backoff mg) addr of None \<Rightarrow> new_backoff | Some b \<Rightarrow> b)) (mg_backoff mg) \<rparr>))"

definition fail_delay :: "int \<Rightarrow> int" where
  "fail_delay k = min (5 * 2 ^ nat (min k 5)) 120 * nanos"

text \<open>\<open>None\<close> when the back-off's shift is undefined.\<close>

definition report_connection_failure :: "int \<Rightarrow> string \<Rightarrow> FailCache \<times> PeerManager \<Rightarrow> (FailCache \<times> PeerManager) option" where
  "report_connection_failure now addr s =
    (case s of (fc, mg) \<Rightarrow>
      let k = (case map_of (fc_count fc) addr of None \<Rightarrow> 0 | Some k \<Rightarrow> k) + 1;
          fc = fc\<lparr> fc_count := map_assign addr k (fc_count fc), fc_until := map_assign addr (now + fail_delay k) (fc_until fc) \<rparr>
      in (case on_failure now kDefaultInitialDelay (case map_of (mg_backoff mg) addr of None \<Rightarrow> new_backoff | Some b \<Rightarrow> b) of
            None \<Rightarrow> None
          | Some b \<Rightarrow>
              Some (fc, report_misbehavior now (\<lambda>m. m\<lparr> connection_failures := to_u32 (connection_failures m + 1) \<rparr>) addr
                (mg\<lparr> mg_backoff := map_assign addr b (mg_backoff mg) \<rparr>))))"

subsection \<open>Definitions: connecting\<close>

text \<open>What \<^verbatim>\<open>connect_to_peer\<close> decides before it opens a socket.  \<open>ConnectWait\<close> is a turn of the loop that waits for
  a half-open slot.\<close>

datatype connect_gate = ConnectSkip | ConnectWait | ConnectStart

definition in_fail_cache :: "int \<Rightarrow> string \<Rightarrow> FailCache \<Rightarrow> bool \<times> FailCache" where
  "in_fail_cache now addr fc =
    (case map_of (fc_until fc) addr of
       None \<Rightarrow> (False, fc)
     | Some until \<Rightarrow> if now < until then (True, fc) else (False, fc\<lparr> fc_until := map_erase addr (fc_until fc) \<rparr>))"

definition in_backoff :: "int \<Rightarrow> string \<Rightarrow> PeerManager \<Rightarrow> bool \<times> PeerManager" where
  "in_backoff now addr mg =
    (case map_of (mg_backoff mg) addr of
       None \<Rightarrow> (False, mg)
     | Some b \<Rightarrow>
         let b = snd (check_and_reset_if_idle now b)
         in (is_in_backoff now b, mg\<lparr> mg_backoff := map_assign addr b (mg_backoff mg) \<rparr>))"

definition half_open_slot :: "PeerManager \<Rightarrow> connect_gate \<times> PeerManager" where
  "half_open_slot mg =
    (if mg_max_half_open mg \<le> mg_half_open mg then (if mg_shutting_down mg then ConnectSkip else ConnectWait, mg)
     else (ConnectStart, mg\<lparr> mg_half_open := mg_half_open mg + 1 \<rparr>))"

definition connect_gate_check :: "int \<Rightarrow> string \<Rightarrow> FailCache \<times> PeerManager \<Rightarrow> connect_gate \<times> FailCache \<times> PeerManager" where
  "connect_gate_check now addr s =
    (case s of (fc, mg) \<Rightarrow>
      if mg_shutting_down mg then (ConnectSkip, fc, mg)
      else let (failed, fc) = in_fail_cache now addr fc
           in if failed then (ConnectSkip, fc, mg)
              else let (waiting, mg) = in_backoff now addr mg
                   in if waiting then (ConnectSkip, fc, mg)
                      else let (banned, mg) = is_banned now (extract_ip_from_addr addr) mg
                           in if banned \<or> mg_max_half_open mg = 0 then (ConnectSkip, fc, mg)
                              else let (gate, mg) = half_open_slot mg in (gate, fc, mg))"

text \<open>What happened to the attempt: the address had no colon or no port (\<open>BadAddress\<close>), or the network
  answered.  \<open>stopping\<close> is the value of the shutdown flag when the attempt ends.\<close>

datatype connect_outcome = BadAddress | ResolveFailed | ConnectFailed | Connected

definition connect_finish :: "int \<Rightarrow> string \<Rightarrow> connect_outcome \<Rightarrow> FailCache \<times> PeerManager \<Rightarrow> (bool \<times> FailCache \<times> PeerManager) option" where
  "connect_finish now addr outcome s =
    (case s of (fc, mg) \<Rightarrow>
      case outcome of
        Connected \<Rightarrow>
          if mg_shutting_down mg then Some (False, fc, release_half_open mg)
          else Some (True, report_connection_success now addr s)
      | ResolveFailed \<Rightarrow> Some (False, fc, release_half_open mg)
      | ConnectFailed \<Rightarrow>
          if mg_shutting_down mg then Some (False, fc, release_half_open mg)
          else map_option (Pair False) (report_connection_failure now addr (fc, release_half_open mg))
      | BadAddress \<Rightarrow> map_option (Pair False) (report_connection_failure now addr (fc, release_half_open mg)))"

subsection \<open>Definitions: upload slots\<close>

definition snubbing :: "int \<Rightarrow> PeerConnection \<Rightarrow> bool" where
  "snubbing now pc \<longleftrightarrow> pc_last_data_received pc \<noteq> 0 \<and> 60 * nanos < now - pc_last_data_received pc"

definition send_choke :: "bool \<Rightarrow> PeerConnection \<Rightarrow> PeerConnection" where
  "send_choke choke pc = (send_simple_message (if choke then Choke else Unchoke) pc)\<lparr> pc_am_choking := choke \<rparr>"

text \<open>The first loop: interested peers, without those that get choked for snubbing us.\<close>

definition collect_interested :: "int \<Rightarrow> handle \<Rightarrow> handle list \<times> PeerManager \<Rightarrow> handle list \<times> PeerManager" where
  "collect_interested now h s =
    (case s of (interested, mg) \<Rightarrow>
      let pc = conn_at mg h
      in if \<not> pc_peer_is_interested pc then s
         else if \<not> pc_am_choking pc \<and> snubbing now pc then (interested, on_conn h (send_choke True) mg)
         else (interested @ [h], mg))"

definition regular_unchokes :: "int \<Rightarrow> PeerManager \<Rightarrow> handle list \<Rightarrow> handle list" where
  "regular_unchokes now mg interested = take (kUnchokeSlots - 1) (filter (\<lambda>h. \<not> snubbing now (conn_at mg h)) interested)"

abbreviation conn_id :: "PeerManager \<Rightarrow> handle \<Rightarrow> PeerId" where
  "conn_id mg h \<equiv> pc_peer_id (conn_at mg h)"

definition among :: "PeerManager \<Rightarrow> handle \<Rightarrow> handle list \<Rightarrow> bool" where
  "among mg h hs = list_ex (\<lambda>h'. conn_id mg h' = conn_id mg h) hs"

definition optimistic_unchoke :: "int \<Rightarrow> (nat \<Rightarrow> nat) \<Rightarrow> handle list \<Rightarrow> handle list \<Rightarrow> PeerManager \<Rightarrow> handle list \<times> PeerManager" where
  "optimistic_unchoke now draw interested to_unchoke mg =
    (if mg_choke_counter mg mod 3 = 0 then
       let mg = (case mg_optimistic mg of
                   None \<Rightarrow> mg
                 | Some opt \<Rightarrow>
                     if \<not> among mg opt to_unchoke \<and> \<not> pc_am_choking (conn_at mg opt) then on_conn opt (send_choke True) mg else mg);
           candidates = filter (\<lambda>h. \<not> snubbing now (conn_at mg h) \<and> pc_am_choking (conn_at mg h)) interested
       in if candidates = [] then (to_unchoke, mg)
          else let opt = candidates ! draw (length candidates) in (to_unchoke @ [opt], mg\<lparr> mg_optimistic := Some opt \<rparr>)
     else (case mg_optimistic mg of
             None \<Rightarrow> (to_unchoke, mg)
           | Some opt \<Rightarrow> if among mg opt interested then (to_unchoke @ [opt], mg) else (to_unchoke, mg\<lparr> mg_optimistic := None \<rparr>)))"

definition apply_choke :: "handle list \<Rightarrow> handle \<Rightarrow> PeerManager \<Rightarrow> PeerManager" where
  "apply_choke to_unchoke h mg =
    (if among mg h to_unchoke then (if pc_am_choking (conn_at mg h) then on_conn h (send_choke False) mg else mg)
     else (if pc_am_choking (conn_at mg h) then mg else on_conn h (send_choke True) mg))"

definition reset_rates :: "PeerConnection \<Rightarrow> PeerConnection" where
  "reset_rates pc = pc\<lparr> pc_bytes_uploaded := 0, pc_bytes_downloaded := 0 \<rparr>"

definition slot_rate :: "bool \<Rightarrow> PeerConnection \<Rightarrow> nat" where
  "slot_rate is_seed pc = (if is_seed then pc_bytes_uploaded pc else pc_bytes_downloaded pc)"

definition start_pass :: "PeerManager \<Rightarrow> PeerManager" where
  "start_pass mg = mg\<lparr> mg_choke_poke := False, mg_choke_counter := mg_choke_counter mg + 1 \<rparr>"

text \<open>One pass of \<^verbatim>\<open>choke_loop\<close>.  \<open>by_rate f hs\<close> is \<^verbatim>\<open>std::sort\<close> by decreasing \<open>f\<close>, \<open>draw n\<close> a uniform number below
  \<open>n\<close>.\<close>

definition choke_pass ::
  "int \<Rightarrow> bool \<Rightarrow> ((handle \<Rightarrow> nat) \<Rightarrow> handle list \<Rightarrow> handle list) \<Rightarrow> (nat \<Rightarrow> nat) \<Rightarrow> PeerManager \<Rightarrow> PeerManager" where
  "choke_pass now is_seed by_rate draw mg =
    (let mg = start_pass mg;
         all_peers = get_all_connections mg;
         (interested, mg) = fold (collect_interested now) all_peers ([], mg)
     in if interested = [] then mg
        else let interested = by_rate (\<lambda>h. slot_rate is_seed (conn_at mg h)) interested;
                 (to_unchoke, mg) = optimistic_unchoke now draw interested (regular_unchokes now mg interested) mg;
                 mg = fold (apply_choke to_unchoke) interested mg
             in fold (\<lambda>h. on_conn h reset_rates) all_peers mg)"

subsection \<open>Definitions: peer exchange\<close>

definition compact_endpoint :: "endpoint \<Rightarrow> string option" where
  "compact_endpoint ep =
    (case to_v4 (fst ep) of None \<Rightarrow> None | Some ep_bytes \<Rightarrow> Some (string_of_bytes ep_bytes @ string_of_bytes (put16 (snd ep))))"

text \<open>The loop ends when it has counted more peers than \<open>max_peers\<close>.\<close>

definition populate_added :: "nat \<Rightarrow> PeerManager \<Rightarrow> string option" where
  "populate_added max_peers mg =
    map_option concat (those (map compact_endpoint (take (Suc max_peers) (mg_active_peers mg))))"

definition populate_dropped :: "PeerManager \<Rightarrow> string option \<times> PeerManager" where
  "populate_dropped mg = (map_option concat (those (map compact_endpoint (mg_dropped_peers mg))), mg\<lparr> mg_dropped_peers := [] \<rparr>)"

definition pex_dict :: "string \<Rightarrow> string \<Rightarrow> (string \<times> Value) list" where
  "pex_dict added dropped =
    (if added = [] then [] else [(''added'', String added)]) @ (if dropped = [] then [] else [(''dropped'', String dropped)])"

text \<open>One round of \<^verbatim>\<open>pex_loop\<close>; \<open>None\<close> when an address is not version 4 (the exception ends the loop).\<close>

definition pex_round :: "PeerManager \<Rightarrow> PeerManager option" where
  "pex_round mg =
    (case populate_added 50 mg of
       None \<Rightarrow> None
     | Some added \<Rightarrow>
         (case populate_dropped mg of
            (None, mg) \<Rightarrow> None
          | (Some dropped, mg) \<Rightarrow>
              Some (if pex_dict added dropped = [] then mg
                else fold (\<lambda>h mg. if supported_pex (conn_at mg h)
                      then on_conn h (send_extended_message (unat (extended_code ut_pex)) (bytes_of_string (encode (Dict (pex_dict added dropped))))) mg else mg)
                    (get_all_connections mg) mg)))"

subsection \<open>The table under updates of connections\<close>

lemma conn_at_on_conn [simp]: "conn_at (on_conn h f mg) h' = (if h' = h then f (conn_at mg h) else conn_at mg h')"
  by (auto simp: conn_at_def on_conn_def map_simps)

lemma on_conn_simps [simp]:
  "mg_active (on_conn h f mg) = mg_active mg" "mg_max_total (on_conn h f mg) = mg_max_total mg"
  "mg_max_per_ip (on_conn h f mg) = mg_max_per_ip mg" "mg_banned (on_conn h f mg) = mg_banned mg"
  "mg_shutting_down (on_conn h f mg) = mg_shutting_down mg"
  "mg_optimistic (on_conn h f mg) = mg_optimistic mg" "mg_choke_counter (on_conn h f mg) = mg_choke_counter mg"
  by (simp_all add: on_conn_def)

lemma conn_at_active [simp]: "conn_at (mg\<lparr> mg_active := a \<rparr>) h = conn_at mg h" "conn_ip (mg\<lparr> mg_active := a \<rparr>) h = conn_ip mg h"
  by (simp_all add: conn_at_def conn_ip_def)

definition keeps_identity :: "(PeerConnection \<Rightarrow> PeerConnection) \<Rightarrow> bool" where
  "keeps_identity f \<longleftrightarrow> (\<forall>pc. pc_peer_id (f pc) = pc_peer_id pc \<and> pc_peer_addr (f pc) = pc_peer_addr pc)"

lemma keeps_identity_ops [simp]:
  "keeps_identity pc_close" "keeps_identity (send_choke c)" "keeps_identity reset_rates" "keeps_identity (send_have p)"
  "keeps_identity (send_message m)"
  by (simp_all add: keeps_identity_def pc_close_def send_choke_def reset_rates_def send_have_def send_message_def send_simple_message_def)

text \<open>Nothing that the limits and the bans depend on has changed.\<close>

definition same_table :: "PeerManager \<Rightarrow> PeerManager \<Rightarrow> bool" where
  "same_table mg mg' \<longleftrightarrow> mg_active mg' = mg_active mg \<and> mg_max_total mg' = mg_max_total mg \<and> mg_max_per_ip mg' = mg_max_per_ip mg \<and>
    mg_banned mg' = mg_banned mg \<and> (\<forall>h. conn_id mg' h = conn_id mg h \<and> conn_ip mg' h = conn_ip mg h)"

lemma same_table_refl [simp]: "same_table mg mg"
  by (simp add: same_table_def)

lemma same_table_trans: "same_table a b \<Longrightarrow> same_table b c \<Longrightarrow> same_table a c"
  by (simp add: same_table_def)

lemma same_table_on_conn: "keeps_identity f \<Longrightarrow> same_table mg (on_conn h f mg)"
  by (simp add: same_table_def keeps_identity_def conn_ip_def)

lemma same_table_fold: "(\<And>x mg. same_table mg (f x mg)) \<Longrightarrow> same_table mg (fold f xs mg)"
  by (induction xs arbitrary: mg) (auto intro: same_table_trans)

lemma same_table_frame:
  "same_table mg (mg\<lparr> mg_choke_poke := a \<rparr>)" "same_table mg (mg\<lparr> mg_choke_counter := b \<rparr>)" "same_table mg (mg\<lparr> mg_optimistic := c \<rparr>)"
  "same_table mg (mg\<lparr> mg_half_open := d \<rparr>)" "same_table mg (mg\<lparr> mg_misbehavior := e \<rparr>)" "same_table mg (mg\<lparr> mg_backoff := k \<rparr>)"
  by (simp_all add: same_table_def conn_ip_def conn_at_def)

subsection \<open>The invariant\<close>

definition ip_count :: "string \<Rightarrow> PeerManager \<Rightarrow> nat" where
  "ip_count ip mg = length (filter (\<lambda>h. conn_ip mg h = ip) (get_all_connections mg))"

definition banned_at :: "int \<Rightarrow> string \<Rightarrow> PeerManager \<Rightarrow> bool" where
  "banned_at now ip mg \<longleftrightarrow> (\<exists>bp. map_of (mg_banned mg) ip = Some bp \<and> now < bp_expiry_time bp)"

definition mg_inv :: "int \<times> PeerManager \<Rightarrow> bool" where
  "mg_inv s = (case s of (now, mg) \<Rightarrow>
    sorted_keys (mg_active mg) \<and> sorted_keys (mg_banned mg) \<and> (\<forall>(pid, h) \<in> set (mg_active mg). conn_id mg h = pid \<and> \<not> banned_at now (conn_ip mg h) mg) \<and>
    length (mg_active mg) \<le> mg_max_total mg \<and> (\<forall>ip. ip_count ip mg \<le> mg_max_per_ip mg))"

lemma mg_inv_same_table: "same_table mg mg' \<Longrightarrow> mg_inv (now, mg) \<Longrightarrow> mg_inv (now, mg')"
  by (simp add: mg_inv_def same_table_def ip_count_def banned_at_def get_all_connections_def)

lemma length_filter_filter: "length (filter Q (filter P xs)) \<le> length (filter Q xs)"
  by (induction xs) auto

lemma ip_count_filter: "mg_active mg' = filter P (mg_active mg) \<Longrightarrow> (\<And>h. conn_ip mg' h = conn_ip mg h) \<Longrightarrow> ip_count ip mg' \<le> ip_count ip mg"
  using length_filter_filter [of "\<lambda>x. conn_ip mg (snd x) = ip" P "mg_active mg"]
  by (simp add: ip_count_def get_all_connections_def filter_map o_def)

text \<open>Removing connections, or letting time pass, keeps the invariant.\<close>

lemma mg_inv_fewer:
  assumes "mg_inv (now, mg)" "mg_active mg' = filter P (mg_active mg)" "now \<le> now'" "mg_max_total mg' = mg_max_total mg"
    "mg_max_per_ip mg' = mg_max_per_ip mg" "\<And>h. conn_id mg' h = conn_id mg h" "\<And>h. conn_ip mg' h = conn_ip mg h" "sorted_keys (mg_banned mg')"
    and "\<And>pid h. (pid, h) \<in> set (mg_active mg) \<Longrightarrow> P (pid, h) \<Longrightarrow> \<not> banned_at now (conn_ip mg h) mg \<Longrightarrow> \<not> banned_at now' (conn_ip mg h) mg'"
  shows "mg_inv (now', mg')"
proof -
  have "length (filter P (mg_active mg)) \<le> mg_max_total mg"
    using assms(1) le_trans [OF length_filter_le] by (auto simp: mg_inv_def)
  moreover have "ip_count ip mg' \<le> mg_max_per_ip mg" for ip
    using le_trans [OF ip_count_filter [OF assms(2,7)]] assms(1) by (auto simp: mg_inv_def)
  moreover have "sorted_keys (filter P (mg_active mg))"
    using assms(1) by (simp add: mg_inv_def sorted_keys_def sorted_wrt_filter sorted_wrt_map)
  moreover have "\<forall>(pid, h) \<in> set (mg_active mg'). conn_id mg' h = pid \<and> \<not> banned_at now' (conn_ip mg' h) mg'"
    using assms by (auto simp: mg_inv_def)
  ultimately show ?thesis
    using assms by (simp add: mg_inv_def)
qed

lemma is_banned_fst: "sorted_keys (mg_banned mg) \<Longrightarrow> fst (is_banned now ip mg) \<longleftrightarrow> banned_at now ip mg"
  by (auto simp: is_banned_def banned_at_def split: option.split)

lemma is_banned_table:
  "mg_active (snd (is_banned now ip mg)) = mg_active mg" "mg_max_total (snd (is_banned now ip mg)) = mg_max_total mg"
  "mg_max_per_ip (snd (is_banned now ip mg)) = mg_max_per_ip mg" "conn_at (snd (is_banned now ip mg)) h = conn_at mg h"
  "conn_ip (snd (is_banned now ip mg)) h = conn_ip mg h"
  by (auto simp: is_banned_def conn_at_def conn_ip_def split: option.split)

lemma mg_inv_is_banned: "mg_inv (now, mg) \<Longrightarrow> mg_inv (now, snd (is_banned now ip mg))"
proof (rule mg_inv_fewer [where mg = mg and now = now and P = "\<lambda>x. True"])
  assume "mg_inv (now, mg)"
  then show "sorted_keys (mg_banned (snd (is_banned now ip mg)))"
    by (auto simp: mg_inv_def is_banned_def split: option.split)
  show "\<not> banned_at now (conn_ip mg h) (snd (is_banned now ip mg))" if "\<not> banned_at now (conn_ip mg h) mg" for h
    using that by (auto simp: is_banned_def banned_at_def map_simps split: option.split if_splits)
qed (simp_all add: is_banned_table)

lemma fold_erase:
  "fold (\<lambda>(pid, h) mg. mg\<lparr> mg_active := map_erase pid (mg_active mg) \<rparr>) xs mg = mg\<lparr> mg_active := filter (\<lambda>e. fst e \<notin> fst ` set xs) (mg_active mg) \<rparr>"
proof (induction xs arbitrary: mg)
  case (Cons x xs)
  have "filter (\<lambda>e. fst e \<notin> fst ` set xs) (map_erase (fst x) (mg_active mg)) = filter (\<lambda>e. fst e \<notin> fst ` set (x # xs)) (mg_active mg)"
    by (auto simp: map_erase_def intro: filter_cong)
  then show ?case
    using Cons.IH [of "mg\<lparr> mg_active := map_erase (fst x) (mg_active mg) \<rparr>"] by (simp add: case_prod_beta)
qed simp

lemma filter_keys: "distinct (map fst m) \<Longrightarrow> filter (\<lambda>e. fst e \<notin> fst ` set (filter Q m)) m = filter (\<lambda>e. \<not> Q e) m"
  by (rule filter_cong) (auto simp: distinct_map inj_on_def)

lemma ban_effect:
  assumes "sorted_keys (mg_active mg)"
  shows "mg_active (ban_peer_by_ip now ip mg) = filter (\<lambda>x. conn_ip mg (snd x) \<noteq> ip) (mg_active mg)"
    "mg_max_total (ban_peer_by_ip now ip mg) = mg_max_total mg" "mg_max_per_ip (ban_peer_by_ip now ip mg) = mg_max_per_ip mg"
    "conn_id (ban_peer_by_ip now ip mg) h = conn_id mg h" "conn_ip (ban_peer_by_ip now ip mg) h = conn_ip mg h"
    "mg_banned (ban_peer_by_ip now ip mg) = map_assign ip \<lparr> bp_ip = ip, bp_ban_time = now, bp_expiry_time = now + hour \<rparr> (mg_banned mg)"
proof -
  define mg1 where "mg1 = mg\<lparr> mg_banned := map_assign ip \<lparr> bp_ip = ip, bp_ban_time = now, bp_expiry_time = now + hour \<rparr> (mg_banned mg),
    mg_misbehavior := map_erase ip (mg_misbehavior mg) \<rparr>"
  have ip1: "conn_ip mg1 h = conn_ip mg h" "conn_at mg1 h = conn_at mg h" for h
    by (simp_all add: mg1_def conn_ip_def conn_at_def)
  define dead where "dead = filter (\<lambda>(pid, h). conn_ip mg1 h = ip) (mg_active mg1)"
  define mg2 where "mg2 = fold (\<lambda>(pid, h). on_conn h pc_close) dead mg1"
  have st: "same_table mg1 mg2"
    unfolding mg2_def by (rule same_table_fold) (auto intro: same_table_on_conn)
  have ban: "ban_peer_by_ip now ip mg = mg2\<lparr> mg_active := filter (\<lambda>e. fst e \<notin> fst ` set dead) (mg_active mg2) \<rparr>"
    unfolding ban_peer_by_ip_def Let_def mg1_def [symmetric] dead_def [symmetric] mg2_def [symmetric] by (rule fold_erase)
  have act: "mg_active mg2 = mg_active mg" "mg_active mg1 = mg_active mg"
    using st by (simp_all add: same_table_def mg1_def)
  have dead: "dead = filter (\<lambda>x. conn_ip mg (snd x) = ip) (mg_active mg)"
    by (auto simp: dead_def ip1 act intro: filter_cong)
  show "mg_active (ban_peer_by_ip now ip mg) = filter (\<lambda>x. conn_ip mg (snd x) \<noteq> ip) (mg_active mg)"
    using filter_keys [OF sorted_keys_distinct [OF assms], of "\<lambda>x. conn_ip mg (snd x) = ip"] by (simp add: ban act dead)
  show "mg_max_total (ban_peer_by_ip now ip mg) = mg_max_total mg" "mg_max_per_ip (ban_peer_by_ip now ip mg) = mg_max_per_ip mg"
    "mg_banned (ban_peer_by_ip now ip mg) = map_assign ip \<lparr> bp_ip = ip, bp_ban_time = now, bp_expiry_time = now + hour \<rparr> (mg_banned mg)"
    using st by (simp_all add: ban same_table_def mg1_def)
  have "conn_at (mg2\<lparr> mg_active := a \<rparr>) h = conn_at mg2 h" for a
    by (simp add: conn_at_def)
  then show "conn_id (ban_peer_by_ip now ip mg) h = conn_id mg h" "conn_ip (ban_peer_by_ip now ip mg) h = conn_ip mg h"
    using st ip1 by (simp_all add: ban same_table_def conn_ip_def)
qed

lemma mg_inv_ban: "mg_inv (now, mg) \<Longrightarrow> mg_inv (now, ban_peer_by_ip now ip mg)"
proof -
  assume inv: "mg_inv (now, mg)"
  then have sk: "sorted_keys (mg_active mg)" "sorted_keys (mg_banned mg)"
    by (simp_all add: mg_inv_def)
  show ?thesis
    by (rule mg_inv_fewer [OF inv ban_effect(1) [OF sk(1)]])
      (auto simp: ban_effect [OF sk(1)] sk(2) banned_at_def map_simps)
qed

lemma mg_inv_report: "mg_inv (now, mg) \<Longrightarrow> mg_inv (now, report_misbehavior now f addr mg)"
  by (simp add: report_misbehavior_def Let_def mg_inv_ban mg_inv_same_table [OF same_table_frame(5)])

lemma mg_inv_cleanup: "mg_inv (now, mg) \<Longrightarrow> mg_inv (now, ban_cleanup now mg)"
proof (rule mg_inv_fewer [where mg = mg and now = now and P = "\<lambda>x. True"])
  assume inv: "mg_inv (now, mg)"
  then show sk: "sorted_keys (mg_banned (ban_cleanup now mg))"
    by (simp add: mg_inv_def ban_cleanup_def sorted_keys_def sorted_wrt_filter sorted_wrt_map)
  have d: "distinct (map fst (mg_banned mg))"
    using inv by (simp add: mg_inv_def sorted_keys_distinct)
  have "map_of (mg_banned (ban_cleanup now mg)) ip = Some bp \<Longrightarrow> map_of (mg_banned mg) ip = Some bp" for ip bp
    using d by (auto simp: ban_cleanup_def dest!: map_of_SomeD)
  then show "\<not> banned_at now (conn_ip mg h) (ban_cleanup now mg)" if "\<not> banned_at now (conn_ip mg h) mg" for h
    using that by (auto simp: banned_at_def)
qed (simp_all add: ban_cleanup_def conn_ip_def conn_at_def)

lemma mg_inv_remove: "mg_inv (now, mg) \<Longrightarrow> mg_inv (now, mg\<lparr> mg_active := filter P (mg_active mg) \<rparr>)"
  by (rule mg_inv_fewer [where mg = mg and now = now and P = P])
    (auto simp: conn_ip_def conn_at_def banned_at_def mg_inv_def)

lemma mg_inv_time: "mg_inv (now, mg) \<Longrightarrow> now \<le> now' \<Longrightarrow> mg_inv (now', mg)"
  by (rule mg_inv_fewer [where mg = mg and now = now and P = "\<lambda>x. True"]) (auto simp: banned_at_def mg_inv_def)

lemma length_filter_assign: "length (filter Q (map_assign k v m)) \<le> length (filter Q m) + (if Q (k, v) then 1 else 0)"
  by (induction k v m rule: map_assign.induct) auto

lemma length_assign: "length (map_assign k v m) \<le> Suc (length m)"
  by (induction k v m rule: map_assign.induct) auto

lemma mg_inv_assign:
  assumes inv: "mg_inv (now, mg)" and id: "conn_id mg h = pid" and nb: "\<not> banned_at now (conn_ip mg h) mg"
    and ip: "ip_count (conn_ip mg h) mg < mg_max_per_ip mg" and len: "length (mg_active mg) < mg_max_total mg"
  shows "mg_inv (now, mg\<lparr> mg_active := map_assign pid h (mg_active mg) \<rparr>)"
proof -
  let ?mg = "mg\<lparr> mg_active := map_assign pid h (mg_active mg) \<rparr>"
  have fr: "conn_at ?mg h' = conn_at mg h'" "conn_ip ?mg h' = conn_ip mg h'" "banned_at now a ?mg = banned_at now a mg" for h' a
    by (simp_all add: conn_ip_def conn_at_def banned_at_def)
  have "ip_count a ?mg \<le> mg_max_per_ip mg" for a
  proof -
    have "ip_count a ?mg \<le> ip_count a mg + (if conn_ip mg h = a then 1 else 0)"
      using length_filter_assign [of "\<lambda>x. conn_ip mg (snd x) = a" pid h "mg_active mg"]
      by (simp add: ip_count_def get_all_connections_def filter_map o_def fr(2) split: if_splits)
    then show ?thesis
      using ip inv by (cases "conn_ip mg h = a") (auto simp: mg_inv_def intro: le_trans)
  qed
  moreover have "\<forall>(p, k) \<in> set (map_assign pid h (mg_active mg)). conn_id mg k = p \<and> \<not> banned_at now (conn_ip mg k) mg"
    using set_map_assign [of pid h "mg_active mg"] inv id nb by (fastforce simp: mg_inv_def)
  moreover have "length (map_assign pid h (mg_active mg)) \<le> mg_max_total mg"
    using length_assign [of pid h "mg_active mg"] len by simp
  ultimately show ?thesis
    using inv by (simp add: mg_inv_def fr)
qed

lemma worst_connected: "find_worst_peer_locked mg = Some h \<Longrightarrow> h \<in> set (get_all_connections mg)"
proof -
  have "snd (fold (\<lambda>h (m, w). if conn_rate (conn_at mg h) < m then (conn_rate (conn_at mg h), Some h) else (m, w)) hs (m, w)) = Some h
      \<Longrightarrow> h \<in> set hs \<or> w = Some h" for hs m w
    by (induction hs arbitrary: m w) (auto split: if_splits)
  then show "find_worst_peer_locked mg = Some h \<Longrightarrow> h \<in> set (get_all_connections mg)"
    unfolding find_worst_peer_locked_def by blast
qed

lemma close_conn_same: "same_table mg (close_conn h mg)"
  by (simp add: close_conn_def same_table_on_conn)

lemma close_peer_same: "same_table mg (close_peer pid mg)"
  by (simp add: close_peer_def same_table_on_conn split: option.split)

lemma make_room_inv:
  assumes "mg_inv (now, mg)" "make_room mg = Some mg'"
  shows "mg_inv (now, mg')" "length (mg_active mg') < mg_max_total mg'" "ip_count ip mg' \<le> ip_count ip mg"
    "conn_id mg' h = conn_id mg h" "conn_ip mg' h = conn_ip mg h" "banned_at now ip mg' = banned_at now ip mg" "mg_max_per_ip mg' = mg_max_per_ip mg"
proof -
  consider (room) "length (mg_active mg) < mg_max_total mg" "mg' = mg"
    | (full) w where "find_worst_peer_locked mg = Some w" "mg' = (close_conn w mg)\<lparr> mg_active := map_erase (conn_id mg w) (mg_active mg) \<rparr>"
    using assms(2) unfolding make_room_def
    by (cases "mg_max_total mg \<le> length (mg_active mg)"; cases "find_worst_peer_locked mg") simp_all
  then have "mg_inv (now, mg') \<and> length (mg_active mg') < mg_max_total mg' \<and> ip_count ip mg' \<le> ip_count ip mg \<and>
    conn_id mg' h = conn_id mg h \<and> conn_ip mg' h = conn_ip mg h \<and> banned_at now ip mg' = banned_at now ip mg \<and> mg_max_per_ip mg' = mg_max_per_ip mg"
  proof cases
    case room
    then show ?thesis using assms(1) by simp
  next
    case full
    define mg1 where "mg1 = close_conn w mg"
    have cc: "same_table mg mg1"
      unfolding mg1_def by (rule close_conn_same)
    have mg': "mg' = mg1\<lparr> mg_active := filter (\<lambda>e. fst e \<noteq> conn_id mg w) (mg_active mg1) \<rparr>"
      using cc unfolding full(2) mg1_def [symmetric] by (simp add: map_erase_def same_table_def)
    have act: "mg_active mg' = filter (\<lambda>e. fst e \<noteq> conn_id mg w) (mg_active mg)"
      using cc by (simp add: mg' same_table_def)
    have fr: "conn_id mg' k = conn_id mg k" "conn_ip mg' k = conn_ip mg k" for k
      using cc by (simp_all add: mg' same_table_def)
    have inv: "mg_inv (now, mg')"
      unfolding mg' by (rule mg_inv_remove [OF mg_inv_same_table [OF cc assms(1)]])
    obtain pid where "(pid, w) \<in> set (mg_active mg)"
      using worst_connected [OF full(1)] by (auto simp: get_all_connections_def)
    moreover from this have "conn_id mg w = pid"
      using assms(1) by (auto simp: mg_inv_def)
    ultimately have "length (filter (\<lambda>e. fst e \<noteq> conn_id mg w) (mg_active mg)) < length (mg_active mg)"
      by (intro length_filter_less [of "(pid, w)"]) auto
    then have "length (mg_active mg') < mg_max_total mg'"
      using assms(1) cc by (simp add: act) (simp add: mg' mg_inv_def same_table_def)
    moreover have "ip_count ip mg' \<le> ip_count ip mg"
      by (rule ip_count_filter [OF act fr(2)])
    ultimately show ?thesis
      using inv fr cc by (simp add: mg' same_table_def banned_at_def)
  qed
  then show "mg_inv (now, mg')" "length (mg_active mg') < mg_max_total mg'" "ip_count ip mg' \<le> ip_count ip mg"
    "conn_id mg' h = conn_id mg h" "conn_ip mg' h = conn_ip mg h" "banned_at now ip mg' = banned_at now ip mg" "mg_max_per_ip mg' = mg_max_per_ip mg"
    by blast+
qed

lemma release_half_open_same: "same_table mg (release_half_open mg)"
  by (simp add: release_half_open_def same_table_frame)

lemma mg_inv_add:
  assumes inv: "mg_inv (now, mg)" and id: "conn_id mg h = pid"
  shows "mg_inv (now, snd (add_connection now pid h mg))"
proof -
  define ip where "ip = conn_ip mg h"
  define mg1 where "mg1 = snd (is_banned now ip mg)"
  define mg2 where "mg2 = release_half_open mg1"
  have inv1: "mg_inv (now, mg1)"
    unfolding mg1_def by (rule mg_inv_is_banned [OF inv])
  have st: "same_table mg1 mg2"
    unfolding mg2_def by (rule release_half_open_same)
  note inv2 = mg_inv_same_table [OF st inv1]
  have id2: "conn_id mg2 h = pid" "conn_ip mg2 h = ip"
    using st id by (simp_all add: same_table_def mg1_def is_banned_table ip_def)
  have closed: "mg_inv (now, close_conn h mg')" if "mg_inv (now, mg')" for mg'
    by (rule mg_inv_same_table [OF close_conn_same that])
  have added: "mg_inv (now, (close_peer pid mg3)\<lparr> mg_active := map_assign pid h (mg_active (close_peer pid mg3)) \<rparr>)"
    if nb: "\<not> fst (is_banned now ip mg)" and cnt: "\<not> mg_max_per_ip mg2 \<le> ip_count ip mg2" and room: "make_room mg2 = Some mg3" for mg3
  proof (rule mg_inv_assign)
    note mr = make_room_inv [OF inv2 room]
    have cp: "same_table mg3 (close_peer pid mg3)"
      by (rule close_peer_same)
    have "\<not> banned_at now ip mg"
      using nb is_banned_fst inv by (auto simp: mg_inv_def)
    then have "\<not> banned_at now ip mg2"
      using st by (auto simp: banned_at_def same_table_def mg1_def is_banned_def map_simps split: option.splits if_splits)
    then have "\<not> banned_at now ip mg3"
      by (simp add: mr(6))
    then show "\<not> banned_at now (conn_ip (close_peer pid mg3) h) (close_peer pid mg3)"
      using cp id2 by (simp add: same_table_def banned_at_def mr)
    show "mg_inv (now, close_peer pid mg3)"
      by (rule mg_inv_same_table [OF cp mr(1)])
    show "conn_id (close_peer pid mg3) h = pid"
      using cp id2 by (simp add: same_table_def mr)
    show "length (mg_active (close_peer pid mg3)) < mg_max_total (close_peer pid mg3)"
      using cp mr(2) by (simp add: same_table_def)
    have "ip_count ip (close_peer pid mg3) = ip_count ip mg3"
      using cp by (simp add: same_table_def ip_count_def get_all_connections_def)
    then show "ip_count (conn_ip (close_peer pid mg3) h) (close_peer pid mg3) < mg_max_per_ip (close_peer pid mg3)"
      using cp mr(3) [of ip] cnt id2 by (simp add: same_table_def mr(5,7))
  qed
  have "add_connection now pid h mg =
    (if fst (is_banned now ip mg) then (False, close_conn h mg1)
     else if mg_shutting_down mg1 then (False, close_conn h mg1)
     else if mg_max_per_ip mg2 \<le> ip_count ip mg2 then (False, close_conn h mg2)
     else (case make_room mg2 of None \<Rightarrow> (False, close_conn h mg2)
       | Some mg3 \<Rightarrow> (True, (close_peer pid mg3)\<lparr> mg_active := map_assign pid h (mg_active (close_peer pid mg3)) \<rparr>)))"
    by (simp add: add_connection_def Let_def ip_def [symmetric] mg1_def mg2_def ip_count_def case_prod_beta split: option.split)
  then show ?thesis
    using closed [OF inv1] closed [OF inv2] added by (simp split: option.split)
qed

lemma same_table_collect: "same_table mg (snd (collect_interested now h (l, mg)))"
  by (simp add: collect_interested_def Let_def same_table_on_conn)

lemma same_table_collects: "same_table mg (snd (fold (collect_interested now) hs (l, mg)))"
proof (induction hs arbitrary: l mg)
  case (Cons h hs)
  obtain l1 mg1 where c: "collect_interested now h (l, mg) = (l1, mg1)"
    by (cases "collect_interested now h (l, mg)")
  then have "same_table mg mg1"
    using same_table_collect [of mg now h l] by simp
  then show ?case
    using Cons.IH [where l = l1 and mg = mg1] by (simp add: c same_table_trans)
qed simp

lemma same_table_optimistic: "same_table mg (snd (optimistic_unchoke now draw hs tu mg))"
  by (auto simp: optimistic_unchoke_def Let_def same_table_frame same_table_on_conn split: option.split
      intro: same_table_trans [OF same_table_on_conn same_table_frame(3)])

lemma same_table_choke: "same_table mg (apply_choke tu h mg)"
  by (simp add: apply_choke_def same_table_on_conn)

lemma choke_pass_run:
  obtains (idle) mg1 where "fold (collect_interested now) (get_all_connections (start_pass mg)) ([], start_pass mg) = ([], mg1)"
      "choke_pass now seed by_rate draw mg = mg1"
    | (slots) hs mg1 srt tu mg2 where
      "fold (collect_interested now) (get_all_connections (start_pass mg)) ([], start_pass mg) = (hs, mg1)" "hs \<noteq> []"
      "srt = by_rate (\<lambda>h. slot_rate seed (conn_at mg1 h)) hs"
      "optimistic_unchoke now draw srt (regular_unchokes now mg1 srt) mg1 = (tu, mg2)"
      "choke_pass now seed by_rate draw mg = fold (\<lambda>h. on_conn h reset_rates) (get_all_connections (start_pass mg)) (fold (apply_choke tu) srt mg2)"
proof -
  obtain hs mg1 where 1: "fold (collect_interested now) (get_all_connections (start_pass mg)) ([], start_pass mg) = (hs, mg1)"
    by fastforce
  define srt where "srt = by_rate (\<lambda>h. slot_rate seed (conn_at mg1 h)) hs"
  obtain tu mg2 where 2: "optimistic_unchoke now draw srt (regular_unchokes now mg1 srt) mg1 = (tu, mg2)"
    by fastforce
  have "choke_pass now seed by_rate draw mg = (if hs = [] then mg1
    else fold (\<lambda>h. on_conn h reset_rates) (get_all_connections (start_pass mg)) (fold (apply_choke tu) srt mg2))"
    unfolding choke_pass_def Let_def 1 prod.case srt_def [symmetric] 2 ..
  then show ?thesis
    using 1 2 srt_def idle slots by (cases "hs = []") simp_all
qed

lemma same_table_choke_pass: "same_table mg (choke_pass now seed by_rate draw mg)"
proof -
  have 0: "same_table mg (start_pass mg)"
    unfolding start_pass_def by (rule same_table_trans [OF same_table_frame(1) same_table_frame(2)])
  show ?thesis
  proof (cases rule: choke_pass_run [of now mg seed by_rate draw])
    case (idle mg1)
    then show ?thesis
      using same_table_collects [of "start_pass mg" now "get_all_connections (start_pass mg)" "[]"] same_table_trans [OF 0] by simp
  next
    case (slots hs mg1 srt tu mg2)
    have "same_table (start_pass mg) mg1"
      using same_table_collects [of "start_pass mg" now "get_all_connections (start_pass mg)" "[]"] slots(1) by simp
    moreover have "same_table mg1 mg2"
      using same_table_optimistic [of mg1 now draw srt "regular_unchokes now mg1 srt"] slots(4) by simp
    moreover have "same_table mg2 (fold (\<lambda>h. on_conn h reset_rates) (get_all_connections (start_pass mg)) (fold (apply_choke tu) srt mg2))"
      by (rule same_table_trans [OF same_table_fold same_table_fold]) (simp_all add: same_table_choke same_table_on_conn)
    ultimately show ?thesis
      unfolding slots(5) using 0 same_table_trans by blast
  qed
qed

subsection \<open>Reachable states\<close>

inductive mg_step :: "int \<times> PeerManager \<Rightarrow> int \<times> PeerManager \<Rightarrow> bool" where
  mg_new: "h \<notin> set (get_all_connections mg) \<Longrightarrow> mg_step (now, mg) (now, on_conn h (\<lambda>_. new_connection pid addr) mg)"
| mg_add: "mg_step (now, mg) (now, snd (add_connection now (conn_id mg h) h mg))"
| mg_remove: "mg_step (now, mg) (now, remove_connection pid c mg)"
| mg_remove_all: "mg_step (now, mg) (now, remove_all_connections mg)"
| mg_close: "mg_step (now, mg) (now, close_peer pid mg)"
| mg_close_all: "mg_step (now, mg) (now, close_all mg)"
| mg_use: "keeps_identity f \<Longrightarrow> mg_step (now, mg) (now, on_conn h f mg)"
| mg_have: "mg_step (now, mg) (now, send_have_message_to_all p mg)"
| mg_corrupt: "mg_step (now, mg) (now, report_corrupt_piece now addr mg)"
| mg_violation: "mg_step (now, mg) (now, report_protocol_violation now addr mg)"
| mg_timeout: "mg_step (now, mg) (now, report_timeout now addr mg)"
| mg_ban: "mg_step (now, mg) (now, ban_peer_by_ip now ip mg)"
| mg_unban: "mg_step (now, mg) (now, ban_cleanup now mg)"
| mg_ask: "mg_step (now, mg) (now, snd (is_banned now ip mg))"
| mg_gate: "mg_step (now, mg) (now, snd (snd (connect_gate_check now addr (fc, mg))))"
| mg_finish: "connect_finish now addr outcome (fc, mg) = Some (ok, fc', mg') \<Longrightarrow> mg_step (now, mg) (now, mg')"
| mg_choke: "mg_step (now, mg) (now, choke_pass now seed by_rate draw mg)"
| mg_pex: "pex_round mg = Some mg' \<Longrightarrow> mg_step (now, mg) (now, mg')"
| mg_time: "now \<le> now' \<Longrightarrow> mg_step (now, mg) (now', mg)"

definition mg_init :: "int \<times> PeerManager \<Rightarrow> bool" where
  "mg_init s \<longleftrightarrow> (\<exists>a b. snd s = new_peer_manager\<lparr> mg_max_total := a, mg_max_per_ip := b \<rparr>)"

lemma mg_inv_new:
  assumes "mg_inv (now, mg)" "h \<notin> set (get_all_connections mg)"
  shows "mg_inv (now, on_conn h f mg)"
proof -
  have "conn_at (on_conn h f mg) k = conn_at mg k" if "k \<in> set (get_all_connections mg)" for k
    using that assms(2) by auto
  then have fr: "conn_ip (on_conn h f mg) k = conn_ip mg k" "conn_id (on_conn h f mg) k = conn_id mg k"
    if "k \<in> set (get_all_connections mg)" for k
    using that by (simp_all add: conn_ip_def)
  have "ip_count ip (on_conn h f mg) = ip_count ip mg" for ip
  proof -
    have "get_all_connections (on_conn h f mg) = get_all_connections mg"
      by (simp add: get_all_connections_def)
    then show ?thesis
      unfolding ip_count_def using fr(1) by (metis (mono_tags, lifting) filter_cong)
  qed
  moreover have "(pid, k) \<in> set (mg_active mg) \<Longrightarrow> k \<in> set (get_all_connections mg)" for pid k
    by (force simp: get_all_connections_def)
  ultimately show ?thesis
    using assms fr by (auto simp: mg_inv_def banned_at_def)
qed

lemma same_table_backoff: "same_table mg (snd (in_backoff now addr mg))"
  by (simp add: in_backoff_def Let_def same_table_frame split: option.split)

lemma same_table_slot: "same_table mg (snd (half_open_slot mg))"
  by (simp add: half_open_slot_def same_table_frame)

lemma mg_inv_gate: "mg_inv (now, mg) \<Longrightarrow> mg_inv (now, snd (snd (connect_gate_check now addr (fc, mg))))"
proof -
  assume inv: "mg_inv (now, mg)"
  have inv1: "mg_inv (now, snd (in_backoff now addr mg))"
    by (rule mg_inv_same_table [OF same_table_backoff inv])
  have inv2: "mg_inv (now, snd (is_banned now ip (snd (in_backoff now addr mg))))" for ip
    by (rule mg_inv_is_banned [OF inv1])
  show ?thesis
    using inv inv1 inv2 mg_inv_same_table [OF same_table_slot inv2]
    by (simp add: connect_gate_check_def Let_def case_prod_beta)
qed

lemma report_connection_inv:
  "mg_inv (now, mg) \<Longrightarrow> report_connection_failure now addr (fc, mg) = Some (fc', mg') \<Longrightarrow> mg_inv (now, mg')"
  "mg_inv (now, mg) \<Longrightarrow> mg_inv (now, snd (report_connection_success now addr (fc, mg)))"
  by (auto simp: report_connection_failure_def report_connection_success_def Let_def split: option.splits
      intro: mg_inv_report mg_inv_same_table [OF same_table_frame(6)])

lemma mg_inv_finish: "mg_inv (now, mg) \<Longrightarrow> connect_finish now addr outcome (fc, mg) = Some (ok, fc', mg') \<Longrightarrow> mg_inv (now, mg')"
  using mg_inv_same_table [OF release_half_open_same, of now mg] report_connection_inv(2) [of now mg addr fc]
  by (auto simp: connect_finish_def split: connect_outcome.splits if_splits intro: report_connection_inv(1))

lemma same_table_pex: "pex_round mg = Some mg' \<Longrightarrow> same_table mg mg'"
proof -
  have drop: "same_table mg (mg\<lparr> mg_dropped_peers := [] \<rparr>)"
    by (simp add: same_table_def conn_ip_def conn_at_def)
  have "same_table (mg\<lparr> mg_dropped_peers := [] \<rparr>) (fold (\<lambda>h mg. if supported_pex (conn_at mg h) then on_conn h (send_extended_message k m) mg else mg) hs
      (mg\<lparr> mg_dropped_peers := [] \<rparr>))" for k m hs
    by (rule same_table_fold) (simp add: same_table_on_conn send_extended_message_def)
  then show "pex_round mg = Some mg' \<Longrightarrow> same_table mg mg'"
    using drop by (auto simp: pex_round_def populate_dropped_def split: option.splits if_splits intro: same_table_trans)
qed

lemma mg_inv_reports:
  assumes "mg_inv (now, mg)"
  shows "mg_inv (now, report_corrupt_piece now addr mg)" "mg_inv (now, report_protocol_violation now addr mg)"
    "mg_inv (now, report_timeout now addr mg)"
  by (simp_all add: report_corrupt_piece_def report_protocol_violation_def report_timeout_def mg_inv_report [OF assms])

lemmas mg_inv_use = mg_inv_same_table [OF same_table_on_conn]
lemmas mg_inv_close_peer = mg_inv_same_table [OF close_peer_same]
lemmas mg_inv_choke = mg_inv_same_table [OF same_table_choke_pass]
lemmas mg_inv_pex = mg_inv_same_table [OF same_table_pex]

lemma mg_step_inv: "mg_step s s' \<Longrightarrow> mg_inv s \<Longrightarrow> mg_inv s'"
proof (induction rule: mg_step.induct)
  case (mg_remove now mg pid c)
  then show ?case
    by (simp add: remove_connection_def map_erase_def mg_inv_remove)
next
  case (mg_remove_all now mg)
  then show ?case
    using mg_inv_remove [of now mg "\<lambda>x. False"] by (simp add: remove_all_connections_def)
next
  case (mg_close_all now mg)
  show ?case
    unfolding close_all_def by (rule mg_inv_same_table [OF same_table_fold mg_close_all]) (simp add: same_table_on_conn)
next
  case (mg_have now mg p)
  show ?case
    unfolding send_have_message_to_all_def by (rule mg_inv_same_table [OF same_table_fold mg_have]) (simp add: same_table_on_conn)
qed (blast intro: mg_inv_new mg_inv_add mg_inv_ban mg_inv_cleanup mg_inv_is_banned mg_inv_gate mg_inv_finish mg_inv_reports mg_inv_close_peer
    mg_inv_use mg_inv_choke mg_inv_pex mg_inv_time mg_inv_add [OF _ refl])+

lemma limits_kept:
  "mg_max_total (snd (add_connection now pid h mg)) = mg_max_total mg" "mg_max_per_ip (snd (add_connection now pid h mg)) = mg_max_per_ip mg"
  by (simp_all add: add_connection_def Let_def is_banned_def release_half_open_def make_room_def close_peer_def close_conn_def case_prod_beta
      split: option.split)

interpretation mg_system: invariant_system mg_init mg_step mg_inv
proof
  show "mg_init s \<Longrightarrow> mg_inv s" for s
    by (cases s) (auto simp: mg_init_def mg_inv_def new_peer_manager_def ip_count_def get_all_connections_def)
  show "mg_inv s \<Longrightarrow> mg_step s s' \<Longrightarrow> mg_inv s'" for s s'
    by (rule mg_step_inv)
qed

text \<open>C5: connection limits and bans hold in every state the peer manager can reach, whatever connections are made,
  used, closed, reported or banned, and however time passes: the table is within the total limit and the limit
  per address, it holds every connection under its own peer id, no connection comes from an address whose ban
  lasts, and a new connection from such an address is refused.\<close>

theorem connections_limited:
  assumes "reachable mg_init mg_step (now, mg)"
  shows "connection_count mg \<le> mg_max_total mg \<and> (\<forall>ip. ip_count ip mg \<le> mg_max_per_ip mg) \<and>
    (\<forall>(pid, h) \<in> set (mg_active mg). conn_id mg h = pid \<and> \<not> fst (is_banned now (conn_ip mg h) mg)) \<and>
    (\<forall>h. fst (is_banned now (conn_ip mg h) mg) \<longrightarrow> \<not> fst (add_connection now (conn_id mg h) h mg))"
proof -
  have inv: "mg_inv (now, mg)"
    by (rule mg_system.reachable_inv [OF assms])
  then have "fst (is_banned now ip mg) \<longleftrightarrow> banned_at now ip mg" for ip
    by (simp add: is_banned_fst mg_inv_def)
  moreover have "\<not> fst (add_connection now (conn_id mg h) h mg)" if "fst (is_banned now (conn_ip mg h) mg)" for h
    using that by (simp add: add_connection_def Let_def case_prod_beta)
  ultimately show ?thesis
    using inv by (auto simp: mg_inv_def connection_count_def)
qed

theorem connections_limited_witness:
  "let mg = new_peer_manager\<lparr> mg_max_total := 500, mg_max_per_ip := 1 \<rparr>;
       mg = on_conn 1 (\<lambda>_. new_connection [1] ''10.0.0.1:51413'') mg;
       mg = snd (add_connection 0 (conn_id mg 1) 1 mg);
       mg = on_conn 2 (\<lambda>_. new_connection [2] ''10.0.0.1:6881'') mg;
       mg = snd (add_connection 0 (conn_id mg 2) 2 mg)
   in ip_count ''10.0.0.1'' mg \<le> 1 \<and> connection_count mg \<le> 500"
proof -
  define mg0 where "mg0 = new_peer_manager\<lparr> mg_max_total := 500, mg_max_per_ip := 1 \<rparr>"
  define mg1 where "mg1 = on_conn 1 (\<lambda>_. new_connection [1] ''10.0.0.1:51413'') mg0"
  define mg2 where "mg2 = snd (add_connection 0 (conn_id mg1 1) 1 mg1)"
  define mg3 where "mg3 = on_conn 2 (\<lambda>_. new_connection [2] ''10.0.0.1:6881'') mg2"
  define mg4 where "mg4 = snd (add_connection 0 (conn_id mg3 2) 2 mg3)"
  have mg2: "get_all_connections mg2 = [1]" "mg_max_total mg2 = 500" "mg_max_per_ip mg2 = 1"
    by (simp_all add: mg2_def mg1_def mg0_def new_peer_manager_def add_connection_def Let_def is_banned_def release_half_open_def
        make_room_def close_peer_def get_all_connections_def)
  have lim: "mg_max_total mg4 = 500" "mg_max_per_ip mg4 = 1"
    using mg2 by (simp_all add: mg4_def mg3_def limits_kept)
  have r0: "reachable mg_init mg_step (0, mg0)"
    unfolding mg_init_def mg0_def by (rule reachable_init) auto
  have r1: "reachable mg_init mg_step (0, mg1)"
    unfolding mg1_def by (rule reachable_step [OF r0 mg_new]) (simp add: mg0_def new_peer_manager_def get_all_connections_def)
  have r2: "reachable mg_init mg_step (0, mg2)"
    unfolding mg2_def by (rule reachable_step [OF r1 mg_add])
  have r3: "reachable mg_init mg_step (0, mg3)"
    unfolding mg3_def by (rule reachable_step [OF r2 mg_new]) (simp add: mg2)
  have r4: "reachable mg_init mg_step (0, mg4)"
    unfolding mg4_def by (rule reachable_step [OF r3 mg_add])
  show ?thesis
    using connections_limited [OF r4] lim
    unfolding Let_def mg0_def [symmetric] mg1_def [symmetric] mg2_def [symmetric] mg3_def [symmetric] mg4_def [symmetric] by simp
qed

subsection \<open>A pass of the choke loop\<close>

text \<open>What the slots depend on, and how a pass changes who is choked.\<close>

definition same_peer :: "PeerConnection \<Rightarrow> PeerConnection \<Rightarrow> bool" where
  "same_peer pc pc' \<longleftrightarrow> pc_peer_id pc' = pc_peer_id pc \<and> pc_peer_is_interested pc' = pc_peer_is_interested pc \<and>
    pc_last_data_received pc' = pc_last_data_received pc \<and> pc_bytes_uploaded pc' = pc_bytes_uploaded pc \<and>
    pc_bytes_downloaded pc' = pc_bytes_downloaded pc"

lemma same_peer_refl [simp]: "same_peer pc pc"
  by (simp add: same_peer_def)

lemma same_peer_trans: "same_peer a b \<Longrightarrow> same_peer b c \<Longrightarrow> same_peer a c"
  by (simp add: same_peer_def)

lemma send_choke_peer [simp]: "same_peer pc (send_choke c pc)" "pc_am_choking (send_choke c pc) = c"
  by (simp_all add: same_peer_def send_choke_def send_simple_message_def send_message_def)

lemma same_peer_snub: "same_peer pc pc' \<Longrightarrow> snubbing now pc' = snubbing now pc" "same_peer pc pc' \<Longrightarrow> slot_rate seed pc' = slot_rate seed pc"
  by (simp_all add: same_peer_def snubbing_def slot_rate_def)

definition same_peers :: "PeerManager \<Rightarrow> PeerManager \<Rightarrow> bool" where
  "same_peers mg mg' \<longleftrightarrow> (\<forall>h. same_peer (conn_at mg h) (conn_at mg' h))"

lemma same_peers_refl [simp]: "same_peers mg mg"
  by (simp add: same_peers_def)

lemma same_peers_trans: "same_peers a b \<Longrightarrow> same_peers b c \<Longrightarrow> same_peers a c"
  unfolding same_peers_def using same_peer_trans by blast

lemma same_peers_choke [simp]: "same_peers mg (on_conn h (send_choke c) mg)"
  by (simp add: same_peers_def)

lemma same_peers_among: "same_peers mg mg' \<Longrightarrow> among mg' h hs = among mg h hs"
  by (simp add: among_def same_peers_def same_peer_def)

text \<open>The peers that take part in a pass.\<close>

definition takes_part :: "int \<Rightarrow> PeerConnection \<Rightarrow> bool" where
  "takes_part now pc \<longleftrightarrow> pc_peer_is_interested pc \<and> (pc_am_choking pc \<or> \<not> snubbing now pc)"

lemma collect_all:
  "distinct hs \<Longrightarrow> fold (collect_interested now) hs (l, mg) = (l', mg') \<Longrightarrow>
    l' = l @ filter (\<lambda>h. takes_part now (conn_at mg h)) hs \<and> same_peers mg mg' \<and> mg_optimistic mg' = mg_optimistic mg \<and>
    mg_choke_counter mg' = mg_choke_counter mg \<and>
    (\<forall>h. pc_am_choking (conn_at mg' h) \<longleftrightarrow> pc_am_choking (conn_at mg h) \<or>
      h \<in> set hs \<and> pc_peer_is_interested (conn_at mg h) \<and> snubbing now (conn_at mg h))"
proof (induction hs arbitrary: l mg)
  case (Cons h hs)
  obtain l1 mg1 where c: "collect_interested now h (l, mg) = (l1, mg1)"
    by fastforce
  have one: "l1 = l @ (if takes_part now (conn_at mg h) then [h] else [])" "same_peers mg mg1" "mg_optimistic mg1 = mg_optimistic mg"
    "mg_choke_counter mg1 = mg_choke_counter mg"
    "\<forall>k. k \<noteq> h \<longrightarrow> conn_at mg1 k = conn_at mg k"
    "pc_am_choking (conn_at mg1 h) \<longleftrightarrow> pc_am_choking (conn_at mg h) \<or> pc_peer_is_interested (conn_at mg h) \<and> snubbing now (conn_at mg h)"
    using c by (auto simp: collect_interested_def Let_def takes_part_def split: if_splits)
  have rest: "l' = l1 @ filter (\<lambda>h. takes_part now (conn_at mg1 h)) hs" "same_peers mg1 mg'" "mg_optimistic mg' = mg_optimistic mg1"
    "mg_choke_counter mg' = mg_choke_counter mg1"
    "\<forall>k. pc_am_choking (conn_at mg' k) \<longleftrightarrow> pc_am_choking (conn_at mg1 k) \<or>
      k \<in> set hs \<and> pc_peer_is_interested (conn_at mg1 k) \<and> snubbing now (conn_at mg1 k)"
    using Cons.IH [of l1 mg1] Cons.prems c by auto
  have "filter (\<lambda>h. takes_part now (conn_at mg1 h)) hs = filter (\<lambda>h. takes_part now (conn_at mg h)) hs"
    using one(5) Cons.prems(1) by (intro filter_cong) auto
  moreover have "pc_am_choking (conn_at mg' k) \<longleftrightarrow> pc_am_choking (conn_at mg k) \<or>
      k \<in> set (h # hs) \<and> pc_peer_is_interested (conn_at mg k) \<and> snubbing now (conn_at mg k)" for k
    using one(5,6) rest(5) Cons.prems(1) by (cases "k = h") auto
  ultimately show ?case
    using one rest same_peers_trans by auto
qed simp

lemma apply_choke_all:
  "distinct hs \<Longrightarrow> same_peers mg (fold (apply_choke tu) hs mg) \<and>
    (\<forall>h. pc_am_choking (conn_at (fold (apply_choke tu) hs mg) h) = (if h \<in> set hs then \<not> among mg h tu else pc_am_choking (conn_at mg h)))"
proof (induction hs arbitrary: mg)
  case (Cons h hs)
  define mg1 where "mg1 = apply_choke tu h mg"
  have one: "same_peers mg mg1" "\<forall>k. k \<noteq> h \<longrightarrow> conn_at mg1 k = conn_at mg k" "pc_am_choking (conn_at mg1 h) \<longleftrightarrow> \<not> among mg h tu"
    by (auto simp: mg1_def apply_choke_def)
  have ih: "same_peers mg1 (fold (apply_choke tu) hs mg1)"
    "\<forall>h. pc_am_choking (conn_at (fold (apply_choke tu) hs mg1) h) = (if h \<in> set hs then \<not> among mg1 h tu else pc_am_choking (conn_at mg1 h))"
    using Cons.IH [of mg1] Cons.prems by auto
  have "among mg1 k tu = among mg k tu" for k
    by (rule same_peers_among [OF one(1)])
  then have "pc_am_choking (conn_at (fold (apply_choke tu) hs mg1) k) = (if k \<in> set (h # hs) then \<not> among mg k tu else pc_am_choking (conn_at mg k))" for k
    using ih(2) one(2,3) Cons.prems by (cases "k = h") auto
  then show ?case
    using same_peers_trans [OF one(1) ih(1)] by (simp add: mg1_def [symmetric])
qed simp

lemma optimistic_effect:
  assumes "optimistic_unchoke now draw srt reg mg = (tu, mg')"
  shows "same_peers mg mg'" "\<And>h. pc_am_choking (conn_at mg h) \<Longrightarrow> pc_am_choking (conn_at mg' h)"
    "tu = reg \<or> (\<exists>opt. tu = reg @ [opt] \<and> mg_optimistic mg' = Some opt)"
proof -
  have "same_peers mg (mg1\<lparr> mg_optimistic := x \<rparr>) = same_peers mg mg1" "conn_at (mg1\<lparr> mg_optimistic := x \<rparr>) h = conn_at mg1 h" for mg1 x h
    by (simp_all add: same_peers_def conn_at_def)
  then have "same_peers mg mg' \<and> (\<forall>h. pc_am_choking (conn_at mg h) \<longrightarrow> pc_am_choking (conn_at mg' h)) \<and>
    (tu = reg \<or> (\<exists>opt. tu = reg @ [opt] \<and> mg_optimistic mg' = Some opt))"
    using assms by (auto simp: optimistic_unchoke_def Let_def split: if_splits option.splits)
  then show "same_peers mg mg'" "\<And>h. pc_am_choking (conn_at mg h) \<Longrightarrow> pc_am_choking (conn_at mg' h)"
    "tu = reg \<or> (\<exists>opt. tu = reg @ [opt] \<and> mg_optimistic mg' = Some opt)"
    by blast+
qed

lemma reset_rates_all:
  "pc_am_choking (conn_at (fold (\<lambda>h. on_conn h reset_rates) hs mg) h) = pc_am_choking (conn_at mg h) \<and>
    pc_peer_is_interested (conn_at (fold (\<lambda>h. on_conn h reset_rates) hs mg) h) = pc_peer_is_interested (conn_at mg h) \<and>
    mg_optimistic (fold (\<lambda>h. on_conn h reset_rates) hs mg) = mg_optimistic mg"
  by (induction hs arbitrary: mg) (auto simp: reset_rates_def)

lemma optimistic_apply: "mg_optimistic (fold (apply_choke tu) hs mg) = mg_optimistic mg"
  by (induction hs arbitrary: mg) (simp_all add: apply_choke_def)

text \<open>Who is unchoked after a pass: an interested peer that took part and whose id is among the chosen.\<close>

lemma choke_pass_outcome:
  assumes "distinct (map (conn_id mg) (get_all_connections mg))"
    and "\<forall>f xs. mset (by_rate f xs) = mset xs \<and> sorted (rev (map f (by_rate f xs)))"
    and "mg' = choke_pass now seed by_rate draw mg"
  obtains srt tu where "\<forall>h. pc_peer_is_interested (conn_at mg' h) = pc_peer_is_interested (conn_at mg h)"
    "set srt = {h \<in> set (get_all_connections mg). takes_part now (conn_at mg h)}"
    "sorted (rev (map (\<lambda>h. slot_rate seed (conn_at mg h)) srt))"
    "tu = take 11 (filter (\<lambda>h. \<not> snubbing now (conn_at mg h)) srt) \<or>
      (\<exists>opt. tu = take 11 (filter (\<lambda>h. \<not> snubbing now (conn_at mg h)) srt) @ [opt] \<and> mg_optimistic mg' = Some opt)"
    "\<forall>h \<in> set (get_all_connections mg). pc_peer_is_interested (conn_at mg h) \<longrightarrow>
      pc_am_choking (conn_at mg' h) = (\<not> (h \<in> set srt \<and> among mg h tu))"
proof -
  let ?all = "get_all_connections mg"
  have start: "conn_at (start_pass mg) h = conn_at mg h" "get_all_connections (start_pass mg) = ?all" for h
    by (simp_all add: start_pass_def conn_at_def get_all_connections_def)
  have d: "distinct ?all"
    using assms(1) by (simp add: distinct_map)
  show ?thesis
  proof (cases rule: choke_pass_run [of now mg seed by_rate draw])
    case (idle mg1)
    note c = collect_all [OF d idle(1) [unfolded start(2)], unfolded start]
    have p1: "same_peer (conn_at mg h) (conn_at mg1 h)" for h
      using c start by (simp add: same_peers_def)
    have "filter (\<lambda>h. takes_part now (conn_at mg h)) ?all = []"
      using c by simp
    then have none: "\<not> takes_part now (conn_at mg h)" if "h \<in> set ?all" for h
      using that unfolding filter_empty_conv by blast
    then have ch: "pc_am_choking (conn_at mg1 h)" if "h \<in> set ?all" "pc_peer_is_interested (conn_at mg h)" for h
      using c that unfolding takes_part_def by blast
    show ?thesis
    proof (rule that [of "[]" "[]"])
      show "\<forall>h. pc_peer_is_interested (conn_at mg' h) = pc_peer_is_interested (conn_at mg h)"
        using p1 by (simp add: assms(3) idle(2) same_peer_def)
      show "\<forall>h \<in> set ?all. pc_peer_is_interested (conn_at mg h) \<longrightarrow> pc_am_choking (conn_at mg' h) = (\<not> (h \<in> set [] \<and> among mg h []))"
        using ch by (simp add: assms(3) idle(2))
      show "set [] = {h \<in> set ?all. takes_part now (conn_at mg h)}"
        using none by auto
    qed simp_all
  next
    case (slots hs mg1 srt tu mg2)
    note c = collect_all [OF d slots(1) [unfolded start(2)], unfolded start]
    have hs: "hs = filter (\<lambda>h. takes_part now (conn_at mg h)) ?all"
      using c by simp
    have p1: "same_peer (conn_at mg h) (conn_at mg1 h)" for h
      using c start by (simp add: same_peers_def)
    have rate: "slot_rate seed (conn_at mg1 h) = slot_rate seed (conn_at mg h)" "snubbing now (conn_at mg1 h) = snubbing now (conn_at mg h)" for h
      using same_peer_snub p1 by blast+
    have ms: "mset srt = mset hs" and srt: "sorted (rev (map (\<lambda>h. slot_rate seed (conn_at mg h)) srt))"
      unfolding slots(3) using assms(2) by (simp_all add: rate)
    have set_srt: "set srt = {h \<in> set ?all. takes_part now (conn_at mg h)}"
      using mset_eq_setD [OF ms] by (simp add: hs)
    have dsrt: "distinct srt"
      using mset_eq_imp_distinct_iff [OF ms] d by (simp add: hs)
    note opt = optimistic_effect [OF slots(4)]
    have reg: "regular_unchokes now mg1 srt = take 11 (filter (\<lambda>h. \<not> snubbing now (conn_at mg h)) srt)"
      by (simp add: regular_unchokes_def kUnchokeSlots_def rate)
    note ac = apply_choke_all [OF dsrt, of mg2 tu]
    define mg3 where "mg3 = fold (apply_choke tu) srt mg2"
    have mg': "mg' = fold (\<lambda>h. on_conn h reset_rates) ?all mg3"
      by (simp add: assms(3) slots(5) start mg3_def)
    note rs = reset_rates_all [of ?all mg3]
    have p2: "same_peers mg1 mg2" and p3: "same_peers mg2 mg3"
      using opt(1) ac by (simp_all add: mg3_def)
    have am: "among mg2 h tu = among mg h tu" for h
      using same_peers_among [OF p2] same_peers_among [of mg mg1] p1 by (simp add: same_peers_def)
    have "pc_am_choking (conn_at mg' h) = (\<not> (h \<in> set srt \<and> among mg h tu))" if "h \<in> set ?all" "pc_peer_is_interested (conn_at mg h)" for h
    proof (cases "h \<in> set srt")
      case True
      then show ?thesis
        using ac rs am by (simp add: mg' mg3_def)
    next
      case False
      then have "pc_am_choking (conn_at mg1 h)"
        using c that by (auto simp: set_srt takes_part_def)
      then have "pc_am_choking (conn_at mg2 h)"
        by (rule opt(2))
      then show ?thesis
        using ac rs False by (simp add: mg' mg3_def)
    qed
    moreover have "pc_peer_is_interested (conn_at mg' h) = pc_peer_is_interested (conn_at mg h)" for h
      using rs p1 p2 p3 by (simp add: mg' same_peers_def same_peer_def)
    moreover have "mg_optimistic mg' = mg_optimistic mg2"
      using rs optimistic_apply [of tu srt mg2] by (simp add: mg' mg3_def)
    ultimately show ?thesis
      using that [of srt tu] set_srt srt opt(3) unfolding reg by auto
  qed
qed

text \<open>C9: upload slots.  After a pass of the choke loop at most twelve interested peers are unchoked.  Apart from
  the optimistic slot they are the fastest: a peer that holds a regular slot is not snubbing us, and no interested peer
  that stays choked without snubbing us has a higher rate (uploaded by us when seeding, downloaded from it
  otherwise).\<close>

theorem upload_slots:
  assumes "distinct (map (conn_id mg) (get_all_connections mg))"
    and "\<forall>f xs. mset (by_rate f xs) = mset xs \<and> sorted (rev (map f (by_rate f xs)))"
    and "mg' = choke_pass now seed by_rate draw mg"
  shows "length (filter (\<lambda>h. pc_peer_is_interested (conn_at mg' h) \<and> \<not> pc_am_choking (conn_at mg' h)) (get_all_connections mg)) \<le> 12 \<and>
    (\<forall>h \<in> set (get_all_connections mg). \<forall>k \<in> set (get_all_connections mg).
      pc_peer_is_interested (conn_at mg h) \<and> \<not> pc_am_choking (conn_at mg' h) \<and>
      (\<forall>opt. mg_optimistic mg' = Some opt \<longrightarrow> conn_id mg opt \<noteq> conn_id mg h) \<longrightarrow>
      \<not> snubbing now (conn_at mg h) \<and>
      (pc_peer_is_interested (conn_at mg k) \<and> pc_am_choking (conn_at mg' k) \<and> \<not> snubbing now (conn_at mg k) \<longrightarrow>
        slot_rate seed (conn_at mg k) \<le> slot_rate seed (conn_at mg h)))"
proof -
  let ?all = "get_all_connections mg"
  let ?good = "\<lambda>srt. filter (\<lambda>h. \<not> snubbing now (conn_at mg h)) srt"
  obtain srt tu where o: "\<forall>h. pc_peer_is_interested (conn_at mg' h) = pc_peer_is_interested (conn_at mg h)"
    "set srt = {h \<in> set ?all. takes_part now (conn_at mg h)}" "sorted (rev (map (\<lambda>h. slot_rate seed (conn_at mg h)) srt))"
    "tu = take 11 (?good srt) \<or> (\<exists>opt. tu = take 11 (?good srt) @ [opt] \<and> mg_optimistic mg' = Some opt)"
    "\<forall>h \<in> set ?all. pc_peer_is_interested (conn_at mg h) \<longrightarrow> pc_am_choking (conn_at mg' h) = (\<not> (h \<in> set srt \<and> among mg h tu))"
    by (rule choke_pass_outcome [OF assms])
  let ?F = "filter (\<lambda>h. pc_peer_is_interested (conn_at mg' h) \<and> \<not> pc_am_choking (conn_at mg' h)) ?all"
  have len: "length tu \<le> 12"
    using o(4) by auto
  have "length ?F = card (conn_id mg ` set ?F)"
    using distinct_card [of "map (conn_id mg) ?F"] distinct_map_filter [OF assms(1)] by simp
  also have "\<dots> \<le> card (conn_id mg ` set tu)"
  proof (intro card_mono subsetI)
    fix x assume "x \<in> conn_id mg ` set ?F"
    then obtain h where "h \<in> set ?F" "x = conn_id mg h"
      by blast
    then show "x \<in> conn_id mg ` set tu"
      using o(1,5) by (auto simp: among_def list_ex_iff) (metis image_eqI)
  qed simp
  also have "\<dots> \<le> length tu"
    using card_image_le [of "set tu" "conn_id mg"] card_length [of tu] by simp
  finally have slots: "length ?F \<le> 12"
    using len by simp
  have reg: "h \<in> set (take 11 (?good srt))"
    if "h \<in> set ?all" "pc_peer_is_interested (conn_at mg h)" "\<not> pc_am_choking (conn_at mg' h)"
      "\<forall>opt. mg_optimistic mg' = Some opt \<longrightarrow> conn_id mg opt \<noteq> conn_id mg h" for h
  proof -
    have "among mg h tu"
      using o(5) that by simp
    then obtain k where k: "k \<in> set tu" "conn_id mg k = conn_id mg h"
      by (auto simp: among_def list_ex_iff)
    then have "k \<in> set (take 11 (?good srt))"
      using o(4) that(4) by auto
    moreover from this have "k \<in> set ?all"
      using o(2) by (auto dest: in_set_takeD)
    ultimately show ?thesis
      using assms(1) that(1) k(2) by (metis distinct_map inj_on_eq_iff)
  qed
  have fast: "slot_rate seed (conn_at mg k) \<le> slot_rate seed (conn_at mg h)"
    if "h \<in> set (take 11 (?good srt))" "k \<in> set ?all" "pc_peer_is_interested (conn_at mg k)" "pc_am_choking (conn_at mg' k)" "\<not> snubbing now (conn_at mg k)" for h k
  proof -
    have "k \<in> set (?good srt)"
      using o(2) that by (auto simp: takes_part_def)
    moreover have "k \<notin> set (take 11 (?good srt))"
      using o(2,4,5) that(2-4) by (auto simp: among_def list_ex_iff dest: in_set_takeD)
    ultimately have "k \<in> set (drop 11 (?good srt))"
      by (metis UnE append_take_drop_id set_append)
    moreover have "sorted_wrt (\<lambda>a b. slot_rate seed (conn_at mg b) \<le> slot_rate seed (conn_at mg a)) (take 11 (?good srt) @ drop 11 (?good srt))"
      using o(3) by (simp add: sorted_wrt_filter sorted_wrt_rev sorted_wrt_map)
    ultimately show ?thesis
      using that(1) by (simp only: sorted_wrt_append)
  qed
  have good: "\<not> snubbing now (conn_at mg h)" if "h \<in> set (take 11 (?good srt))" for h
    using in_set_takeD [OF that] by simp
  show ?thesis
    using slots reg fast good by blast
qed


text \<open>Three interested peers: the two that send data are served, a fast one that has gone silent is not.\<close>

definition three_peers :: PeerManager where
  "three_peers = new_peer_manager\<lparr>
    mg_store := [(1, (new_connection [1] ''10.0.0.1:1'')\<lparr> pc_peer_is_interested := True, pc_bytes_downloaded := 10, pc_last_data_received := 99 * nanos \<rparr>),
      (2, (new_connection [2] ''10.0.0.2:1'')\<lparr> pc_peer_is_interested := True, pc_bytes_downloaded := 30, pc_last_data_received := 99 * nanos \<rparr>),
      (3, (new_connection [3] ''10.0.0.3:1'')\<lparr> pc_peer_is_interested := True, pc_bytes_downloaded := 90, pc_last_data_received := 1, pc_am_choking := False \<rparr>)],
    mg_active := [([1], 1), ([2], 2), ([3], 3)] \<rparr>"

theorem upload_slots_witness:
  "let mg' = choke_pass (100 * nanos) False (\<lambda>f xs. rev (sort_key f xs)) (\<lambda>n. 0) three_peers
   in length (filter (\<lambda>h. pc_peer_is_interested (conn_at mg' h) \<and> \<not> pc_am_choking (conn_at mg' h)) [1, 2, 3]) \<le> 12"
proof -
  have "distinct (map (conn_id three_peers) (get_all_connections three_peers))" "get_all_connections three_peers = [1, 2, 3]"
    by (simp_all add: three_peers_def get_all_connections_def conn_at_def new_connection_def)
  moreover have "\<forall>(f :: handle \<Rightarrow> nat) xs. mset (rev (sort_key f xs)) = mset xs \<and> sorted (rev (map f (rev (sort_key f xs))))"
    by (simp add: rev_map)
  ultimately show ?thesis
    using upload_slots [of three_peers "\<lambda>f xs. rev (sort_key f xs)" _ "100 * nanos" False "\<lambda>n. 0", OF _ _ refl] by (simp add: Let_def)
qed


text \<open>A pass without a peer that takes part leaves the optimistic slot as it is: a peer that was choked for snubbing
  in it is unchoked by the next pass although it still snubs us.\<close>

lemma snubber_unchoked_again:
  assumes "get_all_connections mg = [h]" "mg_optimistic mg = Some h" "pc_peer_is_interested (conn_at mg h)"
    and "snubbing now (conn_at mg h)" "\<not> pc_am_choking (conn_at mg h)" "now \<le> now'" "(mg_choke_counter mg + 2) mod 3 \<noteq> 0"
    and "\<forall>f. by_rate f [h] = [h]"
  shows "pc_am_choking (conn_at (choke_pass now seed by_rate draw mg) h) \<and>
    \<not> pc_am_choking (conn_at (choke_pass now' seed by_rate draw (choke_pass now seed by_rate draw mg)) h) \<and>
    snubbing now' (conn_at (choke_pass now' seed by_rate draw (choke_pass now seed by_rate draw mg)) h)"
proof -
  have start: "conn_at (start_pass m) k = conn_at m k" "get_all_connections (start_pass m) = get_all_connections m"
    "mg_optimistic (start_pass m) = mg_optimistic m" "mg_choke_counter (start_pass m) = mg_choke_counter m + 1" for m k
    by (simp_all add: start_pass_def conn_at_def get_all_connections_def)
  define mg1 where "mg1 = on_conn h (send_choke True) (start_pass mg)"
  have one: "choke_pass now seed by_rate draw mg = mg1"
    using assms by (simp add: choke_pass_def Let_def start collect_interested_def mg1_def)
  define pc where "pc = conn_at mg1 h"
  have sp: "same_peer (conn_at mg h) pc"
    by (simp add: pc_def mg1_def start)
  have still: "snubbing now' pc"
    using assms(4,6) same_peer_snub(1) [OF sp] by (simp add: snubbing_def)
  have mg1: "get_all_connections mg1 = [h]" "mg_optimistic mg1 = Some h" "mg_choke_counter mg1 = mg_choke_counter mg + 1" "pc_am_choking pc"
    using assms(1,2) by (simp_all add: pc_def mg1_def start get_all_connections_def) (simp_all add: get_all_connections_def start_pass_def)
  have "choke_pass now' seed by_rate draw mg1 = on_conn h reset_rates (on_conn h (send_choke False) (start_pass mg1))"
    using assms(3,7,8) mg1 sp still
    by (simp add: choke_pass_def Let_def start collect_interested_def pc_def [symmetric] same_peer_def optimistic_unchoke_def
        regular_unchokes_def among_def apply_choke_def)
  then show ?thesis
    using still mg1(4) by (simp add: one pc_def [symmetric] start reset_rates_def snubbing_def send_choke_def send_simple_message_def send_message_def)
qed

end
