(* ===== verification/FileManager.thy ===== *)
theory FileManager
  imports FileLayout
begin

text \<open>
  The file manager (\<^verbatim>\<open>src/src/FileManager.cpp\<close>): the write-back block cache over the files of the torrent,
  verification, pre-allocation and the resume file.

  The cache is the ordered map of the code; \<open>fm_lru\<close> is \<^verbatim>\<open>lru_order_\<close> (front first), whose index
  \<^verbatim>\<open>lru_index_\<close> is implied; \<open>fm_dirty\<close> is the ordered set \<^verbatim>\<open>dirty_blocks_\<close>.  Every function that holds
  \<^verbatim>\<open>cache_mutex_\<close> is one step.  A read that misses and a flush release the lock while the pool works:
  \<open>read_block\<close> and \<open>flush_all_dirty\<close> compose their sections with nothing in between, so the lemmas on them are
  about file operations that run one at a time; the sections stand alone as \<open>populate_cache\<close> and
  \<open>flush_block\<close>, and two lemmas at the end show what goes wrong when others run in between.  The size counter is a natural number: it never goes below the bytes that are cached.  A piece
  passed to \<open>write_piece\<close> is shorter than \<open>2\<^sup>3\<^sup>2\<close> bytes.  I/O errors other than missing files, short files
  and cancellation are not modelled.

  Lemmas: with blocks read at block boundaries the cache refines one array of bytes, whatever is
  evicted or flushed in between; pre-allocation establishes the invariant; the resume file reads back.
\<close>

subsection \<open>Definitions: state and cache helpers\<close>

type_synonym cache_key = "nat \<times> nat"

record FileManager =
  fm_session :: SessionState
  fm_piece_to_files :: "PieceFileOverlap list list"
  fm_file_to_pieces :: "nat list list"
  fm_cache :: "(cache_key \<times> byte list) list"
  fm_lru :: "cache_key list"
  fm_dirty :: "cache_key list"
  fm_cache_size :: nat
  fm_disk :: disk
  fm_cancelled :: bool

definition DISK_CACHE_SIZE :: nat where "DISK_CACHE_SIZE = 32 * 1024 * 1024"

definition new_file_manager :: "SessionState \<Rightarrow> disk \<Rightarrow> FileManager option" where
  "new_file_manager ss d =
    (case build_maps ss of
       None \<Rightarrow> None
     | Some (piece_to_files, file_to_pieces) \<Rightarrow>
         Some \<lparr> fm_session = ss, fm_piece_to_files = piece_to_files, fm_file_to_pieces = file_to_pieces, fm_cache = [],
           fm_lru = [], fm_dirty = [], fm_cache_size = 0, fm_disk = d, fm_cancelled = False \<rparr>)"

definition touch_cache :: "cache_key \<Rightarrow> FileManager \<Rightarrow> FileManager" where
  "touch_cache key fm = fm\<lparr> fm_lru := key # removeAll key (fm_lru fm) \<rparr>"

definition write_back :: "cache_key \<Rightarrow> byte list \<Rightarrow> FileManager \<Rightarrow> FileManager" where
  "write_back key data fm =
    fm\<lparr> fm_disk := sync_write_block (fm_session fm) (fm_piece_to_files fm) key data (fm_disk fm),
       fm_dirty := removeAll key (fm_dirty fm) \<rparr>"

text \<open>One iteration of the eviction loop.\<close>

definition evict_last :: "FileManager \<Rightarrow> FileManager" where
  "evict_last fm =
    (let evict_key = last (fm_lru fm);
         fm = fm\<lparr> fm_lru := butlast (fm_lru fm) \<rparr>
     in case map_of (fm_cache fm) evict_key of
          None \<Rightarrow> fm\<lparr> fm_dirty := removeAll evict_key (fm_dirty fm) \<rparr>
        | Some data \<Rightarrow>
            let fm = (if evict_key \<in> set (fm_dirty fm) then write_back evict_key data fm else fm)
            in fm\<lparr> fm_cache_size := fm_cache_size fm - length data, fm_cache := map_erase evict_key (fm_cache fm) \<rparr>)"

function evict_if_needed :: "FileManager \<Rightarrow> FileManager" where
  "evict_if_needed fm =
    (if DISK_CACHE_SIZE < fm_cache_size fm \<and> fm_lru fm \<noteq> [] then evict_if_needed (evict_last fm) else fm)"
  by pat_completeness auto
termination evict_if_needed
  by (relation "measure (\<lambda>fm. length (fm_lru fm))")
    (auto simp: evict_last_def write_back_def Let_def split: option.split)

declare evict_if_needed.simps [simp del]

definition dirty_data :: "FileManager \<Rightarrow> (cache_key \<times> byte list) list" where
  "dirty_data fm = concat (map (\<lambda>key. case map_of (fm_cache fm) key of None \<Rightarrow> [] | Some data \<Rightarrow> [(key, data)]) (fm_dirty fm))"

definition sync_flush_all_dirty :: "FileManager \<Rightarrow> FileManager" where
  "sync_flush_all_dirty fm =
    (let to_flush = dirty_data fm
     in fold (\<lambda>(key, data) fm. fm\<lparr> fm_disk := sync_write_block (fm_session fm) (fm_piece_to_files fm) key data (fm_disk fm) \<rparr>)
          to_flush (fm\<lparr> fm_dirty := [] \<rparr>))"

text \<open>The asynchronous flush: one section under the lock takes the dirty blocks, then each is written on the pool.\<close>

definition flush_block :: "cache_key \<times> byte list \<Rightarrow> FileManager \<Rightarrow> FileManager" where
  "flush_block = (\<lambda>((piece_index, offset), data) fm. fm\<lparr> fm_disk :=
     write_overlaps (async_write_to_file (fm_cancelled fm)) (fm_session fm) offset data
       (piece_overlaps (fm_piece_to_files fm) piece_index) (fm_disk fm) \<rparr>)"

definition flush_all_dirty :: "FileManager \<Rightarrow> FileManager" where
  "flush_all_dirty fm = (let to_flush = dirty_data fm in fold flush_block to_flush (fm\<lparr> fm_dirty := [] \<rparr>))"

definition signal_shutdown :: "FileManager \<Rightarrow> FileManager" where
  "signal_shutdown fm = fm\<lparr> fm_cancelled := True \<rparr>"

text \<open>The end of a session (\<^verbatim>\<open>TorrentSession::stop\<close>) and the destructor: the writes at shutdown are synchronous and
  do not look at the cancellation.\<close>

definition close_file_manager :: "FileManager \<Rightarrow> FileManager" where
  "close_file_manager fm = sync_flush_all_dirty (signal_shutdown fm)"

subsection \<open>Definitions: reading and writing\<close>

text \<open>The end of a read that missed, under the lock again: the data becomes the cached block, and not a dirty one.\<close>

definition populate_cache :: "cache_key \<Rightarrow> byte list \<Rightarrow> FileManager \<Rightarrow> FileManager" where
  "populate_cache key block_data fm =
    (let fm = evict_if_needed fm;
         fm = touch_cache key (fm\<lparr> fm_cache := map_assign key block_data (fm_cache fm) \<rparr>)
     in fm\<lparr> fm_cache_size := fm_cache_size fm + length block_data, fm_dirty := removeAll key (fm_dirty fm) \<rparr>)"

definition read_block :: "nat \<Rightarrow> nat \<Rightarrow> nat \<Rightarrow> (FileManager, file_error, byte list) sx" where
  "read_block piece_index begin_offset len fm =
    (let key = (piece_index, begin_offset);
         miss = (case read_from_disk (fm_cancelled fm) (fm_disk fm) (fm_session fm) piece_index begin_offset len of
             Inl e \<Rightarrow> (Inl e, fm)
           | Inr block_data \<Rightarrow> (Inr block_data, populate_cache key block_data fm))
     in case map_of (fm_cache fm) key of
          Some data \<Rightarrow> if len \<le> length data then (Inr (take len data), touch_cache key fm) else miss
        | None \<Rightarrow> miss)"

definition cache_write :: "cache_key \<Rightarrow> byte list \<Rightarrow> FileManager \<Rightarrow> FileManager" where
  "cache_write key block_data fm =
    (let fm = evict_if_needed fm;
         old = (case map_of (fm_cache fm) key of None \<Rightarrow> 0 | Some data \<Rightarrow> length data);
         fm = fm\<lparr> fm_cache_size := fm_cache_size fm - old \<rparr>;
         fm = touch_cache key (fm\<lparr> fm_cache := map_assign key block_data (fm_cache fm) \<rparr>)
     in fm\<lparr> fm_cache_size := fm_cache_size fm + length block_data, fm_dirty := insort_insert key (fm_dirty fm) \<rparr>)"

definition write_piece :: "nat \<Rightarrow> byte list \<Rightarrow> FileManager \<Rightarrow> FileManager" where
  "write_piece piece_index piece_data fm =
    fold (\<lambda>(k, block_data). cache_write (piece_index, to_u32 (k * BLOCK_SIZE)) block_data)
      (enumerate 0 (chunks BLOCK_SIZE piece_data)) fm"

subsection \<open>Definitions: verification\<close>

definition verify_piece :: "(byte list \<Rightarrow> byte list) \<Rightarrow> nat \<Rightarrow> (FileManager, file_error, bool) sx" where
  "verify_piece sha1 piece_index =
    sx_bind (sx_gets fm_session) (\<lambda>ss.
      let info = torrent_info ss; ts = ti_total_size info; ps = ti_piece_size info;
          piece_size_to_read = (if piece_index = ss_num_pieces ss - 1 then if ts mod ps \<noteq> 0 then to_u32 (ts mod ps) else ps else ps)
      in sx_bind (read_block piece_index 0 piece_size_to_read) (\<lambda>piece_data.
         sx_return (sha1 piece_data = take 20 (drop (piece_index * 20) (ti_pieces info)))))"

definition mark_piece :: "nat \<Rightarrow> PieceStatus \<Rightarrow> (FileManager, file_error, unit) sx" where
  "mark_piece i status = sx_modify (\<lambda>fm. fm\<lparr> fm_session := set_piece_status i status (fm_session fm) \<rparr>)"

fun verify_loop :: "(byte list \<Rightarrow> byte list) \<Rightarrow> nat list \<Rightarrow> nat \<Rightarrow> (FileManager, file_error, nat) sx" where
  "verify_loop sha1 [] have_count = sx_return have_count"
| "verify_loop sha1 (i # is) have_count =
    sx_bind (sx_gets (\<lambda>fm. piece_status (fm_session fm) i)) (\<lambda>status.
    if status = Skipped then verify_loop sha1 is have_count
    else sx_bind (verify_piece sha1 i) (\<lambda>valid.
      if valid then sx_bind (mark_piece i Have) (\<lambda>_. verify_loop sha1 is (Suc have_count))
      else sx_bind (mark_piece i Needed) (\<lambda>_. verify_loop sha1 is have_count)))"

definition verify_pieces :: "(byte list \<Rightarrow> byte list) \<Rightarrow> (FileManager, file_error, unit) sx" where
  "verify_pieces sha1 =
    sx_bind (sx_gets (\<lambda>fm. ss_num_pieces (fm_session fm))) (\<lambda>num_pieces.
    sx_bind (verify_loop sha1 [0..<num_pieces] 0) (\<lambda>have_count.
    sx_modify (\<lambda>fm. fm\<lparr> fm_session := (fm_session fm)\<lparr> ss_completed_pieces := have_count \<rparr> \<rparr>)))"

fun verify_all :: "(byte list \<Rightarrow> byte list) \<Rightarrow> nat list \<Rightarrow> (FileManager, file_error, bool) sx" where
  "verify_all sha1 [] = sx_return True"
| "verify_all sha1 (i # is) =
    sx_bind (verify_piece sha1 i) (\<lambda>valid. if valid then verify_all sha1 is else sx_return False)"

text \<open>\<open>path_ok\<close> stands for the checks of the content path (\<^verbatim>\<open>is_directory\<close>, \<^verbatim>\<open>is_regular_file\<close>).\<close>

definition verify_seed_data :: "(byte list \<Rightarrow> byte list) \<Rightarrow> bool \<Rightarrow> (FileManager, file_error, bool) sx" where
  "verify_seed_data sha1 path_ok =
    sx_bind (sx_gets fm_session) (\<lambda>ss. sx_bind (sx_gets fm_disk) (\<lambda>d.
      let found = map (\<lambda>f. d (get_full_path_for_file ss f)) (ti_files (torrent_info ss))
      in if \<not> path_ok \<or> None \<in> set found then sx_return False
         else if to_u64 (sum_list (map (\<lambda>c. length (the c)) found)) \<noteq> ti_total_size (torrent_info ss) then sx_return False
         else verify_all sha1 [0..<ss_num_pieces ss]))"

subsection \<open>Definitions: pre-allocation and the resume file\<close>

text \<open>The decision for one file: \<open>reply\<close> is the answer to the prompt for it (\<open>None\<close> when the prompt times out
  and throws), asked for only while no decision for all files is in force.  The result is whether to
  download the file and the decision from then on.\<close>

definition decide_file :: "int option \<Rightarrow> bool option \<Rightarrow> (bool \<times> bool option) option" where
  "decide_file reply download_all =
    (case download_all of
       Some v \<Rightarrow> Some (v, Some v)
     | None \<Rightarrow> (case reply of
           None \<Rightarrow> None
         | Some ans \<Rightarrow> Some (if ans = 1 then (True, None)
               else if ans = 2 then (False, None)
               else if ans = 3 then (True, Some True)
               else if ans = 4 then (False, Some False)
               else (True, None))))"

definition preallocate_file :: "nat \<Rightarrow> bool \<Rightarrow> FileManager \<Rightarrow> FileManager" where
  "preallocate_file i download fm =
    (let full_path = get_full_path_for_file (fm_session fm) (ti_files (torrent_info (fm_session fm)) ! i);
         fm = fm\<lparr> fm_session := update_file_stat i download (fm_session fm) \<rparr>;
         file = ti_files (torrent_info (fm_session fm)) ! i
     in if fi_download file \<and> fm_disk fm full_path = None
        then fm\<lparr> fm_disk := (fm_disk fm)(full_path \<mapsto> replicate (fi_size file) 0) \<rparr> else fm)"

fun preallocate_loop :: "(nat \<Rightarrow> int option) \<Rightarrow> nat list \<Rightarrow> bool option \<Rightarrow> FileManager \<Rightarrow> bool \<times> FileManager" where
  "preallocate_loop reply [] download_all fm = (True, fm)"
| "preallocate_loop reply (i # is) download_all fm =
    (case decide_file (reply i) download_all of
       None \<Rightarrow> (False, fm)
     | Some (download, download_all) \<Rightarrow> preallocate_loop reply is download_all (preallocate_file i download fm))"

definition set_needed :: "nat \<Rightarrow> FileManager \<Rightarrow> FileManager" where
  "set_needed p fm =
    (let is_needed = list_ex (\<lambda>ov. fi_download (ti_files (torrent_info (fm_session fm)) ! po_file_index ov))
           (piece_overlaps (fm_piece_to_files fm) p)
     in fm\<lparr> fm_session := set_piece_status p (if is_needed then Needed else Skipped) (fm_session fm) \<rparr>)"

definition preallocate_files :: "bool \<Rightarrow> (nat \<Rightarrow> int option) \<Rightarrow> FileManager \<Rightarrow> (bool \<times> FileManager) option" where
  "preallocate_files auto_approve_all reply fm =
    (case build_maps (fm_session fm) of
       None \<Rightarrow> None
     | Some (piece_to_files, file_to_pieces) \<Rightarrow>
         let fm = fm\<lparr> fm_piece_to_files := piece_to_files, fm_file_to_pieces := file_to_pieces \<rparr>;
             (ok, fm) = preallocate_loop reply [0..<length (ti_files (torrent_info (fm_session fm)))]
                    (if auto_approve_all then Some True else None) fm
         in Some (if ok then (True, fold set_needed [0..<ss_num_pieces (fm_session fm)] fm) else (False, fm)))"

text \<open>The modification times of the files that exist, by path; \<open>mtime\<close> is the clock of the file system.\<close>

definition async_get_file_mtimes :: "(string \<Rightarrow> int) \<Rightarrow> FileManager \<Rightarrow> (string \<times> int) list" where
  "async_get_file_mtimes mtime fm =
    fold (\<lambda>file_info mtimes. let full_path = get_full_path_for_file (fm_session fm) file_info
        in if fm_disk fm full_path = None then mtimes else map_assign (fi_path file_info) (mtime full_path) mtimes)
      (ti_files (torrent_info (fm_session fm))) []"

definition save_resume_data :: "string \<Rightarrow> (FileManager, file_error, unit) sx" where
  "save_resume_data data fm =
    (let p = get_resume_file_path (fm_session fm);
         temp_path = p @ ''.tmp'';
         d = fm_disk fm;
         d = (if d temp_path = None then d(temp_path \<mapsto> []) else d);
         d = (case async_write_to_file (fm_cancelled fm) d temp_path 0 (bytes_of_string data) of None \<Rightarrow> d | Some d \<Rightarrow> d)
     in (Inr (), fm\<lparr> fm_disk := d(p := d temp_path, temp_path := None) \<rparr>))"

definition load_resume_data :: "FileManager \<Rightarrow> file_error + string option" where
  "load_resume_data fm =
    (let p = get_resume_file_path (fm_session fm) in
     case fm_disk fm p of
       None \<Rightarrow> Inr None
     | Some c \<Rightarrow>
         if c = [] then Inr None
         else (case async_read_from_file (fm_cancelled fm) (fm_disk fm) p 0 0 of
             None \<Rightarrow> Inl ReadError
           | Some bytes \<Rightarrow> Inr (Some (string_of_bytes bytes))))"

subsection \<open>Blocks and the bytes they hold\<close>

definition valid_key :: "SessionState \<Rightarrow> cache_key \<Rightarrow> bool" where
  "valid_key ss k \<longleftrightarrow> fst k < ss_num_pieces ss \<and> BLOCK_SIZE dvd snd k \<and> snd k < plen ss (fst k)"

definition block_pos :: "SessionState \<Rightarrow> cache_key \<Rightarrow> nat" where
  "block_pos ss k = fst k * psize ss + snd k"

definition block_len :: "SessionState \<Rightarrow> cache_key \<Rightarrow> nat" where
  "block_len ss k = min BLOCK_SIZE (plen ss (fst k) - snd k)"

definition block_key :: "SessionState \<Rightarrow> nat \<Rightarrow> cache_key" where
  "block_key ss g = (g div psize ss, g mod psize ss - g mod psize ss mod BLOCK_SIZE)"

lemma BLOCK_SIZE_pos: "0 < BLOCK_SIZE"
  by (simp add: BLOCK_SIZE_def)

lemma block_key_iff:
  assumes "wf_torrent ss" "valid_key ss k" "g < tsize ss"
  shows "block_pos ss k \<le> g \<and> g < block_pos ss k + block_len ss k \<longleftrightarrow> block_key ss g = k"
proof -
  obtain p b where k: "k = (p, b)"
    by (cases k)
  have p: "p < ss_num_pieces ss" "BLOCK_SIZE dvd b" "b < plen ss p"
    using assms(2) by (simp_all add: valid_key_def k)
  let ?ps = "psize ss"
  note pl = plen_bounds [OF assms(1) p(1)] and wf = wf_basic [OF assms(1)]
  show ?thesis
  proof
    assume "block_pos ss k \<le> g \<and> g < block_pos ss k + block_len ss k"
    then obtain j where g: "g = p * ?ps + (b + j)" and j: "j < BLOCK_SIZE" "b + j < plen ss p"
      by (auto simp: block_pos_def block_len_def k le_iff_add add.assoc)
    have "b + j < ?ps"
      using j(2) pl(2) by simp
    then have "g div ?ps = p" "g mod ?ps = b + j"
      unfolding g using wf(1) by simp_all
    moreover have "(b + j) mod BLOCK_SIZE = j"
      using p(2) j(1) by (auto elim!: dvdE)
    ultimately show "block_key ss g = k"
      by (simp add: block_key_def k)
  next
    assume "block_key ss g = k"
    then have *: "g div ?ps = p" "b = g mod ?ps - g mod ?ps mod BLOCK_SIZE"
      by (auto simp: block_key_def k)
    define r where "r = g mod ?ps"
    have g: "g = p * ?ps + r" "r < ?ps"
      using * wf(1) by (simp_all add: r_def) (metis div_mult_mod_eq)
    have "b \<le> r" "r < b + BLOCK_SIZE"
      using *(2) mod_less_divisor [OF BLOCK_SIZE_pos, of r] mod_less_eq_dividend [of r BLOCK_SIZE]
      unfolding r_def [symmetric] by linarith+
    moreover have "r < plen ss p"
      using g assms(3) by (simp add: plen_def)
    ultimately show "block_pos ss k \<le> g \<and> g < block_pos ss k + block_len ss k"
      unfolding g(1) by (simp add: block_pos_def block_len_def k)
  qed
qed

lemma block_range:
  assumes "wf_torrent ss" "valid_key ss k"
  shows "block_pos ss k + block_len ss k \<le> tsize ss" "snd k + block_len ss k \<le> plen ss (fst k)" "0 < block_len ss k"
  using plen_bounds [OF assms(1), of "fst k"] assms(2) BLOCK_SIZE_pos
  by (auto simp: valid_key_def block_pos_def block_len_def)

lemma blocks_disjoint:
  assumes "wf_torrent ss" "valid_key ss k" "valid_key ss k'" "k \<noteq> k'"
    and "block_pos ss k \<le> g" "g < block_pos ss k + block_len ss k"
  shows "\<not> (block_pos ss k' \<le> g \<and> g < block_pos ss k' + block_len ss k')"
proof -
  have "g < tsize ss"
    using block_range(1) [OF assms(1,2)] assms(6) by simp
  then show ?thesis
    using block_key_iff [OF assms(1,2)] block_key_iff [OF assms(1,3)] assms(4-6) by blast
qed

text \<open>A memory image with blocks laid over it.\<close>

definition overlay :: "SessionState \<Rightarrow> (cache_key \<rightharpoonup> byte list) \<Rightarrow> byte list \<Rightarrow> byte list" where
  "overlay ss ov st = map (\<lambda>g. case ov (block_key ss g) of
      None \<Rightarrow> st ! g | Some d \<Rightarrow> d ! (g - block_pos ss (block_key ss g))) [0..<length st]"

lemma length_overlay [simp]: "length (overlay ss ov st) = length st"
  by (simp add: overlay_def)

lemma nth_overlay [simp]: "g < length st \<Longrightarrow> overlay ss ov st ! g =
    (case ov (block_key ss g) of None \<Rightarrow> st ! g | Some d \<Rightarrow> d ! (g - block_pos ss (block_key ss g)))"
  by (simp add: overlay_def split: option.split)

lemma overlay_empty [simp]: "overlay ss (\<lambda>k. None) st = st"
  by (rule nth_equalityI) simp_all

lemma overlay_write:
  assumes "wf_torrent ss" "valid_key ss k" "length d = block_len ss k" "length st = tsize ss"
  shows "overlay ss (ov(k \<mapsto> d)) st = patch (block_pos ss k) d 0 (overlay ss ov st)"
  using block_key_iff [OF assms(1,2)] assms(3,4) by (intro nth_equalityI) auto

lemma overlay_write_back:
  assumes "wf_torrent ss" "valid_key ss k" "length d = block_len ss k" "length st = tsize ss" "ov k = Some d"
  shows "overlay ss (ov(k := None)) (patch (block_pos ss k) d 0 st) = overlay ss ov st"
proof (rule nth_equalityI)
  fix g
  assume "g < length (overlay ss (ov(k := None)) (patch (block_pos ss k) d 0 st))"
  then have "g < length st"
    by simp
  then show "overlay ss (ov(k := None)) (patch (block_pos ss k) d 0 st) ! g = overlay ss ov st ! g"
    using block_key_iff [OF assms(1,2), of g] assms(3-5) by (auto split: option.split)
qed simp

lemma overlay_slice:
  assumes "wf_torrent ss" "valid_key ss k" "length st = tsize ss" "len \<le> block_len ss k"
  shows "take len (drop (block_pos ss k) (overlay ss ov st)) =
    (case ov k of None \<Rightarrow> take len (drop (block_pos ss k) st) | Some d \<Rightarrow> map ((!) d) [0..<len])"
proof (rule nth_equalityI)
  have len: "block_pos ss k + len \<le> length st"
    using block_range(1) [OF assms(1,2)] assms(3,4) by simp
  then show "length (take len (drop (block_pos ss k) (overlay ss ov st))) =
      length (case ov k of None \<Rightarrow> take len (drop (block_pos ss k) st) | Some d \<Rightarrow> map ((!) d) [0..<len])"
    by (simp split: option.split)
  fix i
  assume "i < length (take len (drop (block_pos ss k) (overlay ss ov st)))"
  then have i: "i < len"
    by simp
  have "block_key ss (block_pos ss k + i) = k"
    using block_key_iff [OF assms(1,2), of "block_pos ss k + i"] i len assms(3,4) by simp
  then show "take len (drop (block_pos ss k) (overlay ss ov st)) ! i =
      (case ov k of None \<Rightarrow> take len (drop (block_pos ss k) st) | Some d \<Rightarrow> map ((!) d) [0..<len]) ! i"
    using i len by (simp split: option.split)
qed

subsection \<open>The invariant of the cache\<close>

definition cache_bytes :: "(cache_key \<times> byte list) list \<Rightarrow> nat" where
  "cache_bytes m = sum_list (map (\<lambda>(k, d). length d) m)"

lemma cache_bytes_erase:
  "sorted_keys m \<Longrightarrow> map_of m k = Some d \<Longrightarrow> cache_bytes (map_erase k m) + length d = cache_bytes m"
proof (induction m)
  case (Cons e m)
  obtain k' v where e: "e = (k', v)"
    by (cases e)
  have "map_erase k m = m" if "k' = k"
    using that Cons.prems(1) by (auto simp: e map_erase_def filter_id_conv)
  then show ?case
    using Cons by (cases "k' = k") (auto simp: e cache_bytes_def map_erase_def)
qed simp

lemma cache_bytes_assign:
  "sorted_keys m \<Longrightarrow> cache_bytes (map_assign k v m) + (case map_of m k of None \<Rightarrow> 0 | Some d \<Rightarrow> length d) =
    cache_bytes m + length v"
proof (induction k v m rule: map_assign.induct)
  case (2 k v k' v' m)
  have "map_of m k = None" if "k < k'"
    using that "2.prems" by (force simp: map_of_eq_None_iff)
  then show ?case
    using 2 by (auto simp: cache_bytes_def)
qed (simp add: cache_bytes_def)

text \<open>A dirty entry is a whole block.  A clean entry agrees with the files; it may be longer than a block when
  it starts a piece that has no dirty block, as after the verification of that piece.\<close>

definition readable :: "SessionState \<Rightarrow> cache_key set \<Rightarrow> cache_key \<Rightarrow> nat \<Rightarrow> bool" where
  "readable ss dirty k len \<longleftrightarrow> valid_key ss k \<and>
    (len \<le> block_len ss k \<or> snd k = 0 \<and> len \<le> plen ss (fst k) \<and> (\<forall>k'\<in>dirty. fst k' \<noteq> fst k))"

definition entry_ok :: "SessionState \<Rightarrow> byte list \<Rightarrow> cache_key set \<Rightarrow> cache_key \<Rightarrow> byte list \<Rightarrow> bool" where
  "entry_ok ss st dirty k d \<longleftrightarrow> readable ss dirty k (length d) \<and>
    (if k \<in> dirty then length d = block_len ss k else d = take (length d) (drop (block_pos ss k) st))"

lemma readable_range:
  assumes "wf_torrent ss" "readable ss dirty k len"
  shows "valid_key ss k" "snd k + len \<le> plen ss (fst k)" "block_pos ss k + len \<le> tsize ss"
proof -
  show k: "valid_key ss k"
    using assms(2) by (simp add: readable_def)
  then show *: "snd k + len \<le> plen ss (fst k)"
    using assms(2) block_range(2) [OF assms(1) k] by (auto simp: readable_def)
  show "block_pos ss k + len \<le> tsize ss"
    using * plen_bounds(3) [OF assms(1), of "fst k"] k by (simp add: valid_key_def block_pos_def)
qed

lemma block_key_piece:
  assumes "wf_torrent ss" "k = (p, b)" "block_pos ss k \<le> g" "g < block_pos ss k + len" "b + len \<le> plen ss p" "p < ss_num_pieces ss"
  shows "fst (block_key ss g) = p"
proof -
  obtain j where "g = p * psize ss + (b + j)" "j < len"
    using assms(2-4) by (auto simp: block_pos_def le_iff_add add.assoc)
  then show ?thesis
    using assms(5) plen_bounds(2) [OF assms(1,6)] by (simp add: block_key_def)
qed

text \<open>A range read through the overlay without meeting a block of it is the range of the image.\<close>

lemma readable_blocks:
  assumes "wf_torrent ss" "readable ss dirty k len" "block_pos ss k \<le> g" "g < block_pos ss k + len"
  shows "block_key ss g = k \<or> block_key ss g \<notin> dirty"
proof (cases "len \<le> block_len ss k")
  case True
  then show ?thesis
    using block_key_iff [OF assms(1) readable_range(1) [OF assms(1,2)], of g] readable_range(3) [OF assms(1,2)] assms(3,4)
    by simp
next
  case False
  then have "\<forall>k'\<in>dirty. fst k' \<noteq> fst k"
    using assms(2) by (simp add: readable_def)
  moreover have "fst (block_key ss g) = fst k"
    using block_key_piece [OF assms(1) _ assms(3,4), of "fst k" "snd k"] readable_range(1,2) [OF assms(1,2)]
    by (simp add: valid_key_def)
  ultimately show ?thesis
    by blast
qed

text \<open>The files are complete and the maps are those of the torrent.\<close>

definition fm_ready :: "FileManager \<Rightarrow> bool" where
  "fm_ready fm \<longleftrightarrow> wf_torrent (fm_session fm) \<and> disk_ok (fm_session fm) (fm_disk fm) \<and> \<not> fm_cancelled fm \<and>
    build_maps (fm_session fm) = Some (fm_piece_to_files fm, fm_file_to_pieces fm)"

definition fm_inv :: "FileManager \<Rightarrow> bool" where
  "fm_inv fm \<longleftrightarrow> fm_ready fm \<and> sorted_keys (fm_cache fm) \<and> distinct (fm_lru fm) \<and>
    set (fm_lru fm) = fst ` set (fm_cache fm) \<and> distinct (fm_dirty fm) \<and> set (fm_dirty fm) \<subseteq> fst ` set (fm_cache fm) \<and>
    cache_bytes (fm_cache fm) \<le> fm_cache_size fm \<and>
    (\<forall>k d. map_of (fm_cache fm) k = Some d \<longrightarrow>
      entry_ok (fm_session fm) (stored (fm_session fm) (fm_disk fm)) (set (fm_dirty fm)) k d)"

text \<open>The bytes of the torrent as a reader of the cache sees them.\<close>

definition dirty_map :: "FileManager \<Rightarrow> cache_key \<rightharpoonup> byte list" where
  "dirty_map fm k = (if k \<in> set (fm_dirty fm) then map_of (fm_cache fm) k else None)"

definition content :: "FileManager \<Rightarrow> byte list" where
  "content fm = overlay (fm_session fm) (dirty_map fm) (stored (fm_session fm) (fm_disk fm))"

text \<open>One state is as good as another: same torrent, same bytes, and the invariant holds.\<close>

definition same_bytes :: "FileManager \<Rightarrow> FileManager \<Rightarrow> bool" where
  "same_bytes fm fm' \<longleftrightarrow> fm_inv fm' \<and> fm_session fm' = fm_session fm \<and> content fm' = content fm"

lemma same_bytes_trans: "same_bytes a b \<Longrightarrow> same_bytes b c \<Longrightarrow> same_bytes a c"
  by (simp add: same_bytes_def)

lemma same_bytes_refl: "fm_inv fm \<Longrightarrow> same_bytes fm fm"
  by (simp add: same_bytes_def)

lemma fm_inv_D:
  assumes "fm_inv fm"
  shows "fm_ready fm" "sorted_keys (fm_cache fm)" "distinct (fm_lru fm)" "set (fm_lru fm) = fst ` set (fm_cache fm)"
    "distinct (fm_dirty fm)" "set (fm_dirty fm) \<subseteq> fst ` set (fm_cache fm)" "cache_bytes (fm_cache fm) \<le> fm_cache_size fm"
    "\<And>k d. map_of (fm_cache fm) k = Some d \<Longrightarrow>
      entry_ok (fm_session fm) (stored (fm_session fm) (fm_disk fm)) (set (fm_dirty fm)) k d"
  using assms unfolding fm_inv_def by blast+

lemma fm_ready_D:
  assumes "fm_ready fm"
  shows "wf_torrent (fm_session fm)" "disk_ok (fm_session fm) (fm_disk fm)" "\<not> fm_cancelled fm"
    "build_maps (fm_session fm) = Some (fm_piece_to_files fm, fm_file_to_pieces fm)"
    "length (stored (fm_session fm) (fm_disk fm)) = tsize (fm_session fm)"
  using assms length_stored unfolding fm_ready_def by blast+

lemma write_disk:
  assumes "fm_ready fm" "valid_key (fm_session fm) k" "length d = block_len (fm_session fm) k"
  defines "d' \<equiv> sync_write_block (fm_session fm) (fm_piece_to_files fm) k d (fm_disk fm)"
  shows "fm_ready (fm\<lparr> fm_disk := d' \<rparr>)"
    "stored (fm_session fm) d' = patch (block_pos (fm_session fm) k) d 0 (stored (fm_session fm) (fm_disk fm))"
    "d' = write_overlaps (async_write_to_file (fm_cancelled fm)) (fm_session fm) (snd k) d
      (piece_overlaps (fm_piece_to_files fm) (fst k)) (fm_disk fm)"
proof -
  note r = fm_ready_D [OF assms(1)]
  note br = block_range [OF r(1) assms(2)]
  have "d \<noteq> []"
    using br(3) assms(3) by auto
  then have d': "d' = write_overlaps write_file (fm_session fm) (snd k) d
      (piece_overlaps (fm_piece_to_files fm) (fst k)) (fm_disk fm)"
    by (simp add: d'_def sync_write_block_def split_beta)
  have wb: "disk_ok (fm_session fm) d' \<and>
      stored (fm_session fm) d' = patch (fst k * psize (fm_session fm) + snd k) d 0 (stored (fm_session fm) (fm_disk fm))"
    unfolding d' using r(1,2,4) assms(2,3) br(2) by (intro write_block_stored) (simp_all add: valid_key_def)
  then show "fm_ready (fm\<lparr> fm_disk := d' \<rparr>)"
    using r by (simp add: fm_ready_def)
  show "stored (fm_session fm) d' = patch (block_pos (fm_session fm) k) d 0 (stored (fm_session fm) (fm_disk fm))"
    using wb by (simp add: block_pos_def)
  have "\<forall>f\<in>set (tfiles (fm_session fm)). fm_disk fm (get_full_path_for_file (fm_session fm) f) \<noteq> None"
    using r(2) by (auto simp: disk_ok_def)
  then show "d' = write_overlaps (async_write_to_file (fm_cancelled fm)) (fm_session fm) (snd k) d
      (piece_overlaps (fm_piece_to_files fm) (fst k)) (fm_disk fm)"
    using r(3) d' write_overlaps_async by simp
qed

lemma entry_ok_patch:
  assumes "wf_torrent ss" "valid_key ss k" "length d = block_len ss k" "length st = tsize ss" "entry_ok ss st D k' d'"
    and "k' \<noteq> k" "k \<in> D"
  shows "entry_ok ss (patch (block_pos ss k) d 0 st) (D - {k}) k' d'"
proof -
  have k': "readable ss D k' (length d')"
    using assms(5) by (simp add: entry_ok_def)
  have "\<not> (block_pos ss k \<le> g \<and> g < block_pos ss k + length d)"
    if "block_pos ss k' \<le> g" "g < block_pos ss k' + length d'" for g
    using readable_blocks [OF assms(1) k' that] block_key_iff [OF assms(1,2), of g] readable_range(3) [OF assms(1) k']
      that assms(3,6,7) by auto
  then have "take (length d') (drop (block_pos ss k') (patch (block_pos ss k) d 0 st)) = take (length d') (drop (block_pos ss k') st)"
    using readable_range(3) [OF assms(1) k'] assms(4) by (intro nth_equalityI) auto
  moreover have "readable ss (D - {k}) k' (length d')"
    using k' by (auto simp: readable_def)
  ultimately show ?thesis
    using assms(5,6) by (simp add: entry_ok_def)
qed

lemma slice_patch:
  "pos + length d \<le> length st \<Longrightarrow> take (length d) (drop pos (patch pos d 0 st)) = d"
  by (rule nth_equalityI) auto

lemma write_back_same:
  assumes "fm_inv fm" "map_of (fm_cache fm) k = Some d" "k \<in> set (fm_dirty fm)"
  shows "same_bytes fm (write_back k d fm)"
proof -
  let ?ss = "fm_session fm" and ?st = "stored (fm_session fm) (fm_disk fm)"
  note i = fm_inv_D [OF assms(1)]
  note r = fm_ready_D [OF i(1)]
  have k: "valid_key ?ss k" "length d = block_len ?ss k"
    using i(8) [OF assms(2)] assms(3) by (simp_all add: entry_ok_def readable_def)
  note w = write_disk [OF i(1) k]
  have "entry_ok ?ss (patch (block_pos ?ss k) d 0 ?st) (set (fm_dirty fm) - {k}) k' d'" if "map_of (fm_cache fm) k' = Some d'" for k' d'
  proof (cases "k' = k")
    case True
    then show ?thesis
      using that assms(2) k slice_patch [of "block_pos ?ss k" d ?st] block_range(1) [OF r(1) k(1)] r(5)
      by (simp add: entry_ok_def readable_def)
  next
    case False
    then show ?thesis
      using entry_ok_patch [OF r(1) k r(5) i(8) [OF that]] assms(3) by simp
  qed
  then have "fm_inv (write_back k d fm)"
    using i w by (auto simp: fm_inv_def write_back_def fm_ready_def distinct_removeAll)
  moreover have "dirty_map (write_back k d fm) = (dirty_map fm)(k := None)"
    by (rule ext) (simp add: dirty_map_def write_back_def)
  moreover have "dirty_map fm k = Some d"
    using assms by (simp add: dirty_map_def)
  ultimately show ?thesis
    using overlay_write_back [OF r(1) k r(5)] w(2) by (simp add: same_bytes_def content_def write_back_def)
qed

subsection \<open>Every operation keeps the invariant\<close>

lemma inv_cached: "fm_inv fm \<Longrightarrow> k \<in> set (fm_lru fm) \<Longrightarrow> \<exists>d. map_of (fm_cache fm) k = Some d"
  using fm_inv_D(4) [of fm] by (metis map_of_eq_None_iff not_None_eq)

definition drop_last :: "FileManager \<Rightarrow> FileManager" where
  "drop_last fm = fm\<lparr> fm_lru := butlast (fm_lru fm),
     fm_cache_size := fm_cache_size fm - length (the (map_of (fm_cache fm) (last (fm_lru fm)))),
     fm_cache := map_erase (last (fm_lru fm)) (fm_cache fm) \<rparr>"

lemma keys_map_erase: "fst ` set (map_erase k m) = fst ` set m - {k}"
  by (auto simp: map_erase_def)

lemma drop_last_same:
  assumes "fm_inv fm" "fm_lru fm \<noteq> []" "last (fm_lru fm) \<notin> set (fm_dirty fm)"
  shows "same_bytes fm (drop_last fm)"
proof -
  let ?k = "last (fm_lru fm)"
  note i = fm_inv_D [OF assms(1)]
  obtain d where d: "map_of (fm_cache fm) ?k = Some d"
    using inv_cached [OF assms(1) last_in_set [OF assms(2)]] by blast
  have "set (butlast xs) = set xs - {last xs}" if "distinct xs" "xs \<noteq> []" for xs :: "cache_key list"
    using that by (cases xs rule: rev_cases) auto
  then have "set (butlast (fm_lru fm)) = set (fm_lru fm) - {?k}"
    using i(3) assms(2) by blast
  moreover have "cache_bytes (map_erase ?k (fm_cache fm)) + length d = cache_bytes (fm_cache fm)"
    using cache_bytes_erase [OF i(2) d] .
  ultimately have "fm_inv (drop_last fm)"
    using i assms(3) d by (auto simp: fm_inv_def drop_last_def fm_ready_def keys_map_erase map_simps distinct_butlast)
  moreover have "dirty_map (drop_last fm) = dirty_map fm"
    using assms(3) by (intro ext) (auto simp: dirty_map_def drop_last_def map_simps)
  ultimately show ?thesis
    by (simp add: same_bytes_def content_def drop_last_def)
qed

lemma evict_last_same:
  assumes "fm_inv fm" "fm_lru fm \<noteq> []"
  shows "same_bytes fm (evict_last fm)"
proof -
  let ?k = "last (fm_lru fm)"
  obtain d where d: "map_of (fm_cache fm) ?k = Some d"
    using inv_cached [OF assms(1) last_in_set [OF assms(2)]] by blast
  show ?thesis
  proof (cases "?k \<in> set (fm_dirty fm)")
    case True
    then have wb: "same_bytes fm (write_back ?k d fm)"
      using write_back_same [OF assms(1) d] by simp
    then have "same_bytes (write_back ?k d fm) (drop_last (write_back ?k d fm))"
      using assms(2) by (intro drop_last_same) (simp_all add: same_bytes_def write_back_def)
    moreover have "evict_last fm = drop_last (write_back ?k d fm)"
      using True d by (simp add: evict_last_def drop_last_def write_back_def Let_def)
    ultimately show ?thesis
      using same_bytes_trans [OF wb] by simp
  next
    case False
    then have "evict_last fm = drop_last fm"
      using d by (simp add: evict_last_def drop_last_def Let_def)
    then show ?thesis
      using drop_last_same [OF assms False] by simp
  qed
qed

lemma evict_if_needed_same: "fm_inv fm \<Longrightarrow> same_bytes fm (evict_if_needed fm)"
proof (induction fm rule: evict_if_needed.induct)
  case (1 fm)
  show ?case
  proof (cases "DISK_CACHE_SIZE < fm_cache_size fm \<and> fm_lru fm \<noteq> []")
    case True
    then have e: "same_bytes fm (evict_last fm)"
      using evict_last_same "1.prems" by simp
    then have "same_bytes (evict_last fm) (evict_if_needed (evict_last fm))"
      using 1 True by (simp add: same_bytes_def)
    then show ?thesis
      using same_bytes_trans [OF e] True by (simp add: evict_if_needed.simps [of fm])
  next
    case False
    then show ?thesis
      using same_bytes_refl [OF "1.prems"] by (simp only: evict_if_needed.simps [of fm] if_False)
  qed
qed

lemma evict_bound: "fm_cache_size (evict_if_needed fm) \<le> DISK_CACHE_SIZE \<or> fm_lru (evict_if_needed fm) = []"
proof (induction fm rule: evict_if_needed.induct)
  case (1 fm)
  show ?case
  proof (cases "DISK_CACHE_SIZE < fm_cache_size fm \<and> fm_lru fm \<noteq> []")
    case True
    then show ?thesis
      using "1.IH" by (simp only: evict_if_needed.simps [of fm] if_True simp_thms)
  next
    case False
    then show ?thesis
      by (simp only: evict_if_needed.simps [of fm] if_False) auto
  qed
qed

lemma dirty_map_lru [simp]: "dirty_map (fm\<lparr> fm_lru := l \<rparr>) = dirty_map fm"
  by (intro ext) (simp add: dirty_map_def)

lemma touch_same:
  assumes "fm_inv fm" "k \<in> fst ` set (fm_cache fm)"
  shows "same_bytes fm (touch_cache k fm)"
proof -
  have "set (k # removeAll k (fm_lru fm)) = fst ` set (fm_cache fm)"
    using fm_inv_D(4) [OF assms(1)] assms(2) by auto
  then have "fm_inv (touch_cache k fm)"
    using assms(1) by (simp add: fm_inv_def touch_cache_def fm_ready_def distinct_removeAll)
  then show ?thesis
    by (simp add: same_bytes_def content_def touch_cache_def)
qed

text \<open>Eviction only takes entries out.\<close>

definition shrinks :: "FileManager \<Rightarrow> FileManager \<Rightarrow> bool" where
  "shrinks fm fm' \<longleftrightarrow> set (fm_dirty fm') \<subseteq> set (fm_dirty fm) \<and> map_of (fm_cache fm') \<subseteq>\<^sub>m map_of (fm_cache fm)"

lemma evict_last_shrinks: "shrinks fm (evict_last fm)"
  by (auto simp: shrinks_def evict_last_def write_back_def Let_def map_le_def map_simps dom_def split: option.split)

lemma evict_shrinks: "shrinks fm (evict_if_needed fm)"
proof (induction fm rule: evict_if_needed.induct)
  case (1 fm)
  show ?case
  proof (cases "DISK_CACHE_SIZE < fm_cache_size fm \<and> fm_lru fm \<noteq> []")
    case True
    then have "evict_if_needed fm = evict_if_needed (evict_last fm)"
      by (simp only: evict_if_needed.simps [of fm] if_True simp_thms)
    then show ?thesis
      using "1.IH" [OF True] evict_last_shrinks [of fm] by (auto simp: shrinks_def intro: map_le_trans)
  next
    case False
    then have "evict_if_needed fm = fm"
      by (simp only: evict_if_needed.simps [of fm] if_False)
    then show ?thesis
      by (simp add: shrinks_def)
  qed
qed

text \<open>The entry at the start of a piece is not longer than a block.\<close>

definition short_start :: "nat \<Rightarrow> FileManager \<Rightarrow> bool" where
  "short_start p fm \<longleftrightarrow> (\<forall>d. map_of (fm_cache fm) (p, 0) = Some d \<longrightarrow> length d \<le> block_len (fm_session fm) (p, 0))"

lemma short_start_shrinks: "short_start p fm \<Longrightarrow> shrinks fm fm' \<Longrightarrow> fm_session fm' = fm_session fm \<Longrightarrow> short_start p fm'"
  by (fastforce simp: short_start_def shrinks_def map_le_def dom_def)

lemma cache_write_content:
  assumes "fm_inv fm" "valid_key (fm_session fm) k" "length d = block_len (fm_session fm) k"
    and "snd k = 0 \<or> short_start (fst k) fm"
  shows "fm_inv (cache_write k d fm)" "fm_session (cache_write k d fm) = fm_session fm"
    "content (cache_write k d fm) = patch (block_pos (fm_session fm) k) d 0 (content fm)"
    "short_start (fst k) (cache_write k d fm)"
proof -
  define e where "e = evict_if_needed fm"
  have e: "fm_inv e" "fm_session e = fm_session fm" "content e = content fm"
    using evict_if_needed_same [OF assms(1)] by (simp_all add: same_bytes_def e_def)
  note i = fm_inv_D [OF e(1)]
  note r = fm_ready_D [OF i(1)]
  define old where "old = (case map_of (fm_cache e) k of None \<Rightarrow> 0 | Some data \<Rightarrow> length data)"
  have cw: "cache_write k d fm = e\<lparr> fm_cache_size := fm_cache_size e - old + length d,
      fm_cache := map_assign k d (fm_cache e), fm_lru := k # removeAll k (fm_lru e),
      fm_dirty := insort_insert k (fm_dirty e) \<rparr>"
    by (simp add: cache_write_def Let_def e_def old_def touch_cache_def)
  have "cache_bytes (map_assign k d (fm_cache e)) + old = cache_bytes (fm_cache e) + length d"
    using cache_bytes_assign [OF i(2)] by (simp add: old_def)
  then have "cache_bytes (map_assign k d (fm_cache e)) \<le> fm_cache_size e - old + length d"
    using i(7) by linarith
  moreover have "entry_ok (fm_session e) (stored (fm_session e) (fm_disk e)) (insert k (set (fm_dirty e))) k' d'"
    if "map_of (fm_cache e) k' = Some d'" "k' \<noteq> k" for k' d'
  proof -
    have "snd k = 0 \<or> short_start (fst k) e"
      using assms(4) short_start_shrinks [OF _ evict_shrinks] e(2) by (auto simp: e_def)
    then have "length d' \<le> block_len (fm_session e) k'" if "snd k' = 0" "fst k' = fst k"
      using that \<open>map_of (fm_cache e) k' = Some d'\<close> \<open>k' \<noteq> k\<close>
      by (metis prod.collapse short_start_def)
    then show ?thesis
      using i(8) [OF that(1)] that(2) by (auto simp: entry_ok_def readable_def)
  qed
  moreover have "entry_ok (fm_session e) (stored (fm_session e) (fm_disk e)) (insert k (set (fm_dirty e))) k d"
    using assms(2,3) e(2) by (simp add: entry_ok_def readable_def)
  ultimately show "fm_inv (cache_write k d fm)"
    using i unfolding cw
    by (auto simp: fm_inv_def fm_ready_def distinct_removeAll map_simps set_insort_insert distinct_insort_insert)
  show "fm_session (cache_write k d fm) = fm_session fm"
    using e(2) by (simp add: cw)
  have "snd k = 0 \<or> short_start (fst k) e"
    using assms(4) short_start_shrinks [OF _ evict_shrinks] e(2) by (auto simp: e_def)
  then show "short_start (fst k) (cache_write k d fm)"
    using assms(3) e(2) unfolding cw by (cases k) (auto simp: short_start_def map_simps)
  have "dirty_map (cache_write k d fm) = (dirty_map e)(k \<mapsto> d)"
    unfolding cw by (intro ext) (simp add: dirty_map_def map_simps set_insort_insert)
  then have "content (cache_write k d fm) = overlay (fm_session e) ((dirty_map e)(k \<mapsto> d)) (stored (fm_session e) (fm_disk e))"
    by (simp add: content_def cw)
  also have "\<dots> = patch (block_pos (fm_session fm) k) d 0 (content e)"
    using overlay_write [OF r(1) _ _ r(5)] assms(2,3) e(2) by (simp add: content_def)
  finally show "content (cache_write k d fm) = patch (block_pos (fm_session fm) k) d 0 (content fm)"
    using e(3) by simp
qed

lemma patch_split:
  "patch (g + n) (drop n data) 0 (patch g (take n data) 0 xs) = patch g data 0 xs"
  by (rule nth_equalityI) (auto simp: min_def split: if_splits)

lemma patch_Nil [simp]: "patch g [] 0 xs = xs"
  by (rule patch_outside) simp

definition wrote :: "FileManager \<Rightarrow> nat \<Rightarrow> byte list \<Rightarrow> FileManager \<Rightarrow> bool" where
  "wrote fm g data fm' \<longleftrightarrow> fm_inv fm' \<and> fm_session fm' = fm_session fm \<and> content fm' = patch g data 0 (content fm)"

lemma write_blocks_content:
  assumes "fm_inv fm" "p < ss_num_pieces (fm_session fm)"
    and "data \<noteq> [] \<longrightarrow> k * BLOCK_SIZE + length data = plen (fm_session fm) p" "k = 0 \<or> short_start p fm"
  shows "wrote fm (p * psize (fm_session fm) + k * BLOCK_SIZE) data
    (fold (\<lambda>(k, d). cache_write (p, to_u32 (k * BLOCK_SIZE)) d) (enumerate k (chunks BLOCK_SIZE data)) fm)"
  using assms
proof (induction "length data" arbitrary: data k fm rule: less_induct)
  case less
  show ?case
  proof (cases "data = []")
    case True
    then show ?thesis
      using less.prems(1) by (simp add: wrote_def)
  next
    case False
    let ?ss = "fm_session fm" and ?b = "k * BLOCK_SIZE"
    let ?k = "(p, ?b)" and ?d = "take BLOCK_SIZE data"
    note r = fm_ready_D [OF fm_inv_D(1) [OF less.prems(1)]]
    have len: "?b + length data = plen ?ss p" "0 < length data"
      using less.prems(3) False by simp_all
    have "?b < 4294967296"
      using len plen_bounds(2) [OF r(1) less.prems(2)] wf_basic(2) [OF r(1)] by simp
    then have u: "to_u32 ?b = ?b"
      by simp
    have "?b < plen ?ss p"
      using len by linarith
    then have "valid_key ?ss ?k" "length ?d = block_len ?ss ?k"
      using less.prems(2) len(1) [symmetric] by (simp_all add: valid_key_def block_len_def min.commute)
    then have cw: "fm_inv (cache_write ?k ?d fm)" "fm_session (cache_write ?k ?d fm) = ?ss"
      "content (cache_write ?k ?d fm) = patch (block_pos ?ss ?k) ?d 0 (content fm)" "short_start p (cache_write ?k ?d fm)"
      using cache_write_content [OF less.prems(1), of ?k ?d] less.prems(4) by auto
    have ch: "chunks BLOCK_SIZE data = ?d # chunks BLOCK_SIZE (drop BLOCK_SIZE data)"
      using False BLOCK_SIZE_pos by (subst chunks.simps) simp
    have "drop BLOCK_SIZE data \<noteq> [] \<longrightarrow> Suc k * BLOCK_SIZE + length (drop BLOCK_SIZE data) = plen ?ss p"
      using len by simp
    then show ?thesis
      using less.hyps [of "drop BLOCK_SIZE data" "cache_write ?k ?d fm" "Suc k"] cw less.prems(2) False BLOCK_SIZE_pos u
        patch_split [of "p * psize ?ss + ?b" BLOCK_SIZE data "content fm"]
      by (simp add: wrote_def ch block_pos_def add.assoc add.commute [of BLOCK_SIZE])
  qed
qed

lemma write_piece_content:
  assumes "fm_inv fm" "p < ss_num_pieces (fm_session fm)" "length data = plen (fm_session fm) p"
  shows "wrote fm (p * psize (fm_session fm)) data (write_piece p data fm)"
  using write_blocks_content [of fm p data 0] assms by (simp add: write_piece_def)

lemma content_slice:
  assumes "fm_ready fm" "readable (fm_session fm) (set (fm_dirty fm)) k len" "k \<notin> set (fm_dirty fm)"
  shows "take len (drop (block_pos (fm_session fm) k) (content fm)) =
    take len (drop (block_pos (fm_session fm) k) (stored (fm_session fm) (fm_disk fm)))"
proof (rule nth_equalityI)
  note r = fm_ready_D [OF assms(1)]
  let ?pos = "block_pos (fm_session fm) k"
  fix j
  assume "j < length (take len (drop ?pos (content fm)))"
  then have j: "j < len" "?pos + j < length (stored (fm_session fm) (fm_disk fm))"
    by (auto simp: content_def)
  have "dirty_map fm (block_key (fm_session fm) (?pos + j)) = None"
    using readable_blocks [OF r(1) assms(2), of "?pos + j"] j(1) assms(3) by (auto simp: dirty_map_def)
  then show "take len (drop ?pos (content fm)) ! j = take len (drop ?pos (stored (fm_session fm) (fm_disk fm))) ! j"
    using j by (simp add: content_def)
qed (simp add: content_def)

lemma cache_clean_same:
  assumes "fm_inv fm" "readable (fm_session fm) (set (fm_dirty fm)) k len" "k \<notin> set (fm_dirty fm)"
    and "blk = take len (drop (block_pos (fm_session fm) k) (content fm))"
  shows "same_bytes fm ((touch_cache k (fm\<lparr> fm_cache := map_assign k blk (fm_cache fm) \<rparr>))
    \<lparr> fm_cache_size := fm_cache_size fm + length blk, fm_dirty := removeAll k (fm_dirty fm) \<rparr>)" (is "same_bytes fm ?fm'")
proof -
  let ?ss = "fm_session fm" and ?st = "stored (fm_session fm) (fm_disk fm)"
  note i = fm_inv_D [OF assms(1)]
  note r = fm_ready_D [OF i(1)]
  have blk: "blk = take len (drop (block_pos ?ss k) ?st)"
    using content_slice [OF i(1) assms(2,3)] assms(4) by simp
  have fm': "?fm' = fm\<lparr> fm_cache_size := fm_cache_size fm + length blk, fm_cache := map_assign k blk (fm_cache fm),
      fm_lru := k # removeAll k (fm_lru fm) \<rparr>"
    using assms(3) by (simp add: touch_cache_def)
  have "length blk = len"
    using readable_range(3) [OF r(1) assms(2)] r(5) by (simp add: blk)
  then have "entry_ok ?ss ?st (set (fm_dirty fm)) k blk"
    using assms(2,3) blk by (simp add: entry_ok_def)
  moreover have "cache_bytes (map_assign k blk (fm_cache fm)) \<le> fm_cache_size fm + length blk"
    using cache_bytes_assign [OF i(2), of k blk] i(7) by linarith
  ultimately have "fm_inv ?fm'"
    using i unfolding fm' by (auto simp: fm_inv_def fm_ready_def distinct_removeAll map_simps)
  moreover have "dirty_map ?fm' = dirty_map fm"
    unfolding fm' using assms(3) by (intro ext) (auto simp: dirty_map_def map_simps)
  ultimately show ?thesis
    unfolding fm' by (simp add: same_bytes_def content_def)
qed

text \<open>A read that the cache answers, and one that goes to the files.\<close>

lemma read_hit:
  assumes "fm_inv fm" "readable (fm_session fm) (set (fm_dirty fm)) k len" "map_of (fm_cache fm) k = Some d" "len \<le> length d"
  shows "take len d = take len (drop (block_pos (fm_session fm) k) (content fm))"
proof (cases "k \<in> set (fm_dirty fm)")
  case True
  note i = fm_inv_D [OF assms(1)]
  note r = fm_ready_D [OF i(1)]
  have "valid_key (fm_session fm) k" "len \<le> block_len (fm_session fm) k"
    using i(8) [OF assms(3)] True assms(4) by (simp_all add: entry_ok_def readable_def)
  then have "take len (drop (block_pos (fm_session fm) k) (content fm)) = map ((!) d) [0..<len]"
    using overlay_slice [OF r(1) _ r(5), of k len "dirty_map fm"] True assms(3) by (simp add: content_def dirty_map_def)
  also have "\<dots> = take len d"
    using assms(4) by (intro nth_equalityI) simp_all
  finally show ?thesis
    by simp
next
  case False
  note i = fm_inv_D [OF assms(1)]
  have "take len d = take len (take (length d) (drop (block_pos (fm_session fm) k) (stored (fm_session fm) (fm_disk fm))))"
    using i(8) [OF assms(3)] False by (simp add: entry_ok_def)
  then show ?thesis
    using content_slice [OF i(1) assms(2) False] assms(4) by (simp add: min_def)
qed

lemma read_miss_clean:
  assumes "fm_inv fm" "readable (fm_session fm) (set (fm_dirty fm)) k len"
    and "\<And>d. map_of (fm_cache fm) k = Some d \<Longrightarrow> length d < len"
  shows "k \<notin> set (fm_dirty fm)"
proof
  assume *: "k \<in> set (fm_dirty fm)"
  note i = fm_inv_D [OF assms(1)]
  obtain d where d: "map_of (fm_cache fm) k = Some d"
    using i(6) * by (metis map_of_eq_None_iff not_None_eq subsetD)
  then have "block_len (fm_session fm) k < len"
    using i(8) [OF d] assms(3) * by (simp add: entry_ok_def)
  then show False
    using assms(2) * by (auto simp: readable_def)
qed

lemma read_block_content:
  assumes "fm_inv fm" "readable (fm_session fm) (set (fm_dirty fm)) (p, b) len"
  shows "fst (read_block p b len fm) = Inr (take len (drop (p * psize (fm_session fm) + b) (content fm))) \<and>
    same_bytes fm (snd (read_block p b len fm)) \<and> set (fm_dirty (snd (read_block p b len fm))) \<subseteq> set (fm_dirty fm)"
proof -
  let ?k = "(p, b)" and ?ss = "fm_session fm" and ?st = "stored (fm_session fm) (fm_disk fm)"
  note i = fm_inv_D [OF assms(1)]
  note r = fm_ready_D [OF i(1)]
  have pos: "p * psize ?ss + b = block_pos ?ss ?k"
    by (simp add: block_pos_def)
  show ?thesis
  proof (cases "\<exists>d. map_of (fm_cache fm) ?k = Some d \<and> len \<le> length d")
    case True
    then obtain d where d: "map_of (fm_cache fm) ?k = Some d" "len \<le> length d"
      by blast
    then have "?k \<in> fst ` set (fm_cache fm)"
      by (metis map_of_eq_None_iff option.distinct(1))
    then show ?thesis
      using d touch_same [OF assms(1)] read_hit [OF assms d] pos by (simp add: read_block_def populate_cache_def Let_def touch_cache_def)
  next
    case False
    then have clean: "?k \<notin> set (fm_dirty fm)"
      using read_miss_clean [OF assms] by (meson not_le)
    define blk where "blk = take len (drop (block_pos ?ss ?k) ?st)"
    have disk: "read_from_disk (fm_cancelled fm) (fm_disk fm) ?ss p b len = Inr blk"
      using read_from_disk_stored [OF r(1,2), of p b len] readable_range(1,2) [OF r(1) assms(2)] r(3)
      by (simp add: valid_key_def blk_def pos)
    define e where "e = evict_if_needed fm"
    have rb: "read_block p b len fm = (Inr blk, (touch_cache ?k (e\<lparr> fm_cache := map_assign ?k blk (fm_cache e) \<rparr>))
        \<lparr> fm_cache_size := fm_cache_size e + length blk, fm_dirty := removeAll ?k (fm_dirty e) \<rparr>)"
      using False disk by (auto simp: read_block_def populate_cache_def Let_def e_def touch_cache_def split: option.split)
    have blk: "blk = take len (drop (block_pos ?ss ?k) (content fm))"
      using content_slice [OF i(1) assms(2) clean] by (simp add: blk_def)
    have sub: "set (fm_dirty e) \<subseteq> set (fm_dirty fm)"
      using evict_shrinks [of fm] by (simp add: shrinks_def e_def)
    have e: "same_bytes fm e"
      using evict_if_needed_same [OF assms(1)] by (simp add: e_def)
    then have "same_bytes e (snd (read_block p b len fm))"
      unfolding rb snd_conv using assms(2) clean sub blk
      by (intro cache_clean_same) (auto simp: same_bytes_def readable_def)
    then show ?thesis
      using same_bytes_trans [OF e] blk rb pos sub by auto
  qed
qed

subsection \<open>Flushing\<close>

lemma write_backs_same:
  assumes "fm_inv fm" "distinct (map fst xs)" "\<forall>(k, d)\<in>set xs. k \<in> set (fm_dirty fm) \<and> map_of (fm_cache fm) k = Some d"
  defines "fm' \<equiv> fold (\<lambda>(k, d). write_back k d) xs fm"
  shows "same_bytes fm fm' \<and> set (fm_dirty fm') = set (fm_dirty fm) - fst ` set xs"
  unfolding fm'_def using assms(1-3)
proof (induction xs arbitrary: fm)
  case (Cons e xs)
  obtain k d where e: "e = (k, d)"
    by (cases e)
  have wb: "same_bytes fm (write_back k d fm)"
    using Cons.prems by (intro write_back_same) (auto simp: e)
  moreover have "fm_dirty (write_back k d fm) = removeAll k (fm_dirty fm)" "fm_cache (write_back k d fm) = fm_cache fm"
    by (simp_all add: write_back_def)
  moreover have "same_bytes (write_back k d fm) (fold (\<lambda>(k, d). write_back k d) xs (write_back k d fm)) \<and>
      set (fm_dirty (fold (\<lambda>(k, d). write_back k d) xs (write_back k d fm))) = set (fm_dirty (write_back k d fm)) - fst ` set xs"
    using Cons.prems wb by (intro Cons.IH) (auto simp: e same_bytes_def write_back_def rev_image_eqI)
  ultimately show ?case
    using same_bytes_trans [OF wb] by (auto simp: e)
qed (simp add: same_bytes_refl)

text \<open>Writes are not cancelled, and every file of the torrent exists.\<close>

definition writable :: "FileManager \<Rightarrow> bool" where
  "writable fm \<longleftrightarrow> \<not> fm_cancelled fm \<and>
    (\<forall>f\<in>set (tfiles (fm_session fm)). fm_disk fm (get_full_path_for_file (fm_session fm) f) \<noteq> None)"

lemma ready_writable: "fm_ready fm \<Longrightarrow> writable fm"
  using fm_ready_D(2,3) [of fm] by (auto simp: writable_def disk_ok_def)

lemma write_back_writable: "writable fm \<Longrightarrow> writable (write_back k d fm)"
  using sync_write_present by (auto simp: writable_def write_back_def)

lemma fold_write_backs:
  assumes "writable fm"
    and "\<And>k d fm. (k, d) \<in> set xs \<Longrightarrow> writable fm \<Longrightarrow> f (k, d) (fm\<lparr> fm_dirty := [] \<rparr>) = (write_back k d fm)\<lparr> fm_dirty := [] \<rparr>"
  shows "fold f xs (fm\<lparr> fm_dirty := [] \<rparr>) = (fold (\<lambda>(k, d). write_back k d) xs fm)\<lparr> fm_dirty := [] \<rparr>"
  using assms
proof (induction xs arbitrary: fm)
  case (Cons e xs)
  obtain k d where e: "e = (k, d)"
    by (cases e)
  have "f e (fm\<lparr> fm_dirty := [] \<rparr>) = (write_back k d fm)\<lparr> fm_dirty := [] \<rparr>"
    using Cons.prems by (simp add: e)
  then have "fold f (e # xs) (fm\<lparr> fm_dirty := [] \<rparr>) = fold f xs ((write_back k d fm)\<lparr> fm_dirty := [] \<rparr>)"
    by simp
  also have "\<dots> = (fold (\<lambda>(k, d). write_back k d) xs (write_back k d fm))\<lparr> fm_dirty := [] \<rparr>"
    using Cons.prems by (intro Cons.IH) (simp_all add: write_back_writable)
  finally show ?case
    by (simp add: e)
qed simp

lemma flush_write_backs:
  assumes "writable fm" "\<forall>(k, d)\<in>set (dirty_data fm). d \<noteq> []"
  shows "sync_flush_all_dirty fm = (fold (\<lambda>(k, d). write_back k d) (dirty_data fm) fm)\<lparr> fm_dirty := [] \<rparr>"
    "flush_all_dirty fm = (fold (\<lambda>(k, d). write_back k d) (dirty_data fm) fm)\<lparr> fm_dirty := [] \<rparr>"
proof -
  show "sync_flush_all_dirty fm = (fold (\<lambda>(k, d). write_back k d) (dirty_data fm) fm)\<lparr> fm_dirty := [] \<rparr>"
    unfolding sync_flush_all_dirty_def Let_def using assms(1) by (intro fold_write_backs) (simp_all add: write_back_def)
  show "flush_all_dirty fm = (fold (\<lambda>(k, d). write_back k d) (dirty_data fm) fm)\<lparr> fm_dirty := [] \<rparr>"
    unfolding flush_all_dirty_def Let_def using assms
    by (intro fold_write_backs) (auto simp: flush_block_def write_back_def sync_write_block_def writable_def write_overlaps_async)
qed

lemma dirty_data_eq:
  assumes "fm_inv fm"
  shows "map fst (dirty_data fm) = fm_dirty fm"
    "\<forall>(k, d)\<in>set (dirty_data fm). k \<in> set (fm_dirty fm) \<and> map_of (fm_cache fm) k = Some d \<and> d \<noteq> []"
proof -
  note i = fm_inv_D [OF assms]
  have some: "\<exists>d. map_of (fm_cache fm) k = Some d" if "k \<in> set (fm_dirty fm)" for k
    using i(6) that by (metis map_of_eq_None_iff not_None_eq subsetD)
  have "map fst (concat (map (\<lambda>key. case map_of (fm_cache fm) key of None \<Rightarrow> [] | Some data \<Rightarrow> [(key, data)]) ks)) = ks"
    if "set ks \<subseteq> set (fm_dirty fm)" for ks
    using that
  proof (induction ks)
    case (Cons k ks)
    then obtain d where "map_of (fm_cache fm) k = Some d"
      using some [of k] by auto
    then show ?case
      using Cons by simp
  qed simp
  then show "map fst (dirty_data fm) = fm_dirty fm"
    by (simp add: dirty_data_def)
  have "d \<noteq> []" if "k \<in> set (fm_dirty fm)" "map_of (fm_cache fm) k = Some d" for k d
    using i(8) [OF that(2)] that(1) block_range(3) [OF fm_ready_D(1) [OF i(1)], of k]
    by (auto simp: entry_ok_def readable_def)
  then show "\<forall>(k, d)\<in>set (dirty_data fm). k \<in> set (fm_dirty fm) \<and> map_of (fm_cache fm) k = Some d \<and> d \<noteq> []"
    by (auto simp: dirty_data_def split: option.splits)
qed

text \<open>Both flushes put the bytes a reader sees on disk.\<close>

lemma flush_content:
  assumes "fm_inv fm"
  shows "sync_flush_all_dirty fm = flush_all_dirty fm" "same_bytes fm (flush_all_dirty fm)" "fm_dirty (flush_all_dirty fm) = []"
    "stored (fm_session fm) (fm_disk (flush_all_dirty fm)) = content fm"
proof -
  note i = fm_inv_D [OF assms]
  note dd = dirty_data_eq [OF assms]
  define fm' where "fm' = fold (\<lambda>(k, d). write_back k d) (dirty_data fm) fm"
  have nonempty: "\<forall>(k, d)\<in>set (dirty_data fm). d \<noteq> []"
    using dd(2) by auto
  have same: "same_bytes fm fm' \<and> set (fm_dirty fm') = set (fm_dirty fm) - fst ` set (dirty_data fm)"
    unfolding fm'_def using dd i(5) by (intro write_backs_same [OF assms]) auto
  moreover have "fst ` set (dirty_data fm) = set (fm_dirty fm)"
    using dd(1) by (metis list.set_map)
  ultimately have "fm_dirty fm' = []"
    by simp
  then have "fm'\<lparr> fm_dirty := [] \<rparr> = fm'"
    by simp
  then have fl: "sync_flush_all_dirty fm = fm'" "flush_all_dirty fm = fm'"
    using flush_write_backs [OF ready_writable [OF i(1)] nonempty] by (simp_all add: fm'_def)
  then show "sync_flush_all_dirty fm = flush_all_dirty fm" "same_bytes fm (flush_all_dirty fm)" "fm_dirty (flush_all_dirty fm) = []"
    using same \<open>fm_dirty fm' = []\<close> by simp_all
  have "dirty_map fm' = (\<lambda>k. None)"
    using \<open>fm_dirty fm' = []\<close> by (intro ext) (simp add: dirty_map_def)
  then have "stored (fm_session fm') (fm_disk fm') = content fm'"
    by (simp add: content_def)
  then show "stored (fm_session fm) (fm_disk (flush_all_dirty fm)) = content fm"
    using same fl(2) by (auto simp: same_bytes_def)
qed

lemma close_file_manager_disk: "fm_disk (close_file_manager fm) = fm_disk (sync_flush_all_dirty fm)"
proof -
  define f where "f = (\<lambda>(key, data) (fm :: FileManager).
    fm\<lparr> fm_disk := sync_write_block (fm_session fm) (fm_piece_to_files fm) key data (fm_disk fm) \<rparr>)"
  have "f x (fm\<lparr> fm_cancelled := True \<rparr>) = (f x fm)\<lparr> fm_cancelled := True \<rparr>" for x fm
    by (simp add: f_def split_beta)
  then have commute: "fold f xs (fm\<lparr> fm_cancelled := True \<rparr>) = (fold f xs fm)\<lparr> fm_cancelled := True \<rparr>" for xs fm
    by (induction xs arbitrary: fm) simp_all
  have swap: "fm\<lparr> fm_cancelled := True, fm_dirty := [] \<rparr> = fm\<lparr> fm_dirty := [], fm_cancelled := True \<rparr>"
    "dirty_data (fm\<lparr> fm_cancelled := True \<rparr>) = dirty_data fm"
    by (simp_all add: dirty_data_def)
  show ?thesis
    unfolding close_file_manager_def signal_shutdown_def sync_flush_all_dirty_def f_def [symmetric] Let_def swap commute by simp
qed

subsection \<open>The contract of a block store\<close>

text \<open>What the session relies on: an array of bytes that is written a piece at a time, read in ranges within a
  piece and made durable by a flush.\<close>

datatype store_op = WriteOp nat "byte list" | ReadOp nat nat nat | FlushOp

fun store_run :: "(nat \<Rightarrow> byte list \<Rightarrow> 's \<Rightarrow> 's) \<Rightarrow> (nat \<Rightarrow> nat \<Rightarrow> nat \<Rightarrow> 's \<Rightarrow> ('e + byte list) \<times> 's) \<Rightarrow> ('s \<Rightarrow> 's) \<Rightarrow>
    store_op list \<Rightarrow> 's \<Rightarrow> ('e + byte list) list \<times> 's" where
  "store_run put get sync [] s = ([], s)"
| "store_run put get sync (WriteOp p d # ops) s = store_run put get sync ops (put p d s)"
| "store_run put get sync (FlushOp # ops) s = store_run put get sync ops (sync s)"
| "store_run put get sync (ReadOp p b n # ops) s =
    (let (r, s) = get p b n s; (rs, s) = store_run put get sync ops s in (r # rs, s))"

fun array_run :: "(nat \<Rightarrow> nat) \<Rightarrow> store_op list \<Rightarrow> byte list \<Rightarrow> byte list list \<times> byte list" where
  "array_run start [] xs = ([], xs)"
| "array_run start (WriteOp p d # ops) xs = array_run start ops (patch (start p) d 0 xs)"
| "array_run start (FlushOp # ops) xs = array_run start ops xs"
| "array_run start (ReadOp p b n # ops) xs =
    (let (rs, xs') = array_run start ops xs in (take n (drop (start p + b) xs) # rs, xs'))"

locale block_store =
  fixes inv :: "'s \<Rightarrow> bool"
    and bytes :: "'s \<Rightarrow> byte list"
    and start :: "nat \<Rightarrow> nat"
    and op_ok :: "store_op \<Rightarrow> bool"
    and put :: "nat \<Rightarrow> byte list \<Rightarrow> 's \<Rightarrow> 's"
    and get :: "nat \<Rightarrow> nat \<Rightarrow> nat \<Rightarrow> 's \<Rightarrow> ('e + byte list) \<times> 's"
    and sync :: "'s \<Rightarrow> 's"
    and durable :: "'s \<Rightarrow> byte list"
  assumes write_law: "inv s \<Longrightarrow> op_ok (WriteOp p d) \<Longrightarrow> inv (put p d s) \<and> bytes (put p d s) = patch (start p) d 0 (bytes s)"
    and read_law: "inv s \<Longrightarrow> op_ok (ReadOp p b n) \<Longrightarrow> fst (get p b n s) = Inr (take n (drop (start p + b) (bytes s))) \<and>
      inv (snd (get p b n s)) \<and> bytes (snd (get p b n s)) = bytes s"
    and flush_law: "inv s \<Longrightarrow> inv (sync s) \<and> bytes (sync s) = bytes s \<and> durable (sync s) = bytes s"
begin

lemma run_refines:
  assumes "inv s" "\<forall>op\<in>set ops. op_ok op"
  shows "fst (store_run put get sync ops s) = map Inr (fst (array_run start ops (bytes s))) \<and>
    inv (snd (store_run put get sync ops s)) \<and>
    bytes (snd (store_run put get sync ops s)) = snd (array_run start ops (bytes s))"
  using assms
proof (induction ops arbitrary: s)
  case (Cons op ops)
  show ?case
  proof (cases op)
    case (WriteOp p d)
    then show ?thesis
      using Cons write_law [of s p d] by simp
  next
    case (ReadOp p b n)
    then show ?thesis
      using Cons.prems Cons.IH [of "snd (get p b n s)"] read_law [of s p b n] by (simp add: split_beta)
  next
    case FlushOp
    then show ?thesis
      using Cons flush_law [of s] by simp
  qed
qed simp

lemma run_durable:
  assumes "inv s" "\<forall>op\<in>set ops. op_ok op"
  shows "durable (sync (snd (store_run put get sync ops s))) = snd (array_run start ops (bytes s))"
  using run_refines [OF assms] flush_law by simp

end

definition store_op_ok :: "SessionState \<Rightarrow> store_op \<Rightarrow> bool" where
  "store_op_ok ss op =
    (case op of
       WriteOp p d \<Rightarrow> p < ss_num_pieces ss \<and> length d = plen ss p
     | ReadOp p b n \<Rightarrow> valid_key ss (p, b) \<and> n \<le> block_len ss (p, b)
     | FlushOp \<Rightarrow> True)"

interpretation fm_store: block_store "\<lambda>fm. fm_inv fm \<and> fm_session fm = ss" content "\<lambda>p. p * psize ss" "store_op_ok ss"
    write_piece read_block flush_all_dirty "\<lambda>fm. stored ss (fm_disk fm)" for ss
proof
  fix s p d
  assume "fm_inv s \<and> fm_session s = ss" "store_op_ok ss (WriteOp p d)"
  then show "(fm_inv (write_piece p d s) \<and> fm_session (write_piece p d s) = ss) \<and>
      content (write_piece p d s) = patch (p * psize ss) d 0 (content s)"
    using write_piece_content [of s p d] by (auto simp: store_op_ok_def wrote_def)
next
  fix s p b n
  assume "fm_inv s \<and> fm_session s = ss" "store_op_ok ss (ReadOp p b n)"
  then show "fst (read_block p b n s) = Inr (take n (drop (p * psize ss + b) (content s))) \<and>
      (fm_inv (snd (read_block p b n s)) \<and> fm_session (snd (read_block p b n s)) = ss) \<and>
      content (snd (read_block p b n s)) = content s"
    using read_block_content [of s p b n] by (auto simp: store_op_ok_def readable_def same_bytes_def)
next
  fix s
  assume "fm_inv s \<and> fm_session s = ss"
  then show "(fm_inv (flush_all_dirty s) \<and> fm_session (flush_all_dirty s) = ss) \<and>
      content (flush_all_dirty s) = content s \<and> stored ss (fm_disk (flush_all_dirty s)) = content s"
    using flush_content [of s] by (auto simp: same_bytes_def)
qed

lemma new_file_manager_inv:
  assumes "wf_torrent ss" "disk_ok ss d" "new_file_manager ss d = Some fm"
  shows "fm_inv fm" "fm_session fm = ss" "fm_dirty fm = []" "content fm = stored ss d" "fm_disk fm = d"
proof -
  obtain m fps where m: "build_maps ss = Some (m, fps)"
    using assms(3) by (auto simp: new_file_manager_def split: option.splits)
  then have fm: "fm = \<lparr> fm_session = ss, fm_piece_to_files = m, fm_file_to_pieces = fps, fm_cache = [],
      fm_lru = [], fm_dirty = [], fm_cache_size = 0, fm_disk = d, fm_cancelled = False \<rparr>"
    using assms(3) by (simp add: new_file_manager_def)
  show "fm_session fm = ss" "fm_dirty fm = []" "fm_inv fm" "fm_disk fm = d"
    using assms(1,2) m by (simp_all add: fm fm_inv_def fm_ready_def cache_bytes_def)
  have "dirty_map fm = (\<lambda>k. None)"
    by (intro ext) (simp add: fm dirty_map_def)
  then show "content fm = stored ss d"
    by (simp add: content_def) (simp add: fm)
qed

subsection \<open>Verification of the pieces\<close>

definition same_layout :: "SessionState \<Rightarrow> SessionState \<Rightarrow> bool" where
  "same_layout ss ss' \<longleftrightarrow> ss_meta ss' = ss_meta ss \<and> ss_num_pieces ss' = ss_num_pieces ss \<and> ss_save_path ss' = ss_save_path ss"

lemma layout_frame:
  assumes "same_layout ss ss'"
  shows "get_full_path_for_file ss' = get_full_path_for_file ss" "wf_torrent ss' = wf_torrent ss"
    "disk_ok ss' = disk_ok ss" "stored ss' = stored ss" "build_maps ss' = build_maps ss" "readable ss' = readable ss"
    "entry_ok ss' = entry_ok ss" "overlay ss' = overlay ss" "plen ss' = plen ss"
proof -
  note eqs = assms [unfolded same_layout_def]
  show path: "get_full_path_for_file ss' = get_full_path_for_file ss"
    using eqs by (intro ext) (simp add: get_full_path_for_file_def Let_def)
  show "wf_torrent ss' = wf_torrent ss" "disk_ok ss' = disk_ok ss" "stored ss' = stored ss" "build_maps ss' = build_maps ss"
    using eqs path by (simp_all add: wf_torrent_def disk_ok_def [abs_def] stored_def [abs_def] contents_def build_maps_def)
  show pl: "plen ss' = plen ss"
    using eqs by (intro ext) (simp add: plen_def)
  then have bl: "valid_key ss' = valid_key ss" "block_len ss' = block_len ss" "block_pos ss' = block_pos ss" "block_key ss' = block_key ss"
    using eqs by (auto simp: valid_key_def block_len_def block_pos_def block_key_def)
  then show "readable ss' = readable ss"
    using pl by (intro ext) (simp add: readable_def)
  then show "entry_ok ss' = entry_ok ss" "overlay ss' = overlay ss"
    using bl by (intro ext; simp add: entry_ok_def overlay_def split: option.split)+
qed

lemma session_update_same:
  assumes "fm_inv fm" "same_layout (fm_session fm) ss'"
  shows "fm_inv (fm\<lparr> fm_session := ss' \<rparr>)" "content (fm\<lparr> fm_session := ss' \<rparr>) = content fm"
proof -
  note l = layout_frame [OF assms(2)]
  show "fm_inv (fm\<lparr> fm_session := ss' \<rparr>)"
    using assms(1) by (simp add: fm_inv_def fm_ready_def l)
  have "dirty_map (fm\<lparr> fm_session := ss' \<rparr>) = dirty_map fm"
    by (intro ext) (simp add: dirty_map_def)
  then show "content (fm\<lparr> fm_session := ss' \<rparr>) = content fm"
    by (simp add: content_def l)
qed

definition piece_valid :: "(byte list \<Rightarrow> byte list) \<Rightarrow> SessionState \<Rightarrow> byte list \<Rightarrow> nat \<Rightarrow> bool" where
  "piece_valid sha1 ss xs p \<longleftrightarrow>
    sha1 (take (plen ss p) (drop (p * psize ss) xs)) = take 20 (drop (p * 20) (ti_pieces (torrent_info ss)))"

lemma verify_piece_exact:
  assumes "fm_inv fm" "fm_dirty fm = []" "p < ss_num_pieces (fm_session fm)"
  shows "\<exists>fm'. verify_piece sha1 p fm = (Inr (piece_valid sha1 (fm_session fm) (content fm) p), fm') \<and>
    same_bytes fm fm' \<and> fm_dirty fm' = []"
proof -
  let ?ss = "fm_session fm"
  note r = fm_ready_D [OF fm_inv_D(1) [OF assms(1)]]
  note wf = wf_basic [OF r(1)]
  have "tsize ?ss mod psize ?ss < psize ?ss"
    using wf(1) by simp
  then have "to_u32 (tsize ?ss mod psize ?ss) = tsize ?ss mod psize ?ss"
    using wf(2) by (intro to_u32_small) simp
  then have len: "(if p = ss_num_pieces ?ss - 1 then if tsize ?ss mod psize ?ss \<noteq> 0 then to_u32 (tsize ?ss mod psize ?ss) else psize ?ss
      else psize ?ss) = plen ?ss p"
    using actual_piece_size_eq [OF r(1) assms(3)] wf(4) by (auto simp: actual_piece_size_def Let_def)
  have "valid_key ?ss (p, 0)"
    using assms(3) plen_bounds(1) [OF r(1) assms(3)] by (simp add: valid_key_def)
  then have "readable ?ss (set (fm_dirty fm)) (p, 0) (plen ?ss p)"
    using assms(2) by (simp add: readable_def)
  note rb = read_block_content [OF assms(1) this]
  then have "verify_piece sha1 p fm = (Inr (piece_valid sha1 ?ss (content fm) p), snd (read_block p 0 (plen ?ss p) fm))"
    unfolding verify_piece_def sx_defs Let_def
    by (cases "read_block p 0 (plen ?ss p) fm") (simp add: len [simplified] piece_valid_def)
  then show ?thesis
    using rb assms(2) by auto
qed

definition checked_status :: "(byte list \<Rightarrow> byte list) \<Rightarrow> SessionState \<Rightarrow> byte list \<Rightarrow> nat \<Rightarrow> PieceStatus" where
  "checked_status sha1 ss xs p =
    (if piece_status ss p = Skipped then Skipped else if piece_valid sha1 ss xs p then Have else Needed)"

lemma verify_loop_exact:
  assumes "fm_inv fm" "fm_dirty fm = []" "set is \<subseteq> {..<ss_num_pieces (fm_session fm)}" "distinct is"
    and "length (ss_piece_status (fm_session fm)) = ss_num_pieces (fm_session fm)"
  shows "\<exists>fm'. verify_loop sha1 is c fm =
      (Inr (c + length (filter (\<lambda>p. checked_status sha1 (fm_session fm) (content fm) p = Have) is)), fm') \<and>
    fm_inv fm' \<and> fm_dirty fm' = [] \<and> content fm' = content fm \<and> same_layout (fm_session fm) (fm_session fm') \<and>
    ss_piece_status (fm_session fm') = map (\<lambda>p. if p \<in> set is then checked_status sha1 (fm_session fm) (content fm) p
      else piece_status (fm_session fm) p) [0..<ss_num_pieces (fm_session fm)]"
  using assms
proof (induction "is" arbitrary: fm c)
  case Nil
  then show ?case
    by (auto simp: sx_defs same_layout_def piece_status_def intro!: nth_equalityI)
next
  case (Cons i "is")
  let ?ss = "fm_session fm" and ?c = "checked_status sha1 (fm_session fm) (content fm)"
  have i: "i < ss_num_pieces ?ss" "i \<notin> set is" "set is \<subseteq> {..<ss_num_pieces ?ss}" "distinct is"
    using Cons.prems(3,4) by auto
  show ?case
  proof (cases "piece_status ?ss i = Skipped")
    case True
    then have step: "verify_loop sha1 (i # is) c fm = verify_loop sha1 is c fm" and ci: "?c i = piece_status ?ss i"
      by (simp_all add: sx_defs checked_status_def)
    then have "(if p \<in> set (i # is) then ?c p else piece_status ?ss p) = (if p \<in> set is then ?c p else piece_status ?ss p)" for p
      using ci by auto
    then show ?thesis
      using Cons.IH [OF Cons.prems(1,2) i(3,4) Cons.prems(5), of c] step True ci by simp
  next
    case False
    obtain f1 where v: "verify_piece sha1 i fm = (Inr (piece_valid sha1 ?ss (content fm) i), f1)" "same_bytes fm f1" "fm_dirty f1 = []"
      using verify_piece_exact [OF Cons.prems(1,2) i(1)] by blast
    define f2 where "f2 = f1\<lparr> fm_session := set_piece_status i (?c i) ?ss \<rparr>"
    have f1: "fm_inv f1" "fm_session f1 = ?ss" "content f1 = content fm"
      using v(2) by (simp_all add: same_bytes_def)
    have lay: "same_layout ?ss (set_piece_status i (?c i) ?ss)"
      by (simp add: same_layout_def set_piece_status_def)
    have f2: "fm_inv f2" "content f2 = content fm" "fm_dirty f2 = []" "fm_session f2 = set_piece_status i (?c i) ?ss"
      using session_update_same [OF f1(1), of "set_piece_status i (?c i) ?ss"] lay f1(2,3) v(3) by (simp_all add: f2_def)
    have step: "verify_loop sha1 (i # is) c fm = verify_loop sha1 is (if ?c i = Have then Suc c else c) f2"
      using False v(1) f1(2) by (simp add: sx_defs mark_piece_def checked_status_def f2_def)
    have keep: "ss_num_pieces (fm_session f2) = ss_num_pieces ?ss" "length (ss_piece_status (fm_session f2)) = ss_num_pieces ?ss"
      using Cons.prems(5) by (simp_all add: f2(4) set_piece_status_def)
    have other: "piece_status (fm_session f2) p = (if p = i then ?c i else piece_status ?ss p)" if "p < ss_num_pieces ?ss" for p
      using that Cons.prems(5) by (simp add: f2(4) set_piece_status_def piece_status_def nth_list_update)
    have cs: "checked_status sha1 (fm_session f2) (content f2) p = ?c p" if "p \<in> set is" for p
    proof -
      have "p < ss_num_pieces ?ss" "p \<noteq> i"
        using that i by auto
      moreover have "piece_valid sha1 (fm_session f2) (content f2) p = piece_valid sha1 ?ss (content fm) p"
        using layout_frame(9) [OF lay] by (simp add: piece_valid_def f2(2,4) set_piece_status_def)
      ultimately show ?thesis
        using other [of p] by (simp add: checked_status_def)
    qed
    obtain f3 where f3: "verify_loop sha1 is (if ?c i = Have then Suc c else c) f2 =
        (Inr ((if ?c i = Have then Suc c else c) + length (filter (\<lambda>p. checked_status sha1 (fm_session f2) (content f2) p = Have) is)), f3)"
      "fm_inv f3" "fm_dirty f3 = []" "content f3 = content f2" "same_layout (fm_session f2) (fm_session f3)"
      "ss_piece_status (fm_session f3) = map (\<lambda>p. if p \<in> set is then checked_status sha1 (fm_session f2) (content f2) p
        else piece_status (fm_session f2) p) [0..<ss_num_pieces ?ss]"
      using Cons.IH [OF f2(1,3), of "if ?c i = Have then Suc c else c"] i(3,4) keep by auto
    have "filter (\<lambda>p. checked_status sha1 (fm_session f2) (content f2) p = Have) is = filter (\<lambda>p. ?c p = Have) is"
      using cs by (intro filter_cong) simp_all
    moreover have "ss_piece_status (fm_session f3) = map (\<lambda>p. if p \<in> set (i # is) then ?c p else piece_status ?ss p) [0..<ss_num_pieces ?ss]"
      unfolding f3(6) using cs other i(2) by (intro map_cong) auto
    moreover have "same_layout ?ss (fm_session f3)"
      using lay f3(5) f2(4) by (simp add: same_layout_def)
    ultimately show ?thesis
      using f3 step f2(2) by simp
  qed
qed

subsection \<open>Pre-allocation\<close>

lemma layout_index: "x \<in> set (layout_from i fs) \<Longrightarrow> fst x < i + length fs"
  by (induction fs arbitrary: i) fastforce+

lemma piece_has_file:
  assumes "wf_torrent ss" "p < ss_num_pieces ss" "build_maps ss = Some (m, fps)"
  shows "\<exists>ov\<in>set (piece_overlaps m p). po_file_index ov < length (tfiles ss)"
proof -
  have m: "m ! p = overlaps_from ss 0 0 (tfiles ss) p" "length m = ss_num_pieces ss"
    using build_maps_eq [OF assms(1)] assms(2,3) by (metis old.prod.inject option.inject)+
  note pl = plen_bounds [OF assms(1,2)]
  have len: "length (file_layout ss) = tsize ss"
    using wf_basic(3) [OF assms(1)] by (simp add: file_layout_def length_layout)
  have "(0, file_layout ss ! (p * psize ss)) \<in> set (map (\<lambda>k. (k, file_layout ss ! (p * psize ss + k))) [0..<plen ss p])"
    using pl(1) by force
  then obtain ov where ov: "ov \<in> set (m ! p)" "(0, file_layout ss ! (p * psize ss)) \<in> set (expand ov)"
    unfolding overlaps_exact [OF assms(1,2), symmetric] m(1) by auto
  have "file_layout ss ! (p * psize ss) \<in> set (layout_from 0 (tfiles ss))"
    using len pl(1,3) by (simp add: file_layout_def)
  then have "po_file_index ov < length (tfiles ss)"
    using ov(2) layout_index [of _ 0 "tfiles ss"] by (fastforce simp: expand_def)
  then show ?thesis
    using ov(1) m(2) assms(2) by (auto simp: piece_overlaps_def)
qed

text \<open>The files that are missing are created with zeros.\<close>

definition filled :: "SessionState \<Rightarrow> FileInfo list \<Rightarrow> disk \<Rightarrow> disk" where
  "filled ss fs d = fold (\<lambda>f d. if d (get_full_path_for_file ss f) = None
     then d(get_full_path_for_file ss f \<mapsto> replicate (fi_size f) 0) else d) fs d"

lemma filled_other: "path \<notin> get_full_path_for_file ss ` set fs \<Longrightarrow> filled ss fs d path = d path"
  by (induction fs arbitrary: d) (auto simp: filled_def)

lemma filled_Cons: "filled ss (f # fs) d = filled ss fs (filled ss [f] d)"
  by (simp add: filled_def)

lemma filled_file:
  assumes "distinct (map (get_full_path_for_file ss) fs)" "f \<in> set fs"
  shows "filled ss fs d (get_full_path_for_file ss f) =
    (case d (get_full_path_for_file ss f) of None \<Rightarrow> Some (replicate (fi_size f) 0) | Some c \<Rightarrow> Some c)"
  using assms
proof (induction fs arbitrary: d)
  case (Cons g fs)
  show ?case
  proof (cases "f = g")
    case True
    then show ?thesis
      using Cons.prems filled_other [of "get_full_path_for_file ss f" ss fs] unfolding filled_Cons [of _ g fs]
      by (simp add: filled_def [of _ "[g]"] split: option.split)
  next
    case False
    then have "f \<in> set fs" "get_full_path_for_file ss f \<noteq> get_full_path_for_file ss g"
      using Cons.prems by (auto dest: image_eqI)
    then show ?thesis
      using Cons.IH [of "filled ss [g] d"] Cons.prems(1) filled_other [of "get_full_path_for_file ss f" ss "[g]" d]
      unfolding filled_Cons [of _ g fs] by simp
  qed
qed simp

lemma update_file_stat_same:
  assumes "i < length (tfiles ss)" "fi_download (tfiles ss ! i)"
  shows "update_file_stat i True ss = ss"
proof -
  have "(tfiles ss ! i)\<lparr> fi_download := True \<rparr> = tfiles ss ! i"
    using assms(2) by (intro FileInfo.equality) simp_all
  then show ?thesis
    by (simp add: update_file_stat_def)
qed

lemma preallocate_loop_auto:
  assumes "set is \<subseteq> {..<length (tfiles (fm_session fm))}" "\<forall>f\<in>set (tfiles (fm_session fm)). fi_download f"
  shows "preallocate_loop reply is (Some True) fm =
    (True, fm\<lparr> fm_disk := filled (fm_session fm) (map ((!) (tfiles (fm_session fm))) is) (fm_disk fm) \<rparr>)"
  using assms
proof (induction "is" arbitrary: fm)
  case (Cons i "is")
  define d' where "d' = filled (fm_session fm) [tfiles (fm_session fm) ! i] (fm_disk fm)"
  have "i < length (tfiles (fm_session fm))" "fi_download (tfiles (fm_session fm) ! i)"
    using Cons.prems by auto
  then have "preallocate_file i True fm = fm\<lparr> fm_disk := d' \<rparr>"
    using update_file_stat_same by (simp add: preallocate_file_def Let_def filled_def d'_def)
  then show ?case
    using Cons.IH [of "fm\<lparr> fm_disk := d' \<rparr>"] Cons.prems by (simp add: decide_file_def filled_def d'_def)
qed (simp add: filled_def)

lemma set_needed_all:
  assumes "wf_torrent (fm_session fm)" "build_maps (fm_session fm) = Some (fm_piece_to_files fm, fps)"
    and "set ps \<subseteq> {..<ss_num_pieces (fm_session fm)}"
  shows "fold set_needed ps fm = fm\<lparr> fm_session := fold (\<lambda>p. set_piece_status p Needed) ps (fm_session fm) \<rparr>"
  using assms
proof (induction ps arbitrary: fm)
  case (Cons p ps)
  let ?ss = "fm_session fm"
  have "list_ex (\<lambda>ov. fi_download (tfiles ?ss ! po_file_index ov)) (piece_overlaps (fm_piece_to_files fm) p)"
    using piece_has_file [OF Cons.prems(1) _ Cons.prems(2), of p] Cons.prems(3) wf_basic(8) [OF Cons.prems(1)]
    by (auto simp: list_ex_iff)
  then have "set_needed p fm = fm\<lparr> fm_session := set_piece_status p Needed ?ss \<rparr>"
    by (simp add: set_needed_def)
  moreover have lay: "same_layout ?ss (set_piece_status p Needed ?ss)"
    by (simp add: same_layout_def set_piece_status_def)
  ultimately show ?case
    using Cons.IH [of "fm\<lparr> fm_session := set_piece_status p Needed ?ss \<rparr>"] Cons.prems layout_frame(2,5) [OF lay]
    by (simp add: same_layout_def)
qed simp

lemma set_statuses: "fold (\<lambda>p. set_piece_status p Needed) ps ss =
    ss\<lparr> ss_piece_status := fold (\<lambda>p l. l[p := Needed]) ps (ss_piece_status ss) \<rparr>"
  by (induction ps arbitrary: ss) (simp_all add: set_piece_status_def)

lemma set_all_needed: "length l = n \<Longrightarrow> fold (\<lambda>p l. l[p := Needed]) [0..<n] l = replicate n Needed"
proof -
  have "fold (\<lambda>p l. l[p := Needed]) [0..<k] l = replicate k Needed @ drop k l" if "k \<le> length l" for k l
    using that
  proof (induction k)
    case (Suc k)
    then have "drop k l = l ! k # drop (Suc k) l"
      by (simp add: Cons_nth_drop_Suc)
    then show ?case
      using Suc by (simp add: list_update_append replicate_append_same [symmetric])
  qed simp
  then show "length l = n \<Longrightarrow> fold (\<lambda>p l. l[p := Needed]) [0..<n] l = replicate n Needed"
    by fastforce
qed

text \<open>Approving all files over a fresh file manager.\<close>

lemma preallocate_auto:
  assumes "wf_torrent ss" "new_file_manager ss d = Some fm" "length (ss_piece_status ss) = ss_num_pieces ss"
    and "\<forall>f\<in>set (tfiles ss). \<forall>c. d (get_full_path_for_file ss f) = Some c \<longrightarrow> length c = fi_size f"
  defines "fm' \<equiv> fm\<lparr> fm_disk := filled ss (tfiles ss) d, fm_session := ss\<lparr> ss_piece_status := replicate (ss_num_pieces ss) Needed \<rparr> \<rparr>"
  shows "preallocate_files True reply fm = Some (True, fm')" "fm_inv fm'" "fm_dirty fm' = []"
proof -
  obtain m fps where m: "build_maps ss = Some (m, fps)"
    using assms(2) by (auto simp: new_file_manager_def split: option.splits)
  then have fm: "fm = \<lparr> fm_session = ss, fm_piece_to_files = m, fm_file_to_pieces = fps, fm_cache = [],
      fm_lru = [], fm_dirty = [], fm_cache_size = 0, fm_disk = d, fm_cancelled = False \<rparr>"
    using assms(2) by (simp add: new_file_manager_def)
  let ?d = "filled ss (tfiles ss) d" and ?ss = "ss\<lparr> ss_piece_status := replicate (ss_num_pieces ss) Needed \<rparr>"
  have "preallocate_loop reply [0..<length (tfiles ss)] (Some True) fm = (True, fm\<lparr> fm_disk := ?d \<rparr>)"
    using preallocate_loop_auto [of "[0..<length (tfiles ss)]" fm reply] wf_basic(8) [OF assms(1)]
    by (simp add: fm map_nth lessThan_atLeast0)
  moreover have "fold set_needed [0..<ss_num_pieces ss] (fm\<lparr> fm_disk := ?d \<rparr>) = fm\<lparr> fm_disk := ?d, fm_session := ?ss \<rparr>"
    using set_needed_all [of "fm\<lparr> fm_disk := ?d \<rparr>" fps "[0..<ss_num_pieces ss]"] assms(1,3) m
    by (simp add: fm set_statuses set_all_needed lessThan_atLeast0)
  ultimately show "preallocate_files True reply fm = Some (True, fm')"
    using m by (simp add: preallocate_files_def fm fm'_def)
  have "disk_ok ss ?d"
    using filled_file [OF wf_basic(9) [OF assms(1)]] assms(4) by (auto simp: disk_ok_def split: option.split)
  moreover have lay: "same_layout ss ?ss"
    by (simp add: same_layout_def)
  ultimately show "fm_inv fm'" "fm_dirty fm' = []"
    using assms(1) m by (simp_all add: fm'_def fm fm_inv_def fm_ready_def cache_bytes_def layout_frame [OF lay])
qed

text \<open>The pieces that are verified, all of them or up to the first that fails.\<close>

lemma verify_pieces_checked:
  assumes "fm_inv fm" "fm_dirty fm = []" "length (ss_piece_status (fm_session fm)) = ss_num_pieces (fm_session fm)"
  shows "\<exists>fm'. verify_pieces sha1 fm = (Inr (), fm') \<and> fm_inv fm' \<and> content fm' = content fm \<and> fm_dirty fm' = [] \<and>
    same_layout (fm_session fm) (fm_session fm') \<and>
    ss_piece_status (fm_session fm') = map (checked_status sha1 (fm_session fm) (content fm)) [0..<ss_num_pieces (fm_session fm)] \<and>
    ss_completed_pieces (fm_session fm') = length (filter (\<lambda>s. s = Have) (ss_piece_status (fm_session fm')))"
proof -
  let ?ss = "fm_session fm" and ?c = "checked_status sha1 (fm_session fm) (content fm)"
  have "set [0..<ss_num_pieces ?ss] \<subseteq> {..<ss_num_pieces ?ss}"
    by auto
  from verify_loop_exact [OF assms(1,2) this _ assms(3), of sha1 0]
  obtain f1 where f1: "verify_loop sha1 [0..<ss_num_pieces ?ss] 0 fm = (Inr (length (filter (\<lambda>p. ?c p = Have) [0..<ss_num_pieces ?ss])), f1)"
    "fm_inv f1" "content f1 = content fm" "fm_dirty f1 = []" "same_layout ?ss (fm_session f1)" "ss_piece_status (fm_session f1) = map ?c [0..<ss_num_pieces ?ss]"
    by auto
  define n where "n = length (filter (\<lambda>p. ?c p = Have) [0..<ss_num_pieces ?ss])"
  define f2 where "f2 = f1\<lparr> fm_session := (fm_session f1)\<lparr> ss_completed_pieces := n \<rparr> \<rparr>"
  have "same_layout (fm_session f1) ((fm_session f1)\<lparr> ss_completed_pieces := n \<rparr>)"
    by (simp add: same_layout_def)
  note f2 = session_update_same [OF f1(2) this, folded f2_def]
  have "verify_pieces sha1 fm = (Inr (), f2)"
    using f1(1) by (simp add: verify_pieces_def sx_defs f2_def n_def)
  moreover have "ss_completed_pieces (fm_session f2) = length (filter (\<lambda>s. s = Have) (map ?c [0..<ss_num_pieces ?ss]))"
    by (simp add: f2_def n_def filter_map comp_def)
  moreover have "ss_piece_status (fm_session f2) = map ?c [0..<ss_num_pieces ?ss]"
    by (simp add: f2_def f1(6))
  moreover have "same_layout ?ss (fm_session f2)" "fm_dirty f2 = []"
    using f1(4,5) by (simp_all add: f2_def same_layout_def)
  ultimately show ?thesis
    using f2 f1(3) by simp
qed

lemma verify_all_valid:
  assumes "fm_inv fm" "fm_dirty fm = []" "set is \<subseteq> {..<ss_num_pieces (fm_session fm)}"
  shows "\<exists>fm'. verify_all sha1 is fm = (Inr (\<forall>p \<in> set is. piece_valid sha1 (fm_session fm) (content fm) p), fm') \<and>
    same_bytes fm fm' \<and> fm_dirty fm' = []"
  using assms
proof (induction "is" arbitrary: fm)
  case (Cons i "is")
  obtain f1 where f1: "verify_piece sha1 i fm = (Inr (piece_valid sha1 (fm_session fm) (content fm) i), f1)" "same_bytes fm f1" "fm_dirty f1 = []"
    using verify_piece_exact [OF Cons.prems(1,2), of i sha1] Cons.prems(3) by auto
  have eq: "fm_inv f1" "fm_session f1 = fm_session fm" "content f1 = content fm"
    using f1(2) by (simp_all add: same_bytes_def)
  obtain f2 where "verify_all sha1 is f1 = (Inr (\<forall>p \<in> set is. piece_valid sha1 (fm_session f1) (content f1) p), f2)" "same_bytes f1 f2" "fm_dirty f2 = []"
    using Cons.IH [OF eq(1) f1(3)] Cons.prems(3) by (auto simp: eq)
  then show ?case
    using f1 same_bytes_trans [OF f1(2)] by (auto simp: sx_defs eq)
qed (auto simp: sx_defs same_bytes_refl)

text \<open>Saving the resume file touches no file of the torrent.\<close>

lemma save_resume_same:
  assumes inv: "fm_inv fm" and apart: "get_resume_file_path (fm_session fm) \<notin> get_full_path_for_file (fm_session fm) ` set (tfiles (fm_session fm))"
      "get_resume_file_path (fm_session fm) @ ''.tmp'' \<notin> get_full_path_for_file (fm_session fm) ` set (tfiles (fm_session fm))"
  shows "same_bytes fm (snd (save_resume_data data fm))" "fm_dirty (snd (save_resume_data data fm)) = fm_dirty fm"
proof -
  let ?ss = "fm_session fm" and ?p = "get_resume_file_path (fm_session fm)"
  obtain d where fm': "snd (save_resume_data data fm) = fm\<lparr> fm_disk := d \<rparr>" and d: "\<And>path. path \<noteq> ?p \<Longrightarrow> path \<noteq> ?p @ ''.tmp'' \<Longrightarrow> d path = fm_disk fm path"
  proof -
    have "\<exists>d. snd (save_resume_data data fm) = fm\<lparr> fm_disk := d \<rparr> \<and> (\<forall>path. path \<noteq> ?p \<longrightarrow> path \<noteq> ?p @ ''.tmp'' \<longrightarrow> d path = fm_disk fm path)"
      by (auto simp: save_resume_data_def async_write_to_file_def write_file_def Let_def)
    then show ?thesis
      using that by blast
  qed
  have same: "d (get_full_path_for_file ?ss f) = fm_disk fm (get_full_path_for_file ?ss f)" if "f \<in> set (tfiles ?ss)" for f
    using apart that by (intro d) (metis imageI)+
  then have "stored ?ss d = stored ?ss (fm_disk fm)" "disk_ok ?ss d = disk_ok ?ss (fm_disk fm)"
    by (simp_all add: stored_def contents_def disk_ok_def cong: map_cong)
  moreover have "dirty_map (fm\<lparr> fm_disk := d \<rparr>) = dirty_map fm"
    by (intro ext) (simp add: dirty_map_def)
  ultimately show "same_bytes fm (snd (save_resume_data data fm))" "fm_dirty (snd (save_resume_data data fm)) = fm_dirty fm"
    using inv unfolding fm' by (simp_all add: same_bytes_def fm_inv_def fm_ready_def content_def)
qed

subsection \<open>Claims\<close>

text \<open>C4: the storage refines an array of bytes.  Start from any state that satisfies the invariant and run
  any sequence of writes of whole pieces, reads within a block and flushes: whatever the cache evicts,
  writes back or keeps in between, every read returns the bytes that an array updated by the same
  sequence holds there, and after a final flush (by the timer or at shutdown) the files on disk hold
  exactly that array.\<close>

theorem storage_refines_array:
  assumes "fm_inv fm" "\<forall>op\<in>set ops. store_op_ok (fm_session fm) op"
    and "store_run write_piece read_block flush_all_dirty ops fm = (results, fm')"
  shows "results = map Inr (fst (array_run (\<lambda>p. p * psize (fm_session fm)) ops (content fm))) \<and> fm_inv fm' \<and>
    stored (fm_session fm) (fm_disk (flush_all_dirty fm')) = snd (array_run (\<lambda>p. p * psize (fm_session fm)) ops (content fm)) \<and>
    stored (fm_session fm) (fm_disk (close_file_manager fm')) = snd (array_run (\<lambda>p. p * psize (fm_session fm)) ops (content fm))"
  using fm_store.run_refines [of fm "fm_session fm" ops] fm_store.run_durable [of fm "fm_session fm" ops]
    flush_content(1) [of fm'] assms by (simp add: close_file_manager_disk)

definition demo_disk :: disk where
  "demo_disk = [''/d/t/a'' \<mapsto> [1, 2, 3], ''/d/t/b'' \<mapsto> [4, 5, 6, 7, 8]]"

lemma demo_disk_ok [simp]: "disk_ok demo_session demo_disk"
  by (simp add: disk_ok_def demo_disk_def)

lemma demo_stored [simp]: "stored demo_session demo_disk = [1, 2, 3, 4, 5, 6, 7, 8]"
  by (simp add: stored_def contents_def demo_disk_def)

definition demo_manager :: FileManager where
  "demo_manager = the (new_file_manager demo_session demo_disk)"

lemma demo_manager [simp]:
  "new_file_manager demo_session demo_disk = Some demo_manager" "fm_inv demo_manager" "fm_session demo_manager = demo_session"
  "fm_dirty demo_manager = []" "content demo_manager = [1, 2, 3, 4, 5, 6, 7, 8]" "fm_disk demo_manager = demo_disk"
proof -
  obtain m fps where "build_maps demo_session = Some (m, fps)"
    by (rule build_maps_eq [OF demo_session_wf])
  then show *: "new_file_manager demo_session demo_disk = Some demo_manager"
    by (simp add: demo_manager_def new_file_manager_def)
  show "fm_inv demo_manager" "fm_session demo_manager = demo_session" "fm_dirty demo_manager = []"
    "content demo_manager = [1, 2, 3, 4, 5, 6, 7, 8]" "fm_disk demo_manager = demo_disk"
    using new_file_manager_inv [OF demo_session_wf demo_disk_ok *] by simp_all
qed

theorem storage_refines_array_witness:
  "\<exists>fm'. store_run write_piece read_block flush_all_dirty
      [ReadOp 1 0 4, WriteOp 0 [9, 9, 9, 9], ReadOp 0 0 3, FlushOp, ReadOp 0 0 4] demo_manager =
      ([Inr [5, 6, 7, 8], Inr [9, 9, 9], Inr [9, 9, 9, 9]], fm') \<and>
    stored demo_session (fm_disk (flush_all_dirty fm')) = [9, 9, 9, 9, 5, 6, 7, 8]"
proof -
  let ?ops = "[ReadOp 1 0 4, WriteOp 0 [9, 9, 9, 9], ReadOp 0 0 3, FlushOp, ReadOp 0 0 4]"
  obtain results fm' where run: "store_run write_piece read_block flush_all_dirty ?ops demo_manager = (results, fm')"
    by fastforce
  have "\<forall>op\<in>set ?ops. store_op_ok (fm_session demo_manager) op"
    by (simp add: store_op_ok_def valid_key_def block_len_def plen_def BLOCK_SIZE_def)
  from storage_refines_array [OF demo_manager(2) this run]
  show ?thesis
    using run by (simp add: patch_def upt_conv_Cons)
qed

text \<open>C23: verification marks exactly the valid pieces.  With nothing waiting to be written, checking all pieces
  reads every piece that is not skipped across its files, marks it as present precisely when its SHA-1
  hash is the one of the torrent and as needed otherwise, counts the present pieces, changes no byte of
  the storage and keeps its invariant.\<close>

theorem verify_pieces_exact:
  assumes "fm_inv fm" "fm_dirty fm = []" "length (ss_piece_status (fm_session fm)) = ss_num_pieces (fm_session fm)"
  shows "\<exists>fm'. verify_pieces sha1 fm = (Inr (), fm') \<and> fm_inv fm' \<and> content fm' = content fm \<and>
    ss_piece_status (fm_session fm') = map (checked_status sha1 (fm_session fm) (content fm)) [0..<ss_num_pieces (fm_session fm)] \<and>
    ss_completed_pieces (fm_session fm') = length (filter (\<lambda>s. s = Have) (ss_piece_status (fm_session fm')))"
  using verify_pieces_checked [OF assms] by blast

theorem verify_pieces_exact_witness:
  "\<exists>fm'. verify_pieces (\<lambda>bs. replicate 20 (if bs = [1, 2, 3, 4] then 1 else 0)) demo_manager = (Inr (), fm') \<and>
    ss_piece_status (fm_session fm') = [Have, Needed] \<and> ss_completed_pieces (fm_session fm') = 1"
proof -
  let ?sha1 = "\<lambda>bs. replicate 20 (if bs = [1, 2, 3, 4] then 1 else 0)"
  have "piece_valid ?sha1 demo_session [1, 2, 3, 4, 5, 6, 7, 8] 0" "\<not> piece_valid ?sha1 demo_session [1, 2, 3, 4, 5, 6, 7, 8] 1"
    by (simp_all add: piece_valid_def plen_def)
  then have "map (checked_status ?sha1 demo_session [1, 2, 3, 4, 5, 6, 7, 8]) [0..<2] = [Have, Needed]"
    by (simp add: checked_status_def piece_status_def upt_conv_Cons)
  then show ?thesis
    using verify_pieces_exact [of demo_manager ?sha1] by fastforce
qed

text \<open>C31: pre-allocation prepares the storage.  For a torrent with consistent sizes whose files, where they
  exist, have the right size, with all files approved in advance, it creates exactly the missing files, filled with zeros,
  leaves every other file as it is, marks all pieces as needed, and establishes the invariant of the
  storage.\<close>

theorem preallocate_prepares:
  assumes "wf_torrent ss" "new_file_manager ss d = Some fm" "length (ss_piece_status ss) = ss_num_pieces ss"
    and "\<forall>f\<in>set (tfiles ss). \<forall>c. d (get_full_path_for_file ss f) = Some c \<longrightarrow> length c = fi_size f"
  shows "\<exists>fm'. preallocate_files True reply fm = Some (True, fm') \<and> fm_inv fm' \<and>
    (\<forall>f\<in>set (tfiles ss). fm_disk fm' (get_full_path_for_file ss f) =
      (case d (get_full_path_for_file ss f) of None \<Rightarrow> Some (replicate (fi_size f) 0) | Some c \<Rightarrow> Some c)) \<and>
    (\<forall>path. path \<notin> get_full_path_for_file ss ` set (tfiles ss) \<longrightarrow> fm_disk fm' path = d path) \<and>
    ss_piece_status (fm_session fm') = replicate (ss_num_pieces ss) Needed"
  using preallocate_auto(1) [OF assms, of reply] preallocate_auto(2) [OF assms] filled_file [OF wf_basic(9) [OF assms(1)]] filled_other [of _ ss "tfiles ss"]
  by (intro exI) (rule conjI, assumption, simp)

theorem preallocate_prepares_witness:
  "\<exists>fm'. preallocate_files True (\<lambda>_. None) demo_manager = Some (True, fm') \<and> fm_inv fm' \<and>
    fm_disk fm' ''/d/t/a'' = Some [1, 2, 3] \<and> ss_piece_status (fm_session fm') = [Needed, Needed]"
  using preallocate_prepares [OF demo_session_wf demo_manager(1), of "\<lambda>_. None"]
  by (simp add: demo_disk_def numeral_2_eq_2) blast

text \<open>C32: the resume file reads back.  When file operations are not cancelled and no temporary file longer than the
  data is left from before, saving replaces the resume file in one rename: no temporary file remains, no
  other file changes, and loading returns exactly the bytes that were saved.\<close>

theorem resume_file_roundtrip:
  assumes "\<not> fm_cancelled fm" "\<And>c. fm_disk fm (get_resume_file_path (fm_session fm) @ ''.tmp'') = Some c \<Longrightarrow> length c \<le> length data"
    and "data \<noteq> []" "length data < 2 ^ 32"
  shows "\<exists>fm'. save_resume_data data fm = (Inr (), fm') \<and> load_resume_data fm' = Inr (Some data) \<and>
    fm_disk fm' (get_resume_file_path (fm_session fm) @ ''.tmp'') = None \<and>
    (\<forall>path. path \<noteq> get_resume_file_path (fm_session fm) \<longrightarrow> path \<noteq> get_resume_file_path (fm_session fm) @ ''.tmp'' \<longrightarrow>
      fm_disk fm' path = fm_disk fm path)"
proof -
  let ?p = "get_resume_file_path (fm_session fm)"
  let ?fm = "fm\<lparr> fm_disk := (fm_disk fm)(?p \<mapsto> bytes_of_string data, ?p @ ''.tmp'' := None) \<rparr>"
  have "save_resume_data data fm = (Inr (), ?fm)"
    using assms(1,2) by (auto simp: save_resume_data_def async_write_to_file_def write_file_def Let_def fun_upd_twist)
  moreover have "load_resume_data ?fm = Inr (Some data)"
    using assms(1,3,4) by (simp add: load_resume_data_def async_read_from_file_def Let_def)
  ultimately show ?thesis
    by (intro exI [of _ ?fm]) auto
qed

theorem resume_file_roundtrip_witness:
  "\<exists>fm'. save_resume_data ''de'' demo_manager = (Inr (), fm') \<and> load_resume_data fm' = Inr (Some ''de'')"
proof -
  have path: "get_resume_file_path demo_session = ''/d/t/..resume''"
    by (simp add: get_resume_file_path_def path_append_def) (simp add: demo_session_def set_pieces_def new_session_def empty_meta_info_def bytes_to_hex_def)
  have "\<not> fm_cancelled demo_manager"
    using fm_ready_D(3) fm_inv_D(1) demo_manager(2) by blast
  then show ?thesis
    using resume_file_roundtrip [of demo_manager "''de''"] by (auto simp: path demo_disk_def)
qed

text \<open>A save whose write is cancelled still renames: it leaves an empty resume file in place of the one before.\<close>

lemma cancelled_save_empties:
  assumes "fm_cancelled fm" "fm_disk fm (get_resume_file_path (fm_session fm) @ ''.tmp'') = None"
  shows "\<exists>fm'. save_resume_data data fm = (Inr (), fm') \<and> fm_disk fm' (get_resume_file_path (fm_session fm)) = Some [] \<and>
    load_resume_data fm' = Inr None"
  using assms by (auto simp: save_resume_data_def async_write_to_file_def load_resume_data_def Let_def)

text \<open>A temporary file longer than the data, left by a crash, leaves its tail in the resume file.\<close>

lemma stale_temporary_keeps_tail:
  assumes "\<not> fm_cancelled fm" "fm_disk fm (get_resume_file_path (fm_session fm) @ ''.tmp'') = Some c"
  shows "\<exists>fm'. save_resume_data data fm = (Inr (), fm') \<and>
    fm_disk fm' (get_resume_file_path (fm_session fm)) = Some (bytes_of_string data @ drop (length data) c)"
  using assms by (auto simp: save_resume_data_def async_write_to_file_def write_file_def Let_def)

text \<open>A read that missed before a piece was written and ends after it: the stale data replaces the dirty block, which
  is then neither cached nor written to disk.\<close>

lemma late_read_drops_write:
  assumes "fm_cache_size fm \<le> DISK_CACHE_SIZE" "key \<in> set (fm_dirty fm)"
  shows "map_of (fm_cache (populate_cache key stale fm)) key = Some stale \<and>
    key \<notin> set (fm_dirty (populate_cache key stale fm)) \<and> fm_disk (populate_cache key stale fm) = fm_disk fm"
  using assms by (simp add: populate_cache_def evict_if_needed.simps touch_cache_def Let_def map_simps)

text \<open>A block that a flush has taken but not yet written is clean: evicting it in between drops it from the cache, and
  a read then returns what the disk held before.\<close>

lemma evicted_during_flush:
  assumes "fm_lru fm \<noteq> []" "last (fm_lru fm) = key" "map_of (fm_cache fm) key = Some data" "sorted_keys (fm_cache fm)"
  shows "map_of (fm_cache (evict_last (fm\<lparr> fm_dirty := [] \<rparr>))) key = None \<and>
    fm_disk (evict_last (fm\<lparr> fm_dirty := [] \<rparr>)) = fm_disk fm"
  using assms by (simp add: evict_last_def Let_def map_simps)

text \<open>A REQUEST for more bytes than the block that is cached (which no check refuses) does the same with nothing in
  between: the read misses, and the stale bytes of the disk replace the block that waits to be written.\<close>

lemma overlong_read_drops_write:
  assumes "fm_cache_size fm \<le> DISK_CACHE_SIZE" "map_of (fm_cache fm) (p, b) = Some data" "(p, b) \<in> set (fm_dirty fm)"
    and "length data < len" "read_from_disk (fm_cancelled fm) (fm_disk fm) (fm_session fm) p b len = Inr stale"
  shows "\<exists>fm'. read_block p b len fm = (Inr stale, fm') \<and> map_of (fm_cache fm') (p, b) = Some stale \<and>
    (p, b) \<notin> set (fm_dirty fm') \<and> fm_disk fm' = fm_disk fm"
  using assms late_read_drops_write [OF assms(1,3), of stale] by (simp add: read_block_def Let_def)

end
