(* ===== verification/PieceShape.thy ===== *)
theory PieceShape
  imports PieceManager
begin

text \<open>
  The shape of the pieces in progress: every one belongs to the torrent, its buffer has the length of the piece,
  its block lists have one entry per block and its counter counts the received blocks.  All steps of the piece
  manager keep it, leave the layout of the torrent alone and never mark a piece as present.
\<close>

subsection \<open>Shape\<close>

definition ip_ok :: "nat \<Rightarrow> InProgressPiece \<Rightarrow> bool" where
  "ip_ok n ip \<longleftrightarrow> length (ip_data ip) = n \<and> ip_total_blocks ip = (n + BLOCK_SIZE - 1) div BLOCK_SIZE \<and>
    length (ip_received ip) = ip_total_blocks ip \<and> length (ip_outstanding ip) = ip_total_blocks ip \<and>
    length (ip_request_times ip) = ip_total_blocks ip \<and> length (ip_rejected_by ip) = ip_total_blocks ip \<and>
    ip_received_count ip = length (filter id (ip_received ip))"

definition pieces_ok :: "SessionState \<Rightarrow> PieceManager \<Rightarrow> bool" where
  "pieces_ok ss pm \<longleftrightarrow> sorted_keys (pm_pieces pm) \<and>
    (\<forall>p ip. in_progress_piece pm p = Some ip \<longrightarrow> p < ss_num_pieces ss \<and> ip_ok (plen ss p) ip) \<and>
    (\<forall>r ps p. (r, ps) \<in> set (pm_rarity pm) \<longrightarrow> p \<in> set ps \<longrightarrow> p < ss_num_pieces ss) \<and> sorted_keys (pm_rarity pm)"

lemma pieces_ok_index: "pieces_ok ss pm \<Longrightarrow> index_ok ss pm"
  by (simp add: pieces_ok_def index_ok_def)

text \<open>A change of a piece that keeps its shape.\<close>

definition shapely :: "(InProgressPiece \<Rightarrow> InProgressPiece) \<Rightarrow> bool" where
  "shapely f \<longleftrightarrow> (\<forall>n ip. ip_ok n ip \<longrightarrow> ip_ok n (f ip))"

lemma shapelyI:
  assumes "\<And>ip. ip_data (f ip) = ip_data ip \<and> ip_total_blocks (f ip) = ip_total_blocks ip \<and> ip_received (f ip) = ip_received ip \<and>
    ip_received_count (f ip) = ip_received_count ip \<and> length (ip_outstanding (f ip)) = length (ip_outstanding ip) \<and>
    length (ip_request_times (f ip)) = length (ip_request_times ip) \<and> length (ip_rejected_by (f ip)) = length (ip_rejected_by ip)"
  shows "shapely f"
  using assms by (simp add: shapely_def ip_ok_def)

lemma pieces_ok_update: "shapely f \<Longrightarrow> pieces_ok ss pm \<Longrightarrow> pieces_ok ss (update_piece p f pm)"
proof -
  assume a: "shapely f" "pieces_ok ss pm"
  have "sorted_keys (pm_pieces (update_piece p f pm))" "pm_rarity (update_piece p f pm) = pm_rarity pm"
    using a(2) by (simp_all add: pieces_ok_def update_piece_def split: option.split)
  then show ?thesis
    using a by (auto simp: pieces_ok_def shapely_def)
qed

lemma pieces_ok_frame:
  "pieces_ok ss (pm\<lparr> pm_requests := a \<rparr>) = pieces_ok ss pm" "pieces_ok ss (pm\<lparr> pm_resumes := b \<rparr>) = pieces_ok ss pm"
  "pieces_ok ss (pm\<lparr> pm_rotor := c \<rparr>) = pieces_ok ss pm" "pieces_ok ss (pm\<lparr> pm_availability := d \<rparr>) = pieces_ok ss pm"
  by (simp_all add: pieces_ok_def in_progress_piece_def)

lemma pieces_ok_layout: "ss_num_pieces ss' = ss_num_pieces ss \<Longrightarrow> plen ss' = plen ss \<Longrightarrow> pieces_ok ss' pm = pieces_ok ss pm"
  by (simp add: pieces_ok_def)

lemma pieces_ok_fold: "(\<And>x pm. x \<in> set xs \<Longrightarrow> pieces_ok ss pm \<Longrightarrow> pieces_ok ss (f x pm)) \<Longrightarrow> pieces_ok ss pm \<Longrightarrow> pieces_ok ss (fold f xs pm)"
  by (induction xs arbitrary: pm) auto

lemma shapely_register: "shapely (register_outstanding peer b)"
  by (rule shapelyI) (simp add: register_outstanding_def)

lemma pieces_ok_request: "pieces_ok ss pm \<Longrightarrow> pieces_ok ss (request_block peer p b pm)"
  by (simp add: request_block_def spawn_request_def pieces_ok_frame pieces_ok_update shapely_register split: option.split)

lemma pieces_ok_spawn: "pieces_ok ss (spawn_request peer p b n pm) = pieces_ok ss pm"
  by (simp add: spawn_request_def pieces_ok_frame)

lemma pieces_ok_ensure: "pieces_ok ss pm \<Longrightarrow> pieces_ok ss (ensure_resume_piece_download p pm)"
proof -
  have "shapely (\<lambda>ip. ip\<lparr> ip_resume_active := True \<rparr>)"
    by (rule shapelyI) simp
  then show "pieces_ok ss pm \<Longrightarrow> pieces_ok ss (ensure_resume_piece_download p pm)"
    by (simp add: ensure_resume_piece_download_def pieces_ok_frame pieces_ok_update split: option.split)
qed

lemma pieces_ok_end_resume: "pieces_ok ss pm \<Longrightarrow> pieces_ok ss (end_resume_task p pm)"
  unfolding end_resume_task_def by (rule pieces_ok_update) (rule shapelyI, simp)

lemma pieces_ok_resume_all: "pieces_ok ss pm \<Longrightarrow> pieces_ok ss (resume_all_in_progress pm)"
  unfolding resume_all_in_progress_def by (rule pieces_ok_fold) (simp_all add: pieces_ok_ensure)

lemma pieces_ok_pruned: "pieces_ok ss pm \<Longrightarrow> pieces_ok ss (snd (pruned_rejected_peers now ss' p b pm))"
proof -
  have "shapely (\<lambda>ip. ip\<lparr> ip_rejected_by := (ip_rejected_by ip)[b := l] \<rparr>)" for l
    by (rule shapelyI) simp
  then show "pieces_ok ss pm \<Longrightarrow> pieces_ok ss (snd (pruned_rejected_peers now ss' p b pm))"
    by (simp add: pruned_rejected_peers_def Let_def pieces_ok_update split: option.split)
qed

lemma pieces_ok_rejection: "pieces_ok ss pm \<Longrightarrow> pieces_ok ss (record_block_rejection now p b peer pm)"
  unfolding record_block_rejection_def by (rule pieces_ok_update) (rule shapelyI, simp)

lemma pieces_ok_pick: "pieces_ok ss pm \<Longrightarrow> pieces_ok ss (snd (pick_block_peer env ss' p b x o' pm))"
  by (simp add: pick_block_peer_def case_prod_beta Let_def pieces_ok_pruned split: option.split)

lemma pieces_ok_pick_primary: "pieces_ok ss pm \<Longrightarrow> pieces_ok ss (snd (pick_block_peer_preferring_primary env ss' p b o' pm))"
proof -
  have "shapely (\<lambda>ip. ip\<lparr> ip_primary := None \<rparr>)"
    by (rule shapelyI) simp
  then show "pieces_ok ss pm \<Longrightarrow> pieces_ok ss (snd (pick_block_peer_preferring_primary env ss' p b o' pm))"
    by (simp add: pick_block_peer_preferring_primary_def case_prod_beta Let_def pieces_ok_pruned pieces_ok_update split: option.split)
qed

lemma pieces_ok_resume_block: "pieces_ok ss (snd st) \<Longrightarrow> pieces_ok ss (snd (resume_block env ss' p b st))"
proof -
  assume ok: "pieces_ok ss (snd st)"
  obtain any pm where st: "st = (any, pm)"
    by (cases st)
  have "pieces_ok ss (fold (\<lambda>peer. spawn_request (pv_id peer) p x y) ts pm')" if "pieces_ok ss pm'" for ts :: "PeerView list" and x y pm'
    using that by (intro pieces_ok_fold) (simp_all add: pieces_ok_spawn)
  then show ?thesis
    using ok pieces_ok_pruned [of ss pm] pieces_ok_pick_primary [of ss pm env ss' p b True]
    by (auto simp: st resume_block_def Let_def case_prod_beta pieces_ok_request split: option.splits prod.splits)
qed

lemma pieces_ok_resume: "pieces_ok ss pm \<Longrightarrow> pieces_ok ss (snd (resume_piece_download env ss' p pm))"
proof -
  assume ok: "pieces_ok ss pm"
  have "pieces_ok ss (snd (fold (resume_block env ss' p) bs st))" if "pieces_ok ss (snd st)" for bs st
    using that by (induction bs arbitrary: st) (auto simp: pieces_ok_resume_block)
  then show ?thesis
    using ok by (simp add: resume_piece_download_def case_prod_beta Let_def split: option.split)
qed

definition clear_block :: "nat \<Rightarrow> nat \<Rightarrow> PieceManager \<Rightarrow> PieceManager" where
  "clear_block p b = update_piece p (\<lambda>ip. ip\<lparr> ip_outstanding := (ip_outstanding ip)[b := []], ip_request_times := (ip_request_times ip)[b := 0] \<rparr>)"

lemma pieces_ok_clear: "pieces_ok ss pm \<Longrightarrow> pieces_ok ss (clear_block p b pm)"
  unfolding clear_block_def by (rule pieces_ok_update) (rule shapelyI, simp)

lemma pieces_ok_check: "pieces_ok ss pm \<Longrightarrow> pieces_ok ss (check_block env (Some clear_block) ss' x pm)"
proof -
  assume ok: "pieces_ok ss pm"
  obtain p b where x: "x = (p, b)"
    by (cases x)
  have "pieces_ok ss (snd (pick_block_peer env ss' p b ex True (clear_block p b pm)))" for ex
    by (rule pieces_ok_pick [OF pieces_ok_clear [OF ok]])
  then show ?thesis
    using ok by (auto simp: x check_block_def Let_def case_prod_beta pieces_ok_request pieces_ok_ensure split: option.splits prod.splits)
qed

lemma pieces_ok_timeouts: "pieces_ok ss pm \<Longrightarrow> pieces_ok ss (check_block_timeouts env (Some clear_block) ss' pm)"
  by (auto simp: check_block_timeouts_def intro: pieces_ok_fold pieces_ok_check)

lemma pieces_ok_broadcast: "pieces_ok ss pm \<Longrightarrow> pieces_ok ss (broadcast_outstanding_requests env ss' pm)"
  by (auto simp: broadcast_outstanding_requests_def pieces_ok_spawn split: prod.split intro!: pieces_ok_fold)

lemma pieces_ok_tail: "pieces_ok ss pm \<Longrightarrow> pieces_ok ss (tail_scheduler_pass env pm)"
proof -
  have req: "pieces_ok ss (snd (tail_request now p peer st))" if "pieces_ok ss (snd st)" for now p peer st
    using that by (cases st) (auto simp: tail_request_def pieces_ok_request split: option.split)
  have reqs: "pieces_ok ss (snd (fold (tail_request now p) peers st))" if "pieces_ok ss (snd st)" for now p peers st
    using that by (induction peers arbitrary: st) (auto simp: req)
  have piece: "pieces_ok ss (snd (tail_piece env p st))" if "pieces_ok ss (snd st)" for p st
    using that by (simp add: tail_piece_def reqs)
  have "pieces_ok ss (snd (fold (tail_piece env) ps st))" if "pieces_ok ss (snd st)" for ps st
    using that by (induction ps arbitrary: st) (auto simp: piece)
  then show "pieces_ok ss pm \<Longrightarrow> pieces_ok ss (tail_scheduler_pass env pm)"
    by (simp add: tail_scheduler_pass_def Let_def)
qed

subsection \<open>Rarity\<close>

lemma rarity_remove:
  "(r, ps) \<in> set (pm_rarity (remove_piece_rarity q r' pm)) \<Longrightarrow> p \<in> set ps \<Longrightarrow> \<exists>r ps. (r, ps) \<in> set (pm_rarity pm) \<and> p \<in> set ps"
  by (auto simp: remove_piece_rarity_def Let_def map_erase_def split: option.splits if_splits
      dest!: subsetD [OF set_map_assign] dest: map_of_SomeD) (meson map_of_SomeD)

lemma rarity_insert:
  "(r, ps) \<in> set (pm_rarity (insert_piece_rarity q r' pm)) \<Longrightarrow> p \<in> set ps \<Longrightarrow> p = q \<or> (\<exists>r ps. (r, ps) \<in> set (pm_rarity pm) \<and> p \<in> set ps)"
  by (auto simp: insert_piece_rarity_def rarity_group_def set_insort_insert split: option.splits
      dest!: subsetD [OF set_map_assign] dest: map_of_SomeD)

lemma pieces_rarity_ops:
  "pm_pieces (remove_piece_rarity q r pm) = pm_pieces pm" "pm_pieces (insert_piece_rarity q r pm) = pm_pieces pm"
  "in_progress_piece (remove_piece_rarity q r pm) = in_progress_piece pm" "in_progress_piece (insert_piece_rarity q r pm) = in_progress_piece pm"
  by (auto simp: remove_piece_rarity_def insert_piece_rarity_def in_progress_piece_def Let_def split: option.split)

lemma rarity_sorted:
  "sorted_keys (pm_rarity pm) \<Longrightarrow> sorted_keys (pm_rarity (remove_piece_rarity q r pm))"
  "sorted_keys (pm_rarity pm) \<Longrightarrow> sorted_keys (pm_rarity (insert_piece_rarity q r pm))"
  by (auto simp: remove_piece_rarity_def insert_piece_rarity_def Let_def map_simps split: option.split)

lemma pieces_ok_remove_rarity: "pieces_ok ss pm \<Longrightarrow> pieces_ok ss (remove_piece_rarity q r pm)"
  unfolding pieces_ok_def pieces_rarity_ops using rarity_remove rarity_sorted(1) by blast

lemma pieces_ok_insert_rarity: "pieces_ok ss pm \<Longrightarrow> q < ss_num_pieces ss \<Longrightarrow> pieces_ok ss (insert_piece_rarity q r pm)"
  unfolding pieces_ok_def pieces_rarity_ops using rarity_insert rarity_sorted(2) by blast

lemma pieces_ok_rarity: "pieces_ok ss pm \<Longrightarrow> q < ss_num_pieces ss \<Longrightarrow> pieces_ok ss (update_piece_rarity q r r' pm)"
  by (simp add: update_piece_rarity_def pieces_ok_remove_rarity pieces_ok_insert_rarity)

lemma pieces_ok_availability: "pieces_ok ss pm \<Longrightarrow> pieces_ok ss (add_piece_availability q d pm)"
  by (simp add: add_piece_availability_def pieces_ok_frame)

lemma pieces_ok_remove: "pieces_ok ss pm \<Longrightarrow> pieces_ok ss (remove_in_progress_piece p pm)"
  by (auto simp: pieces_ok_def remove_in_progress_piece_def in_progress_piece_def map_simps split: if_splits)

lemma pieces_ok_build:
  "sorted_keys (pm_pieces pm) \<Longrightarrow> (\<forall>p ip. in_progress_piece pm p = Some ip \<longrightarrow> p < ss_num_pieces ss \<and> ip_ok (plen ss p) ip) \<Longrightarrow>
    pieces_ok ss (build_piece_rarity ss pm)"
proof -
  assume a: "sorted_keys (pm_pieces pm)" "\<forall>p ip. in_progress_piece pm p = Some ip \<longrightarrow> p < ss_num_pieces ss \<and> ip_ok (plen ss p) ip"
  have "pieces_ok ss (pm\<lparr> pm_availability := l, pm_rarity := [] \<rparr>)" for l
    using a by (simp add: pieces_ok_def in_progress_piece_def)
  then show ?thesis
    unfolding build_piece_rarity_def Let_def
    by (intro pieces_ok_fold) (simp_all add: pieces_ok_insert_rarity split: PieceStatus.split)
qed

subsection \<open>Starting pieces\<close>

lemma new_in_progress_ok:
  assumes "0 < n" "n < 2 ^ 32"
  shows "ip_ok n (new_in_progress n)"
  using blocks_tile(1) [OF assms] by (simp add: ip_ok_def) (simp add: new_in_progress_def Let_def)

text \<open>What a step does to the session state: the layout stays, no piece becomes present.\<close>

definition no_new_have :: "SessionState \<Rightarrow> SessionState \<Rightarrow> bool" where
  "no_new_have ss ss' \<longleftrightarrow> ss_meta ss' = ss_meta ss \<and> ss_num_pieces ss' = ss_num_pieces ss \<and> ss_save_path ss' = ss_save_path ss \<and>
    length (ss_piece_status ss') = length (ss_piece_status ss) \<and>
    (\<forall>p < length (ss_piece_status ss). piece_status ss' p = Have \<longrightarrow> piece_status ss p = Have)"

lemma no_new_have_refl [simp]: "no_new_have ss ss"
  by (simp add: no_new_have_def)

lemma no_new_have_trans: "no_new_have a b \<Longrightarrow> no_new_have b c \<Longrightarrow> no_new_have a c"
  by (auto simp: no_new_have_def)

lemma no_new_have_layout:
  assumes "no_new_have ss ss'"
  shows "ss_num_pieces ss' = ss_num_pieces ss" "plen ss' = plen ss" "wf_torrent ss' = wf_torrent ss"
proof -
  note eqs = assms [unfolded no_new_have_def]
  show "ss_num_pieces ss' = ss_num_pieces ss" "plen ss' = plen ss"
    using eqs by (auto simp: plen_def)
  have "get_full_path_for_file ss' = get_full_path_for_file ss"
    using eqs by (intro ext) (simp add: get_full_path_for_file_def Let_def)
  then show "wf_torrent ss' = wf_torrent ss"
    using eqs by (simp add: wf_torrent_def)
qed

lemma no_new_have_status: "st \<noteq> Have \<Longrightarrow> no_new_have ss (set_piece_status p st ss)"
  by (cases "p < length (ss_piece_status ss)") (auto simp: no_new_have_def set_piece_status_def piece_status_def nth_list_update split: if_splits)

definition pm_good :: "SessionState \<times> PieceManager \<Rightarrow> bool" where
  "pm_good s \<longleftrightarrow> wf_torrent (fst s) \<and> pieces_ok (fst s) (snd s)"

text \<open>A step from a good state that keeps it good and makes no piece present.\<close>

definition pm_keeps :: "SessionState \<times> PieceManager \<Rightarrow> SessionState \<times> PieceManager \<Rightarrow> bool" where
  "pm_keeps s s' \<longleftrightarrow> pm_good s' \<and> no_new_have (fst s) (fst s')"

lemma pm_keeps_refl: "pm_good s \<Longrightarrow> pm_keeps s s"
  by (simp add: pm_keeps_def)

lemma pm_keeps_trans: "pm_keeps a b \<Longrightarrow> pm_keeps b c \<Longrightarrow> pm_keeps a c"
  unfolding pm_keeps_def using no_new_have_trans by blast

lemma pm_keepsI:
  assumes "pm_good (ss, pm)" "no_new_have ss ss'" "pieces_ok ss pm'"
  shows "pm_keeps (ss, pm) (ss', pm')"
  using assms no_new_have_layout [OF assms(2)] pieces_ok_layout [of ss' ss] by (simp add: pm_keeps_def pm_good_def)

lemma pieces_ok_choose: "pieces_ok ss pm \<Longrightarrow> choose_primary env pref av pm = (peer, pm') \<Longrightarrow> pieces_ok ss pm'"
  by (auto simp: choose_primary_def Let_def pieces_ok_frame split: option.splits)

lemma try_piece_keeps:
  assumes "pm_good s" "p < ss_num_pieces (fst s)"
  shows "pm_keeps s (snd (try_piece_download env pref p s))"
proof (cases "startable env (fst s) p")
  case False
  then show ?thesis
    using try_piece_refused [of env "fst s" p pref "snd s"] assms(1) by (simp add: pm_keeps_refl)
next
  case True
  obtain ss pm where s: "s = (ss, pm)"
    by (cases s)
  have wf: "wf_torrent ss" and ok: "pieces_ok ss pm"
    using assms(1) by (simp_all add: s pm_good_def)
  have n: "0 < plen ss p" "plen ss p < 2 ^ 32"
    using plen_bounds(1,2) [OF wf, of p] assms(2) wf_basic(2) [OF wf] by (simp_all add: s)
  define pm1 where "pm1 = update_piece_rarity p (to_u32 (piece_availability pm p)) IN_PROGRESS_RARITY_GROUP_ID pm"
  define pm2 where "pm2 = emplace_in_progress_pieces p (new_in_progress (download_size ss p)) pm1"
  have ok1: "pieces_ok ss pm1"
    using ok assms(2) by (simp add: pm1_def pieces_ok_rarity s)
  have ds: "download_size ss p = plen ss p"
    using download_size_eq [OF wf] assms(2) by (simp add: s)
  have "pm_rarity pm2 = pm_rarity pm1" "sorted_keys (pm_pieces pm2)"
    using ok1 by (simp_all add: pm2_def emplace_in_progress_pieces_def pieces_ok_def)
  moreover have "in_progress_piece pm2 q = Some ip \<Longrightarrow> q < ss_num_pieces ss \<and> ip_ok (plen ss q) ip" for q ip
    using ok1 assms(2) new_in_progress_ok [OF n] ds by (auto simp: pm2_def pieces_ok_def s split: if_splits option.splits)
  ultimately have ok2: "pieces_ok ss pm2"
    using ok1 by (simp add: pieces_ok_def)
  obtain peer pm3 where cp: "choose_primary env pref (pe_available env p) pm2 = (peer, pm3)"
    by fastforce
  define f :: "InProgressPiece \<Rightarrow> InProgressPiece" where "f = (\<lambda>ip. ip\<lparr> ip_primary := Some (pv_id peer), ip_last_progress := pe_now env \<rparr>)"
  have "shapely f"
    by (rule shapelyI) (simp add: f_def)
  then have "pieces_ok ss (fold (request_block (pv_id peer) p) bs (update_piece p f pm3))" for bs
    using pieces_ok_choose [OF ok2 cp] by (intro pieces_ok_fold) (simp_all add: pieces_ok_request pieces_ok_update)
  then show ?thesis
    using True assms(1) no_new_have_status [of InProgress ss p]
    by (simp add: s try_piece_download_def startable_def Let_def pm1_def [symmetric] pm2_def [symmetric] cp f_def [symmetric] pm_keepsI)
qed

lemma try_pieces_keeps:
  "pm_good s \<Longrightarrow> \<forall>p \<in> set ps. p < ss_num_pieces (fst s) \<Longrightarrow> pm_keeps s (snd (try_pieces env pref ps s))"
proof (induction ps arbitrary: s)
  case (Cons p ps)
  obtain b s1 where t: "try_piece_download env pref p s = (b, s1)"
    by (cases "try_piece_download env pref p s")
  then have k: "pm_keeps s s1"
    using try_piece_keeps [of s p env pref] Cons.prems by simp
  then have "pm_good s1" "ss_num_pieces (fst s1) = ss_num_pieces (fst s)"
    by (auto simp: pm_keeps_def no_new_have_def)
  then have "pm_keeps s1 (snd (try_pieces env pref ps s1))"
    using Cons by simp
  then show ?case
    using k pm_keeps_trans by (cases b) (auto simp: t)
qed (simp add: pm_keeps_refl)


lemma by_rarity_bound:
  assumes "pieces_ok ss pm" "\<forall>xs. set (pe_shuffle env xs) \<subseteq> set xs" "p \<in> set (by_rarity env pm)"
  shows "p < ss_num_pieces ss"
proof -
  obtain r ps where "(r, ps) \<in> set (pm_rarity pm)" "p \<in> set (pe_shuffle env ps)"
    using assms(3) by (auto simp: by_rarity_def split: if_splits)
  then show ?thesis
    using assms(1,2) unfolding pieces_ok_def by blast
qed

lemma needed_bound: "\<forall>xs. set (pe_shuffle env xs) \<subseteq> set xs \<Longrightarrow> p \<in> set (pe_shuffle env (needed_indices ss)) \<Longrightarrow> p < ss_num_pieces ss"
  unfolding needed_indices_def by fastforce

lemma pm_keeps_D: "pm_keeps s s' \<Longrightarrow> pm_good s'" "pm_keeps s s' \<Longrightarrow> pieces_ok (fst s') (snd s')"
  by (simp_all add: pm_keeps_def pm_good_def)

lemma request_one_keeps:
  assumes "pm_good s" "\<forall>xs. set (pe_shuffle env xs) \<subseteq> set xs"
  shows "pm_keeps s (snd (request_one_piece env s))"
proof -
  obtain ss pm where s: "s = (ss, pm)"
    by (cases s)
  define s1 where "s1 = (if ss_completed_pieces ss + length (pm_pieces pm) < kInitialPickerThreshold
    then try_pieces env None (pe_shuffle env (needed_indices ss)) s else (False, s))"
  define s2 where "s2 = try_pieces env None (by_rarity env (snd (snd s1))) (snd s1)"
  define s3 where "s3 = try_pieces env None (pe_shuffle env (needed_indices (fst (snd s2)))) (snd s2)"
  have 1: "pm_keeps s (snd s1)"
    using assms needed_bound [OF assms(2)] by (auto simp: s1_def pm_keeps_refl s intro: try_pieces_keeps)
  have 2: "pm_keeps (snd s1) (snd s2)"
    unfolding s2_def using by_rarity_bound [OF pm_keeps_D(2) [OF 1] assms(2)] by (intro try_pieces_keeps pm_keeps_D(1) [OF 1]) blast
  have 3: "pm_keeps (snd s2) (snd s3)"
    unfolding s3_def using needed_bound [OF assms(2)] by (intro try_pieces_keeps pm_keeps_D(1) [OF 2]) blast
  have "request_one_piece env s = (if ss_download_complete ss then (False, s) else if fst s1 then s1 else if fst s2 then s2 else s3)"
    by (simp add: request_one_piece_def s s1_def s2_def s3_def Let_def)
  then show ?thesis
    using pm_keeps_refl [OF assms(1)] 1 pm_keeps_trans [OF 1 2] pm_keeps_trans [OF 1 pm_keeps_trans [OF 2 3]] by simp
qed

lemma seed_keeps:
  assumes "pm_good s" "\<forall>xs. set (pe_shuffle env xs) \<subseteq> set xs"
  shows "pm_keeps s (snd (try_seed_to_primary env peer s))"
  using assms by_rarity_bound [of "fst s" "snd s" env]
  by (auto simp: try_seed_to_primary_def pm_keeps_refl pm_good_def intro!: try_pieces_keeps)

lemma endgame_no_have: "no_new_have ss (snd (check_and_enter_endgame stalled (ss, pm)))"
  by (auto simp: check_and_enter_endgame_def Let_def no_new_have_def piece_status_def)

subsection \<open>Steps of the piece manager\<close>

text \<open>The coroutines of the piece manager, each from one wait to the next, in an environment whose shuffle
  yields no new elements.\<close>

inductive pm_step :: "SessionState \<times> PieceManager \<Rightarrow> SessionState \<times> PieceManager \<Rightarrow> bool" where
  pm_wake: "downloader_wake env w s = (spawns, entered, w', s') \<Longrightarrow> pm_step s s'"
| pm_one: "\<forall>xs. set (pe_shuffle env xs) \<subseteq> set xs \<Longrightarrow> pm_step s (snd (request_one_piece env s))"
| pm_seed: "\<forall>xs. set (pe_shuffle env xs) \<subseteq> set xs \<Longrightarrow> pm_step s (snd (try_seed_to_primary env peer s))"
| pm_resume: "pm_step (ss, pm) (ss, snd (resume_piece_download env ss p pm))"
| pm_end_resume: "pm_step (ss, pm) (ss, end_resume_task p pm)"
| pm_ensure: "pm_step (ss, pm) (ss, ensure_resume_piece_download p pm)"
| pm_timeouts: "pm_step (ss, pm) (ss, check_block_timeouts env (Some clear_block) ss pm)"
| pm_watchdog: "endgame_watchdog now w (ss, pm) = (entered, w', ss') \<Longrightarrow> pm_step (ss, pm) (ss', pm)"
| pm_broadcast: "pm_step (ss, pm) (ss, broadcast_outstanding_requests env ss pm)"

lemma pm_wake_keeps:
  assumes "pm_good (ss, pm)" "downloader_wake env w (ss, pm) = (spawns, entered, w', s')"
  shows "pm_keeps (ss, pm) s'"
proof (cases "ss_download_complete ss \<or> pm_shutting_down pm")
  case True
  then show ?thesis
    using assms by (simp add: downloader_wake_def pm_keeps_refl)
next
  case False
  define pm1 where "pm1 = snd (budget_refill env pm)"
  define pm2 where "pm2 = (if needed_pieces ss = 0 \<and> \<not> ss_endgame ss then tail_scheduler_pass env pm1 else pm1)"
  have ok: "pieces_ok ss pm"
    using assms(1) by (simp add: pm_good_def)
  then have "pieces_ok ss pm1"
    by (simp add: pm1_def budget_refill_def Let_def pieces_ok_frame)
  then have "pieces_ok ss pm2"
    by (simp add: pm2_def pieces_ok_tail)
  moreover have "s' = (snd (check_and_enter_endgame (fst (stall_check (pe_now env) ss w)) (ss, pm2)), pm2)"
    using assms(2) False by (auto simp: downloader_wake_def Let_def case_prod_beta pm1_def pm2_def split: if_splits)
  ultimately show ?thesis
    using pm_keepsI [OF assms(1) endgame_no_have] by simp
qed

lemma pm_step_keeps: "pm_step s s' \<Longrightarrow> pm_good s \<Longrightarrow> pm_keeps s s'"
proof (induction rule: pm_step.induct)
  case (pm_wake env w s spawns entered w' s')
  then show ?case
    using pm_wake_keeps [of "fst s" "snd s"] by simp
next
  case (pm_watchdog now w ss pm entered w' ss')
  then show ?case
    using endgame_no_have [of ss _ pm] pm_keepsI [OF pm_watchdog.prems, of ss' pm]
    by (auto simp: endgame_watchdog_def pm_good_def case_prod_beta split: if_splits)
qed (simp_all add: request_one_keeps seed_keeps, auto simp: pm_good_def pieces_ok_resume pieces_ok_end_resume pieces_ok_ensure
    pieces_ok_timeouts pieces_ok_broadcast intro!: pm_keepsI)

end
