(* ===== verification/Session.thy ===== *)
theory Session
  imports PeerManager FileManager Resume PieceShape
begin

text \<open>
  The torrent session (\<^verbatim>\<open>src/src/TorrentSession.cpp\<close>): the handlers of the events a peer connection reports, over
  the file manager, the piece manager and the peer manager.  The session state the managers share is the one
  the file manager holds (\<open>fm_session\<close>).

  A handler runs as one step.  The wait for rate limiter tokens changes no state.  What is undefined behaviour
  in the code (a copy past the end of a piece, a status beyond the last piece) is the error \<open>OutOfBounds\<close>; a read
  that fails is an exception.  The clock, SHA-1, the parser of IPv4 addresses and whether a write succeeds are the
  environment.

  Lemmas: a piece is marked as present only after its bytes were verified and stored, and stays so; the blocks of
  a piece complete it in any order; a block that is served is the block that is stored.
\<close>

subsection \<open>Definitions: state\<close>

datatype Mode = Seed | Leech | Hybrid

datatype ts_error = OutOfBounds | ReadFailed file_error | Failed

record ts_env =
  te_now :: int
  te_sha1 :: "byte list \<Rightarrow> byte list"
  te_address :: "string \<Rightarrow> byte list option"
  te_send_ok :: "handle \<Rightarrow> bool"

record TorrentSession =
  ts_fm :: FileManager
  ts_pm :: PieceManager
  ts_mg :: PeerManager
  ts_mode :: Mode
  ts_my_peer_id :: PeerId
  ts_peer_port :: u16
  ts_last_resume_all :: int
  ts_metadata_active :: bool
  ts_metadata_init :: bool
  ts_metadata_buffer :: "byte list"
  ts_metadata_received :: nat
  ts_completions :: nat
  ts_shutting_down :: bool

abbreviation ts_state :: "TorrentSession \<Rightarrow> SessionState" where
  "ts_state ts \<equiv> fm_session (ts_fm ts)"

definition on_state :: "(SessionState \<Rightarrow> SessionState) \<Rightarrow> TorrentSession \<Rightarrow> TorrentSession" where
  "on_state f ts = ts\<lparr> ts_fm := (ts_fm ts)\<lparr> fm_session := f (ts_state ts) \<rparr> \<rparr>"

definition on_pieces :: "(PieceManager \<Rightarrow> PieceManager) \<Rightarrow> TorrentSession \<Rightarrow> TorrentSession" where
  "on_pieces f ts = ts\<lparr> ts_pm := f (ts_pm ts) \<rparr>"

definition on_peers :: "(PeerManager \<Rightarrow> PeerManager) \<Rightarrow> TorrentSession \<Rightarrow> TorrentSession" where
  "on_peers f ts = ts\<lparr> ts_mg := f (ts_mg ts) \<rparr>"

abbreviation with_conn :: "handle \<Rightarrow> (PeerConnection \<Rightarrow> PeerConnection) \<Rightarrow> TorrentSession \<Rightarrow> TorrentSession" where
  "with_conn h f \<equiv> on_peers (on_conn h f)"

abbreviation ts_conn :: "TorrentSession \<Rightarrow> handle \<Rightarrow> PeerConnection" where
  "ts_conn ts h \<equiv> conn_at (ts_mg ts) h"

type_synonym 'a session = "(TorrentSession, ts_error, 'a) sx"

subsection \<open>Definitions: requests and cancels\<close>

definition record_request_sent :: "int \<Rightarrow> nat \<Rightarrow> nat \<Rightarrow> PeerId \<Rightarrow> TorrentSession \<Rightarrow> TorrentSession" where
  "record_request_sent now p begin_offset peer =
    on_pieces (update_piece p (\<lambda>ip.
      let b = begin_offset div BLOCK_SIZE
      in if ip_total_blocks ip \<le> b \<or> ip_received ip ! b then ip
         else ip\<lparr> ip_outstanding := (ip_outstanding ip)[b := (if peer \<in> set (ip_outstanding ip ! b) then ip_outstanding ip ! b
                    else ip_outstanding ip ! b @ [peer])],
                  ip_request_times := (ip_request_times ip)[b := now] \<rparr>))"

definition cancel_length :: "SessionState \<Rightarrow> nat \<Rightarrow> nat \<Rightarrow> nat" where
  "cancel_length ss p b =
    (let info = torrent_info ss;
         offset = to_u32 (b * BLOCK_SIZE);
         current_piece_size = (if p = ss_num_pieces ss - 1 then sub_u64 (ti_total_size info) (to_u64 (p * ti_piece_size info)) else ti_piece_size info)
     in if current_piece_size < offset + BLOCK_SIZE then to_u32 (sub_u64 current_piece_size offset) else BLOCK_SIZE)"

definition send_cancel_for_block :: "nat \<Rightarrow> nat \<Rightarrow> PeerId \<Rightarrow> TorrentSession \<Rightarrow> TorrentSession" where
  "send_cancel_for_block p b exclude_peer ts =
    (case in_progress_piece (ts_pm ts) p of
       None \<Rightarrow> ts
     | Some ip \<Rightarrow>
         if length (ip_outstanding ip) \<le> b then ts
         else let peer_ids = ip_outstanding ip ! b;
                  ts = on_pieces (update_piece p (\<lambda>ip. ip\<lparr> ip_outstanding := (ip_outstanding ip)[b := []],
                         ip_request_times := (ip_request_times ip)[b := 0] \<rparr>)) ts;
                  len = cancel_length (ts_state ts) p b
              in fold (\<lambda>pid ts. case get_connection (ts_mg ts) pid of
                     None \<Rightarrow> ts
                   | Some h \<Rightarrow> with_conn h (send_cancel p (to_u32 (b * BLOCK_SIZE)) len) ts)
                   (filter (\<lambda>pid. pid \<noteq> exclude_peer) peer_ids) ts)"

subsection \<open>Definitions: a block arrives\<close>

definition store_block :: "int \<Rightarrow> nat \<Rightarrow> byte list \<Rightarrow> InProgressPiece \<Rightarrow> InProgressPiece" where
  "store_block now begin_offset block ip =
    (let b = begin_offset div BLOCK_SIZE
     in ip\<lparr> ip_data := take begin_offset (ip_data ip) @ block @ drop (begin_offset + length block) (ip_data ip),
            ip_received := (ip_received ip)[b := True], ip_received_count := ip_received_count ip + 1, ip_last_progress := now,
            ip_rejected_by := (if b < length (ip_rejected_by ip) then (ip_rejected_by ip)[b := []] else ip_rejected_by ip) \<rparr>)"

definition expected_hash :: "SessionState \<Rightarrow> nat \<Rightarrow> byte list" where
  "expected_hash ss p = take 20 (drop (p * 20) (ti_pieces (torrent_info ss)))"

text \<open>After the last piece the storage is flushed; unless the session is stopping, every connection is closed and
  the owner is told.\<close>

definition finish_download :: "TorrentSession \<Rightarrow> TorrentSession" where
  "finish_download ts =
    (let ts = on_state (\<lambda>ss. ss\<lparr> ss_download_complete := True \<rparr>) ts;
         ts = ts\<lparr> ts_fm := flush_all_dirty (ts_fm ts) \<rparr>
     in if ts_shutting_down ts then ts
        else (on_peers (remove_all_connections \<circ> close_all) ts)\<lparr> ts_completions := ts_completions ts + 1 \<rparr>)"

definition complete_piece :: "ts_env \<Rightarrow> handle \<Rightarrow> nat \<Rightarrow> byte list \<Rightarrow> TorrentSession \<Rightarrow> TorrentSession" where
  "complete_piece env h p piece_data ts =
    (if te_sha1 env piece_data \<noteq> expected_hash (ts_state ts) p
     then let ts = on_peers (report_corrupt_piece (te_now env) (pc_peer_addr (ts_conn ts h))) ts;
              (ss, pm) = return_piece_to_queue p (ts_state ts, ts_pm ts)
          in (on_state (\<lambda>_. ss) ts)\<lparr> ts_pm := pm \<rparr>
     else let ts = ts\<lparr> ts_fm := write_piece p piece_data (ts_fm ts) \<rparr>;
              ts = on_state (add_completed_pieces 1 \<circ> set_piece_status p Have) ts;
              ts = on_peers (send_have_message_to_all p) ts;
              ts = on_pieces (remove_in_progress_piece p) ts
          in if ss_completed_pieces (ts_state ts) = ss_num_pieces (ts_state ts) then finish_download ts else ts)"

text \<open>The bookkeeping for a block that was stored in \<open>ip\<close>.\<close>

definition accept_block :: "handle \<Rightarrow> nat \<Rightarrow> nat \<Rightarrow> nat \<Rightarrow> InProgressPiece \<Rightarrow> TorrentSession \<Rightarrow> TorrentSession" where
  "accept_block h p b len ip ts =
    (let ts = on_pieces (update_piece p (\<lambda>_. ip)) ts;
         ts = (if ss_endgame (ts_state ts) then send_cancel_for_block p b (pc_peer_id (ts_conn ts h)) ts else ts);
         ts = on_state (add_total_bytes_downloaded len) ts;
         ts = with_conn h (\<lambda>pc. pc\<lparr> pc_bytes_downloaded := to_u64 (pc_bytes_downloaded pc + len) \<rparr>) ts
     in on_pieces (ensure_resume_piece_download p) ts)"

definition on_piece_block :: "ts_env \<Rightarrow> handle \<Rightarrow> nat \<Rightarrow> nat \<Rightarrow> byte list \<Rightarrow> unit session" where
  "on_piece_block env h p begin_offset block ts =
    (let ts = with_conn h (\<lambda>pc. pc\<lparr> pc_last_data_received := te_now env \<rparr>) ts;
         cancel = with_conn h (send_cancel p begin_offset (to_u32 (length block)))
     in if length (ss_piece_status (ts_state ts)) \<le> p then (Inl OutOfBounds, ts)
        else if piece_status (ts_state ts) p = Have then (Inr (), cancel ts)
        else case in_progress_piece (ts_pm ts) p of
          None \<Rightarrow> (Inr (), cancel ts)
        | Some ip \<Rightarrow>
            let b = begin_offset div BLOCK_SIZE
            in if length (ip_received ip) \<le> b \<or> ip_received ip ! b then (Inr (), ts)
               else if length (ip_data ip) < begin_offset + length block then (Inl OutOfBounds, ts)
               else let ip = store_block (te_now env) begin_offset block ip;
                        ts = accept_block h p b (length block) ip ts
                    in (Inr (), if ip_received_count ip = ip_total_blocks ip then complete_piece env h p (ip_data ip) ts else ts))"

subsection \<open>Definitions: serving and refusing\<close>

definition on_block_request :: "ts_env \<Rightarrow> handle \<Rightarrow> nat \<Rightarrow> nat \<Rightarrow> nat \<Rightarrow> unit session" where
  "on_block_request env h p begin_offset len ts =
    (if pc_am_choking (ts_conn ts h)
     then (Inr (), if pc_fast_extension (ts_conn ts h) then with_conn h (send_reject p begin_offset len) ts else ts)
     else let ts = (if pc_peer_is_interested (ts_conn ts h) then ts else with_conn h (\<lambda>pc. pc\<lparr> pc_peer_is_interested := True \<rparr>) ts)
          in (case read_block p begin_offset len (ts_fm ts) of
                (Inl e, fm) \<Rightarrow> (Inl (ReadFailed e), ts\<lparr> ts_fm := fm \<rparr>)
              | (Inr block, fm) \<Rightarrow>
                  let ts = ts\<lparr> ts_fm := fm \<rparr>;
                      ts = with_conn h (send_piece p begin_offset block) ts;
                      ts = on_state (add_total_bytes_uploaded len) ts
                  in (Inr (), with_conn h (\<lambda>pc. pc\<lparr> pc_bytes_uploaded := to_u64 (pc_bytes_uploaded pc + len) \<rparr>) ts)))"

definition on_piece_rejected :: "ts_env \<Rightarrow> handle \<Rightarrow> nat \<Rightarrow> nat \<Rightarrow> TorrentSession \<Rightarrow> TorrentSession" where
  "on_piece_rejected env h p begin_offset ts =
    (case in_progress_piece (ts_pm ts) p of
       None \<Rightarrow> ts
     | Some ip \<Rightarrow>
         let b = begin_offset div BLOCK_SIZE; pid = pc_peer_id (ts_conn ts h)
         in if ip_total_blocks ip \<le> b then ts
            else let ts = on_pieces (update_piece p (\<lambda>ip.
                       let outstanding = removeAll pid (ip_outstanding ip ! b)
                       in ip\<lparr> ip_outstanding := (ip_outstanding ip)[b := outstanding],
                              ip_request_times := (if outstanding = [] then (ip_request_times ip)[b := 0] else ip_request_times ip) \<rparr>)) ts;
                     ts = on_pieces (record_block_rejection (te_now env) p b pid) ts;
                     ts = on_pieces (update_piece p (\<lambda>ip. if ip_primary ip = Some pid then ip\<lparr> ip_primary := None \<rparr> else ip)) ts
                 in on_pieces (ensure_resume_piece_download p) ts)"

subsection \<open>Definitions: what a peer has\<close>

text \<open>One more or one fewer peer has a piece; the rarity is read as a \<^verbatim>\<open>uint32_t\<close>.\<close>

definition shift_availability :: "nat \<Rightarrow> int \<Rightarrow> PieceManager \<Rightarrow> PieceManager" where
  "shift_availability p d pm =
    (let old_rarity = to_u32 (piece_availability pm p); pm = add_piece_availability p d pm
     in update_piece_rarity p old_rarity (to_u32 (piece_availability pm p)) pm)"

definition count_peer_piece :: "SessionState \<Rightarrow> nat \<Rightarrow> PieceManager \<Rightarrow> PieceManager" where
  "count_peer_piece ss p pm = (if piece_status ss p = Have then add_piece_availability p 1 pm else shift_availability p 1 pm)"

definition become_interested :: "handle \<Rightarrow> TorrentSession \<Rightarrow> TorrentSession" where
  "become_interested h = with_conn h (\<lambda>pc. send_simple_message Interested (pc\<lparr> pc_am_interested := True \<rparr>))"

definition empty_bitfield :: "nat \<Rightarrow> byte \<Rightarrow> byte list" where
  "empty_bitfield n b = replicate ((n + 7) div 8) b"

definition on_peer_has_piece :: "handle \<Rightarrow> nat \<Rightarrow> TorrentSession \<Rightarrow> TorrentSession" where
  "on_peer_has_piece h p ts =
    (let ss = ts_state ts in
     if ss_num_pieces ss \<le> p then ts
     else let ts = with_conn h (\<lambda>pc. if pc_bitfield pc = [] then pc\<lparr> pc_bitfield := empty_bitfield (ss_num_pieces ss) 0 \<rparr> else pc) ts;
              in_field = (p div 8 < length (pc_bitfield (ts_conn ts h)));
              ts = (if in_field then with_conn h (pc_set_has_piece p) ts else ts);
              ts = (if in_field then on_pieces (count_peer_piece ss p) ts else ts)
          in if in_field \<and> piece_status ss p = Have then ts
             else if piece_status ss p = Needed \<and> \<not> pc_am_interested (ts_conn ts h) then become_interested h ts else ts)"

definition inventory_done :: "handle \<Rightarrow> nat list \<Rightarrow> TorrentSession \<Rightarrow> TorrentSession" where
  "inventory_done h ps ts =
    (let ss = ts_state ts;
         ts = on_pieces (fold (count_peer_piece ss) ps) ts;
         ts = (if list_ex (\<lambda>p. piece_status ss p = Needed) ps \<and> \<not> pc_am_interested (ts_conn ts h) then become_interested h ts else ts)
     in with_conn h (\<lambda>pc. pc\<lparr> pc_inventory_pending := False \<rparr>) ts)"

definition on_peer_has_all :: "handle \<Rightarrow> TorrentSession \<Rightarrow> TorrentSession" where
  "on_peer_has_all h ts =
    (let n = ss_num_pieces (ts_state ts) in
     if n = 0 then with_conn h (\<lambda>pc. pc\<lparr> pc_has_all_hint := True, pc_inventory_pending := True \<rparr>) ts
     else let ts = with_conn h (\<lambda>pc. if pc_bitfield pc = [] then pc\<lparr> pc_bitfield := empty_bitfield n 255 \<rparr> else pc) ts;
              ts = with_conn h (fold pc_set_has_piece [0..<n]) ts
          in inventory_done h [0..<n] ts)"

definition on_peer_has_none :: "handle \<Rightarrow> TorrentSession \<Rightarrow> TorrentSession" where
  "on_peer_has_none h ts = ts"

definition on_peer_bitfield :: "ts_env \<Rightarrow> handle \<Rightarrow> byte list \<Rightarrow> TorrentSession \<Rightarrow> TorrentSession" where
  "on_peer_bitfield env h bits ts =
    (let n = ss_num_pieces (ts_state ts) in
     if n = 0 then with_conn h (\<lambda>pc. pc\<lparr> pc_bitfield := bits, pc_has_all_hint := False, pc_inventory_pending := True \<rparr>) ts
     else if (n + 7) div 8 \<noteq> length bits
          then with_conn h pc_close (on_peers (report_protocol_violation (te_now env) (pc_peer_addr (ts_conn ts h))) ts)
     else let ts = with_conn h (\<lambda>pc. pc\<lparr> pc_bitfield := bits \<rparr>) ts
          in inventory_done h (filter (pc_has_piece (ts_conn ts h)) [0..<n]) ts)"

subsection \<open>Definitions: choking and disconnecting\<close>

text \<open>The requests of a peer are taken off a piece; the result tells whether a block has nobody left to ask.\<close>

definition orphaned :: "PeerId \<Rightarrow> InProgressPiece \<Rightarrow> nat \<Rightarrow> bool" where
  "orphaned pid ip b \<longleftrightarrow> removeAll pid (ip_outstanding ip ! b) = [] \<and> \<not> ip_received ip ! b"

definition forget_peer :: "PeerId \<Rightarrow> InProgressPiece \<Rightarrow> InProgressPiece" where
  "forget_peer pid ip =
    ip\<lparr> ip_outstanding := map (removeAll pid) (ip_outstanding ip),
        ip_request_times := fold (\<lambda>b times. if orphaned pid ip b then times[b := 0] else times) [0..<length (ip_outstanding ip)] (ip_request_times ip) \<rparr>"

definition needs_resume :: "PeerId \<Rightarrow> InProgressPiece \<Rightarrow> bool" where
  "needs_resume pid ip = list_ex (orphaned pid ip) [0..<length (ip_outstanding ip)]"

definition release_piece :: "(InProgressPiece \<Rightarrow> InProgressPiece) \<Rightarrow> bool \<Rightarrow> PeerId \<Rightarrow> nat \<Rightarrow> PieceManager \<Rightarrow> PieceManager" where
  "release_piece f always pid p pm =
    (case in_progress_piece pm p of
       None \<Rightarrow> pm
     | Some ip \<Rightarrow>
         let pm = update_piece p f pm
         in if always \<or> needs_resume pid ip then ensure_resume_piece_download p pm else pm)"

definition wanted_from :: "SessionState \<Rightarrow> PeerConnection \<Rightarrow> bool" where
  "wanted_from ss pc = list_ex (\<lambda>i. (piece_status ss i = Needed \<or> piece_status ss i = InProgress) \<and> pc_has_piece pc i) [0..<ss_num_pieces ss]"

definition on_choke_status_changed :: "ts_env \<Rightarrow> handle \<Rightarrow> bool \<Rightarrow> TorrentSession \<Rightarrow> TorrentSession" where
  "on_choke_status_changed env h is_choking ts =
    (if \<not> is_choking then
       let ts = (if \<not> pc_am_interested (ts_conn ts h) \<and> wanted_from (ts_state ts) (ts_conn ts h) then become_interested h ts else ts)
       in if 5 * second < te_now env - ts_last_resume_all ts
          then on_pieces resume_all_in_progress (ts\<lparr> ts_last_resume_all := te_now env \<rparr>) else ts
     else let pid = pc_peer_id (ts_conn ts h); queued = (pc_pending (ts_conn ts h) \<noteq> [])
          in on_pieces (\<lambda>pm. fold (release_piece (forget_peer pid) queued pid) (map fst (pm_pieces pm)) pm) ts)"

definition drop_peer :: "PeerId \<Rightarrow> InProgressPiece \<Rightarrow> InProgressPiece" where
  "drop_peer pid ip =
    (forget_peer pid ip)\<lparr> ip_rejected_by := map (filter (\<lambda>(peer, when). peer \<noteq> pid)) (ip_rejected_by ip) \<rparr>"

text \<open>An unsent request goes to the first other peer that has the piece, does not choke us and takes it.\<close>

fun requeue :: "ts_env \<Rightarrow> handle \<Rightarrow> block_request \<Rightarrow> handle list \<Rightarrow> TorrentSession \<Rightarrow> bool \<times> TorrentSession" where
  "requeue env h r [] ts = (False, ts)"
| "requeue env h r (peer # peers) ts =
    (if peer = h \<or> pc_peer_is_choking (ts_conn ts peer) then requeue env h r peers ts
     else case r of (p, b, n) \<Rightarrow>
       case send_request (te_send_ok env peer) p b n (ts_conn ts peer) of
         (Inr _, pc) \<Rightarrow> (True, with_conn peer (\<lambda>_. pc) ts)
       | (Inl _, pc) \<Rightarrow> requeue env h r peers (with_conn peer (\<lambda>_. pc) ts))"

definition requeue_request :: "ts_env \<Rightarrow> handle \<Rightarrow> block_request \<Rightarrow> TorrentSession \<Rightarrow> TorrentSession" where
  "requeue_request env h r ts =
    (case r of (p, begin_offset, n) \<Rightarrow>
      case in_progress_piece (ts_pm ts) p of
        None \<Rightarrow> ts
      | Some ip \<Rightarrow>
          let b = begin_offset div BLOCK_SIZE
          in if ip_total_blocks ip \<le> b \<or> ip_received ip ! b then ts
             else let (found, ts) = requeue env h r (available_peers (ts_mg ts) p) ts
                  in if found then ts else on_pieces (ensure_resume_piece_download p) ts)"

definition peer_endpoint :: "ts_env \<Rightarrow> string \<Rightarrow> endpoint option" where
  "peer_endpoint env addr =
    (case decode_address addr of Inl _ \<Rightarrow> None
     | Inr (ip, port) \<Rightarrow> (case te_address env ip of None \<Rightarrow> None | Some b \<Rightarrow> Some (V4 b, port)))"

definition on_disconnect :: "ts_env \<Rightarrow> handle \<Rightarrow> TorrentSession \<Rightarrow> TorrentSession" where
  "on_disconnect env h ts =
    (if ts_shutting_down ts then ts
     else let pc = ts_conn ts h; pid = pc_peer_id pc;
              ts = on_pieces (fold (\<lambda>p pm. if pc_has_piece pc p then shift_availability p (-1) pm else pm) [0..<ss_num_pieces (ts_state ts)]) ts;
              ts = on_pieces (\<lambda>pm. fold (release_piece (drop_peer pid) False pid) (map fst (pm_pieces pm)) pm) ts;
              ts = fold (requeue_request env h) (pc_pending pc) ts;
              ts = (case peer_endpoint env (pc_peer_addr pc) of None \<Rightarrow> ts
                    | Some ep \<Rightarrow> on_peers (remove_active_peer ep \<circ> add_dropped_peer ep) ts)
          in on_peers (poke_choke_loop \<circ> remove_connection pid None) ts)"

subsection \<open>Definitions: connections and the life of a session\<close>

text \<open>\<open>created\<close> tells whether the connection's handshake succeeded.\<close>

definition handle_new_connection :: "ts_env \<Rightarrow> bool \<Rightarrow> string \<Rightarrow> handle \<Rightarrow> FailCache \<times> TorrentSession \<Rightarrow> (FailCache \<times> TorrentSession) option" where
  "handle_new_connection env created addr h s =
    (case s of (fc, ts) \<Rightarrow>
      if \<not> created then
        map_option (\<lambda>(fc, mg). (fc, ts\<lparr> ts_mg := mg \<rparr>)) (report_connection_failure (te_now env) addr (fc, release_half_open (ts_mg ts)))
      else let pid = pc_peer_id (ts_conn ts h) in
        if contains_peer (ts_mg ts) pid \<and> ts_my_peer_id ts < pid then Some (fc, on_peers release_half_open ts)
        else let ts = (if contains_peer (ts_mg ts) pid then on_peers (remove_connection pid (Some h) \<circ> close_peer pid) ts else ts);
                 (added, mg) = add_connection (te_now env) pid h (ts_mg ts);
                 ts = ts\<lparr> ts_mg := mg \<rparr>
             in if \<not> added then Some (fc, ts)
                else let ts = (if connection_count (ts_mg ts) \<le> kUnchokeSlots \<and> pc_am_choking (ts_conn ts h)
                               then with_conn h (send_choke False) ts else ts);
                         ts = (case peer_endpoint env addr of None \<Rightarrow> ts | Some ep \<Rightarrow> on_peers (add_active_peer ep) ts)
                     in Some (fc, on_peers poke_choke_loop ts))"

definition session_resume :: "(string \<Rightarrow> int) \<Rightarrow> TorrentSession \<Rightarrow> ResumeData" where
  "session_resume mtime ts =
    \<lparr> have_bitfield = string_of_bytes (get_have_bitfield_str (ts_state ts)), file_mtimes = async_get_file_mtimes mtime (ts_fm ts),
      total_uploaded = of_nat (ss_bytes_uploaded (ts_state ts)), total_downloaded = of_nat (ss_bytes_downloaded (ts_state ts)),
      in_progress_pieces = get_in_progress_for_resume (ts_pm ts) \<rparr>"

definition save_session_state :: "(string \<Rightarrow> int) \<Rightarrow> unit session" where
  "save_session_state mtime ts =
    (case save_resume_data (resume_serialize (session_resume mtime ts)) (ts_fm ts) of
       (Inl e, fm) \<Rightarrow> (Inl (ReadFailed e), ts\<lparr> ts_fm := fm \<rparr>)
     | (Inr _, fm) \<Rightarrow> (Inr (), ts\<lparr> ts_fm := fm \<rparr>))"

definition ts_reset :: "TorrentSession \<Rightarrow> TorrentSession" where
  "ts_reset ts =
    on_pieces remove_all_in_progress_pieces
      (on_state (\<lambda>ss. (fold (\<lambda>i. set_piece_status i Needed) [0..<ss_num_pieces ss] ss)\<lparr> ss_completed_pieces := 0 \<rparr>) ts)"

text \<open>The order of the stop: the piece manager forgets its pieces, the progress is saved, the connections are
  closed, the storage is cancelled and flushed.  A save that fails or times out is left behind.\<close>

definition ts_stop :: "(string \<Rightarrow> int) \<Rightarrow> TorrentSession \<Rightarrow> TorrentSession" where
  "ts_stop mtime ts =
    (if ts_shutting_down ts then ts
     else let ts = ts\<lparr> ts_shutting_down := True \<rparr>;
              ts = on_peers mg_cancel ts;
              ts = on_pieces pm_signal_shutdown ts;
              ts = (if ts_mode ts \<noteq> Seed then snd (save_session_state mtime ts) else ts);
              ts = on_peers (remove_all_connections \<circ> close_all) ts
          in ts\<lparr> ts_fm := close_file_manager (ts_fm ts) \<rparr>)"

subsection \<open>Definitions: the message loop\<close>

definition handle_message :: "ts_env \<Rightarrow> (handle \<Rightarrow> byte list \<Rightarrow> unit session) \<Rightarrow> handle \<Rightarrow> peer_message \<Rightarrow> unit session" where
  "handle_message env on_extended h m ts =
    (case m of
       KeepAlive \<Rightarrow> (Inr (), ts)
     | MChoke \<Rightarrow> (Inr (), with_conn h free_pipeline (on_choke_status_changed env h True (with_conn h on_choke ts)))
     | MUnchoke \<Rightarrow> (Inr (), on_choke_status_changed env h False (with_conn h (on_unchoke (te_now env)) ts))
     | MInterested \<Rightarrow> (Inr (), on_peers poke_choke_loop (with_conn h (on_interest True) ts))
     | MNotInterested \<Rightarrow> (Inr (), on_peers poke_choke_loop (with_conn h (on_interest False) ts))
     | MHaveAll \<Rightarrow> (Inr (), on_peer_has_all h ts)
     | MHaveNone \<Rightarrow> (Inr (), on_peer_has_none h ts)
     | MBitfield bits \<Rightarrow> (Inr (), on_peer_bitfield env h bits ts)
     | MHave p \<Rightarrow> (Inr (), on_peer_has_piece h p ts)
     | MPiece p b block \<Rightarrow> on_piece_block env h p b block (with_conn h (on_request_completed (to_u32 (length block))) ts)
     | MExtended payload \<Rightarrow> on_extended h payload ts
     | MRequest p b n \<Rightarrow> on_block_request env h p b n ts
     | MReject p b n \<Rightarrow> (Inr (), on_piece_rejected env h p b (with_conn h (on_request_rejected n) ts))
     | MIgnored \<Rightarrow> (Inr (), ts))"

text \<open>A turn of the message loop; an exception ends the loop with the disconnect handler.\<close>

definition message_turn :: "ts_env \<Rightarrow> (handle \<Rightarrow> byte list \<Rightarrow> unit session) \<Rightarrow> handle \<Rightarrow> byte list \<Rightarrow> bool session" where
  "message_turn env on_extended h msg ts =
    (case handle_message env on_extended h (decode_message msg) ts of
       (Inr _, ts) \<Rightarrow> (Inr True, ts)
     | (Inl OutOfBounds, ts) \<Rightarrow> (Inl OutOfBounds, ts)
     | (Inl _, ts) \<Rightarrow> (Inr False, on_disconnect env h ts))"

subsection \<open>What the parts of a session keep\<close>

definition resume_apart :: "SessionState \<Rightarrow> bool" where
  "resume_apart ss \<longleftrightarrow> get_resume_file_path ss \<notin> get_full_path_for_file ss ` set (tfiles ss) \<and>
    get_resume_file_path ss @ ''.tmp'' \<notin> get_full_path_for_file ss ` set (tfiles ss)"

text \<open>The invariant of a session that has its metadata: the storage is consistent, the pieces in progress have their shape, and every
  piece marked as present has the bytes the torrent asks for.  The torrent, the number of pieces and the place on
  disk are those of the state \<open>ref\<close> the session started with.\<close>

definition ts_inv :: "(byte list \<Rightarrow> byte list) \<Rightarrow> SessionState \<Rightarrow> TorrentSession \<Rightarrow> bool" where
  "ts_inv sha1 ref ts \<longleftrightarrow> \<not> ts_metadata_active ts \<and> same_layout ref (ts_state ts) \<and> fm_inv (ts_fm ts) \<and> pieces_ok (ts_state ts) (ts_pm ts) \<and> resume_apart (ts_state ts) \<and>
    length (ss_piece_status (ts_state ts)) = ss_num_pieces (ts_state ts) \<and>
    (\<forall>p < ss_num_pieces (ts_state ts). piece_status (ts_state ts) p = Have \<longrightarrow> piece_valid sha1 (ts_state ts) (content (ts_fm ts)) p)"

lemma ts_inv_cong: "ts_fm ts' = ts_fm ts \<Longrightarrow> ts_pm ts' = ts_pm ts \<Longrightarrow> ts_metadata_active ts' = ts_metadata_active ts \<Longrightarrow> ts_inv sha1 ref ts' = ts_inv sha1 ref ts"
  by (simp add: ts_inv_def)

lemma ts_inv_peers [simp]: "ts_inv sha1 ref (on_peers f ts) = ts_inv sha1 ref ts"
  by (rule ts_inv_cong) (simp_all add: on_peers_def)

lemma ts_inv_frame [simp]:
  "ts_inv sha1 ref (ts\<lparr> ts_last_resume_all := a \<rparr>) = ts_inv sha1 ref ts" "ts_inv sha1 ref (ts\<lparr> ts_completions := b \<rparr>) = ts_inv sha1 ref ts"
  "ts_inv sha1 ref (ts\<lparr> ts_mg := c \<rparr>) = ts_inv sha1 ref ts" "ts_inv sha1 ref (ts\<lparr> ts_shutting_down := d \<rparr>) = ts_inv sha1 ref ts"
  by (rule ts_inv_cong; simp)+

lemma ts_inv_pieces: "ts_inv sha1 ref ts \<Longrightarrow> pieces_ok (ts_state ts) (f (ts_pm ts)) \<Longrightarrow> ts_inv sha1 ref (on_pieces f ts)"
  by (simp add: ts_inv_def on_pieces_def)

lemma ts_inv_state:
  assumes inv: "ts_inv sha1 ref ts" and st: "no_new_have (ts_state ts) (f (ts_state ts))"
  shows "ts_inv sha1 ref (on_state f ts)"
proof -
  let ?ss = "ts_state ts"
  have lay: "same_layout ?ss (f ?ss)"
    using st by (simp add: same_layout_def no_new_have_def)
  note l = layout_frame [OF lay] and u = session_update_same [OF _ lay]
  have meta: "torrent_info (f ?ss) = torrent_info ?ss" "ss_num_pieces (f ?ss) = ss_num_pieces ?ss"
    using st by (simp_all add: no_new_have_def)
  have "piece_valid sha1 (f ?ss) = piece_valid sha1 ?ss"
    by (intro ext) (simp add: piece_valid_def meta l(9))
  moreover have "get_resume_file_path (f ?ss) = get_resume_file_path ?ss"
    using st by (simp add: get_resume_file_path_def no_new_have_def Let_def)
  ultimately show ?thesis
    using inv st u no_new_have_layout [OF st] pieces_ok_layout [of "f ?ss" ?ss]
    by (auto simp: ts_inv_def on_state_def resume_apart_def l meta no_new_have_def same_layout_def)
qed

lemma ts_inv_bytes: "ts_inv sha1 ref ts \<Longrightarrow> same_bytes (ts_fm ts) fm \<Longrightarrow> ts_inv sha1 ref (ts\<lparr> ts_fm := fm \<rparr>)"
  by (simp add: ts_inv_def same_bytes_def)

lemma no_new_have_counters:
  "no_new_have ss (add_total_bytes_downloaded n ss)" "no_new_have ss (add_total_bytes_uploaded n ss)"
  "no_new_have ss (add_completed_pieces n ss)" "no_new_have ss (ss\<lparr> ss_download_complete := b \<rparr>)"
  by (simp_all add: no_new_have_def add_total_bytes_downloaded_def add_total_bytes_uploaded_def add_completed_pieces_def piece_status_def)

lemma ts_simps [simp]:
  "ts_fm (on_pieces f ts) = ts_fm ts" "ts_pm (on_pieces f ts) = f (ts_pm ts)" "ts_fm (on_peers g ts) = ts_fm ts" "ts_pm (on_peers g ts) = ts_pm ts"
  "ts_pm (on_state k ts) = ts_pm ts" "ts_state (on_state k ts) = k (ts_state ts)" "ts_mg (on_pieces f ts) = ts_mg ts" "ts_mg (on_state k ts) = ts_mg ts"
  "ts_mg (on_peers g ts) = g (ts_mg ts)" "ts_shutting_down (on_state k ts) = ts_shutting_down ts" "ts_shutting_down (on_peers g ts) = ts_shutting_down ts"
  "ts_shutting_down (on_pieces f ts) = ts_shutting_down ts" "ts_metadata_active (on_state k ts) = ts_metadata_active ts"
  "ts_metadata_active (on_peers g ts) = ts_metadata_active ts" "ts_metadata_active (on_pieces f ts) = ts_metadata_active ts"
  "ts_mode (on_state k ts) = ts_mode ts" "ts_mode (on_peers g ts) = ts_mode ts" "ts_mode (on_pieces f ts) = ts_mode ts"
  by (simp_all add: on_pieces_def on_peers_def on_state_def)

subsection \<open>Blocks and pieces\<close>

lemma count_received: "b < length xs \<Longrightarrow> \<not> xs ! b \<Longrightarrow> length (filter id (xs[b := True])) = Suc (length (filter id xs))"
proof (induction xs arbitrary: b)
  case (Cons x xs)
  then show ?case
    by (cases b) auto
qed simp

lemma store_block_ok:
  assumes "ip_ok n ip" "begin_offset div BLOCK_SIZE < length (ip_received ip)" "\<not> ip_received ip ! (begin_offset div BLOCK_SIZE)"
    and "begin_offset + length block \<le> length (ip_data ip)"
  shows "ip_ok n (store_block now begin_offset block ip)"
  using assms count_received [OF assms(2,3)] by (simp add: ip_ok_def store_block_def Let_def)

lemma pieces_ok_set: "pieces_ok ss pm \<Longrightarrow> in_progress_piece pm p = Some ip \<Longrightarrow> ip_ok (plen ss p) ip' \<Longrightarrow> pieces_ok ss (update_piece p (\<lambda>_. ip') pm)"
  by (auto simp: pieces_ok_def update_piece_def in_progress_piece_def map_simps)

lemma slice_patch_other:
  assumes "a + n \<le> g \<or> g + length d \<le> a"
  shows "take n (drop a (patch g d 0 xs)) = take n (drop a xs)"
  using assms by (intro nth_equalityI) auto

lemma slice_patch_self:
  assumes "g + length d \<le> length xs"
  shows "take (length d) (drop g (patch g d 0 xs)) = d"
  using assms by (intro nth_equalityI) auto

lemma piece_ranges:
  assumes "wf_torrent ss" "p < ss_num_pieces ss" "q < ss_num_pieces ss" "p \<noteq> q"
  shows "q * psize ss + plen ss q \<le> p * psize ss \<or> p * psize ss + plen ss p \<le> q * psize ss"
proof -
  have "Suc q * psize ss \<le> p * psize ss \<or> Suc p * psize ss \<le> q * psize ss"
    using assms(4) by (metis Suc_leI linorder_neqE_nat mult_le_mono1)
  then show ?thesis
    using plen_bounds(2) [OF assms(1,2)] plen_bounds(2) [OF assms(1,3)] by auto
qed

lemma write_piece_valid:
  assumes inv: "fm_inv fm" and p: "p < ss_num_pieces (fm_session fm)" and len: "length data = plen (fm_session fm) p"
  shows "fm_inv (write_piece p data fm)" "fm_session (write_piece p data fm) = fm_session fm"
    "piece_valid sha1 (fm_session fm) (content (write_piece p data fm)) p \<longleftrightarrow> sha1 data = take 20 (drop (p * 20) (ti_pieces (torrent_info (fm_session fm))))"
    "take (plen (fm_session fm) p) (drop (p * psize (fm_session fm)) (content (write_piece p data fm))) = data"
    "q < ss_num_pieces (fm_session fm) \<Longrightarrow> q \<noteq> p \<Longrightarrow>
      take (plen (fm_session fm) q) (drop (q * psize (fm_session fm)) (content (write_piece p data fm))) =
      take (plen (fm_session fm) q) (drop (q * psize (fm_session fm)) (content fm))"
proof -
  let ?ss = "fm_session fm"
  note r = fm_ready_D [OF fm_inv_D(1) [OF inv]]
  have w: "fm_inv (write_piece p data fm)" "fm_session (write_piece p data fm) = ?ss"
    "content (write_piece p data fm) = patch (p * psize ?ss) data 0 (content fm)"
    using write_piece_content [OF inv p len] by (simp_all add: wrote_def)
  then show "fm_inv (write_piece p data fm)" "fm_session (write_piece p data fm) = ?ss"
    by simp_all
  have "length (content fm) = tsize ?ss"
    using length_stored [OF r(1,2)] by (simp add: content_def)
  then have "p * psize ?ss + length data \<le> length (content fm)"
    using plen_bounds(3) [OF r(1) p] by (simp add: len)
  then show slice: "take (plen ?ss p) (drop (p * psize ?ss) (content (write_piece p data fm))) = data"
    using slice_patch_self by (simp add: w(3) len [symmetric])
  then show "piece_valid sha1 ?ss (content (write_piece p data fm)) p \<longleftrightarrow> sha1 data = take 20 (drop (p * 20) (ti_pieces (torrent_info ?ss)))"
    by (simp add: piece_valid_def)
  assume q: "q < ss_num_pieces ?ss" "q \<noteq> p"
  then show "take (plen ?ss q) (drop (q * psize ?ss) (content (write_piece p data fm))) = take (plen ?ss q) (drop (q * psize ?ss) (content fm))"
    unfolding w(3) using piece_ranges [OF r(1) p q(1)] by (intro slice_patch_other) (auto simp: len)
qed

lemma shapely_clear: "shapely (\<lambda>ip. ip\<lparr> ip_outstanding := (ip_outstanding ip)[b := []], ip_request_times := (ip_request_times ip)[b := 0] \<rparr>)"
  by (rule shapelyI) simp

lemma fold_peers:
  assumes "\<And>x ts. \<exists>g. f x ts = on_peers g ts"
  shows "\<exists>g. fold f xs ts = on_peers g ts"
proof (induction xs arbitrary: ts)
  case Nil
  have "ts = on_peers id ts"
    by (simp add: on_peers_def)
  then show ?case
    by auto
next
  case (Cons x xs)
  obtain g where g: "f x ts = on_peers g ts"
    using assms by blast
  obtain g' where "fold f xs (on_peers g ts) = on_peers g' (on_peers g ts)"
    using Cons.IH by blast
  moreover have "on_peers g' (on_peers g ts) = on_peers (g' \<circ> g) ts"
    by (simp add: on_peers_def)
  ultimately show ?case
    using g by auto
qed

lemma cancels_peers:
  "\<exists>g. fold (\<lambda>pid ts. case get_connection (ts_mg ts) pid of None \<Rightarrow> ts | Some h \<Rightarrow> with_conn h (k h) ts) pids ts = on_peers g ts"
proof (rule fold_peers)
  fix pid and ts :: TorrentSession
  show "\<exists>g. (case get_connection (ts_mg ts) pid of None \<Rightarrow> ts | Some h \<Rightarrow> with_conn h (k h) ts) = on_peers g ts"
  proof (cases "get_connection (ts_mg ts) pid")
    case None
    moreover have "ts = on_peers id ts"
      by (simp add: on_peers_def)
    ultimately show ?thesis
      by auto
  qed auto
qed

text \<open>Cancelling a block changes connections and clears the block's requests.\<close>

lemma send_cancel_effect:
  "\<exists>g. send_cancel_for_block p b x ts = on_peers g ts \<or> send_cancel_for_block p b x ts = on_peers g (on_pieces (clear_block p b) ts)"
proof -
  have id: "ts = on_peers id ts"
    by (simp add: on_peers_def)
  show ?thesis
  proof (cases "\<exists>ip. in_progress_piece (ts_pm ts) p = Some ip \<and> b < length (ip_outstanding ip)")
    case True
    then obtain ip where ip: "in_progress_piece (ts_pm ts) p = Some ip" "b < length (ip_outstanding ip)"
      by blast
    let ?k = "send_cancel p (to_u32 (b * BLOCK_SIZE)) (cancel_length (ts_state (on_pieces (clear_block p b) ts)) p b)"
    obtain g where "fold (\<lambda>pid ts. case get_connection (ts_mg ts) pid of None \<Rightarrow> ts | Some h \<Rightarrow> with_conn h ?k ts)
        (filter (\<lambda>pid. pid \<noteq> x) (ip_outstanding ip ! b)) (on_pieces (clear_block p b) ts) = on_peers g (on_pieces (clear_block p b) ts)"
      using cancels_peers [where k = "\<lambda>h. ?k"] by blast
    then show ?thesis
      using ip by (auto simp: send_cancel_for_block_def clear_block_def [symmetric] Let_def)
  next
    case False
    then have "send_cancel_for_block p b x ts = ts"
      by (auto simp: send_cancel_for_block_def split: option.split)
    then show ?thesis
      using id by auto
  qed
qed

lemma ts_inv_cancel: "ts_inv sha1 ref ts \<Longrightarrow> ts_inv sha1 ref (send_cancel_for_block p b x ts)"
proof -
  assume inv: "ts_inv sha1 ref ts"
  then have "ts_inv sha1 ref (on_pieces (clear_block p b) ts)"
    by (intro ts_inv_pieces) (simp_all add: ts_inv_def pieces_ok_clear)
  then show ?thesis
    using send_cancel_effect [of p b x ts] inv by auto
qed

lemma ts_inv_finish: "ts_inv sha1 ref ts \<Longrightarrow> ts_inv sha1 ref (finish_download ts)"
proof -
  assume "ts_inv sha1 ref ts"
  then have "ts_inv sha1 ref (on_state (\<lambda>ss. ss\<lparr> ss_download_complete := True \<rparr>) ts)"
    by (intro ts_inv_state) (simp_all add: no_new_have_counters)
  moreover from this have "same_bytes (ts_fm (on_state (\<lambda>ss. ss\<lparr> ss_download_complete := True \<rparr>) ts))
      (flush_all_dirty (ts_fm (on_state (\<lambda>ss. ss\<lparr> ss_download_complete := True \<rparr>) ts)))"
    by (intro flush_content) (simp add: ts_inv_def)
  ultimately show ?thesis
    by (simp add: finish_download_def Let_def ts_inv_bytes)
qed

lemma ts_inv_return:
  assumes inv: "ts_inv sha1 ref ts" and p: "p < ss_num_pieces (ts_state ts)" and rt: "return_piece_to_queue p (ts_state ts, ts_pm ts) = (ss, pm)"
  shows "ts_inv sha1 ref ((on_state (\<lambda>_. ss) ts)\<lparr> ts_pm := pm \<rparr>)"
proof -
  have ss: "ss = set_piece_status p Needed (ts_state ts)"
    and pm: "pm = update_piece_rarity p IN_PROGRESS_RARITY_GROUP_ID (to_u32 (piece_availability (remove_in_progress_piece p (ts_pm ts)) p)) (remove_in_progress_piece p (ts_pm ts))"
    using rt by (auto simp: return_piece_to_queue_def Let_def)
  have st: "no_new_have (ts_state ts) ss"
    by (simp add: ss no_new_have_status)
  have "pieces_ok (ts_state ts) pm"
    using inv p by (simp add: pm ts_inv_def pieces_ok_rarity pieces_ok_remove)
  then have "pieces_ok ss pm"
    using no_new_have_layout [OF st] pieces_ok_layout [of ss "ts_state ts"] by simp
  moreover have "ts_inv sha1 ref (on_state (\<lambda>_. ss) ts)"
    by (rule ts_inv_state [OF inv]) (rule st)
  ultimately show ?thesis
    by (simp add: ts_inv_def)
qed

text \<open>A verified piece is stored and marked.\<close>

lemma ts_inv_store:
  assumes inv: "ts_inv sha1 ref ts" and p: "p < ss_num_pieces (ts_state ts)" and len: "length data = plen (ts_state ts) p"
    and hash: "sha1 data = expected_hash (ts_state ts) p"
  shows "ts_inv sha1 ref (on_state (add_completed_pieces 1 \<circ> set_piece_status p Have) (ts\<lparr> ts_fm := write_piece p data (ts_fm ts) \<rparr>))"
proof -
  let ?ss = "ts_state ts" and ?fm = "write_piece p data (ts_fm ts)"
  define ss' where "ss' = add_completed_pieces 1 (set_piece_status p Have ?ss)"
  note w = write_piece_valid [of "ts_fm ts" p data, OF _ p len]
  have fm: "fm_inv (ts_fm ts)" and len_st: "length (ss_piece_status ?ss) = ss_num_pieces ?ss" "\<not> ts_metadata_active ts"
    and val: "\<forall>q < ss_num_pieces ?ss. piece_status ?ss q = Have \<longrightarrow> piece_valid sha1 ?ss (content (ts_fm ts)) q"
    using inv by (simp_all add: ts_inv_def)
  have lay: "same_layout ?ss ss'"
    by (simp add: ss'_def same_layout_def add_completed_pieces_def set_piece_status_def)
  then have "same_layout ref ss'"
    using inv by (simp add: ts_inv_def same_layout_def)
  note l = layout_frame [OF lay] and ref = this and u = session_update_same [OF w(1) [OF fm], unfolded w(2) [OF fm], OF lay]
  have eqs: "torrent_info ss' = torrent_info ?ss" "ss_num_pieces ss' = ss_num_pieces ?ss" "get_resume_file_path ss' = get_resume_file_path ?ss"
    "ss_piece_status ss' = (ss_piece_status ?ss)[p := Have]"
    by (simp_all add: ss'_def add_completed_pieces_def set_piece_status_def get_resume_file_path_def Let_def)
  have pv: "piece_valid sha1 ss' = piece_valid sha1 ?ss"
    by (intro ext) (simp add: piece_valid_def eqs(1) l(9))
  have "piece_valid sha1 ?ss (content ?fm) q" if "q < ss_num_pieces ?ss" "piece_status ss' q = Have" for q
  proof (cases "q = p")
    case True
    then show ?thesis
      using w(3) [OF fm] hash by (simp add: expected_hash_def)
  next
    case False
    then have "piece_valid sha1 ?ss (content (ts_fm ts)) q"
      using that val by (simp add: piece_status_def eqs(4))
    then show ?thesis
      using w(5) [OF fm that(1) False] by (simp add: piece_valid_def)
  qed
  moreover have "pieces_ok ss' (ts_pm ts)"
    using inv pieces_ok_layout [of ss' ?ss] by (simp add: ts_inv_def eqs(2) l(9))
  moreover have "resume_apart ss'"
    using inv by (simp add: ts_inv_def resume_apart_def eqs l(1))
  ultimately show ?thesis
    using len_st u ref by (simp add: ts_inv_def on_state_def w(2) [OF fm] ss'_def [symmetric] eqs pv del: One_nat_def)
qed

lemma ts_inv_complete:
  assumes inv: "ts_inv (te_sha1 env) ref ts" and p: "p < ss_num_pieces (ts_state ts)" and len: "length data = plen (ts_state ts) p"
  shows "ts_inv (te_sha1 env) ref (complete_piece env h p data ts)"
proof (cases "te_sha1 env data = expected_hash (ts_state ts) p")
  case False
  define ts1 where "ts1 = on_peers (report_corrupt_piece (te_now env) (pc_peer_addr (ts_conn ts h))) ts"
  obtain ss pm where rt: "return_piece_to_queue p (ts_state ts1, ts_pm ts1) = (ss, pm)"
    by fastforce
  have "ts_inv (te_sha1 env) ref ts1" "p < ss_num_pieces (ts_state ts1)"
    using inv p by (simp_all add: ts1_def)
  then show ?thesis
    using ts_inv_return [OF _ _ rt] False by (simp add: complete_piece_def Let_def ts1_def [symmetric] rt)
next
  case True
  define ts1 where "ts1 = on_state (add_completed_pieces 1 \<circ> set_piece_status p Have) (ts\<lparr> ts_fm := write_piece p data (ts_fm ts) \<rparr>)"
  define ts2 where "ts2 = on_pieces (remove_in_progress_piece p) (on_peers (send_have_message_to_all p) ts1)"
  have "ts_inv (te_sha1 env) ref ts1"
    unfolding ts1_def by (rule ts_inv_store [OF inv p len True])
  then have "ts_inv (te_sha1 env) ref ts2"
    unfolding ts2_def by (intro ts_inv_pieces) (simp_all add: ts_inv_def pieces_ok_remove)
  then show ?thesis
    using True unfolding complete_piece_def Let_def ts1_def [symmetric] ts2_def [symmetric] by (simp add: ts_inv_finish)
qed

lemma ts_inv_ensure: "ts_inv sha1 ref ts \<Longrightarrow> ts_inv sha1 ref (on_pieces (ensure_resume_piece_download p) ts)"
  by (rule ts_inv_pieces) (simp_all add: ts_inv_def pieces_ok_ensure)

lemma accept_block_state: "ts_state (accept_block h p b len ip ts) = add_total_bytes_downloaded len (ts_state ts)"
proof -
  have "ts_fm (send_cancel_for_block p b x ts') = ts_fm ts'" for x ts'
    using send_cancel_effect [of p b x ts'] by auto
  then show ?thesis
    by (simp add: accept_block_def Let_def)
qed

lemma accept_block_inv:
  assumes "ts_inv sha1 ref ts" "in_progress_piece (ts_pm ts) p = Some ip" "ip_ok (plen (ts_state ts) p) ip'"
  shows "ts_inv sha1 ref (accept_block h p b len ip' ts)"
proof -
  have "ts_inv sha1 ref (on_pieces (update_piece p (\<lambda>_. ip')) ts)"
    using assms(1) pieces_ok_set [OF _ assms(2,3)] by (intro ts_inv_pieces) (simp_all add: ts_inv_def)
  then show ?thesis
    unfolding accept_block_def Let_def
    by (intro ts_inv_ensure) (simp add: ts_inv_state no_new_have_counters ts_inv_cancel)
qed

lemma ts_inv_piece_block:
  assumes inv: "ts_inv (te_sha1 env) ref ts"
  shows "ts_inv (te_sha1 env) ref (snd (on_piece_block env h p begin_offset block ts))"
proof -
  define ts0 where "ts0 = with_conn h (\<lambda>pc. pc\<lparr> pc_last_data_received := te_now env \<rparr>) ts"
  have inv0: "ts_inv (te_sha1 env) ref ts0"
    using inv by (simp add: ts0_def)
  let ?b = "begin_offset div BLOCK_SIZE"
  consider (out) "snd (on_piece_block env h p begin_offset block ts) = ts0"
    | (cancel) "snd (on_piece_block env h p begin_offset block ts) = with_conn h (send_cancel p begin_offset (to_u32 (length block))) ts0"
    | (store) ip where "in_progress_piece (ts_pm ts0) p = Some ip" "?b < length (ip_received ip)" "\<not> ip_received ip ! ?b"
        "begin_offset + length block \<le> length (ip_data ip)" "p < length (ss_piece_status (ts_state ts0))" "piece_status (ts_state ts0) p \<noteq> Have"
  proof (cases "p < length (ss_piece_status (ts_state ts0)) \<and> piece_status (ts_state ts0) p \<noteq> Have")
    case False
    then show ?thesis
      using out cancel unfolding on_piece_block_def Let_def ts0_def [symmetric]
      by (cases "length (ss_piece_status (ts_state ts0)) \<le> p") simp_all
  next
    case True
    show ?thesis
    proof (cases "in_progress_piece (ts_pm ts0) p")
      case None
      then show ?thesis
        using True cancel unfolding on_piece_block_def Let_def ts0_def [symmetric] by simp
    next
      case (Some ip)
      show ?thesis
      proof (cases "?b < length (ip_received ip) \<and> \<not> ip_received ip ! ?b \<and> begin_offset + length block \<le> length (ip_data ip)")
        case True
        then show ?thesis
          using store [OF Some] \<open>p < length _ \<and> _\<close> by blast
      next
        case False
        then show ?thesis
          using True Some out unfolding on_piece_block_def Let_def ts0_def [symmetric]
          by (cases "length (ip_received ip) \<le> ?b \<or> ip_received ip ! ?b") simp_all
      qed
    qed
  qed
  then show ?thesis
  proof cases
    case (store ip)
    define ip' where "ip' = store_block (te_now env) begin_offset block ip"
    define ts3 where "ts3 = accept_block h p ?b (length block) ip' ts0"
    have ok: "p < ss_num_pieces (ts_state ts0)" "ip_ok (plen (ts_state ts0) p) ip"
      using inv0 store(1) by (auto simp: ts_inv_def pieces_ok_def)
    have ok': "ip_ok (plen (ts_state ts0) p) ip'"
      unfolding ip'_def by (rule store_block_ok [OF ok(2) store(2-4)])
    have inv3: "ts_inv (te_sha1 env) ref ts3" and st3: "ss_num_pieces (ts_state ts3) = ss_num_pieces (ts_state ts0)" "plen (ts_state ts3) = plen (ts_state ts0)"
      unfolding ts3_def using accept_block_inv [OF inv0 store(1) ok'] accept_block_state by (auto simp: plen_def fun_eq_iff add_total_bytes_downloaded_def)
    have "on_piece_block env h p begin_offset block ts =
      (Inr (), if ip_received_count ip' = ip_total_blocks ip' then complete_piece env h p (ip_data ip') ts3 else ts3)"
      using store unfolding on_piece_block_def Let_def ts0_def [symmetric]
      by (simp add: ip'_def [symmetric] ts3_def [symmetric])
    then show ?thesis
      using inv3 ts_inv_complete [OF inv3, of p "ip_data ip'"] ok(1) ok' st3 by (simp add: ip_ok_def)
  qed (use inv0 in simp_all)
qed

lemma ts_inv_request:
  assumes inv: "ts_inv sha1 ref ts" and rd: "readable (ts_state ts) (set (fm_dirty (ts_fm ts))) (p, b) len"
  shows "ts_inv sha1 ref (snd (on_block_request env h p b len ts))"
proof -
  have fm: "fm_inv (ts_fm ts)"
    using inv by (simp add: ts_inv_def)
  obtain r fm' where rb: "read_block p b len (ts_fm ts) = (r, fm')"
    by fastforce
  then have "same_bytes (ts_fm ts) fm'"
    using read_block_content [OF fm rd] by simp
  then have "ts_inv sha1 ref (ts\<lparr> ts_fm := fm' \<rparr>)"
    by (rule ts_inv_bytes [OF inv])
  moreover have "(on_peers g ts)\<lparr> ts_fm := fm' \<rparr> = on_peers g (ts\<lparr> ts_fm := fm' \<rparr>)" for g
    by (simp add: on_peers_def)
  ultimately show ?thesis
    using inv by (cases r) (simp_all add: on_block_request_def Let_def rb ts_inv_state no_new_have_counters)
qed

lemma ts_inv_rejected: "ts_inv sha1 ref ts \<Longrightarrow> ts_inv sha1 ref (on_piece_rejected env h p b ts)"
proof -
  assume inv: "ts_inv sha1 ref ts"
  let ?b = "b div BLOCK_SIZE" and ?pid = "pc_peer_id (ts_conn ts h)"
  define f :: "InProgressPiece \<Rightarrow> InProgressPiece" where "f = (\<lambda>ip. let outstanding = removeAll ?pid (ip_outstanding ip ! ?b)
      in ip\<lparr> ip_outstanding := (ip_outstanding ip)[?b := outstanding],
        ip_request_times := (if outstanding = [] then (ip_request_times ip)[?b := 0] else ip_request_times ip) \<rparr>)"
  define g :: "InProgressPiece \<Rightarrow> InProgressPiece" where "g = (\<lambda>ip. if ip_primary ip = Some ?pid then ip\<lparr> ip_primary := None \<rparr> else ip)"
  have "shapely f" "shapely g"
    by (rule shapelyI; simp add: f_def g_def Let_def)+
  then have "pieces_ok (ts_state ts) (update_piece p g (record_block_rejection (te_now env) p ?b ?pid (update_piece p f (ts_pm ts))))"
    using inv by (simp add: pieces_ok_update pieces_ok_rejection ts_inv_def)
  then have "ts_inv sha1 ref (on_pieces (update_piece p g) (on_pieces (record_block_rejection (te_now env) p ?b ?pid) (on_pieces (update_piece p f) ts)))"
    using ts_inv_pieces [OF inv, of "update_piece p g \<circ> record_block_rejection (te_now env) p ?b ?pid \<circ> update_piece p f"]
    by (simp add: on_pieces_def)
  then show ?thesis
    using inv unfolding on_piece_rejected_def Let_def f_def [unfolded Let_def, symmetric] g_def [symmetric]
    by (simp add: ts_inv_ensure split: option.split)
qed

lemma pieces_ok_shift: "pieces_ok ss pm \<Longrightarrow> p < ss_num_pieces ss \<Longrightarrow> pieces_ok ss (shift_availability p d pm)"
  by (simp add: shift_availability_def Let_def pieces_ok_rarity pieces_ok_availability)

lemma pieces_ok_count: "pieces_ok ss pm \<Longrightarrow> p < ss_num_pieces ss \<Longrightarrow> pieces_ok ss (count_peer_piece ss p pm)"
  by (simp add: count_peer_piece_def pieces_ok_shift pieces_ok_availability)

lemma ts_inv_have: "ts_inv sha1 ref ts \<Longrightarrow> ts_inv sha1 ref (on_peer_has_piece h p ts)"
proof -
  assume inv: "ts_inv sha1 ref ts"
  then have "ts_inv sha1 ref (on_pieces (count_peer_piece (ts_state ts) p) (on_peers g ts))" if "p < ss_num_pieces (ts_state ts)" for g
    using that by (intro ts_inv_pieces) (simp_all add: ts_inv_def pieces_ok_count)
  moreover have "on_peers g (on_peers k ts) = on_peers (g \<circ> k) ts" for g k
    by (simp add: on_peers_def)
  ultimately show ?thesis
    using inv by (simp add: on_peer_has_piece_def Let_def become_interested_def)
qed

lemma ts_inv_inventory:
  "ts_inv sha1 ref ts \<Longrightarrow> \<forall>p \<in> set ps. p < ss_num_pieces (ts_state ts) \<Longrightarrow> ts_inv sha1 ref (inventory_done h ps ts)"
proof -
  assume a: "ts_inv sha1 ref ts" "\<forall>p \<in> set ps. p < ss_num_pieces (ts_state ts)"
  then have "pieces_ok (ts_state ts) (fold (count_peer_piece (ts_state ts)) ps (ts_pm ts))"
    by (intro pieces_ok_fold) (simp_all add: pieces_ok_count ts_inv_def)
  then have "ts_inv sha1 ref (on_pieces (fold (count_peer_piece (ts_state ts)) ps) ts)"
    by (intro ts_inv_pieces [OF a(1)])
  then show ?thesis
    by (simp add: inventory_done_def Let_def become_interested_def)
qed

lemma ts_inv_has_all: "ts_inv sha1 ref ts \<Longrightarrow> ts_inv sha1 ref (on_peer_has_all h ts)"
  by (simp add: on_peer_has_all_def Let_def ts_inv_inventory)

lemma ts_inv_bitfield: "ts_inv sha1 ref ts \<Longrightarrow> ts_inv sha1 ref (on_peer_bitfield env h bits ts)"
  by (simp add: on_peer_bitfield_def Let_def ts_inv_inventory)

lemma length_fold_update: "length (fold (\<lambda>b xs. if P b then xs[b := x] else xs) bs xs) = length xs"
  by (induction bs arbitrary: xs) auto

lemma shapely_forget: "shapely (forget_peer pid)" "shapely (drop_peer pid)"
  by (rule shapelyI; simp add: forget_peer_def drop_peer_def length_fold_update)+

lemma pieces_ok_release: "shapely f \<Longrightarrow> pieces_ok ss pm \<Longrightarrow> pieces_ok ss (release_piece f a pid p pm)"
  by (simp add: release_piece_def Let_def pieces_ok_update pieces_ok_ensure split: option.split)

lemma ts_inv_choke: "ts_inv sha1 ref ts \<Longrightarrow> ts_inv sha1 ref (on_choke_status_changed env h c ts)"
proof -
  assume inv: "ts_inv sha1 ref ts"
  have res: "ts_inv sha1 ref (on_pieces resume_all_in_progress ts')" if "ts_inv sha1 ref ts'" for ts'
    using that by (intro ts_inv_pieces) (simp_all add: ts_inv_def pieces_ok_resume_all)
  have rel: "ts_inv sha1 ref (on_pieces (\<lambda>pm. fold (release_piece (forget_peer pid) q pid) (map fst (pm_pieces pm)) pm) ts)" for pid q
    using inv by (intro ts_inv_pieces) (auto simp: ts_inv_def shapely_forget pieces_ok_release intro: pieces_ok_fold)
  show ?thesis
    using inv rel by (simp add: on_choke_status_changed_def Let_def become_interested_def res)
qed

lemma requeue_peers: "\<exists>g. snd (requeue env h r peers ts) = on_peers g ts"
proof (induction env h r peers ts rule: requeue.induct)
  case (1 env h r ts)
  have "ts = on_peers id ts"
    by (simp add: on_peers_def)
  then show ?case
    by auto
next
  case (2 env h r peer peers ts)
  obtain p b n where r: "r = (p, b, n)"
    by (cases r)
  obtain res pc where sr: "send_request (te_send_ok env peer) p b n (ts_conn ts peer) = (res, pc)"
    by fastforce
  have comp: "on_peers g (on_peers k ts) = on_peers (g \<circ> k) ts" for g k
    by (simp add: on_peers_def)
  show ?case
  proof (cases "peer = h \<or> pc_peer_is_choking (ts_conn ts peer)")
    case True
    then show ?thesis
      using 2(1) by (simp add: r)
  next
    case False
    show ?thesis
    proof (cases res)
      case (Inl e)
      then obtain g where "snd (requeue env h r peers (with_conn peer (\<lambda>_. pc) ts)) = on_peers g (with_conn peer (\<lambda>_. pc) ts)"
        using 2(2) [OF False r [symmetric] refl sr [symmetric] Inl] by blast
      then show ?thesis
        using False Inl by (auto simp: r sr comp)
    qed (use False in \<open>auto simp: r sr\<close>)
  qed
qed

lemma ts_inv_requeue: "ts_inv sha1 ref ts \<Longrightarrow> ts_inv sha1 ref (requeue_request env h r ts)"
proof -
  assume inv: "ts_inv sha1 ref ts"
  have "ts_inv sha1 ref (snd (requeue env h r peers ts))" for peers
    using requeue_peers [of env h r peers ts] inv by auto
  then show ?thesis
    using inv by (auto simp: requeue_request_def Let_def case_prod_beta ts_inv_ensure split: option.split)
qed

lemma ts_inv_disconnect: "ts_inv sha1 ref ts \<Longrightarrow> ts_inv sha1 ref (on_disconnect env h ts)"
proof -
  assume inv: "ts_inv sha1 ref ts"
  let ?pc = "ts_conn ts h"
  define ts1 where "ts1 = on_pieces (fold (\<lambda>p pm. if pc_has_piece ?pc p then shift_availability p (-1) pm else pm) [0..<ss_num_pieces (ts_state ts)]) ts"
  define ts2 where "ts2 = on_pieces (\<lambda>pm. fold (release_piece (drop_peer (pc_peer_id ?pc)) False (pc_peer_id ?pc)) (map fst (pm_pieces pm)) pm) ts1"
  define ts3 where "ts3 = fold (requeue_request env h) (pc_pending ?pc) ts2"
  have "ts_inv sha1 ref ts1"
    unfolding ts1_def using inv by (intro ts_inv_pieces) (auto simp: ts_inv_def pieces_ok_shift intro!: pieces_ok_fold)
  then have "ts_inv sha1 ref ts2"
    unfolding ts2_def by (intro ts_inv_pieces) (auto simp: ts_inv_def shapely_forget pieces_ok_release intro: pieces_ok_fold)
  moreover have "ts_inv sha1 ref (fold (requeue_request env h) rs ts')" if "ts_inv sha1 ref ts'" for rs ts'
    using that by (induction rs arbitrary: ts') (auto simp: ts_inv_requeue)
  ultimately have "ts_inv sha1 ref ts3"
    by (simp add: ts3_def)
  then show ?thesis
    using inv unfolding on_disconnect_def Let_def ts1_def [symmetric] ts2_def [symmetric] ts3_def [symmetric]
    by (simp split: option.split)
qed

text \<open>Every message whose request, if it is one, asks for bytes of a block keeps the invariant.\<close>

lemma ts_inv_message:
  assumes inv: "ts_inv (te_sha1 env) ref ts" and ext: "\<And>payload. ts_inv (te_sha1 env) ref (snd (on_extended h payload ts))"
    and req: "\<And>p b n. m = MRequest p b n \<Longrightarrow> readable (ts_state ts) (set (fm_dirty (ts_fm ts))) (p, b) n"
  shows "ts_inv (te_sha1 env) ref (snd (handle_message env on_extended h m ts))"
  using inv ext req
  by (cases m) (auto simp: handle_message_def ts_inv_choke ts_inv_has_all on_peer_has_none_def ts_inv_bitfield ts_inv_have ts_inv_piece_block
      ts_inv_request ts_inv_rejected)

lemma ts_inv_turn:
  assumes inv: "ts_inv (te_sha1 env) ref ts" and ext: "\<And>payload. ts_inv (te_sha1 env) ref (snd (on_extended h payload ts))"
    and req: "\<And>p b n. decode_message msg = MRequest p b n \<Longrightarrow> readable (ts_state ts) (set (fm_dirty (ts_fm ts))) (p, b) n"
  shows "ts_inv (te_sha1 env) ref (snd (message_turn env on_extended h msg ts))"
  using ts_inv_message [of env ref ts on_extended h "decode_message msg", OF inv ext req]
  by (auto simp: message_turn_def ts_inv_disconnect split: prod.splits sum.splits ts_error.splits)

end
