(* ===== verification/Startup.thy ===== *)
theory Startup
  imports Session
begin

text \<open>
  The start of a session (the constructor, \<^verbatim>\<open>init\<close> and \<^verbatim>\<open>load_session_state\<close> of \<^verbatim>\<open>src/src/TorrentSession.cpp\<close>): the
  files are prepared or verified, a resume file is read back and checked against the disk.

  The answers to the prompts of the file manager, whether the data to seed is where it should be and the buffers
  that can be allocated are the environment \<open>meta_env\<close>.

  Lemmas: whatever the resume file says, after a start that succeeds every piece marked as present has the bytes
  the torrent asks for.
\<close>

subsection \<open>Definitions\<close>

record meta_env =
  me_alloc_ok :: "nat \<Rightarrow> bool"
  me_auto_approve :: bool
  me_reply :: "nat \<Rightarrow> int option"
  me_seed_path_ok :: bool

text \<open>A session over a torrent file, before it runs.\<close>

definition new_torrent_session :: "PeerId \<Rightarrow> u16 \<Rightarrow> Mode \<Rightarrow> SessionState \<Rightarrow> disk \<Rightarrow> TorrentSession option" where
  "new_torrent_session my_peer_id peer_port mode ss d =
    (case new_file_manager ss d of
       None \<Rightarrow> None
     | Some fm \<Rightarrow> Some \<lparr> ts_fm = fm, ts_pm = new_piece_manager ss, ts_mg = new_peer_manager, ts_mode = mode, ts_my_peer_id = my_peer_id,
         ts_peer_port = peer_port, ts_last_resume_all = 0, ts_metadata_active = False, ts_metadata_init = False, ts_metadata_buffer = [],
         ts_metadata_received = 0, ts_completions = 0, ts_shutting_down = False \<rparr>)"

definition mark_all_have :: "SessionState \<Rightarrow> SessionState" where
  "mark_all_have ss =
    (fold (\<lambda>i. set_piece_status i Have) [0..<ss_num_pieces ss] ss)\<lparr> ss_completed_pieces := ss_num_pieces ss, ss_download_complete := True \<rparr>"

definition rebuild_rarity :: "TorrentSession \<Rightarrow> TorrentSession" where
  "rebuild_rarity ts = on_pieces (build_piece_rarity (ts_state ts)) ts"

text \<open>One piece of the bit field of the resume file, with the number of pieces marked so far.\<close>

definition restore_piece :: "byte list \<Rightarrow> nat \<Rightarrow> nat \<times> TorrentSession \<Rightarrow> nat \<times> TorrentSession" where
  "restore_piece bits i s =
    (case s of (done, ts) \<Rightarrow>
      if length bits \<le> i div 8 then (done, on_state (set_piece_status i Needed) ts)
      else if has_piece bits i then (done + 1, on_pieces (remove_piece_rarity i 0) (on_state (set_piece_status i Have) ts))
      else (done, if piece_status (ts_state ts) i \<noteq> Skipped then on_state (set_piece_status i Needed) ts else ts))"

text \<open>The pieces of a file that is gone are needed again.\<close>

definition forget_missing_file :: "nat \<Rightarrow> nat \<times> TorrentSession \<Rightarrow> nat \<times> TorrentSession" where
  "forget_missing_file file_idx s =
    (case s of (done, ts) \<Rightarrow>
      if fm_disk (ts_fm ts) (get_full_path_for_file (ts_state ts) (ti_files (torrent_info (ts_state ts)) ! file_idx)) \<noteq> None then s
      else fold (\<lambda>p (done, ts). if piece_status (ts_state ts) p = Have then (done - 1, on_state (set_piece_status p Needed) ts) else (done, ts))
             (fm_file_to_pieces (ts_fm ts) ! file_idx) s)"

definition restored_piece :: "nat \<Rightarrow> byte list \<Rightarrow> InProgressPiece" where
  "restored_piece piece_size block_bitfield =
    (let ip = new_in_progress piece_size;
         received = map (\<lambda>i. i div 8 < length block_bitfield \<and> has_piece block_bitfield i) [0..<length (ip_received ip)]
     in ip\<lparr> ip_received := received, ip_received_count := length (filter id received) \<rparr>)"

definition restore_in_progress :: "string \<times> string \<Rightarrow> TorrentSession \<Rightarrow> TorrentSession" where
  "restore_in_progress e ts =
    (case e of (piece_idx_str, block_bitfield) \<Rightarrow>
      case stoul piece_idx_str of
        None \<Rightarrow> ts
      | Some w \<Rightarrow>
          let p = unat w; ss = ts_state ts; n = ss_num_pieces ss; info = torrent_info ss
          in if n \<le> p \<or> piece_status ss p \<noteq> Needed \<or> block_bitfield = [] then ts
             else let last_piece_size = ti_total_size info mod ti_piece_size info;
                      piece_size = (if p = n - 1 then if last_piece_size = 0 then ti_piece_size info else last_piece_size else ti_piece_size info);
                      ip = restored_piece piece_size (bytes_of_string block_bitfield)
                  in if ip_received_count ip = ip_total_blocks ip then ts
                     else let ts = on_state (set_piece_status p InProgress) ts;
                              ts = on_pieces (\<lambda>pm. update_piece_rarity p (to_u32 (piece_availability pm p)) IN_PROGRESS_RARITY_GROUP_ID pm) ts;
                              ts = on_pieces (emplace_in_progress_pieces p ip) ts
                          in on_pieces (ensure_resume_piece_download p) ts)"

definition remove_resume_file :: "TorrentSession \<Rightarrow> TorrentSession" where
  "remove_resume_file ts = ts\<lparr> ts_fm := (ts_fm ts)\<lparr> fm_disk := (fm_disk (ts_fm ts))(get_resume_file_path (ts_state ts) := None) \<rparr> \<rparr>"

definition load_session_state :: "pm_env \<Rightarrow> ResumeData \<Rightarrow> TorrentSession \<Rightarrow> TorrentSession" where
  "load_session_state penv data ts =
    (let n = ss_num_pieces (ts_state ts); bits = bytes_of_string (have_bitfield data) in
     case fm_disk (ts_fm ts) (get_resume_file_path (ts_state ts)) of
       None \<Rightarrow> ts_reset ts
     | Some c \<Rightarrow>
         if c = [] then ts_reset (remove_resume_file ts)
         else if length bits \<noteq> (n + 7) div 8 then ts_reset (remove_resume_file ts)
         else let (done, ts) = fold (restore_piece bits) [0..<n] (0, ts)
              in if n < done then ts_reset (remove_resume_file ts)
                 else let (done, ts) = (if file_mtimes data = [] then (done, ts)
                            else fold forget_missing_file [0..<length (ti_files (torrent_info (ts_state ts)))] (done, ts));
                          ts = rebuild_rarity (on_state (\<lambda>ss. ss\<lparr> ss_completed_pieces := done \<rparr>) ts);
                          ts = fold restore_in_progress (in_progress_pieces data) ts
                      in if needed_pieces (ts_state ts) = n \<and> pm_pieces (ts_pm ts) \<noteq> []
                         then on_pieces (broadcast_outstanding_requests penv (ts_state ts)) (on_state (\<lambda>ss. ss\<lparr> ss_endgame := True \<rparr>) ts)
                         else ts)"

definition ts_init :: "ts_env \<Rightarrow> meta_env \<Rightarrow> pm_env \<Rightarrow> bool session" where
  "ts_init env me penv ts =
    (if ss_num_pieces (ts_state ts) = 0 then (Inr True, ts)
     else if ts_mode ts = Seed then
       (case verify_seed_data (te_sha1 env) (me_seed_path_ok me) (ts_fm ts) of
          (Inl e, fm) \<Rightarrow> (Inl (ReadFailed e), ts\<lparr> ts_fm := fm \<rparr>)
        | (Inr False, fm) \<Rightarrow> (Inr False, ts\<lparr> ts_fm := fm \<rparr>)
        | (Inr True, fm) \<Rightarrow> (Inr True, rebuild_rarity (on_state mark_all_have (ts\<lparr> ts_fm := fm \<rparr>))))
     else (case preallocate_files (me_auto_approve me) (me_reply me) (ts_fm ts) of
         None \<Rightarrow> (Inl Failed, ts)
       | Some (False, fm) \<Rightarrow> (Inr False, ts\<lparr> ts_fm := fm \<rparr>)
       | Some (True, fm) \<Rightarrow>
           let ts = ts\<lparr> ts_fm := fm \<rparr>
           in (case load_resume_data (ts_fm ts) of
                 Inl e \<Rightarrow> (Inl (ReadFailed e), ts)
               | Inr None \<Rightarrow> (Inr True, rebuild_rarity ts)
               | Inr (Some bytes) \<Rightarrow>
                   (case resume_deserialize bytes of
                      Inl _ \<Rightarrow> (Inl Failed, ts)
                    | Inr resume \<Rightarrow>
                        let ts = load_session_state penv resume ts
                        in (case verify_pieces (te_sha1 env) (ts_fm ts) of
                              (Inl e, fm) \<Rightarrow> (Inl (ReadFailed e), ts\<lparr> ts_fm := fm \<rparr>)
                            | (Inr _, fm) \<Rightarrow>
                                let ts = ts\<lparr> ts_fm := fm \<rparr>
                                in (Inr True, if ss_completed_pieces (ts_state ts) = ss_num_pieces (ts_state ts)
                                     then on_state (\<lambda>ss. ss\<lparr> ss_download_complete := True \<rparr>) ts else ts))))))"



subsection \<open>Loading keeps the session well formed\<close>

text \<open>The invariant of a session without what it says of pieces marked as present, and with nothing to be written.\<close>

definition ts_wf :: "SessionState \<Rightarrow> TorrentSession \<Rightarrow> bool" where
  "ts_wf ref ts \<longleftrightarrow> \<not> ts_metadata_active ts \<and> same_layout ref (ts_state ts) \<and> fm_inv (ts_fm ts) \<and> fm_dirty (ts_fm ts) = [] \<and> pieces_ok (ts_state ts) (ts_pm ts) \<and>
    resume_apart (ts_state ts) \<and> length (ss_piece_status (ts_state ts)) = ss_num_pieces (ts_state ts)"

lemma resume_apart_layout: "same_layout ss ss' \<Longrightarrow> resume_apart ss' = resume_apart ss"
proof -
  assume lay: "same_layout ss ss'"
  then have "get_resume_file_path ss' = get_resume_file_path ss"
    by (simp add: same_layout_def get_resume_file_path_def Let_def)
  then show ?thesis
    using layout_frame(1) [OF lay] lay by (simp add: resume_apart_def same_layout_def)
qed

lemma same_layout_trans: "same_layout a b \<Longrightarrow> same_layout b c \<Longrightarrow> same_layout a c"
  by (simp add: same_layout_def)

lemma ts_wf_state:
  assumes wf: "ts_wf ref ts" and f: "same_layout (ts_state ts) (f (ts_state ts))" "length (ss_piece_status (f (ts_state ts))) = length (ss_piece_status (ts_state ts))"
  shows "ts_wf ref (on_state f ts)"
proof -
  have "fm_inv (ts_fm ts)"
    using wf by (simp add: ts_wf_def)
  note u = session_update_same [OF this f(1)]
  have "ss_num_pieces (f (ts_state ts)) = ss_num_pieces (ts_state ts)"
    using f(1) by (simp add: same_layout_def)
  then show ?thesis
    using wf u f(2) resume_apart_layout [OF f(1)] pieces_ok_layout [of "f (ts_state ts)" "ts_state ts"] layout_frame(9) [OF f(1)]
      same_layout_trans [OF _ f(1), of ref]
    by (simp add: ts_wf_def on_state_def)
qed

lemma ts_wf_status [simp]: "ts_wf ref ts \<Longrightarrow> ts_wf ref (on_state (set_piece_status p s) ts)"
  by (rule ts_wf_state) (simp_all add: same_layout_def set_piece_status_def)

lemma ts_wf_counters: "ts_wf ref ts \<Longrightarrow> ts_wf ref (on_state (\<lambda>ss. ss\<lparr> ss_completed_pieces := n \<rparr>) ts)" "ts_wf ref ts \<Longrightarrow> ts_wf ref (on_state (\<lambda>ss. ss\<lparr> ss_endgame := b \<rparr>) ts)"
  by (rule ts_wf_state; simp add: same_layout_def)+

lemma ts_wf_pieces: "ts_wf ref ts \<Longrightarrow> pieces_ok (ts_state ts) (f (ts_pm ts)) \<Longrightarrow> ts_wf ref (on_pieces f ts)"
  by (simp add: ts_wf_def on_pieces_def)

lemma pieces_ok_D:
  assumes "pieces_ok ss pm"
  shows "sorted_keys (pm_pieces pm)" "\<forall>p ip. in_progress_piece pm p = Some ip \<longrightarrow> p < ss_num_pieces ss \<and> ip_ok (plen ss p) ip"
  using assms by (simp_all add: pieces_ok_def)

lemma ts_wf_rebuild: "ts_wf ref ts \<Longrightarrow> ts_wf ref (rebuild_rarity ts)"
  unfolding rebuild_rarity_def
  by (rule ts_wf_pieces) (simp_all add: ts_wf_def pieces_ok_build [OF pieces_ok_D(1) [of "ts_state ts"] pieces_ok_D(2) [of "ts_state ts"]])

lemma ts_wf_fold: "(\<And>x ts. ts_wf ref ts \<Longrightarrow> ts_wf ref (f x ts)) \<Longrightarrow> ts_wf ref ts \<Longrightarrow> ts_wf ref (fold f xs ts)"
  by (induction xs arbitrary: ts) auto

lemma ts_wf_fold_snd: "(\<And>x s. ts_wf ref (snd s) \<Longrightarrow> ts_wf ref (snd (f x s))) \<Longrightarrow> ts_wf ref (snd s) \<Longrightarrow> ts_wf ref (snd (fold f xs s))"
  by (induction xs arbitrary: s) auto

lemma ts_wf_restore_piece: "ts_wf ref (snd s) \<Longrightarrow> ts_wf ref (snd (restore_piece bits i s))"
proof -
  assume wf: "ts_wf ref (snd s)"
  have "ts_wf ref (on_pieces (remove_piece_rarity i 0) (on_state (set_piece_status i st) (snd s)))" for st
    using ts_wf_status [OF wf, of i st] by (intro ts_wf_pieces) (simp_all add: ts_wf_def pieces_ok_remove_rarity)
  then show ?thesis
    using wf by (simp add: restore_piece_def case_prod_beta)
qed

lemma ts_wf_forget: "ts_wf ref (snd s) \<Longrightarrow> ts_wf ref (snd (forget_missing_file i s))"
proof -
  assume wf: "ts_wf ref (snd s)"
  have "ts_wf ref (snd (fold (\<lambda>p (done, ts). if piece_status (ts_state ts) p = Have then (done - 1, on_state (set_piece_status p Needed) ts) else (done, ts)) ps s))"
    for ps using wf by (intro ts_wf_fold_snd) (auto simp: case_prod_beta)
  then show ?thesis
    using wf by (simp add: forget_missing_file_def case_prod_beta)
qed

lemma restored_piece_ok: "0 < n \<Longrightarrow> n < 2 ^ 32 \<Longrightarrow> ip_ok n (restored_piece n bits)"
  using new_in_progress_ok [of n] by (simp add: restored_piece_def ip_ok_def Let_def)

lemma pieces_ok_emplace:
  assumes "pieces_ok ss pm" "p < ss_num_pieces ss" "ip_ok (plen ss p) ip"
  shows "pieces_ok ss (emplace_in_progress_pieces p ip pm)"
proof -
  have "pm_rarity (emplace_in_progress_pieces p ip pm) = pm_rarity pm" "sorted_keys (pm_pieces (emplace_in_progress_pieces p ip pm))"
    using assms(1) by (simp_all add: emplace_in_progress_pieces_def pieces_ok_def)
  moreover have "in_progress_piece (emplace_in_progress_pieces p ip pm) q = Some x \<Longrightarrow> q < ss_num_pieces ss \<and> ip_ok (plen ss q) x" for q x
    using assms by (auto simp: pieces_ok_def split: if_splits option.splits)
  ultimately show ?thesis
    using assms(1) by (simp add: pieces_ok_def)
qed

lemma ts_wf_restore_in_progress: "ts_wf ref ts \<Longrightarrow> ts_wf ref (restore_in_progress e ts)"
proof -
  assume wf: "ts_wf ref ts"
  let ?ss = "ts_state ts"
  have tor: "wf_torrent ?ss"
    using wf fm_ready_D(1) [OF fm_inv_D(1)] by (simp add: ts_wf_def)
  have step: "ts_wf ref (on_pieces (ensure_resume_piece_download p) (on_pieces (emplace_in_progress_pieces p (restored_piece (download_size ?ss p) bits))
      (on_pieces (\<lambda>pm. update_piece_rarity p (to_u32 (piece_availability pm p)) IN_PROGRESS_RARITY_GROUP_ID pm) (on_state (set_piece_status p InProgress) ts))))"
    if p: "p < ss_num_pieces ?ss" for p bits
  proof -
    let ?ts = "on_state (set_piece_status p InProgress) ts"
    have wf': "ts_wf ref ?ts"
      using wf by simp
    have same: "ss_num_pieces (ts_state ?ts) = ss_num_pieces ?ss" "plen (ts_state ?ts) = plen ?ss"
      by (auto simp: set_piece_status_def plen_def fun_eq_iff)
    have "plen ?ss p < 2 ^ 32" "0 < plen ?ss p"
      using plen_bounds(1,2) [OF tor p] wf_basic(2) [OF tor] by simp_all
    then have "ip_ok (plen ?ss p) (restored_piece (download_size ?ss p) bits)"
      using restored_piece_ok download_size_eq [OF tor p] by simp
    then have "pieces_ok (ts_state ?ts) (ensure_resume_piece_download p (emplace_in_progress_pieces p (restored_piece (download_size ?ss p) bits)
        (update_piece_rarity p (to_u32 (piece_availability (ts_pm ts) p)) IN_PROGRESS_RARITY_GROUP_ID (ts_pm ts))))"
      using wf p by (simp only: pieces_ok_layout [OF same]) (simp add: ts_wf_def pieces_ok_ensure pieces_ok_emplace pieces_ok_rarity)
    then show ?thesis
      using wf' by (simp add: ts_wf_def)
  qed
  obtain k bf where e: "e = (k, bf)"
    by (cases e)
  have size: "(if p = ss_num_pieces ?ss - 1 then if tsize ?ss mod psize ?ss = 0 then psize ?ss else tsize ?ss mod psize ?ss else psize ?ss) = download_size ?ss p" for p
    by (simp add: download_size_def Let_def)
  show ?thesis
  proof (cases "stoul k")
    case (Some w)
    then show ?thesis
      using wf step [of "unat w"] by (simp add: e restore_in_progress_def Let_def size [unfolded One_nat_def])
  qed (use wf in \<open>simp add: e restore_in_progress_def\<close>)
qed

lemma ts_wf_reset: "ts_wf ref ts \<Longrightarrow> ts_wf ref (ts_reset ts)"
proof -
  assume wf: "ts_wf ref ts"
  have "same_layout ss (fold (\<lambda>i. set_piece_status i Needed) ps ss) \<and> length (ss_piece_status (fold (\<lambda>i. set_piece_status i Needed) ps ss)) = length (ss_piece_status ss)" for ps ss
    by (induction ps arbitrary: ss) (simp_all add: same_layout_def set_piece_status_def)
  then have lay: "same_layout ss (fold (\<lambda>i. set_piece_status i Needed) ps ss)" "ss_num_pieces (fold (\<lambda>i. set_piece_status i Needed) ps ss) = ss_num_pieces ss"
      "length (ss_piece_status (fold (\<lambda>i. set_piece_status i Needed) ps ss)) = length (ss_piece_status ss)" for ps ss
    by (simp_all add: same_layout_def)
  then have "ts_wf ref (on_state (\<lambda>ss. (fold (\<lambda>i. set_piece_status i Needed) [0..<ss_num_pieces ss] ss)\<lparr> ss_completed_pieces := 0 \<rparr>) ts)"
    by (intro ts_wf_state [OF wf]) (simp_all add: same_layout_def)
  then show ?thesis
    unfolding ts_reset_def by (rule ts_wf_pieces) (simp add: ts_wf_def pieces_ok_def remove_all_in_progress_pieces_def in_progress_piece_def lay(2) wf [unfolded ts_wf_def pieces_ok_def])
qed

lemma ts_wf_remove_resume: "ts_wf ref ts \<Longrightarrow> ts_wf ref (remove_resume_file ts)"
proof -
  assume wf: "ts_wf ref ts"
  let ?ss = "ts_state ts" and ?d = "(fm_disk (ts_fm ts))(get_resume_file_path (ts_state ts) := None)"
  have "?d (get_full_path_for_file ?ss f) = fm_disk (ts_fm ts) (get_full_path_for_file ?ss f)" if "f \<in> set (tfiles ?ss)" for f
  proof -
    have "get_full_path_for_file ?ss f \<noteq> get_resume_file_path ?ss"
      using wf that imageI [OF that, of "get_full_path_for_file ?ss"] unfolding ts_wf_def resume_apart_def by metis
    then show ?thesis
      by simp
  qed
  then have "stored ?ss ?d = stored ?ss (fm_disk (ts_fm ts))" "disk_ok ?ss ?d = disk_ok ?ss (fm_disk (ts_fm ts))"
    by (simp_all add: stored_def contents_def disk_ok_def cong: map_cong)
  then show ?thesis
    using wf by (auto simp: ts_wf_def remove_resume_file_def fm_inv_def fm_ready_def)
qed

lemma ts_wf_load: "ts_wf ref ts \<Longrightarrow> ts_wf ref (load_session_state penv data ts)"
proof -
  assume wf: "ts_wf ref ts"
  let ?bits = "bytes_of_string (have_bitfield data)" and ?n = "ss_num_pieces (ts_state ts)"
  obtain n1 ts1 where s1: "fold (restore_piece ?bits) [0..<?n] (0, ts) = (n1, ts1)"
    by fastforce
  have wf1: "ts_wf ref ts1"
    using ts_wf_fold_snd [of ref "restore_piece ?bits" "(0, ts)"] ts_wf_restore_piece wf s1 by (metis snd_conv)
  obtain n2 ts2 where s2: "(if file_mtimes data = [] then (n1, ts1) else fold forget_missing_file [0..<length (tfiles (ts_state ts1))] (n1, ts1)) = (n2, ts2)"
    by fastforce
  have "ts_wf ref (snd (fold forget_missing_file [0..<length (tfiles (ts_state ts1))] (n1, ts1)))"
    by (rule ts_wf_fold_snd) (simp_all add: ts_wf_forget wf1)
  then have wf2: "ts_wf ref ts2"
    using s2 wf1 by (auto split: if_splits)
  define ts3 where "ts3 = fold restore_in_progress (in_progress_pieces data) (rebuild_rarity (on_state (\<lambda>ss. ss\<lparr> ss_completed_pieces := n2 \<rparr>) ts2))"
  have wf3: "ts_wf ref ts3"
    unfolding ts3_def by (rule ts_wf_fold) (simp_all add: ts_wf_restore_in_progress ts_wf_rebuild ts_wf_counters wf2)
  have "ts_wf ref (on_pieces (broadcast_outstanding_requests penv (ts_state ts3)) (on_state (\<lambda>ss. ss\<lparr> ss_endgame := True \<rparr>) ts3))"
    using ts_wf_counters(2) [OF wf3, of True] by (intro ts_wf_pieces) (simp_all add: ts_wf_def pieces_ok_broadcast)
  then show ?thesis
    using wf wf1 wf3 unfolding load_session_state_def Let_def s1 prod.case s2 ts3_def [symmetric]
    by (simp add: ts_wf_reset ts_wf_remove_resume split: option.split)
qed

subsection \<open>A start that succeeds\<close>

text \<open>A torrent that can be started over a disk: the sizes are consistent, the files that exist have their size, and the
  resume file is none of them.\<close>

definition startable_over :: "SessionState \<Rightarrow> disk \<Rightarrow> bool" where
  "startable_over ss d \<longleftrightarrow> wf_torrent ss \<and> length (ss_piece_status ss) = ss_num_pieces ss \<and> resume_apart ss \<and>
    (\<forall>f\<in>set (tfiles ss). \<forall>c. d (get_full_path_for_file ss f) = Some c \<longrightarrow> length c = fi_size f)"

lemma ts_wf_inv:
  assumes "ts_wf ref ts" "\<forall>p < ss_num_pieces (ts_state ts). piece_status (ts_state ts) p = Have \<longrightarrow> piece_valid sha1 (ts_state ts) (content (ts_fm ts)) p"
  shows "ts_inv sha1 ref ts"
  using assms by (simp add: ts_wf_def ts_inv_def)

lemma piece_valid_layout: "same_layout ss ss' \<Longrightarrow> piece_valid sha1 ss' = piece_valid sha1 ss"
  using layout_frame(9) [of ss ss'] by (intro ext) (simp add: piece_valid_def same_layout_def)

lemma ts_inv_verified:
  assumes wf: "ts_wf ref ts" and v: "verify_pieces sha1 (ts_fm ts) = (r, fm)"
  shows "r = Inr () \<and> ts_inv sha1 ref (ts\<lparr> ts_fm := fm \<rparr>)"
proof -
  let ?ss = "ts_state ts"
  obtain fm' where fm': "verify_pieces sha1 (ts_fm ts) = (Inr (), fm')" "fm_inv fm'" "content fm' = content (ts_fm ts)" "fm_dirty fm' = []"
    "same_layout ?ss (fm_session fm')" "ss_piece_status (fm_session fm') = map (checked_status sha1 ?ss (content (ts_fm ts))) [0..<ss_num_pieces ?ss]"
    using verify_pieces_checked [of "ts_fm ts" sha1] wf by (auto simp: ts_wf_def)
  have n: "ss_num_pieces (fm_session fm') = ss_num_pieces ?ss"
    using fm'(5) by (simp add: same_layout_def)
  have "ts_wf ref (ts\<lparr> ts_fm := fm' \<rparr>)"
    using wf fm'(2,4,6) n resume_apart_layout [OF fm'(5)] pieces_ok_layout [OF n layout_frame(9) [OF fm'(5)]] same_layout_trans [OF _ fm'(5), of ref] by (simp add: ts_wf_def)
  then have "ts_inv sha1 ref (ts\<lparr> ts_fm := fm' \<rparr>)"
    by (rule ts_wf_inv) (auto simp: n piece_status_def fm'(3,6) checked_status_def piece_valid_layout [OF fm'(5)] split: if_splits)
  then show ?thesis
    using v fm'(1) by simp
qed

lemma mark_all_have_layout:
  "same_layout ss (mark_all_have ss)" "length (ss_piece_status (mark_all_have ss)) = length (ss_piece_status ss)"
proof -
  have "same_layout ss (fold (\<lambda>i. set_piece_status i Have) ps ss) \<and> length (ss_piece_status (fold (\<lambda>i. set_piece_status i Have) ps ss)) = length (ss_piece_status ss)" for ps
    by (induction ps arbitrary: ss) (simp_all add: same_layout_def set_piece_status_def)
  then show "same_layout ss (mark_all_have ss)" "length (ss_piece_status (mark_all_have ss)) = length (ss_piece_status ss)"
    by (simp_all add: mark_all_have_def same_layout_def)
qed

lemma new_pieces_ok [simp]: "pieces_ok ss (new_piece_manager ss)"
  by (simp add: pieces_ok_def new_piece_manager_def in_progress_piece_def)

lemma seed_verified:
  assumes st: "startable_over ss d" and fm: "new_file_manager ss d = Some fm" and v: "verify_seed_data sha1 ok fm = (Inr True, fm')"
  shows "same_bytes fm fm'" "fm_dirty fm' = []" "fm_inv fm" "\<forall>p < ss_num_pieces ss. piece_valid sha1 ss (content fm) p" "fm_session fm = ss"
proof -
  have fs: "fm_session fm = ss" "fm_disk fm = d"
    using fm by (auto simp: new_file_manager_def split: option.splits)
  have found: "None \<notin> set (map (\<lambda>f. d (get_full_path_for_file ss f)) (tfiles ss))"
    using v by (auto simp: verify_seed_data_def sx_defs fs Let_def split: if_splits)
  then have "disk_ok ss d"
    using st unfolding disk_ok_def startable_over_def by (metis (no_types, lifting) image_eqI list.set_map option.exhaust)
  then have inv: "fm_inv fm" "fm_dirty fm = []"
    using new_file_manager_inv [OF _ _ fm] st by (simp_all add: startable_over_def)
  obtain f1 where f1: "verify_all sha1 [0..<ss_num_pieces ss] fm = (Inr (\<forall>p \<in> set [0..<ss_num_pieces ss]. piece_valid sha1 ss (content fm) p), f1)"
    "same_bytes fm f1" "fm_dirty f1 = []"
    using verify_all_valid [OF inv, of "[0..<ss_num_pieces ss]" sha1] by (auto simp: fs atLeast0LessThan)
  moreover have "verify_all sha1 [0..<ss_num_pieces ss] fm = (Inr True, fm')"
    using v by (auto simp: verify_seed_data_def sx_defs fs Let_def split: if_splits)
  ultimately show "same_bytes fm fm'" "fm_dirty fm' = []" "fm_inv fm" "\<forall>p < ss_num_pieces ss. piece_valid sha1 ss (content fm) p" "fm_session fm = ss"
    using inv fs by auto
qed

lemma init_seed:
  assumes st: "startable_over ss d" and new: "new_torrent_session pid port mode ss d = Some ts0"
    and v: "verify_seed_data sha1 ok (ts_fm ts0) = (Inr True, fm')"
  shows "ts_inv sha1 ss (rebuild_rarity (on_state mark_all_have (ts0\<lparr> ts_fm := fm' \<rparr>)))"
proof -
  obtain fm where fm: "new_file_manager ss d = Some fm" and ts0: "ts_fm ts0 = fm" "ts_pm ts0 = new_piece_manager ss" "\<not> ts_metadata_active ts0"
    using new by (auto simp: new_torrent_session_def split: option.splits)
  note sv = seed_verified [OF st fm v [unfolded ts0(1)]]
  have eq: "fm_inv fm'" "fm_session fm' = ss" "content fm' = content fm"
    using sv(1,5) by (simp_all add: same_bytes_def)
  let ?ts = "on_state mark_all_have (ts0\<lparr> ts_fm := fm' \<rparr>)"
  have "ts_wf ss (ts0\<lparr> ts_fm := fm' \<rparr>)"
    using st eq sv(2) ts0 by (simp add: ts_wf_def startable_over_def same_layout_def)
  then have wf: "ts_wf ss ?ts"
    by (rule ts_wf_state) (simp_all add: mark_all_have_layout)
  have "content (ts_fm ?ts) = content fm"
    using session_update_same(2) [OF eq(1), of "mark_all_have ss"] mark_all_have_layout(1) eq by (simp add: on_state_def)
  then have "\<forall>p < ss_num_pieces (ts_state ?ts). piece_valid sha1 (ts_state ?ts) (content (ts_fm ?ts)) p"
    using sv(4) mark_all_have_layout(1) [of ss] eq piece_valid_layout [OF mark_all_have_layout(1) [of ss]] by (auto simp: same_layout_def)
  then show ?thesis
    using ts_wf_rebuild [OF wf] by (intro ts_wf_inv) (simp_all add: rebuild_rarity_def)
qed

lemma init_fresh:
  assumes st: "startable_over ss d" and new: "new_torrent_session pid port mode ss d = Some ts0"
  obtains fm where "preallocate_files True reply (ts_fm ts0) = Some (True, fm)" "ts_wf ss (ts0\<lparr> ts_fm := fm \<rparr>)"
    "\<And>p. p < ss_num_pieces ss \<Longrightarrow> piece_status (fm_session fm) p = Needed" "ss_num_pieces (fm_session fm) = ss_num_pieces ss"
proof -
  obtain fm where fm: "new_file_manager ss d = Some fm" and ts0: "ts_fm ts0 = fm" "ts_pm ts0 = new_piece_manager ss" "\<not> ts_metadata_active ts0"
    using new by (auto simp: new_torrent_session_def split: option.splits)
  let ?ss = "ss\<lparr> ss_piece_status := replicate (ss_num_pieces ss) Needed \<rparr>"
  let ?fm = "fm\<lparr> fm_disk := filled ss (tfiles ss) d, fm_session := ?ss \<rparr>"
  have sz: "wf_torrent ss" "length (ss_piece_status ss) = ss_num_pieces ss"
      "\<forall>f\<in>set (tfiles ss). \<forall>c. d (get_full_path_for_file ss f) = Some c \<longrightarrow> length c = fi_size f" "resume_apart ss"
    using st by (simp_all add: startable_over_def)
  note pre = preallocate_auto [OF sz(1) fm sz(2,3)]
  have lay: "same_layout ss ?ss"
    by (simp add: same_layout_def)
  have "ts_wf ss (ts0\<lparr> ts_fm := ?fm \<rparr>)"
    using pre(2,3) ts0 lay resume_apart_layout [OF lay] sz(4) pieces_ok_layout [of ?ss ss] layout_frame(9) [OF lay] by (simp add: ts_wf_def)
  then show ?thesis
    using that [of ?fm] pre(1) [of reply] ts0(1) by (simp add: piece_status_def)
qed

text \<open>Whatever the resume file says, the pieces marked as present after a start are those whose bytes are right.\<close>

lemma init_inv:
  assumes st: "startable_over ss d" and new: "new_torrent_session pid port mode ss d = Some ts0"
    and auto_ok: "me_auto_approve me" and pieces: "0 < ss_num_pieces ss" and i: "ts_init env me penv ts0 = (Inr True, ts)"
  shows "ts_inv (te_sha1 env) ss ts"
proof (cases "mode = Seed")
  case True
  have ts0: "ts_mode ts0 = Seed" "0 < ss_num_pieces (ts_state ts0)"
    using new True pieces by (auto simp: new_torrent_session_def new_file_manager_def split: option.splits)
  then obtain fm' where "verify_seed_data (te_sha1 env) (me_seed_path_ok me) (ts_fm ts0) = (Inr True, fm')"
      "ts = rebuild_rarity (on_state mark_all_have (ts0\<lparr> ts_fm := fm' \<rparr>))"
    using i by (auto simp: ts_init_def split: prod.splits sum.splits bool.splits)
  then show ?thesis
    using init_seed [OF st new] by simp
next
  case False
  have ts0: "ts_mode ts0 \<noteq> Seed" "0 < ss_num_pieces (ts_state ts0)"
    using new False pieces by (auto simp: new_torrent_session_def new_file_manager_def split: option.splits)
  obtain fm where fm: "preallocate_files True (me_reply me) (ts_fm ts0) = Some (True, fm)" "ts_wf ss (ts0\<lparr> ts_fm := fm \<rparr>)"
      "\<And>p. p < ss_num_pieces ss \<Longrightarrow> piece_status (fm_session fm) p = Needed" "ss_num_pieces (fm_session fm) = ss_num_pieces ss"
    using init_fresh [OF st new, of "me_reply me"] by blast
  let ?ts = "ts0\<lparr> ts_fm := fm \<rparr>"
  consider (fresh) "ts = rebuild_rarity ?ts"
    | (resumed) resume fm' where "verify_pieces (te_sha1 env) (ts_fm (load_session_state penv resume ?ts)) = (Inr (), fm')"
        "ts = (let ts = (load_session_state penv resume ?ts)\<lparr> ts_fm := fm' \<rparr>
               in if ss_completed_pieces (ts_state ts) = ss_num_pieces (ts_state ts) then on_state (\<lambda>ss. ss\<lparr> ss_download_complete := True \<rparr>) ts else ts)"
    using i ts0 auto_ok fm(1) by (auto simp: ts_init_def Let_def split: prod.splits sum.splits option.splits)
  then show ?thesis
  proof cases
    case fresh
    then show ?thesis
      using ts_wf_rebuild [OF fm(2)] fm(3,4) by (intro ts_wf_inv) (simp_all add: rebuild_rarity_def)
  next
    case (resumed resume fm')
    have "ts_inv (te_sha1 env) ss ((load_session_state penv resume ?ts)\<lparr> ts_fm := fm' \<rparr>)"
      using ts_inv_verified [OF ts_wf_load [OF fm(2)] resumed(1)] by simp
    then show ?thesis
      by (simp add: resumed(2) Let_def ts_inv_state no_new_have_counters)
  qed
qed

end
