(* ===== verification/Extensions.thy ===== *)
theory Extensions
  imports Startup
begin

text \<open>
  The extension messages of a session (\<^verbatim>\<open>on_extended_message\<close> and the metadata functions of
  \<^verbatim>\<open>src/src/TorrentSession.cpp\<close>): the extended handshake, peer exchange, the exchange of metadata for magnet
  links.

  A wrong variant of a bencoded value throws (\<open>Failed\<close>).  Offsets into the metadata buffer are 64 bit; a copy
  outside it is \<open>OutOfBounds\<close>.  Sizes the code holds in an \<^verbatim>\<open>int\<close> wrap at 32 bit.  A request for metadata that the
  code spawns runs at once.

  Lemmas: a session that has its metadata lets extension messages change its connections and its list of peers and
  nothing else.
\<close>

subsection \<open>Definitions: extended handshake\<close>

definition METADATA_PIECE_SIZE :: nat where "METADATA_PIECE_SIZE = 16384"

definition u8_of_int :: "int \<Rightarrow> nat" where "u8_of_int i = nat (i mod 256)"
definition int32_of_int :: "int \<Rightarrow> int" where "int32_of_int i = (i + 2 ^ 31) mod 2 ^ 32 - 2 ^ 31"

text \<open>The loops over the dictionary of extensions; \<open>False\<close> when a value is not an integer.\<close>

fun learn_extensions :: "(string \<times> Value) list \<Rightarrow> PeerConnection \<Rightarrow> bool \<times> PeerConnection" where
  "learn_extensions [] pc = (True, pc)"
| "learn_extensions ((k, v) # m) pc =
    (case as_Integer v of
       None \<Rightarrow> (False, pc)
     | Some i \<Rightarrow> learn_extensions m (if to_extended_type k \<noteq> ExtUNKNOWN then update_extension_type (u8_of_int i) (to_extended_type k) pc else pc))"

fun learn_metadata_id :: "(string \<times> Value) list \<Rightarrow> PeerConnection \<Rightarrow> bool \<times> PeerConnection" where
  "learn_metadata_id [] pc = (True, pc)"
| "learn_metadata_id ((k, v) # m) pc =
    (case as_Integer v of
       None \<Rightarrow> (False, pc)
     | Some i \<Rightarrow> learn_metadata_id m (if k = ''ut_metadata'' then pc\<lparr> pc_metadata_ext_id := u8_of_int i \<rparr> else pc))"

text \<open>A change of one connection that may throw.\<close>

definition conn_or_fail :: "handle \<Rightarrow> (PeerConnection \<Rightarrow> bool \<times> PeerConnection) \<Rightarrow> unit session" where
  "conn_or_fail h f ts =
    (case f (ts_conn ts h) of (ok, pc) \<Rightarrow> (if ok then Inr () else Inl Failed, with_conn h (\<lambda>_. pc) ts))"

definition request_metadata_from_peer :: "(nat \<Rightarrow> bool) \<Rightarrow> handle \<Rightarrow> unit session" where
  "request_metadata_from_peer alloc_ok h ts =
    (let pc = ts_conn ts h; total_size = pc_metadata_size pc in
     if 0 < ss_num_pieces (ts_state ts) \<or> pc_metadata_ext_id pc = 0 \<or> total_size \<le> 0 \<or> pc_metadata_requested pc then (Inr (), ts)
     else let ts = with_conn h (\<lambda>pc. pc\<lparr> pc_metadata_requested := True \<rparr>) ts
          in if \<not> ts_metadata_init ts \<and> \<not> alloc_ok (nat total_size) then (Inl Failed, ts)
             else let ts = (if ts_metadata_init ts then ts
                            else ts\<lparr> ts_metadata_init := True,
                                     ts_metadata_buffer := take (nat total_size) (ts_metadata_buffer ts) @
                                       replicate (nat total_size - length (ts_metadata_buffer ts)) 0,
                                     ts_metadata_received := 0 \<rparr>)
                  in (Inr (), with_conn h (\<lambda>pc. fold (\<lambda>piece. send_metadata_request (pc_metadata_ext_id pc) (int piece))
                       [0..<nat (int32_of_int (total_size + int METADATA_PIECE_SIZE - 1) div int METADATA_PIECE_SIZE)] pc) ts))"

definition learn_metadata_size :: "(nat \<Rightarrow> bool) \<Rightarrow> handle \<Rightarrow> Value option \<Rightarrow> unit session" where
  "learn_metadata_size alloc_ok h v ts =
    (case v of
       None \<Rightarrow> (Inr (), ts)
     | Some v \<Rightarrow>
         (case as_Integer v of
            None \<Rightarrow> (Inl Failed, ts)
          | Some i \<Rightarrow>
              let total_size = int32_of_int i;
                  ts = with_conn h (\<lambda>pc. pc\<lparr> pc_metadata_size := total_size \<rparr>) ts;
                  need_metadata = (ts_metadata_active ts \<and> ti_pieces (torrent_info (ts_state ts)) = [])
              in (Inr (), if need_metadata \<and> pc_metadata_ext_id (ts_conn ts h) \<noteq> 0 \<and> 0 < total_size
                   then snd (request_metadata_from_peer alloc_ok h ts) else ts)))"

definition on_extended_handshake :: "(nat \<Rightarrow> bool) \<Rightarrow> handle \<Rightarrow> byte list \<Rightarrow> unit session" where
  "on_extended_handshake alloc_ok h payload ts =
    (case decode (string_of_bytes payload) of
       Inl _ \<Rightarrow> (Inl Failed, ts)
     | Inr v \<Rightarrow>
         (case as_Dict v of
            None \<Rightarrow> (Inr (), ts)
          | Some ehs \<Rightarrow>
              (case map_of ehs ''m'' of
                 None \<Rightarrow> (Inr (), ts)
               | Some m \<Rightarrow>
                   let m_dict = (case as_Dict m of None \<Rightarrow> [] | Some d \<Rightarrow> d);
                       version_ok = (case map_of ehs ''v'' of None \<Rightarrow> True | Some s \<Rightarrow> as_String s \<noteq> None)
                   in sx_bind (conn_or_fail h (learn_extensions m_dict)) (\<lambda>_.
                      sx_bind (if version_ok then sx_return () else sx_throw Failed) (\<lambda>_.
                      sx_bind (conn_or_fail h (learn_metadata_id m_dict)) (\<lambda>_.
                      learn_metadata_size alloc_ok h (map_of ehs ''metadata_size'')))) ts)))"

subsection \<open>Definitions: peer exchange\<close>

fun pex_entries :: "(endpoint \<Rightarrow> PeerManager \<Rightarrow> PeerManager) \<Rightarrow> byte list list \<Rightarrow> PeerManager \<Rightarrow> bool \<times> PeerManager" where
  "pex_entries f [] mg = (True, mg)"
| "pex_entries f (c # cs) mg = (if length c < 6 then (False, mg) else pex_entries f cs (f (V4 (take 4 c), get16 (take 2 (drop 4 c))) mg))"

definition pex_added :: "u16 \<Rightarrow> endpoint \<Rightarrow> PeerManager \<Rightarrow> PeerManager" where
  "pex_added port ep mg = (if ep = (V4 [127, 0, 0, 1], port) then mg else add_discovered_peer ep mg)"

definition pex_dropped :: "endpoint \<Rightarrow> PeerManager \<Rightarrow> PeerManager" where
  "pex_dropped ep mg = remove_discovered_peer ep (add_dropped_peer ep mg)"

text \<open>One of the two lists; a list with an incomplete entry drops the connection.\<close>

definition pex_list :: "ts_env \<Rightarrow> handle \<Rightarrow> (endpoint \<Rightarrow> PeerManager \<Rightarrow> PeerManager) \<Rightarrow> Value option \<Rightarrow> bool session" where
  "pex_list env h f v ts =
    (case v of
       None \<Rightarrow> (Inr True, ts)
     | Some v \<Rightarrow>
         (case as_String v of
            None \<Rightarrow> (Inl Failed, ts)
          | Some s \<Rightarrow>
              (case pex_entries f (chunks 6 (bytes_of_string s)) (ts_mg ts) of
                 (True, mg) \<Rightarrow> (Inr True, ts\<lparr> ts_mg := mg \<rparr>)
               | (False, mg) \<Rightarrow>
                   (Inr False, with_conn h pc_close (on_peers (report_protocol_violation (te_now env) (pc_peer_addr (ts_conn ts h)))
                     (ts\<lparr> ts_mg := mg \<rparr>))))))"

definition on_pex_message :: "ts_env \<Rightarrow> handle \<Rightarrow> byte list \<Rightarrow> unit session" where
  "on_pex_message env h payload ts =
    (case decode (string_of_bytes payload) of
       Inl _ \<Rightarrow> (Inl Failed, ts)
     | Inr v \<Rightarrow>
         (case as_Dict v of
            None \<Rightarrow> (Inl Failed, ts)
          | Some d \<Rightarrow>
              sx_bind (pex_list env h (pex_added (ts_peer_port ts)) (map_of d ''added'')) (\<lambda>more.
                if more then sx_bind (pex_list env h pex_dropped (map_of d ''dropped'')) (\<lambda>_. sx_return ()) else sx_return ()) ts))"

subsection \<open>Definitions: metadata\<close>

text \<open>The storage of a session that has just got its metadata; \<open>None\<close> when files cannot be prepared, an error when an
  operation throws.\<close>

definition start_storage :: "ts_env \<Rightarrow> meta_env \<Rightarrow> bool session" where
  "start_storage env me ts =
    (if ts_mode ts = Seed then
       (case verify_seed_data (te_sha1 env) (me_seed_path_ok me) (ts_fm ts) of
          (Inl e, fm) \<Rightarrow> (Inl (ReadFailed e), ts\<lparr> ts_fm := fm \<rparr>)
        | (Inr _, fm) \<Rightarrow> (Inr True, rebuild_rarity (on_state mark_all_have (ts\<lparr> ts_fm := fm \<rparr>))))
     else (case preallocate_files (me_auto_approve me) (me_reply me) (ts_fm ts) of
         None \<Rightarrow> (Inl Failed, ts)
       | Some (False, fm) \<Rightarrow> (Inr False, ts\<lparr> ts_fm := fm \<rparr>)
       | Some (True, fm) \<Rightarrow>
           if ts_mode ts = Hybrid then
             (case verify_pieces (te_sha1 env) fm of
                (Inl e, fm) \<Rightarrow> (Inl (ReadFailed e), ts\<lparr> ts_fm := fm \<rparr>)
              | (Inr _, fm) \<Rightarrow>
                  let ts = ts\<lparr> ts_fm := fm \<rparr>
                  in (Inr True, if ss_completed_pieces (ts_state ts) = ss_num_pieces (ts_state ts)
                       then on_state (\<lambda>ss. ss\<lparr> ss_download_complete := True \<rparr>) ts else rebuild_rarity ts))
           else (Inr True, rebuild_rarity (ts\<lparr> ts_fm := fm \<rparr>))))"

text \<open>What a peer told us before we had metadata is looked at again.\<close>

definition reconcile_inventory :: "ts_env \<Rightarrow> handle \<Rightarrow> TorrentSession \<Rightarrow> TorrentSession" where
  "reconcile_inventory env h ts =
    (let pc = ts_conn ts h in
     if \<not> pc_inventory_pending pc then ts
     else if pc_has_all_hint pc then on_peer_has_all h ts
     else if pc_bitfield pc = [] then with_conn h (\<lambda>pc. pc\<lparr> pc_inventory_pending := False \<rparr>) ts
     else if length (pc_bitfield pc) \<noteq> (ss_num_pieces (ts_state ts) + 7) div 8
          then with_conn h pc_close (on_peers (report_protocol_violation (te_now env) (pc_peer_addr pc)) ts)
     else on_peer_bitfield env h (pc_bitfield pc) ts)"

definition metadata_done :: "TorrentSession \<Rightarrow> TorrentSession" where
  "metadata_done ts = ts\<lparr> ts_metadata_active := False, ts_metadata_buffer := [], ts_metadata_received := 0 \<rparr>"

definition on_metadata_complete :: "ts_env \<Rightarrow> meta_env \<Rightarrow> TorrentSession \<Rightarrow> TorrentSession" where
  "on_metadata_complete env me ts =
    (case load_metadata (te_sha1 env) (string_of_bytes (ts_metadata_buffer ts)) (ts_state ts) of
       (Inl _, ss) \<Rightarrow> metadata_done (on_state (\<lambda>_. ss) ts)
     | (Inr _, ss) \<Rightarrow>
         (case start_storage env me (on_state (\<lambda>_. ss) ts) of
            (Inl _, ts) \<Rightarrow> metadata_done ts
          | (Inr False, ts) \<Rightarrow> ts
          | (Inr True, ts) \<Rightarrow>
              metadata_done (if ts_mode ts \<noteq> Seed then fold (reconcile_inventory env) (get_all_connections (ts_mg ts)) ts else ts)))"

definition send_metadata_piece :: "handle \<Rightarrow> int \<Rightarrow> TorrentSession \<Rightarrow> TorrentSession" where
  "send_metadata_piece h piece_idx ts =
    (let info = bytes_of_string (mi_info_bencoded (ss_meta (ts_state ts)));
         num_pieces = int32_of_int (int32_of_int (int (length info)) + int METADATA_PIECE_SIZE - 1) div int METADATA_PIECE_SIZE;
         ext_id = pc_metadata_ext_id (ts_conn ts h)
     in if ts_mode ts = Leech \<or> info = [] then ts
        else if piece_idx < 0 \<or> num_pieces \<le> piece_idx
        then with_conn h (send_extended_message ext_id
               (bytes_of_string (encode (Dict [(''msg_type'', Integer 2), (''piece'', Integer piece_idx)])))) ts
        else with_conn h (send_extended_message ext_id
               (bytes_of_string (encode (Dict [(''msg_type'', Integer 1), (''piece'', Integer piece_idx), (''total_size'', Integer (int (length info)))])) @
                take METADATA_PIECE_SIZE (drop (nat piece_idx * METADATA_PIECE_SIZE) info))) ts)"

definition receive_metadata_piece :: "ts_env \<Rightarrow> meta_env \<Rightarrow> int \<Rightarrow> nat \<Rightarrow> byte list \<Rightarrow> unit session" where
  "receive_metadata_piece env me piece_idx total_size raw_piece ts =
    (if \<not> ts_metadata_active ts then (Inr (), ts)
     else if \<not> ts_metadata_init ts \<and> \<not> me_alloc_ok me total_size then (Inl Failed, ts)
     else let ts = (if ts_metadata_init ts then ts
                    else ts\<lparr> ts_metadata_init := True,
                             ts_metadata_buffer := take total_size (ts_metadata_buffer ts) @ replicate (total_size - length (ts_metadata_buffer ts)) 0 \<rparr>);
              offset = to_u64 (u64_of_int piece_idx * METADATA_PIECE_SIZE)
          in if length (ts_metadata_buffer ts) < to_u64 (offset + length raw_piece) then (Inr (), ts)
             else if length (ts_metadata_buffer ts) < offset + length raw_piece then (Inl OutOfBounds, ts)
             else let ts = ts\<lparr> ts_metadata_buffer := take offset (ts_metadata_buffer ts) @ raw_piece @
                               drop (offset + length raw_piece) (ts_metadata_buffer ts),
                               ts_metadata_received := ts_metadata_received ts + 1 \<rparr>
                  in (Inr (), if to_u64 (total_size + METADATA_PIECE_SIZE - 1) div METADATA_PIECE_SIZE \<le> ts_metadata_received ts
                       then on_metadata_complete env me ts else ts))"

definition integer_or :: "(string \<times> Value) list \<Rightarrow> string \<Rightarrow> ts_error + int" where
  "integer_or d k = (case map_of d k of None \<Rightarrow> Inr 0 | Some v \<Rightarrow> (case as_Integer v of None \<Rightarrow> Inl Failed | Some i \<Rightarrow> Inr i))"

definition on_metadata_message :: "ts_env \<Rightarrow> meta_env \<Rightarrow> handle \<Rightarrow> byte list \<Rightarrow> unit session" where
  "on_metadata_message env me h payload ts =
    (if payload = [] then (Inr (), ts)
     else case decode_prefix (string_of_bytes payload) of
       Inl _ \<Rightarrow> (Inl Failed, ts)
     | Inr (v, dict_end) \<Rightarrow>
         (case as_Dict v of
            None \<Rightarrow> (Inr (), ts)
          | Some msg \<Rightarrow>
              sx_bind (sx_lift (integer_or msg ''msg_type'')) (\<lambda>msg_type.
              sx_bind (sx_lift (integer_or msg ''piece'')) (\<lambda>piece_idx.
                if msg_type = 0 then sx_modify (send_metadata_piece h piece_idx)
                else if msg_type = 1 then
                  sx_bind (sx_lift (integer_or msg ''total_size'')) (\<lambda>total_size.
                    if total_size = 0 \<or> dict_end = 0 \<or> length payload \<le> dict_end then sx_return ()
                    else receive_metadata_piece env me piece_idx (u64_of_int total_size) (drop dict_end payload))
                else sx_return ())) ts))"

definition on_extended_message :: "ts_env \<Rightarrow> meta_env \<Rightarrow> handle \<Rightarrow> byte list \<Rightarrow> unit session" where
  "on_extended_message env me h payload ts =
    (case payload of
       [] \<Rightarrow> (Inr (), with_conn h pc_close (on_peers (report_protocol_violation (te_now env) (pc_peer_addr (ts_conn ts h))) ts))
     | remote_id # extended_payload \<Rightarrow>
         let ts = with_conn h (update_extension_type 0 ExtHandshake) ts;
             known = extension_type (ts_conn ts h) (unat remote_id);
             message_type = (if known \<noteq> ExtUNKNOWN then known else if remote_id = 1 then ut_pex else if remote_id = 3 then ut_metadata else ExtUNKNOWN)
         in (case message_type of
               ExtHandshake \<Rightarrow> on_extended_handshake (me_alloc_ok me) h extended_payload ts
             | ut_pex \<Rightarrow> on_pex_message env h extended_payload ts
             | ut_metadata \<Rightarrow> on_metadata_message env me h extended_payload ts
             | ExtUNKNOWN \<Rightarrow> (Inr (), ts)))"

text \<open>One round of \<^verbatim>\<open>metadata_retry_loop\<close>.\<close>

definition metadata_retry :: "(nat \<Rightarrow> bool) \<Rightarrow> TorrentSession \<Rightarrow> TorrentSession" where
  "metadata_retry alloc_ok ts =
    (if ts_shutting_down ts \<or> ti_pieces (torrent_info (ts_state ts)) \<noteq> [] then ts
     else fold (\<lambda>h ts. let pc = ts_conn ts h in
         if pc_metadata_ext_id pc \<noteq> 0 \<and> 0 < pc_metadata_size pc \<and> \<not> pc_metadata_requested pc
         then snd (request_metadata_from_peer alloc_ok h ts) else ts) (get_all_connections (ts_mg ts)) ts)"

subsection \<open>A session that has its metadata\<close>

definition peers_only :: "TorrentSession \<Rightarrow> TorrentSession \<Rightarrow> bool" where
  "peers_only ts ts' \<longleftrightarrow> ts' = ts\<lparr> ts_mg := ts_mg ts' \<rparr>"

lemma peers_only_refl [simp]: "peers_only ts ts"
  by (simp add: peers_only_def)

lemma peers_only_mg [simp]: "peers_only ts (on_peers f ts')= peers_only ts ts'" "peers_only ts (ts'\<lparr> ts_mg := mg \<rparr>) = peers_only ts ts'"
  by (cases ts; cases ts'; auto simp: peers_only_def on_peers_def)+

lemma peers_only_trans: "peers_only a b \<Longrightarrow> peers_only b c \<Longrightarrow> peers_only a c"
  by (cases a; cases b; cases c) (auto simp: peers_only_def)

lemma peers_only_bind:
  assumes "peers_only ts (snd (m ts))" "\<And>x ts'. m ts = (Inr x, ts') \<Longrightarrow> peers_only ts' (snd (f x ts'))"
  shows "peers_only ts (snd (sx_bind m f ts))"
proof (cases "m ts")
  case (Pair r ts')
  then show ?thesis
    using assms by (cases r) (auto simp: sx_bind_def intro: peers_only_trans)
qed

lemma peers_only_return [simp]: "peers_only ts (snd (sx_return x ts))" "peers_only ts (snd (sx_throw e ts))" "peers_only ts (snd (sx_lift r ts))"
  by (auto simp: sx_defs split: sum.split)

lemma peers_only_conn [simp]: "peers_only ts (snd (conn_or_fail h f ts))"
  by (simp add: conn_or_fail_def case_prod_beta)

lemma peers_only_inv: "peers_only ts ts' \<Longrightarrow> ts_inv sha1 ref ts' = ts_inv sha1 ref ts"
  by (rule ts_inv_cong; cases ts; cases ts'; simp add: peers_only_def)

lemma peers_only_active: "peers_only ts ts' \<Longrightarrow> ts_metadata_active ts' = ts_metadata_active ts"
  by (cases ts; cases ts'; simp add: peers_only_def)

lemma learn_size_peers_only: "\<not> ts_metadata_active ts \<Longrightarrow> peers_only ts (snd (learn_metadata_size alloc_ok h v ts))"
  by (simp add: learn_metadata_size_def Let_def split: option.split)

lemma handshake_peers_only: "\<not> ts_metadata_active ts \<Longrightarrow> peers_only ts (snd (on_extended_handshake alloc_ok h payload ts))"
proof -
  assume act: "\<not> ts_metadata_active ts"
  have "peers_only ts (snd (sx_bind (conn_or_fail h f) (\<lambda>_. sx_bind (if ok then sx_return () else sx_throw Failed) (\<lambda>_.
      sx_bind (conn_or_fail h g) (\<lambda>_. learn_metadata_size alloc_ok h v))) ts))" for f g ok v
  proof (intro peers_only_bind learn_size_peers_only)
    fix x y z :: unit and a b c
    assume "conn_or_fail h f ts = (Inr x, a)" "(if ok then sx_return () else sx_throw Failed) a = (Inr y, b)" "conn_or_fail h g b = (Inr z, c)"
    then show "\<not> ts_metadata_active c"
      using act by (auto simp: conn_or_fail_def case_prod_beta sx_defs split: if_splits)
  qed simp_all
  note learn = this
  show ?thesis
  proof (cases "decode (string_of_bytes payload)")
    case (Inr v)
    show ?thesis
    proof (cases "as_Dict v")
      case (Some ehs)
      then show ?thesis
        using Inr learn by (cases "map_of ehs ''m''") (simp_all add: on_extended_handshake_def Let_def)
    qed (simp add: Inr on_extended_handshake_def)
  qed (simp add: on_extended_handshake_def)
qed

lemma pex_list_peers_only [simp]: "peers_only ts (snd (pex_list env h f v ts))"
  by (auto simp: pex_list_def split: option.split prod.split bool.split)

lemma pex_peers_only: "peers_only ts (snd (on_pex_message env h payload ts))"
  by (auto simp: on_pex_message_def split: sum.split option.split intro!: peers_only_bind)

lemma metadata_peers_only: "\<not> ts_metadata_active ts \<Longrightarrow> peers_only ts (snd (on_metadata_message env me h payload ts))"
proof -
  assume act: "\<not> ts_metadata_active ts"
  have "peers_only ts' (snd ((sx_modify (send_metadata_piece h i) :: unit session) ts'))" for i ts'
    by (simp add: sx_defs send_metadata_piece_def Let_def)
  moreover have "peers_only ts' (snd (receive_metadata_piece env me i n raw ts'))" if "\<not> ts_metadata_active ts'" for i n raw ts'
    using that by (simp add: receive_metadata_piece_def)
  moreover have "sx_bind (sx_lift r) f t = (case r of Inl e \<Rightarrow> (Inl e, t) | Inr x \<Rightarrow> f x t)" for r :: "ts_error + int" and f :: "int \<Rightarrow> unit session" and t
    by (simp add: sx_defs split: sum.split)
  ultimately show ?thesis
    using act by (simp add: on_metadata_message_def split: sum.split option.split prod.split)
qed

lemma extended_peers_only: "\<not> ts_metadata_active ts \<Longrightarrow> peers_only ts (snd (on_extended_message env me h payload ts))"
proof (cases payload)
  case (Cons remote_id rest)
  assume "\<not> ts_metadata_active ts"
  then have "peers_only ts (snd (on_extended_handshake (me_alloc_ok me) h rest (on_peers f ts)))"
    "peers_only ts (snd (on_metadata_message env me h rest (on_peers f ts)))" "peers_only ts (snd (on_pex_message env h rest (on_peers f ts)))" for f
    using handshake_peers_only metadata_peers_only pex_peers_only peers_only_trans [of ts "on_peers f ts"] by simp_all
  then show ?thesis
    by (simp add: Cons on_extended_message_def Let_def split: ExtendedMessageType.split)
qed (simp add: on_extended_message_def)

end
