(* ===== verification/SessionRun.thy ===== *)
theory SessionRun
  imports Extensions
begin

text \<open>
  Runs of a session (\<^verbatim>\<open>src/src/TorrentSession.cpp\<close>): the handlers of the connections, the coroutines of the piece
  manager and the timers, in any order.

  A step is one message of one peer, one disconnect, one wait-to-wait stretch of the piece manager, one request
  that goes out, a flush or a save; the peer manager and the connections may change in any way between them.

  Lemmas: the invariant of a session holds in all reachable states, so a piece marked as present is the piece of
  the torrent, in the cache and on disk after the stop; the blocks of a piece complete it, in any order.
\<close>

subsection \<open>Steps\<close>

text \<open>Peers that are not choked ask for bytes of one block, or from the start of a piece that has nothing waiting to be written.\<close>

definition fair_request :: "handle \<Rightarrow> peer_message \<Rightarrow> TorrentSession \<Rightarrow> bool" where
  "fair_request h m ts \<longleftrightarrow>
    (case m of MRequest p b n \<Rightarrow> pc_am_choking (ts_conn ts h) \<or> readable (ts_state ts) (set (fm_dirty (ts_fm ts))) (p, b) n | _ \<Rightarrow> True)"

inductive ts_step :: "(byte list \<Rightarrow> byte list) \<Rightarrow> TorrentSession \<Rightarrow> TorrentSession \<Rightarrow> bool" for sha1 where
  ts_message: "te_sha1 env = sha1 \<Longrightarrow> fair_request h (decode_message msg) ts \<Longrightarrow>
    message_turn env (on_extended_message env me) h msg ts = (Inr alive, ts') \<Longrightarrow> ts_step sha1 ts ts'"
| ts_disconnect: "ts_step sha1 ts (on_disconnect env h ts)"
| ts_pieces: "pm_step (ts_state ts, ts_pm ts) (ss, pm) \<Longrightarrow> ts_step sha1 ts ((on_state (\<lambda>_. ss) ts)\<lparr> ts_pm := pm \<rparr>)"
| ts_peers: "ts_step sha1 ts (ts\<lparr> ts_mg := mg \<rparr>)"
| ts_sent: "ts_step sha1 ts (record_request_sent now p b peer ts)"
| ts_flush: "ts_step sha1 ts (ts\<lparr> ts_fm := flush_all_dirty (ts_fm ts) \<rparr>)"
| ts_save: "save_session_state mtime ts = (r, ts') \<Longrightarrow> ts_step sha1 ts ts'"

inductive_cases ts_step_elim: "ts_step sha1 ts ts'"

text \<open>The states a session over the torrent \<open>ss\<close> starts in.\<close>

definition ts_started :: "(byte list \<Rightarrow> byte list) \<Rightarrow> SessionState \<Rightarrow> TorrentSession \<Rightarrow> bool" where
  "ts_started sha1 ss ts \<longleftrightarrow> (\<exists>d pid port mode ts0 env me penv. startable_over ss d \<and> 0 < ss_num_pieces ss \<and>
    new_torrent_session pid port mode ss d = Some ts0 \<and> me_auto_approve me \<and> te_sha1 env = sha1 \<and> ts_init env me penv ts0 = (Inr True, ts))"

lemma ts_inv_pm:
  assumes inv: "ts_inv sha1 ref ts" and st: "pm_step (ts_state ts, ts_pm ts) (ss, pm)"
  shows "ts_inv sha1 ref ((on_state (\<lambda>_. ss) ts)\<lparr> ts_pm := pm \<rparr>)"
proof -
  have "pm_good (ts_state ts, ts_pm ts)"
    using inv fm_ready_D(1) [OF fm_inv_D(1)] by (simp add: ts_inv_def pm_good_def)
  then have k: "pm_keeps (ts_state ts, ts_pm ts) (ss, pm)"
    by (rule pm_step_keeps [OF st])
  then have "ts_inv sha1 ref (on_state (\<lambda>_. ss) ts)"
    by (intro ts_inv_state [OF inv]) (simp add: pm_keeps_def)
  then show ?thesis
    using k by (simp add: ts_inv_def pm_keeps_def pm_good_def)
qed

lemma ts_inv_sent: "ts_inv sha1 ref ts \<Longrightarrow> ts_inv sha1 ref (record_request_sent now p b peer ts)"
proof -
  assume inv: "ts_inv sha1 ref ts"
  define f :: "InProgressPiece \<Rightarrow> InProgressPiece" where "f = (\<lambda>ip. let b = b div BLOCK_SIZE
      in if ip_total_blocks ip \<le> b \<or> ip_received ip ! b then ip
         else ip\<lparr> ip_outstanding := (ip_outstanding ip)[b := (if peer \<in> set (ip_outstanding ip ! b) then ip_outstanding ip ! b
                    else ip_outstanding ip ! b @ [peer])],
                  ip_request_times := (ip_request_times ip)[b := now] \<rparr>)"
  have "shapely f"
    by (rule shapelyI) (simp add: f_def Let_def)
  then show ?thesis
    unfolding record_request_sent_def f_def [symmetric]
    using inv by (intro ts_inv_pieces) (simp_all add: ts_inv_def pieces_ok_update)
qed

lemma save_session_same:
  assumes inv: "ts_inv sha1 ref ts" and sv: "save_session_state mtime ts = (r, ts')"
  shows "ts_inv sha1 ref ts'" "ts' = ts\<lparr> ts_fm := ts_fm ts' \<rparr>" "same_bytes (ts_fm ts) (ts_fm ts')"
proof -
  obtain r' fm where s: "save_resume_data (resume_serialize (session_resume mtime ts)) (ts_fm ts) = (r', fm)"
    by fastforce
  then have ts': "ts' = ts\<lparr> ts_fm := fm \<rparr>"
    using sv by (auto simp: save_session_state_def split: sum.splits)
  have same: "same_bytes (ts_fm ts) fm"
    using inv save_resume_same(1) [of "ts_fm ts" "resume_serialize (session_resume mtime ts)"] s by (simp add: ts_inv_def resume_apart_def)
  show "ts_inv sha1 ref ts'" "ts' = ts\<lparr> ts_fm := ts_fm ts' \<rparr>" "same_bytes (ts_fm ts) (ts_fm ts')"
    using ts_inv_bytes [OF inv same] same by (simp_all add: ts')
qed

lemma ts_inv_fair:
  assumes "te_sha1 env = sha1" "ts_inv sha1 ref ts" "fair_request h (decode_message msg) ts"
  shows "ts_inv sha1 ref (snd (message_turn env (on_extended_message env me) h msg ts))"
proof -
  have ext: "ts_inv (te_sha1 env) ref (snd (on_extended_message env me h payload ts))" for payload
  proof -
    have "\<not> ts_metadata_active ts"
      using assms(2) by (simp add: ts_inv_def)
    then show ?thesis
      using peers_only_inv [OF extended_peers_only] assms(1,2) by blast
  qed
  show ?thesis
  proof (cases "\<exists>p b n. decode_message msg = MRequest p b n \<and> pc_am_choking (ts_conn ts h)")
    case True
    then show ?thesis
      using assms(2) by (auto simp: message_turn_def handle_message_def on_block_request_def)
  next
    case False
    then show ?thesis
      using ts_inv_turn [of env ref ts "on_extended_message env me" h msg] ext assms by (force simp: fair_request_def)
  qed
qed

lemma ts_step_inv: "ts_step sha1 ts ts' \<Longrightarrow> ts_inv sha1 ref ts \<Longrightarrow> ts_inv sha1 ref ts'"
proof (induction rule: ts_step.induct)
  case (ts_message env h msg ts me alive ts')
  then show ?case
    using ts_inv_fair [of env sha1 ref ts h msg me] by simp
next
  case (ts_flush ts)
  then show ?case
    using flush_content(2) [of "ts_fm ts"] by (intro ts_inv_bytes) (simp_all add: ts_inv_def)
next
  case (ts_save mtime ts r ts')
  then show ?case
    using save_session_same(1) by blast
qed (simp_all add: ts_inv_disconnect ts_inv_pm ts_inv_sent)

interpretation ts_system: invariant_system "ts_started sha1 ss" "ts_step sha1" "ts_inv sha1 ss" for sha1 ss
proof
  show "ts_started sha1 ss ts \<Longrightarrow> ts_inv sha1 ss ts" for ts
    unfolding ts_started_def using init_inv by blast
  show "ts_inv sha1 ss ts \<Longrightarrow> ts_step sha1 ts ts' \<Longrightarrow> ts_inv sha1 ss ts'" for ts ts'
    by (rule ts_step_inv)
qed

text \<open>The stop writes what the cache holds.\<close>

lemma stop_durable:
  assumes inv: "ts_inv sha1 ref ts" and run: "\<not> ts_shutting_down ts"
  shows "stored (ts_state ts) (fm_disk (ts_fm (ts_stop mtime ts))) = content (ts_fm ts)"
proof -
  define ts1 where "ts1 = on_pieces pm_signal_shutdown (on_peers mg_cancel (ts\<lparr> ts_shutting_down := True \<rparr>))"
  have "pieces_ok (ts_state ts) (pm_signal_shutdown (ts_pm ts))"
    by (simp add: pieces_ok_def pm_signal_shutdown_def in_progress_piece_def)
  then have inv1: "ts_inv sha1 ref ts1" "ts_fm ts1 = ts_fm ts"
    using inv by (simp_all add: ts1_def ts_inv_pieces)
  define ts2 where "ts2 = (if ts_mode ts1 \<noteq> Seed then snd (save_session_state mtime ts1) else ts1)"
  have "same_bytes (ts_fm ts1) (ts_fm ts2)"
    using save_session_same(3) [OF inv1(1)] same_bytes_refl inv1 by (cases "save_session_state mtime ts1") (simp_all add: ts2_def ts_inv_def)
  then have same: "fm_inv (ts_fm ts2)" "fm_session (ts_fm ts2) = ts_state ts" "content (ts_fm ts2) = content (ts_fm ts)"
    by (simp_all add: same_bytes_def inv1(2))
  have "ts_fm (ts_stop mtime ts) = close_file_manager (ts_fm ts2)"
    using run unfolding ts_stop_def Let_def ts1_def [symmetric] ts2_def [symmetric] by simp
  then show ?thesis
    using flush_content [OF same(1)] close_file_manager_disk [of "ts_fm ts2"] same by (simp add: same_bytes_def)
qed

subsection \<open>A piece arrives in blocks\<close>

definition block_of :: "byte list \<Rightarrow> nat \<Rightarrow> byte list" where
  "block_of data b = take BLOCK_SIZE (drop (b * BLOCK_SIZE) data)"

lemma length_block_of_eq: "length (block_of xs b) = min BLOCK_SIZE (length xs - b * BLOCK_SIZE)"
  by (simp add: block_of_def min.commute)

lemma block_of_nth: "j < BLOCK_SIZE \<Longrightarrow> b * BLOCK_SIZE + j < length xs \<Longrightarrow> block_of xs b ! j = xs ! (b * BLOCK_SIZE + j)"
  by (simp add: block_of_def)

lemma blocks_determine:
  assumes "length xs = length ys" "\<And>b. b < (length ys + BLOCK_SIZE - 1) div BLOCK_SIZE \<Longrightarrow> block_of xs b = block_of ys b"
  shows "xs = ys"
proof (rule nth_equalityI)
  fix i assume i: "i < length xs"
  let ?b = "i div BLOCK_SIZE" and ?j = "i mod BLOCK_SIZE"
  have j: "?j < BLOCK_SIZE" "?b * BLOCK_SIZE + ?j = i"
    by (simp_all add: BLOCK_SIZE_pos)
  have "i div BLOCK_SIZE < (length ys + BLOCK_SIZE - 1) div BLOCK_SIZE"
  proof -
    have "(i + BLOCK_SIZE) div BLOCK_SIZE \<le> (length ys + BLOCK_SIZE - 1) div BLOCK_SIZE"
      using i assms(1) by (intro div_le_mono) linarith
    then show ?thesis
      using BLOCK_SIZE_pos div_add_self2 [of BLOCK_SIZE i] by simp
  qed
  then have "block_of xs ?b ! ?j = block_of ys ?b ! ?j"
    using assms(2) by simp
  moreover have "block_of zs ?b ! ?j = zs ! i" if "length zs = length xs" for zs
    using block_of_nth [OF j(1), of ?b zs] i that by (simp only: j(2))
  ultimately show "xs ! i = ys ! i"
    using assms(1) by simp
qed (rule assms(1))

lemma length_block_of: "b * BLOCK_SIZE < length data \<Longrightarrow> b * BLOCK_SIZE + length (block_of data b) \<le> length data"
  by (simp add: block_of_def)

text \<open>Storing a block changes that block and no other.\<close>

lemma block_of_store:
  assumes "length xs = length data" "b * BLOCK_SIZE < length data"
  shows "block_of (take (b * BLOCK_SIZE) xs @ block_of data b @ drop (b * BLOCK_SIZE + length (block_of data b)) xs) c =
    (if c = b then block_of data b else block_of xs c)"
proof -
  define l where "l = take (b * BLOCK_SIZE) xs @ block_of data b @ drop (b * BLOCK_SIZE + length (block_of data b)) xs"
  have len: "length l = length xs"
    using assms length_block_of [OF assms(2)] by (simp add: l_def)
  have "block_of l c = (if c = b then block_of data b else block_of xs c)"
  proof (rule nth_equalityI)
    show "length (block_of l c) = length (if c = b then block_of data b else block_of xs c)"
      using assms(1) len by (simp add: length_block_of_eq)
    fix i assume "i < length (block_of l c)"
    then have i: "i < BLOCK_SIZE" "c * BLOCK_SIZE + i < length xs"
      using len by (auto simp: length_block_of_eq)
    have nth: "block_of zs c ! i = zs ! (c * BLOCK_SIZE + i)" if "length zs = length xs" for zs
      using block_of_nth i that by simp
    consider "c = b" | "c < b" | "b < c"
      by linarith
    then show "block_of l c ! i = (if c = b then block_of data b else block_of xs c) ! i"
    proof cases
      case 1
      then have "i < length data - b * BLOCK_SIZE"
        using i(2) assms(1) by (simp add: less_diff_conv add.commute)
      then show ?thesis
        using 1 nth [OF len] i assms by (simp add: l_def nth_append length_block_of_eq)
    next
      case 2
      then have "c * BLOCK_SIZE + i < b * BLOCK_SIZE"
        using i(1) mult_le_mono1 [of "Suc c" b BLOCK_SIZE] by simp
      then show ?thesis
        using 2 nth [OF len] nth [OF refl] i by (simp add: l_def nth_append)
    next
      case 3
      then have le: "b * BLOCK_SIZE + length (block_of data b) \<le> c * BLOCK_SIZE + i"
        using mult_le_mono1 [of "Suc b" c BLOCK_SIZE] by (simp add: block_of_def)
      define j where "j = c * BLOCK_SIZE + i"
      have "\<not> j < b * BLOCK_SIZE" "\<not> j - b * BLOCK_SIZE < length (block_of data b)" "b * BLOCK_SIZE + length (block_of data b) \<le> length xs"
        using le i(2) by (auto simp: j_def)
      then have "l ! j = xs ! j"
        using le assms(2) by (simp add: l_def nth_append assms(1) j_def [symmetric])
      then show ?thesis
        using 3 nth [OF len] nth [OF refl] by (simp add: j_def)
    qed
  qed
  then show ?thesis
    by (simp add: l_def)
qed

text \<open>What a piece in progress holds of a piece of the torrent, and what it still waits for.\<close>

definition holds_blocks :: "byte list \<Rightarrow> InProgressPiece \<Rightarrow> bool" where
  "holds_blocks data ip \<longleftrightarrow> (\<forall>b < ip_total_blocks ip. ip_received ip ! b \<longrightarrow> block_of (ip_data ip) b = block_of data b)"

definition same_progress :: "InProgressPiece \<Rightarrow> InProgressPiece \<Rightarrow> bool" where
  "same_progress ip ip' \<longleftrightarrow> ip_data ip' = ip_data ip \<and> ip_received ip' = ip_received ip \<and> ip_total_blocks ip' = ip_total_blocks ip \<and>
    ip_received_count ip' = ip_received_count ip"

lemma accept_block_piece:
  assumes "in_progress_piece (ts_pm ts) p = Some ip"
  shows "\<exists>ip''. in_progress_piece (ts_pm (accept_block h p b len ip' ts)) p = Some ip'' \<and> same_progress ip' ip''"
proof -
  define ts1 where "ts1 = on_pieces (update_piece p (\<lambda>_. ip')) ts"
  have 1: "in_progress_piece (ts_pm ts1) p = Some ip'"
    using assms by (simp add: ts1_def)
  define ts2 where "ts2 = (if ss_endgame (ts_state ts1) then send_cancel_for_block p b (pc_peer_id (ts_conn ts1 h)) ts1 else ts1)"
  obtain ip2 where 2: "in_progress_piece (ts_pm ts2) p = Some ip2" "same_progress ip' ip2"
  proof -
    have "in_progress_piece (clear_block p b (ts_pm ts1)) p = Some (ip'\<lparr> ip_outstanding := (ip_outstanding ip')[b := []], ip_request_times := (ip_request_times ip')[b := 0] \<rparr>)"
      using 1 by (simp add: clear_block_def)
    then have "\<exists>ip2. in_progress_piece (ts_pm ts2) p = Some ip2 \<and> same_progress ip' ip2"
      using send_cancel_effect [of p b "pc_peer_id (ts_conn ts1 h)" ts1] 1 by (auto simp: ts2_def same_progress_def)
    then show ?thesis
      using that by blast
  qed
  have "\<exists>ip3. in_progress_piece (ensure_resume_piece_download p (ts_pm ts2)) p = Some ip3 \<and> same_progress ip2 ip3"
    using 2(1) by (auto simp: ensure_resume_piece_download_def same_progress_def in_progress_piece_def [of "_\<lparr> pm_resumes := _ \<rparr>"] in_progress_piece_def [symmetric])
  then show ?thesis
    using 2(2) unfolding accept_block_def Let_def ts1_def [symmetric] ts2_def [symmetric] by (auto simp: same_progress_def)
qed

text \<open>The piece \<open>p\<close> is present with the bytes \<open>data\<close>.\<close>

definition piece_done :: "nat \<Rightarrow> byte list \<Rightarrow> TorrentSession \<Rightarrow> bool" where
  "piece_done p data ts \<longleftrightarrow> p < length (ss_piece_status (ts_state ts)) \<and> piece_status (ts_state ts) p = Have \<and> in_progress_piece (ts_pm ts) p = None \<and>
    take (plen (ts_state ts) p) (drop (p * psize (ts_state ts)) (content (ts_fm ts))) = data"

lemma piece_done_cong: "ts_fm ts' = ts_fm ts \<Longrightarrow> ts_pm ts' = ts_pm ts \<Longrightarrow> piece_done p data ts' = piece_done p data ts"
  by (simp add: piece_done_def)

lemma piece_done_finish: "fm_inv (ts_fm ts) \<Longrightarrow> piece_done p data ts \<Longrightarrow> piece_done p data (finish_download ts)"
proof -
  assume a: "fm_inv (ts_fm ts)" "piece_done p data ts"
  let ?ss = "(ts_state ts)\<lparr> ss_download_complete := True \<rparr>"
  have lay: "same_layout (ts_state ts) ?ss"
    by (simp add: same_layout_def)
  note u = session_update_same [OF a(1) lay]
  define fm where "fm = flush_all_dirty ((ts_fm ts)\<lparr> fm_session := ?ss \<rparr>)"
  have fm: "fm_session fm = ?ss" "content fm = content (ts_fm ts)"
    using flush_content(2) [OF u(1)] u(2) by (simp_all add: fm_def same_bytes_def)
  have "ts_fm (finish_download ts) = fm" "ts_pm (finish_download ts) = ts_pm ts"
    by (simp_all add: finish_download_def Let_def fm_def on_state_def on_peers_def)
  then show ?thesis
    using a(2) by (simp add: piece_done_def fm layout_frame(9) [OF lay] piece_status_def)
qed

lemma complete_piece_done:
  assumes inv: "ts_inv (te_sha1 env) ref ts" and p: "p < ss_num_pieces (ts_state ts)" and len: "length data = plen (ts_state ts) p"
    and hash: "te_sha1 env data = expected_hash (ts_state ts) p"
  shows "piece_done p data (complete_piece env h p data ts)"
proof -
  let ?ss = "ts_state ts" and ?ss' = "add_completed_pieces 1 (set_piece_status p Have (ts_state ts))"
  have fm: "fm_inv (ts_fm ts)" "length (ss_piece_status ?ss) = ss_num_pieces ?ss"
    using inv by (simp_all add: ts_inv_def)
  note w = write_piece_valid [OF fm(1) p len]
  define ts1 where "ts1 = on_state (add_completed_pieces 1 \<circ> set_piece_status p Have) (ts\<lparr> ts_fm := write_piece p data (ts_fm ts) \<rparr>)"
  define ts2 where "ts2 = on_pieces (remove_in_progress_piece p) (on_peers (send_have_message_to_all p) ts1)"
  have lay: "same_layout ?ss ?ss'"
    by (simp add: same_layout_def add_completed_pieces_def set_piece_status_def)
  note u = session_update_same [OF w(1), unfolded w(2), OF lay]
  have "ts_fm ts2 = (write_piece p data (ts_fm ts))\<lparr> fm_session := ?ss' \<rparr>"
    by (simp add: ts2_def ts1_def on_state_def w(2))
  moreover have "in_progress_piece (ts_pm ts2) p = None"
    by (simp add: ts2_def remove_in_progress_piece_def in_progress_piece_def map_simps)
  moreover have "psize ?ss' = psize ?ss" "ss_piece_status ?ss' = (ss_piece_status ?ss)[p := Have]"
    by (simp_all add: add_completed_pieces_def set_piece_status_def)
  ultimately have "piece_done p data ts2" "fm_inv (ts_fm ts2)"
    using w(4) u p fm(2) by (simp_all add: piece_done_def piece_status_def layout_frame(9) [OF lay] del: One_nat_def)
  then show ?thesis
    using hash piece_done_finish unfolding complete_piece_def Let_def ts1_def [symmetric] ts2_def [symmetric] by simp
qed

subsection \<open>Deliveries\<close>

text \<open>Block \<open>b\<close> of the piece arrives from the connection \<open>h\<close>.\<close>

definition deliver :: "nat \<Rightarrow> byte list \<Rightarrow> ts_env \<times> handle \<times> nat \<Rightarrow> TorrentSession \<Rightarrow> TorrentSession" where
  "deliver p data x ts = (case x of (env, h, b) \<Rightarrow> snd (on_piece_block env h p (b * BLOCK_SIZE) (block_of data b) ts))"

text \<open>The piece is on its way: what arrived is right and at least one block is missing.\<close>

definition piece_coming :: "nat \<Rightarrow> byte list \<Rightarrow> nat set \<Rightarrow> TorrentSession \<Rightarrow> bool" where
  "piece_coming p data missing ts \<longleftrightarrow> (\<exists>ip. in_progress_piece (ts_pm ts) p = Some ip \<and> piece_status (ts_state ts) p \<noteq> Have \<and>
    holds_blocks data ip \<and> missing = {b. b < ip_total_blocks ip \<and> \<not> ip_received ip ! b} \<and> missing \<noteq> {})"

lemma piece_done_stays:
  assumes "piece_done p data ts"
  shows "piece_done p data (deliver p data x ts)"
proof -
  obtain env h b where x: "x = (env, h, b)"
    by (cases x)
  have "deliver p data x ts = with_conn h (send_cancel p (b * BLOCK_SIZE) (to_u32 (length (block_of data b))))
      (with_conn h (\<lambda>pc. pc\<lparr> pc_last_data_received := te_now env \<rparr>) ts)"
    using assms by (simp add: x deliver_def on_piece_block_def Let_def piece_done_def)
  then show ?thesis
    using assms by (simp add: piece_done_def)
qed

lemma block_start: "b < (n + BLOCK_SIZE - 1) div BLOCK_SIZE \<Longrightarrow> b * BLOCK_SIZE < n"
proof -
  assume "b < (n + BLOCK_SIZE - 1) div BLOCK_SIZE"
  then have "Suc b * BLOCK_SIZE \<le> n + BLOCK_SIZE - 1"
    using div_times_less_eq_dividend [of "n + BLOCK_SIZE - 1" BLOCK_SIZE] mult_le_mono1 [of "Suc b" "(n + BLOCK_SIZE - 1) div BLOCK_SIZE" BLOCK_SIZE]
    by linarith
  then show ?thesis
    using BLOCK_SIZE_pos by simp
qed

lemma count_full: "length (filter id xs) = length xs \<longleftrightarrow> (\<forall>b < length xs. xs ! b)"
proof -
  have "length (filter id xs) = length xs \<longleftrightarrow> (\<forall>x \<in> set xs. id x)"
    using length_filter_less [of _ xs id] by (metis filter_True less_irrefl)
  then show ?thesis
    by (simp add: all_set_conv_all_nth)
qed

lemma same_expected: "same_layout ref ss \<Longrightarrow> expected_hash ss = expected_hash ref \<and> plen ss = plen ref \<and> ss_num_pieces ss = ss_num_pieces ref"
  using layout_frame(9) [of ref ss] by (auto simp: expected_hash_def same_layout_def fun_eq_iff)

lemma deliver_ignored:
  assumes "piece_coming p data missing ts" "b \<notin> missing" "p < length (ss_piece_status (ts_state ts))"
    and "\<forall>ip. in_progress_piece (ts_pm ts) p = Some ip \<longrightarrow> length (ip_received ip) = ip_total_blocks ip"
  shows "piece_coming p data missing (deliver p data (env, h, b) ts)"
proof -
  obtain ip where ip: "in_progress_piece (ts_pm ts) p = Some ip" "piece_status (ts_state ts) p \<noteq> Have" "missing = {b. b < ip_total_blocks ip \<and> \<not> ip_received ip ! b}"
    using assms(1) by (auto simp: piece_coming_def)
  then have "length (ip_received ip) \<le> b \<or> ip_received ip ! b"
    using assms(2,4) by auto
  then have "deliver p data (env, h, b) ts = with_conn h (\<lambda>pc. pc\<lparr> pc_last_data_received := te_now env \<rparr>) ts"
    using assms(3) ip(1,2) BLOCK_SIZE_pos by (simp add: deliver_def on_piece_block_def Let_def)
  then show ?thesis
    using assms(1) by (simp add: piece_coming_def)
qed

lemma deliver_missing:
  assumes inv: "ts_inv (te_sha1 env) ref ts" and coming: "piece_coming p data missing ts" and b: "b \<in> missing" and p: "p < ss_num_pieces ref"
    and len: "length data = plen ref p" and hash: "te_sha1 env data = expected_hash ref p"
  shows "if missing = {b} then piece_done p data (deliver p data (env, h, b) ts) else piece_coming p data (missing - {b}) (deliver p data (env, h, b) ts)"
proof -
  define ts0 where "ts0 = with_conn h (\<lambda>pc. pc\<lparr> pc_last_data_received := te_now env \<rparr>) ts"
  have inv0: "ts_inv (te_sha1 env) ref ts0" and st0: "ts_state ts0 = ts_state ts" "ts_pm ts0 = ts_pm ts"
    using inv by (simp_all add: ts0_def)
  obtain ip where ip: "in_progress_piece (ts_pm ts) p = Some ip" "piece_status (ts_state ts) p \<noteq> Have" "holds_blocks data ip"
      "missing = {b. b < ip_total_blocks ip \<and> \<not> ip_received ip ! b}"
    using coming by (auto simp: piece_coming_def)
  have ref: "same_layout ref (ts_state ts)" "p < length (ss_piece_status (ts_state ts))" and ok: "ip_ok (plen ref p) ip"
    using inv ip(1) p same_expected [of ref "ts_state ts"] by (auto simp: ts_inv_def pieces_ok_def)
  have b': "b < length (ip_received ip)" "\<not> ip_received ip ! b" "b * BLOCK_SIZE < length data"
    using b ok ip(4) len block_start [of b "plen ref p"] by (simp_all add: ip_ok_def)
  have fits: "b * BLOCK_SIZE + length (block_of data b) \<le> length (ip_data ip)"
    using length_block_of [OF b'(3)] ok len by (simp add: ip_ok_def)
  define ip' where "ip' = store_block (te_now env) (b * BLOCK_SIZE) (block_of data b) ip"
  define ts3 where "ts3 = accept_block h p b (length (block_of data b)) ip' ts0"
  have div: "b * BLOCK_SIZE div BLOCK_SIZE = b"
    using BLOCK_SIZE_pos by simp
  have ok': "ip_ok (plen ref p) ip'"
    unfolding ip'_def using store_block_ok [OF ok] b' fits by (simp add: div)
  have data': "ip_data ip' = take (b * BLOCK_SIZE) (ip_data ip) @ block_of data b @ drop (b * BLOCK_SIZE + length (block_of data b)) (ip_data ip)"
    and rcv': "ip_received ip' = (ip_received ip)[b := True]" "ip_total_blocks ip' = ip_total_blocks ip"
    by (simp_all add: ip'_def store_block_def Let_def div)
  have holds: "holds_blocks data ip'"
    unfolding holds_blocks_def
  proof (intro allI impI)
    fix c assume c: "c < ip_total_blocks ip'" "ip_received ip' ! c"
    show "block_of (ip_data ip') c = block_of data c"
      unfolding data' using block_of_store [of "ip_data ip" data b c] b' c ok len ip(3) rcv' by (auto simp: ip_ok_def holds_blocks_def)
  qed
  have missing': "missing - {b} = {c. c < ip_total_blocks ip' \<and> \<not> ip_received ip' ! c}"
    using b'(1) ok by (auto simp: ip(4) rcv' ip_ok_def nth_list_update)
  have run: "deliver p data (env, h, b) ts = (if ip_received_count ip' = ip_total_blocks ip' then complete_piece env h p (ip_data ip') ts3 else ts3)"
    using ip(1,2) b'(1,2) fits ref(2) unfolding deliver_def prod.case on_piece_block_def Let_def ts0_def [symmetric] div
    by (simp add: st0 ip'_def [symmetric] ts3_def [symmetric])
  obtain ip'' where ip'': "in_progress_piece (ts_pm ts3) p = Some ip''" "same_progress ip' ip''"
    using accept_block_piece [of ts0 p ip h b "length (block_of data b)" ip'] ip(1) by (auto simp: ts3_def st0)
  have st3: "ts_state ts3 = add_total_bytes_downloaded (length (block_of data b)) (ts_state ts)"
    using accept_block_state by (simp add: ts3_def st0)
  have inv3: "ts_inv (te_sha1 env) ref ts3"
    unfolding ts3_def using accept_block_inv [OF inv0, of p ip ip'] ip(1) ok' same_expected [OF ref(1)] by (simp add: st0)
  have "length (ip_received ip') = ip_total_blocks ip'" "ip_received_count ip' = length (filter id (ip_received ip'))"
    using ok' by (simp_all add: ip_ok_def)
  then have "ip_received_count ip' = ip_total_blocks ip' \<longleftrightarrow> (\<forall>c < ip_total_blocks ip'. ip_received ip' ! c)"
    using count_full [of "ip_received ip'"] by simp
  then have full: "ip_received_count ip' = ip_total_blocks ip' \<longleftrightarrow> missing - {b} = {}"
    unfolding missing' by blast
  show ?thesis
  proof (cases "missing = {b}")
    case True
    have all: "ip_received ip' ! c" if "c < ip_total_blocks ip'" for c
      using missing' True that by blast
    have n: "length (ip_data ip') = length data" "ip_total_blocks ip' = (length data + BLOCK_SIZE - 1) div BLOCK_SIZE"
      using ok' len by (simp_all add: ip_ok_def)
    have "ip_data ip' = data"
    proof (rule blocks_determine [OF n(1)])
      fix c assume "c < (length data + BLOCK_SIZE - 1) div BLOCK_SIZE"
      then show "block_of (ip_data ip') c = block_of data c"
        using holds all unfolding holds_blocks_def n(2) by blast
    qed
    moreover have "same_layout ref (ts_state ts3)"
      using inv3 by (simp add: ts_inv_def)
    ultimately have "piece_done p data (complete_piece env h p (ip_data ip') ts3)"
      using complete_piece_done [OF inv3, of p data h] p len hash same_expected [of ref "ts_state ts3"] by simp
    then show ?thesis
      using True full run by simp
  next
    case False
    then have "missing - {b} \<noteq> {}"
      using b by auto
    moreover have "piece_status (ts_state ts3) p \<noteq> Have"
      using ip(2) by (simp add: st3 add_total_bytes_downloaded_def piece_status_def)
    moreover have "holds_blocks data ip''" "missing - {b} = {c. c < ip_total_blocks ip'' \<and> \<not> ip_received ip'' ! c}"
      using holds ip''(2) unfolding missing' by (simp_all add: same_progress_def holds_blocks_def)
    ultimately have "piece_coming p data (missing - {b}) ts3"
      unfolding piece_coming_def using ip''(1) by blast
    then show ?thesis
      using False full run \<open>missing - {b} \<noteq> {}\<close> by simp
  qed
qed

text \<open>The piece is there, or on its way with all missing blocks among \<open>B\<close>.\<close>

definition arriving :: "nat \<Rightarrow> byte list \<Rightarrow> nat set \<Rightarrow> TorrentSession \<Rightarrow> bool" where
  "arriving p data B ts \<longleftrightarrow> piece_done p data ts \<or> (\<exists>missing. piece_coming p data missing ts \<and> missing \<subseteq> B)"

lemma arriving_peers [simp]: "arriving p data B (on_peers f ts) = arriving p data B ts"
  by (simp add: arriving_def piece_done_def piece_coming_def)

lemma arriving_done: "arriving p data {} ts \<Longrightarrow> piece_done p data ts"
  by (auto simp: arriving_def piece_coming_def)

lemma in_progress_arriving:
  assumes "in_progress_piece (ts_pm ts) p = Some ip" "piece_status (ts_state ts) p \<noteq> Have" "holds_blocks data ip"
    and "\<exists>b < ip_total_blocks ip. \<not> ip_received ip ! b" "\<And>b. b < ip_total_blocks ip \<Longrightarrow> \<not> ip_received ip ! b \<Longrightarrow> b \<in> B"
  shows "arriving p data B ts"
proof -
  have "piece_coming p data {b. b < ip_total_blocks ip \<and> \<not> ip_received ip ! b} ts"
    using assms(1-4) unfolding piece_coming_def by blast
  then show ?thesis
    using assms(5) unfolding arriving_def by blast
qed

lemma arriving_step:
  assumes inv: "ts_inv (te_sha1 env) ref ts" and p: "p < ss_num_pieces ref" and len: "length data = plen ref p"
    and hash: "te_sha1 env data = expected_hash ref p" and arr: "arriving p data (insert b B) ts"
  shows "arriving p data B (deliver p data (env, h, b) ts)" "ts_inv (te_sha1 env) ref (deliver p data (env, h, b) ts)"
proof -
  show "ts_inv (te_sha1 env) ref (deliver p data (env, h, b) ts)"
    using ts_inv_piece_block [OF inv] by (simp add: deliver_def)
  show "arriving p data B (deliver p data (env, h, b) ts)"
  proof (cases "piece_done p data ts")
    case True
    then show ?thesis
      using piece_done_stays by (auto simp: arriving_def)
  next
    case False
    then obtain missing where m: "piece_coming p data missing ts" "missing \<subseteq> insert b B"
      using arr by (auto simp: arriving_def)
    show ?thesis
    proof (cases "b \<in> missing")
      case True
      show ?thesis
        using deliver_missing [OF inv m(1) True p len hash, of h] m(2) unfolding arriving_def by (auto split: if_splits)
    next
      case False
      have "p < length (ss_piece_status (ts_state ts))" "\<forall>ip. in_progress_piece (ts_pm ts) p = Some ip \<longrightarrow> length (ip_received ip) = ip_total_blocks ip"
        using inv p same_expected [of ref "ts_state ts"] by (auto simp: ts_inv_def pieces_ok_def ip_ok_def)
      then show ?thesis
        using deliver_ignored [OF m(1) False, of env h] m(2) False unfolding arriving_def by blast
    qed
  qed
qed

lemma deliveries_complete:
  assumes "p < ss_num_pieces ref" "length data = plen ref p" "sha1 data = expected_hash ref p"
    and "ts_inv sha1 ref ts" "\<forall>(env, h, b) \<in> set ds. te_sha1 env = sha1" "arriving p data ((snd \<circ> snd) ` set ds) ts"
  shows "piece_done p data (fold (deliver p data) ds ts) \<and> ts_inv sha1 ref (fold (deliver p data) ds ts)"
  using assms(4-6)
proof (induction ds arbitrary: ts)
  case Nil
  then show ?case
    by (simp add: arriving_done)
next
  case (Cons x ds)
  obtain env h b where x: "x = (env, h, b)" "te_sha1 env = sha1"
    using Cons.prems(2) by (cases x) auto
  show ?case
    using arriving_step [of env ref ts p data b "(snd \<circ> snd) ` set ds" h] Cons assms(1-3) x by (simp add: x)
qed

subsection \<open>Claims\<close>

text \<open>C1: a piece marked as present is the piece of the torrent.  A session is started with every file approved
  for download, over any disk whose files, where they exist, have their size: seeding, downloading or both, with
  any resume file, however wrong.  From then on peers send any messages in any order and disconnect, the piece
  manager's coroutines run, blocks are requested, flushed and evicted and progress is saved, interleaved in any
  way, under two conditions: a REQUEST that is served asks for bytes of one block, or from the start of a piece
  that has nothing waiting to be written (see \<open>overlong_read_drops_write\<close> for the others), and the reads and
  flushes of the storage run one at a time.  In every state that is reached the torrent is the one the session
  started with, and every piece marked as present has the hash the torrent lists for it: in the storage as
  readers see it, and, until a stop was begun, in the files that the stop of the session leaves on disk.\<close>

theorem have_pieces_verified:
  assumes "reachable (ts_started sha1 ss) (ts_step sha1) ts"
  shows "ss_meta (ts_state ts) = ss_meta ss \<and> ss_num_pieces (ts_state ts) = ss_num_pieces ss \<and>
    (\<forall>p < ss_num_pieces ss. piece_status (ts_state ts) p = Have \<longrightarrow> piece_valid sha1 ss (content (ts_fm ts)) p \<and>
      (\<not> ts_shutting_down ts \<longrightarrow> piece_valid sha1 ss (stored ss (fm_disk (ts_fm (ts_stop mtime ts)))) p))"
proof -
  have inv: "ts_inv sha1 ss ts"
    by (rule ts_system.reachable_inv [OF assms])
  then have lay: "same_layout ss (ts_state ts)"
    by (simp add: ts_inv_def)
  then show ?thesis
    using inv stop_durable [OF inv, of mtime] piece_valid_layout [OF lay, of sha1] layout_frame(4) [OF lay]
    by (auto simp: ts_inv_def same_layout_def)
qed

text \<open>C2: a piece arrives.  Take a piece in progress with a block missing, whose blocks that have arrived are the right
  ones (which a resume file does not promise), and deliver the right data for its missing blocks, in any order,
  from any connections, with repetitions and with blocks that were there already, in or out of endgame: when all
  of them have arrived the piece is marked as present, it is no longer in progress, and the storage holds exactly
  its bytes.\<close>

theorem piece_arrives:
  assumes "ts_inv sha1 ss ts" "in_progress_piece (ts_pm ts) p = Some ip" "piece_status (ts_state ts) p \<noteq> Have"
    and "length data = plen ss p" "sha1 data = expected_hash ss p"
    and "\<forall>b < ip_total_blocks ip. ip_received ip ! b \<longrightarrow> block_of (ip_data ip) b = block_of data b"
    and "\<exists>b < ip_total_blocks ip. \<not> ip_received ip ! b"
    and "\<forall>(env, h, b) \<in> set ds. te_sha1 env = sha1"
    and "\<forall>b < ip_total_blocks ip. \<not> ip_received ip ! b \<longrightarrow> b \<in> (snd \<circ> snd) ` set ds"
  shows "piece_status (ts_state (fold (deliver p data) ds ts)) p = Have \<and> in_progress_piece (ts_pm (fold (deliver p data) ds ts)) p = None \<and>
    take (plen ss p) (drop (p * psize ss) (content (ts_fm (fold (deliver p data) ds ts)))) = data"
proof -
  have "p < ss_num_pieces ss"
    using assms(1,2) same_expected [of ss "ts_state ts"] by (auto simp: ts_inv_def pieces_ok_def)
  moreover have "arriving p data ((snd \<circ> snd) ` set ds) ts"
    by (rule in_progress_arriving [OF assms(2,3) _ assms(7)]) (use assms(6,9) in \<open>auto simp: holds_blocks_def\<close>)
  ultimately have "piece_done p data (fold (deliver p data) ds ts) \<and> ts_inv sha1 ss (fold (deliver p data) ds ts)"
    by (intro deliveries_complete [OF _ assms(4,5,1,8)])
  moreover from this have "same_layout ss (ts_state (fold (deliver p data) ds ts))"
    by (simp add: ts_inv_def)
  ultimately show ?thesis
    using same_expected [of ss "ts_state (fold (deliver p data) ds ts)"] by (auto simp: piece_done_def same_layout_def)
qed

text \<open>A session over the torrent of two pieces in two files.\<close>

definition demo_sha1 :: "byte list \<Rightarrow> byte list" where
  "demo_sha1 bs = replicate 20 (if bs = [1, 2, 3, 4] then 1 else if bs = [5, 6, 7, 8] then 2 else 0)"

definition demo_ts_env :: ts_env where
  "demo_ts_env = \<lparr> te_now = 0, te_sha1 = demo_sha1, te_address = (\<lambda>_. None), te_send_ok = (\<lambda>_. True) \<rparr>"

definition demo_meta_env :: meta_env where
  "demo_meta_env = \<lparr> me_alloc_ok = (\<lambda>_. True), me_auto_approve = True, me_reply = (\<lambda>_. None), me_seed_path_ok = True \<rparr>"

lemma demo_resume_path: "get_resume_file_path demo_session = ''/d/t/..resume''"
  by (simp add: get_resume_file_path_def path_append_def) (simp add: demo_session_def set_pieces_def new_session_def empty_meta_info_def bytes_to_hex_def)

lemma demo_startable: "startable_over demo_session demo_disk"
  by (simp add: startable_over_def resume_apart_def demo_resume_path demo_disk_def)

lemma demo_hashes: "piece_valid demo_sha1 demo_session [1, 2, 3, 4, 5, 6, 7, 8] 0" "piece_valid demo_sha1 demo_session [1, 2, 3, 4, 5, 6, 7, 8] 1"
  by (simp_all add: piece_valid_def plen_def demo_sha1_def)

text \<open>Its seeder and its downloader after the start.\<close>

lemma demo_seeder:
  obtains ts where "ts_started demo_sha1 demo_session ts" "ss_piece_status (ts_state ts) = [Have, Have]" "content (ts_fm ts) = [1, 2, 3, 4, 5, 6, 7, 8]"
    "\<not> ts_shutting_down ts" "fm_dirty (ts_fm ts) = []"
proof -
  obtain ts0 where new: "new_torrent_session [] 1 Seed demo_session demo_disk = Some ts0" and ts0: "ts_fm ts0 = demo_manager" "ts_mode ts0 = Seed" "\<not> ts_shutting_down ts0"
    by (auto simp: new_torrent_session_def)
  have content: "content demo_manager = [1, 2, 3, 4, 5, 6, 7, 8]" and disk: "fm_disk demo_manager = demo_disk" and num: "{..<2::nat} = {0, 1}"
    using new_file_manager_inv(4,5) [OF demo_session_wf demo_disk_ok demo_manager(1)] by auto
  obtain fm where fm: "verify_all demo_sha1 [0..<2] demo_manager = (Inr True, fm)" "same_bytes demo_manager fm" "fm_dirty fm = []"
    using verify_all_valid [of demo_manager "[0..<2]" demo_sha1] demo_hashes by (auto simp: content upt_conv_Cons)
  have v: "verify_seed_data demo_sha1 True (ts_fm ts0) = (Inr True, fm)"
    using fm(1) by (simp add: ts0 verify_seed_data_def sx_defs disk Let_def) (simp add: demo_disk_def to_u64_def)
  define ts where "ts = rebuild_rarity (on_state mark_all_have (ts0\<lparr> ts_fm := fm \<rparr>))"
  have fs: "fm_session fm = demo_session" "content fm = [1, 2, 3, 4, 5, 6, 7, 8]" "fm_inv fm"
    using fm(2) by (simp_all add: same_bytes_def content)
  have "ts_init demo_ts_env demo_meta_env penv ts0 = (Inr True, ts)" for penv
    using v by (simp add: ts_init_def ts0 ts_def demo_ts_env_def demo_meta_env_def)
  then have "ts_started demo_sha1 demo_session ts"
    using new demo_startable unfolding ts_started_def
    by (intro exI [of _ demo_disk] exI [of _ "[]"] exI [of _ 1] exI [of _ Seed] exI [of _ ts0] exI [of _ demo_ts_env] exI [of _ demo_meta_env] exI)
      (auto simp: demo_meta_env_def demo_ts_env_def)
  moreover have "ss_piece_status (ts_state ts) = [Have, Have]"
    by (simp add: ts_def rebuild_rarity_def mark_all_have_def fs upt_conv_Cons set_piece_status_def)
  moreover have "content (ts_fm ts) = [1, 2, 3, 4, 5, 6, 7, 8]" "\<not> ts_shutting_down ts" "fm_dirty (ts_fm ts) = []"
    using session_update_same(2) [OF fs(3), of "mark_all_have demo_session"] mark_all_have_layout(1) [of demo_session] fs ts0(3) fm(3)
    by (simp_all add: ts_def rebuild_rarity_def on_state_def)
  ultimately show ?thesis
    using that by blast
qed

theorem have_pieces_verified_witness:
  "\<exists>ts. reachable (ts_started demo_sha1 demo_session) (ts_step demo_sha1) ts \<and> piece_status (ts_state ts) 1 = Have \<and>
    piece_valid demo_sha1 demo_session (stored demo_session (fm_disk (ts_fm (ts_stop (\<lambda>_. 0) ts)))) 1"
proof -
  obtain ts where ts: "ts_started demo_sha1 demo_session ts" "ss_piece_status (ts_state ts) = [Have, Have]" "\<not> ts_shutting_down ts"
    by (rule demo_seeder)
  have "reachable (ts_started demo_sha1 demo_session) (ts_step demo_sha1) (ts\<lparr> ts_mg := new_peer_manager \<rparr>)"
    using ts(1) by (blast intro: reachable.intros ts_peers)
  from have_pieces_verified [OF this, of "\<lambda>_. 0"] this show ?thesis
    using ts(2,3) by (intro exI [of _ "ts\<lparr> ts_mg := new_peer_manager \<rparr>"]) (auto simp: piece_status_def)
qed

lemma demo_downloader:
  obtains ts where "ts_inv demo_sha1 demo_session ts" "in_progress_piece (ts_pm ts) 0 = Some (new_in_progress 4)" "piece_status (ts_state ts) 0 = Needed"
proof -
  obtain ts0 where new: "new_torrent_session [] 1 Leech demo_session demo_disk = Some ts0"
    by (auto simp: new_torrent_session_def)
  obtain fm where fm: "ts_wf demo_session (ts0\<lparr> ts_fm := fm \<rparr>)" "\<And>p. p < 2 \<Longrightarrow> piece_status (fm_session fm) p = Needed" "ss_num_pieces (fm_session fm) = 2"
    using init_fresh [OF demo_startable new] by (metis demo_session_simps(6))
  let ?ts = "ts0\<lparr> ts_fm := fm \<rparr>"
  have "ts_inv demo_sha1 demo_session ?ts"
    using fm by (intro ts_wf_inv) simp_all
  moreover have "plen (fm_session fm) 0 = 4"
    using fm(1) same_expected [of demo_session "fm_session fm"] by (simp add: ts_wf_def plen_def)
  then have "pieces_ok (fm_session fm) (emplace_in_progress_pieces 0 (new_in_progress 4) (ts_pm ts0))"
    using fm(1,3) new_in_progress_ok [of 4] by (intro pieces_ok_emplace) (simp_all add: ts_wf_def)
  ultimately have "ts_inv demo_sha1 demo_session (on_pieces (emplace_in_progress_pieces 0 (new_in_progress 4)) ?ts)"
    by (intro ts_inv_pieces) simp_all
  moreover have "in_progress_piece (emplace_in_progress_pieces 0 (new_in_progress 4) (ts_pm ts0)) 0 = Some (new_in_progress 4)"
    using new by (auto simp: new_torrent_session_def new_piece_manager_def emplace_in_progress_pieces_def in_progress_piece_def map_simps)
  ultimately show ?thesis
    using that [of "on_pieces (emplace_in_progress_pieces 0 (new_in_progress 4)) ?ts"] fm(2) [of 0] by simp
qed

theorem piece_arrives_witness:
  "\<exists>ts. piece_status (ts_state ts) 0 = Needed \<and> in_progress_piece (ts_pm ts) 0 = Some (new_in_progress 4) \<and>
    (let ts' = fold (deliver 0 [1, 2, 3, 4]) [(demo_ts_env, 7, 0), (demo_ts_env, 8, 0)] ts
     in piece_status (ts_state ts') 0 = Have \<and> take 4 (content (ts_fm ts')) = [1, 2, 3, 4])"
proof -
  obtain ts where ts: "ts_inv demo_sha1 demo_session ts" "in_progress_piece (ts_pm ts) 0 = Some (new_in_progress 4)" "piece_status (ts_state ts) 0 = Needed"
    by (rule demo_downloader)
  have "ip_total_blocks (new_in_progress 4) = 1" "ip_received (new_in_progress 4) = [False]" "plen demo_session 0 = 4"
      "demo_sha1 [1, 2, 3, 4] = expected_hash demo_session 0" "te_sha1 demo_ts_env = demo_sha1"
    by (simp_all add: new_in_progress_def Let_def plen_def demo_sha1_def expected_hash_def demo_ts_env_def BLOCK_SIZE_def to_u32_def)
  then show ?thesis
    using piece_arrives [OF ts(1,2), of "[1, 2, 3, 4]" "[(demo_ts_env, 7, 0), (demo_ts_env, 8, 0)]"] ts(2,3)
    by (intro exI [of _ ts]) (simp add: Let_def)
qed

end
