(* ===== verification/Spec2Isabelle.thy ===== *)
theory Spec2Isabelle
  imports Bencode Wire Backoff Resume MseHandshake DhtClient RateLimiter TrackerClient SessionRun
begin

text \<open>
  A verification development for a BitTorrent client and tracker written in C++ (\<^verbatim>\<open>src/src/\<close> of the repository).
  A torrent session (\<^verbatim>\<open>TorrentSession\<close>) owns the state of the torrent (\<^verbatim>\<open>SessionState\<close>), the storage
  (\<^verbatim>\<open>FileManager\<close>), the choice of pieces (\<^verbatim>\<open>PieceManager\<close>) and the connections (\<^verbatim>\<open>PeerManager\<close>, \<^verbatim>\<open>PeerConnection\<close>
  over \<^verbatim>\<open>AsyncSocket\<close>).  It finds peers through trackers (\<^verbatim>\<open>TrackerClient\<close>) and the DHT (\<^verbatim>\<open>Kademlia.hpp\<close>).  The tracker
  (\<^verbatim>\<open>Tracker\<close>) is a program of its own.

  \<^bold>\<open>Theories and sources.\<close>
  \<^item> \<open>Prelude\<close>: machine integers, bytes, big-endian fields, the parts of the C++ library the sources lean on
    (ordered maps as sorted association lists, \<^verbatim>\<open>std::from_chars\<close>), the monads of fallible and stateful code, and
    the locale \<open>invariant_system\<close> with the reachable states of a step relation.
  \<^item> \<open>Bencode\<close> (\<^verbatim>\<open>Bencode.cpp\<close>), \<open>Wire\<close> (buffers, identifiers, handshake of \<^verbatim>\<open>Utils.hpp\<close>), \<open>Resume\<close> (\<^verbatim>\<open>ResumeData\<close>),
    \<open>Backoff\<close> (\<^verbatim>\<open>BackoffState\<close>), \<open>RateLimiter\<close> (\<^verbatim>\<open>AsyncRateLimiter.hpp\<close>).
  \<^item> \<open>Mse\<close> (RC4 and Diffie-Hellman of \<^verbatim>\<open>Mse.hpp\<close>), \<open>Socket\<close> (framing and the write queue of \<^verbatim>\<open>AsyncSocket.hpp\<close>),
    \<open>MseHandshake\<close> (the negotiation of encryption there).
  \<^item> \<open>RouteTable\<close>, \<open>Krpc\<close>, \<open>Dht\<close>, \<open>DhtState\<close>, \<open>DhtClient\<close>: \<^verbatim>\<open>Kademlia.hpp\<close>, that is the routing table, the messages,
    the node as a server with its pending queries, its state file, and the node as a client.
  \<^item> \<open>Tracker\<close> (\<^verbatim>\<open>Tracker.hpp\<close> and the router of \<^verbatim>\<open>HttpServer.hpp\<close>), \<open>TrackerClient\<close> (\<^verbatim>\<open>TrackerClient.hpp\<close>).
  \<^item> \<open>TorrentFile\<close> (\<^verbatim>\<open>TorrentFile.hpp\<close>), \<open>SessionState\<close> (\<^verbatim>\<open>SessionState.hpp\<close>), \<open>PieceMaps\<close>, \<open>FileLayout\<close>, \<open>FileManager\<close>
    (\<^verbatim>\<open>FileManager.cpp\<close>: the maps between pieces and files, reads and writes across files, the cache with
    verification, pre-allocation and resume file).
  \<^item> \<open>PieceManager\<close>, \<open>PieceShape\<close> (\<^verbatim>\<open>PieceManager.cpp\<close> and what its steps keep), \<open>PeerConnection\<close>
    (\<^verbatim>\<open>PeerConnection.cpp\<close>: messages and the request pipeline), \<open>PeerManager\<close> (\<^verbatim>\<open>PeerManager.cpp\<close>: limits, bans,
    choking).
  \<^item> \<open>Session\<close>, \<open>Startup\<close>, \<open>Extensions\<close>, \<open>SessionRun\<close> (\<^verbatim>\<open>TorrentSession.cpp\<close>: the event handlers, the start, the
    extension messages, and all runs of a session).  This theory connects two sessions.

  \<^bold>\<open>Correspondence.\<close>  A class is a record of its members, one definition per member function with the name it
  has in the source; a throw is a value \<open>Inl\<close> of a result, with the changes made before it kept; a coroutine that
  suspends is cut into the steps between its suspensions where others can run in between (pending queries, the
  write queue, the rate limiter, the session).  Clocks, random numbers, hashes, the network, the file system and
  the parsers of libraries are arguments.  Time is in nanoseconds.

  \<^bold>\<open>What the lemmas show.\<close>  The formats read back what they write and the decoders are sound on every input.  The
  socket delivers frames unchanged however the network cuts them, with one writer at a time.  The handshake
  of encryption agrees on keys.  The routing table keeps its shape and finds the nearest nodes; announced peers
  are found, in the DHT and at the tracker, whatever arrives in between; no query is answered twice or forgotten;
  lookups end within their bounds.  The limiter keeps the rate and serves everybody.  The cached storage behaves
  as one array of bytes (locale \<open>block_store\<close> of \<open>FileManager\<close>, interpreted on the cache).  Pieces are
  requested by rarity and at the end from all peers within bounds; the pipeline and the connection table keep their
  limits.  Over all runs of a session a piece marked as present has its hash; a piece whose blocks arrive becomes
  present; and it travels from one session to another.  Lemmas named after a failure show where the code
  departs from its intention.

  \<^bold>\<open>Bounds and fuel.\<close>  Loops are total functions: by structure, by a measure (eviction, flushing of requests, field
  splitting), or with the bound of the code itself (nine lookups, six HTTP requests, four and five UDP attempts).
  The decoder of \<open>Bencode\<close> recurses on the input it has left.  Sizes are natural numbers reduced modulo
  \<open>2\<^sup>3\<^sup>2\<close> and \<open>2\<^sup>6\<^sup>4\<close> where the code computes in these types.

  \<^bold>\<open>Not modelled.\<close>  The user interface and command lines, configuration, magnet links, local discovery, logging,
  the thread pool and the HTTP I/O of Beast; the loops of the session that only call trackers and the DHT on
  timers.  Data races inside one function are not modelled; in the theorems on the storage its file operations
  run one at a time, and \<open>FileManager\<close> ends with what happens otherwise.  I/O errors other than missing and
  short files and cancellation are left out.
\<close>

subsection \<open>Two sessions exchange a piece\<close>

lemma decode_request: "i < 2 ^ 32 \<Longrightarrow> b < 2 ^ 32 \<Longrightarrow> n < 2 ^ 32 \<Longrightarrow> decode_message (triple_body Request (i, b, n)) = MRequest i b n"
  using read_triple_body [of i b n] by (simp add: triple_body_def decode_message_def codec_simps del: message_code.simps)

lemma decode_piece: "i < 2 ^ 32 \<Longrightarrow> b < 2 ^ 32 \<Longrightarrow> decode_message (message_code Piece # put_nat i @ put_nat b @ block) = MPiece i b block"
  by (simp add: decode_message_def put_nat_def unat_of_nat32 codec_simps del: message_code.simps)

text \<open>The seeder answers a request with the bytes it stores.\<close>

lemma serve_block:
  fixes env :: ts_env and ext :: "handle \<Rightarrow> byte list \<Rightarrow> unit session"
  assumes inv: "ts_inv sha1 ref S" and open_: "\<not> pc_am_choking (ts_conn S h)"
    and rd: "readable (ts_state S) (set (fm_dirty (ts_fm S))) (p, b) n" and small: "p < 2 ^ 32" "b < 2 ^ 32" "n < 2 ^ 32"
  defines "S' \<equiv> snd (message_turn env ext h (triple_body Request (p, b, n)) S)"
  shows "last (pc_wire (ts_conn S' h)) = message_code Piece # put_nat p @ put_nat b @ take n (drop (block_pos (ts_state S) (p, b)) (content (ts_fm S)))"
    "ts_inv sha1 ref S'" "content (ts_fm S') = content (ts_fm S)" "\<not> pc_am_choking (ts_conn S' h)" "piece_status (ts_state S') = piece_status (ts_state S)"
proof -
  have fm: "fm_inv (ts_fm S)"
    using inv by (simp add: ts_inv_def)
  obtain fm' where rb: "read_block p b n (ts_fm S) = (Inr (take n (drop (block_pos (ts_state S) (p, b)) (content (ts_fm S)))), fm')"
    and same: "same_bytes (ts_fm S) fm'"
    using read_block_content [OF fm rd] by (cases "read_block p b n (ts_fm S)") (auto simp: block_pos_def)
  have S': "S' = snd (on_block_request env h p b n S)" and run: "fst (on_block_request env h p b n S) = Inr ()"
    using rb open_ by (auto simp: S'_def message_turn_def handle_message_def decode_request [OF small] on_block_request_def Let_def split: prod.split)
  show "ts_inv sha1 ref S'"
    unfolding S' by (rule ts_inv_request [OF inv rd])
  have same_state: "fm_session fm' = ts_state S" "content fm' = content (ts_fm S)" "fm_inv fm'"
    using same by (simp_all add: same_bytes_def)
  have lay: "same_layout (ts_state S) (add_total_bytes_uploaded n (ts_state S))"
    by (simp add: same_layout_def add_total_bytes_uploaded_def)
  have fm_S': "ts_fm S' = fm'\<lparr> fm_session := add_total_bytes_uploaded n (ts_state S) \<rparr>"
    using rb open_ by (simp add: S' on_block_request_def Let_def on_state_def on_peers_def same_state(1))
  show "content (ts_fm S') = content (ts_fm S)" "piece_status (ts_state S') = piece_status (ts_state S)"
    using session_update_same(2) [OF same_state(3)] lay same_state(1,2) by (auto simp: fm_S' add_total_bytes_uploaded_def piece_status_def)
  show "last (pc_wire (ts_conn S' h)) = message_code Piece # put_nat p @ put_nat b @ take n (drop (block_pos (ts_state S) (p, b)) (content (ts_fm S)))"
    "\<not> pc_am_choking (ts_conn S' h)"
    using rb open_ by (simp_all add: S' on_block_request_def Let_def on_state_def on_peers_def send_piece_def send_message_def del: message_code.simps)
qed

text \<open>The downloader takes in a block as it comes off the wire.\<close>

lemma take_block:
  assumes "p < 2 ^ 32" "b * BLOCK_SIZE < 2 ^ 32"
  shows "\<exists>f. snd (message_turn env ext h (message_code Piece # put_nat p @ put_nat (b * BLOCK_SIZE) @ block_of data b) L) = deliver p data (env, h, b) (on_peers f L)"
proof -
  let ?L = "with_conn h (on_request_completed (to_u32 (length (block_of data b)))) L"
  obtain r L' where ob: "on_piece_block env h p (b * BLOCK_SIZE) (block_of data b) ?L = (r, L')"
    by fastforce
  have "r = Inl OutOfBounds \<or> r = Inr ()"
    using ob by (auto simp: on_piece_block_def Let_def split: if_splits option.splits)
  then show ?thesis
    using ob by (auto simp: message_turn_def handle_message_def decode_piece [OF assms] deliver_def simp del: message_code.simps intro!: exI [of _ "on_conn h (on_request_completed (to_u32 (length (block_of data b))))"])
qed

text \<open>The length of a block of a piece of \<open>n\<close> bytes, and one exchange: the request of the downloader, the answer of the seeder.\<close>

definition block_size_at :: "nat \<Rightarrow> nat \<Rightarrow> nat" where
  "block_size_at n b = min BLOCK_SIZE (n - b * BLOCK_SIZE)"

definition exchange :: "ts_env \<Rightarrow> ts_env \<Rightarrow> meta_env \<Rightarrow> handle \<Rightarrow> handle \<Rightarrow> nat \<Rightarrow> nat \<Rightarrow> nat \<Rightarrow> TorrentSession \<times> TorrentSession \<Rightarrow> TorrentSession \<times> TorrentSession" where
  "exchange envS envL me hS hL p n b s =
    (case s of (S, L) \<Rightarrow>
      let S = snd (message_turn envS (on_extended_message envS me) hS (triple_body Request (p, b * BLOCK_SIZE, block_size_at n b)) S);
          L = snd (message_turn envL (on_extended_message envL me) hL (last (pc_wire (ts_conn S hS))) L)
      in (S, L))"

lemma exchange_step:
  assumes invS: "ts_inv sha1 ssS S" and invL: "ts_inv sha1 ssL L" and env: "te_sha1 envL = sha1"
    and meta: "ss_meta ssL = ss_meta ssS" "ss_num_pieces ssL = ss_num_pieces ssS"
    and p: "p < ss_num_pieces ssS" "ss_num_pieces ssS < 2 ^ 32" and b: "b * BLOCK_SIZE < plen ssS p"
    and unchoked: "\<not> pc_am_choking (ts_conn S hS)" and have_: "piece_status (ts_state S) p = Have"
    and data: "data = take (plen ssS p) (drop (p * psize ssS) (content (ts_fm S)))" and arr: "arriving p data (insert b B) L"
    and ex: "exchange envS envL me hS hL p (plen ssS p) b (S, L) = (S', L')"
  shows "ts_inv sha1 ssS S'" "ts_inv sha1 ssL L'" "\<not> pc_am_choking (ts_conn S' hS)" "piece_status (ts_state S') p = Have"
    "content (ts_fm S') = content (ts_fm S)" "arriving p data B L'"
proof -
  let ?n = "block_size_at (plen ssS p) b"
  have layS: "same_layout ssS (ts_state S)"
    using invS by (simp add: ts_inv_def)
  have eqS: "plen (ts_state S) = plen ssS" "ss_num_pieces (ts_state S) = ss_num_pieces ssS" "psize (ts_state S) = psize ssS" "plen ssL = plen ssS"
      "expected_hash ssL = expected_hash ssS" "expected_hash (ts_state S) = expected_hash ssS"
    using same_expected [OF layS] layS meta by (auto simp: same_layout_def plen_def expected_hash_def fun_eq_iff)
  have inv: "fm_inv (ts_fm S)"
    using invS by (simp add: ts_inv_def)
  note wf = fm_ready_D [OF fm_inv_D(1) [OF inv]]
  have pl: "plen ssS p \<le> psize ssS" "p * psize ssS + plen ssS p \<le> tsize (ts_state S)" "psize ssS < 2 ^ 32"
    using plen_bounds(2,3) [OF wf(1), of p] wf_basic(2) [OF wf(1)] p(1) by (simp_all add: eqS)
  have lenc: "length (content (ts_fm S)) = tsize (ts_state S)"
    using wf(5) by (simp add: content_def)
  have len: "length data = plen ssS p"
    using pl(2) by (simp add: data lenc)
  have "valid_key (ts_state S) (p, b * BLOCK_SIZE)" "?n = block_len (ts_state S) (p, b * BLOCK_SIZE)"
    using p(1) b by (simp_all add: valid_key_def block_len_def block_size_at_def eqS)
  then have rd: "readable (ts_state S) (set (fm_dirty (ts_fm S))) (p, b * BLOCK_SIZE) ?n"
    by (simp add: readable_def)
  have small: "p < 2 ^ 32" "b * BLOCK_SIZE < 2 ^ 32" "?n < 2 ^ 32"
    using p b pl(1,3) by (simp_all add: block_size_at_def)
  note sv = serve_block [OF invS unchoked rd small, of envS "on_extended_message envS me"]
  have "take ?n (drop (block_pos (ts_state S) (p, b * BLOCK_SIZE)) (content (ts_fm S))) = block_of data b"
    by (simp add: data block_of_def block_pos_def block_size_at_def eqS drop_take min.commute take_take add.commute)
  then have wire: "last (pc_wire (ts_conn S' hS)) = message_code Piece # put_nat p @ put_nat (b * BLOCK_SIZE) @ block_of data b"
    and S': "S' = snd (message_turn envS (on_extended_message envS me) hS (triple_body Request (p, b * BLOCK_SIZE, ?n)) S)"
    using ex sv(1) by (auto simp: exchange_def Let_def)
  show "ts_inv sha1 ssS S'" "\<not> pc_am_choking (ts_conn S' hS)" "piece_status (ts_state S') p = Have" "content (ts_fm S') = content (ts_fm S)"
    using sv(2-5) have_ by (simp_all add: S')
  obtain f where L': "L' = deliver p data (envL, hL, b) (on_peers f L)"
    using take_block [OF small(1,2), of envL "on_extended_message envL me" hL data L] ex wire S' by (auto simp: exchange_def Let_def)
  have "piece_valid sha1 (ts_state S) (content (ts_fm S)) p"
    using invS have_ p(1) by (simp add: ts_inv_def eqS)
  then have "te_sha1 envL data = expected_hash ssL p"
    by (simp add: piece_valid_def data env eqS expected_hash_def [symmetric])
  then show "arriving p data B L'" "ts_inv sha1 ssL L'"
    using arriving_step [of envL ssL "on_peers f L" p data b B hL] invL p(1) arr len meta(2) by (simp_all add: L' env eqS)
qed

lemma exchange_all:
  assumes env: "te_sha1 envL = sha1" and meta: "ss_meta ssL = ss_meta ssS" "ss_num_pieces ssL = ss_num_pieces ssS"
    and p: "p < ss_num_pieces ssS" "ss_num_pieces ssS < 2 ^ 32" and bs: "\<forall>b \<in> set bs. b * BLOCK_SIZE < plen ssS p"
    and data: "data = take (plen ssS p) (drop (p * psize ssS) (content (ts_fm S)))"
    and "ts_inv sha1 ssS S" "ts_inv sha1 ssL L" "\<not> pc_am_choking (ts_conn S hS)" "piece_status (ts_state S) p = Have" "arriving p data (set bs) L"
    and "fold (exchange envS envL me hS hL p (plen ssS p)) bs (S, L) = (S', L')"
  shows "content (ts_fm S') = content (ts_fm S) \<and> piece_done p data L' \<and> ts_inv sha1 ssL L'"
  using bs data assms(8-)
proof (induction bs arbitrary: S L)
  case Nil
  then show ?case
    by (simp add: arriving_done)
next
  case (Cons b bs)
  obtain S1 L1 where ex: "exchange envS envL me hS hL p (plen ssS p) b (S, L) = (S1, L1)"
    by fastforce
  note st = exchange_step [OF Cons.prems(3,4) env meta p _ Cons.prems(5,6,2) _ ex, of "set bs"]
  have "content (ts_fm S1) = content (ts_fm S)"
    using st(5) Cons.prems by simp
  then show ?case
    using Cons.IH [of S1 L1] Cons.prems st ex by simp
qed

text \<open>C3: a piece travels.  Two sessions have the same torrent, each over its own disk.  One has a piece and does not choke the
  other; the other has the piece in progress, with the blocks it received so far in place.  Send the requests
  for the missing blocks, in any order and with repetitions, over the wire to the first, and its answers over
  the wire back: the piece is present at the other, its storage holds the bytes the first one stores, and
  the storage of the first is unchanged.\<close>

theorem piece_travels:
  assumes "ts_inv sha1 ssS S" "ts_inv sha1 ssL L" "te_sha1 envL = sha1" "ss_meta ssL = ss_meta ssS" "ss_num_pieces ssL = ss_num_pieces ssS"
    and "p < ss_num_pieces ssS" "ss_num_pieces ssS < 2 ^ 32" "piece_status (ts_state S) p = Have" "\<not> pc_am_choking (ts_conn S hS)"
    and "in_progress_piece (ts_pm L) p = Some ip" "piece_status (ts_state L) p \<noteq> Have"
    and "holds_blocks (take (plen ssS p) (drop (p * psize ssS) (content (ts_fm S)))) ip"
    and "\<exists>b < ip_total_blocks ip. \<not> ip_received ip ! b" "\<forall>b < ip_total_blocks ip. \<not> ip_received ip ! b \<longrightarrow> b \<in> set bs"
    and "\<forall>b \<in> set bs. b * BLOCK_SIZE < plen ssS p"
    and "fold (exchange envS envL me hS hL p (plen ssS p)) bs (S, L) = (S', L')"
  shows "piece_status (ts_state L') p = Have \<and> content (ts_fm S') = content (ts_fm S) \<and>
    take (plen ssS p) (drop (p * psize ssS) (content (ts_fm L'))) = take (plen ssS p) (drop (p * psize ssS) (content (ts_fm S)))"
proof -
  let ?data = "take (plen ssS p) (drop (p * psize ssS) (content (ts_fm S)))"
  have "arriving p ?data (set bs) L"
    using assms(14) by (intro in_progress_arriving [OF assms(10-13)]) blast
  from exchange_all [OF assms(3-7,15) refl assms(1,2,9,8) this assms(16)]
  have res: "content (ts_fm S') = content (ts_fm S)" "piece_done p ?data L'" and inv: "ts_inv sha1 ssL L'"
    by simp_all
  then have "same_layout ssL (ts_state L')"
    by (simp add: ts_inv_def)
  then have "plen (ts_state L') p = plen ssS p" "psize (ts_state L') = psize ssS"
    using assms(4) by (simp_all add: same_layout_def plen_def)
  then show ?thesis
    using res by (simp add: piece_done_def)
qed

theorem piece_travels_witness:
  "\<exists>S L S' L'. piece_status (ts_state L) 0 = Needed \<and> fold (exchange demo_ts_env demo_ts_env demo_meta_env 3 5 0 4) [0] (S, L) = (S', L') \<and>
    piece_status (ts_state L') 0 = Have \<and> take 4 (content (ts_fm L')) = [1, 2, 3, 4]"
proof -
  obtain S0 where S0: "ts_started demo_sha1 demo_session S0" "ss_piece_status (ts_state S0) = [Have, Have]" "content (ts_fm S0) = [1, 2, 3, 4, 5, 6, 7, 8]"
    by (rule demo_seeder)
  obtain L where L: "ts_inv demo_sha1 demo_session L" "in_progress_piece (ts_pm L) 0 = Some (new_in_progress 4)" "piece_status (ts_state L) 0 = Needed"
    by (rule demo_downloader)
  define S where "S = with_conn 3 (\<lambda>pc. pc\<lparr> pc_am_choking := False \<rparr>) S0"
  have S: "ts_inv demo_sha1 demo_session S" "piece_status (ts_state S) 0 = Have" "content (ts_fm S) = [1, 2, 3, 4, 5, 6, 7, 8]" "\<not> pc_am_choking (ts_conn S 3)"
    using S0 ts_system.init_inv [OF S0(1)] by (simp_all add: S_def piece_status_def)
  have ip: "ip_total_blocks (new_in_progress 4) = 1" "ip_received (new_in_progress 4) = [False]" "plen demo_session 0 = 4" "te_sha1 demo_ts_env = demo_sha1"
    by (simp_all add: new_in_progress_def Let_def plen_def demo_ts_env_def BLOCK_SIZE_def to_u32_def)
  obtain S' L' where ex: "fold (exchange demo_ts_env demo_ts_env demo_meta_env 3 5 0 4) [0] (S, L) = (S', L')"
    by fastforce
  then have "piece_status (ts_state L') 0 = Have \<and> take 4 (content (ts_fm L')) = [1, 2, 3, 4]"
    using piece_travels [OF S(1) L(1) ip(4) refl refl _ _ S(2,4) L(2), of "[0]" demo_ts_env demo_meta_env 5 S' L'] S(3) L(3)
    by (simp add: ip holds_blocks_def)
  then show ?thesis
    using ex L(3) by blast
qed

end
